(* ===== verification/Prelude.thy ===== *)
theory Prelude
  imports Main "HOL-Library.Word"
begin

text \<open>
  Vocabulary shared by every component: how a C call can end (a value, an \<open>exit\<close>, or an
  access the C standard leaves undefined), byte buffers with checked reads and writes, 32-bit
  fields in network byte order, the constants of \<open>include/comm.h\<close>, and generic lemmas on lists.
\<close>

unbundle bit_operations_syntax

section \<open>Outcomes of a C call\<close>

text \<open>
  A call of the program returns a value (\<open>Inr\<close>), ends the process with \<open>exit\<close>
  (\<open>Exits\<close>) or a failed \<open>assert\<close> (\<open>Aborts\<close>), performs an access that has no defined behaviour (\<open>Undefined\<close> with
  the kind of access), or stays in a loop whose state no longer changes (\<open>Diverges\<close>).  The
  model stops at the first undefined access.
\<close>

datatype fault =
    NullDeref        \<comment> \<open>a null pointer is followed\<close>
  | OutOfBounds      \<comment> \<open>an access outside the object the pointer points into\<close>
  | UseAfterFree     \<comment> \<open>an access to an object that has been freed\<close>
  | Indeterminate    \<comment> \<open>memory that was never written is read as a pointer\<close>
  | Overlap          \<comment> \<open>a \<open>memcpy\<close> between partly overlapping ranges\<close>
  | SignedOverflow   \<comment> \<open>an \<open>int\<close> computation leaves the range of \<open>int\<close>\<close>
  | DivByZero        \<comment> \<open>an integer division by zero\<close>

datatype halt = Exits int | Aborts | Undefined fault | Diverges

type_synonym 'a outcome = "halt + 'a"

definition cbind :: "'e + 'a \<Rightarrow> ('a \<Rightarrow> 'e + 'b) \<Rightarrow> 'e + 'b" where
  "cbind m f = (case m of Inl e \<Rightarrow> Inl e | Inr x \<Rightarrow> f x)"

named_theorems outcome_iff \<open>when a composed call returns a value\<close>

lemma cbind_simps [simp]:
  "cbind (Inl e) f = Inl e"
  "cbind (Inr x) f = f x"
  by (simp_all add: cbind_def)

lemma cbind_assoc: "cbind (cbind m f) g = cbind m (\<lambda>x. cbind (f x) g)"
  by (cases m) simp_all

lemma cbind_Inr_iff [outcome_iff]:
  "cbind m f = Inr y \<longleftrightarrow> (\<exists>x. m = Inr x \<and> f x = Inr y)"
  by (cases m) auto

lemma cbind_cong [fundef_cong]:
  "m = m' \<Longrightarrow> (\<And>x. m' = Inr x \<Longrightarrow> f x = f' x) \<Longrightarrow> cbind m f = cbind m' f'"
  by (cases m') auto

lemma cbind_InrE:
  assumes "cbind m f = Inr y"
  obtains x where "m = Inr x" and "f x = Inr y"
  using assms by (auto simp: cbind_Inr_iff)

abbreviation undef :: "fault \<Rightarrow> 'a outcome" where
  "undef k \<equiv> Inl (Undefined k)"

section \<open>Machine integers\<close>

type_synonym byte = "8 word"
type_synonym u32 = "32 word"
type_synonym u64 = "64 word"

lemma and_not_disjoint:
  fixes a :: u32
  assumes "a AND m = 0"
  shows "a AND NOT m = a"
proof (rule bit_word_eqI)
  fix n assume n: "n < LENGTH(32)"
  have "bit (a AND m) n \<longleftrightarrow> bit (0 :: u32) n" using assms by (simp only:)
  then show "bit (a AND NOT m) n = bit a n" using n by (auto simp: bit_simps)
qed

definition INT_MAX :: int where
  "INT_MAX = 2147483647"

text \<open>The value of an \<open>int\<close> expression, where the mathematical result has to fit.\<close>

definition c_int :: "int \<Rightarrow> int outcome" where
  "c_int x = (if - INT_MAX - 1 \<le> x \<and> x \<le> INT_MAX then Inr x else undef SignedOverflow)"

lemma c_int_Inr [simp]: "- INT_MAX - 1 \<le> x \<Longrightarrow> x \<le> INT_MAX \<Longrightarrow> c_int x = Inr x"
  by (simp add: c_int_def)

lemma c_int_Inr_iff [outcome_iff]:
  "c_int x = Inr y \<longleftrightarrow> y = x \<and> - INT_MAX - 1 \<le> x \<and> x \<le> INT_MAX"
  by (auto simp: c_int_def)

section \<open>Invariants of step relations\<close>

text \<open>
  The loops of the program as step relations: an invariant that every step keeps holds in every state
  that can be reached.
\<close>

locale invariant_system =
  fixes step :: "'s \<Rightarrow> 's \<Rightarrow> bool" and inv :: "'s \<Rightarrow> bool"
  assumes step_inv: "inv s \<Longrightarrow> step s s' \<Longrightarrow> inv s'"
begin

lemma reachable_inv: "step\<^sup>*\<^sup>* s0 s \<Longrightarrow> inv s0 \<Longrightarrow> inv s"
  by (induction rule: rtranclp_induct) (auto intro: step_inv)

end

section \<open>Constants of comm.h\<close>

definition RET_FAIL :: int where "RET_FAIL = -1"
definition RET_SUCC :: int where "RET_SUCC = 0"

lemma ret_codes [simp]: "RET_FAIL \<noteq> RET_SUCC" "RET_SUCC \<noteq> RET_FAIL"
  by (simp_all add: RET_FAIL_def RET_SUCC_def)

definition EVENT_NONE :: u32 where "EVENT_NONE = 0"
definition EVENT_WRITABLE :: u32 where "EVENT_WRITABLE = 1"
definition EVENT_READABLE :: u32 where "EVENT_READABLE = 2"

definition MAX_TCP_BUF_SIZE :: int where "MAX_TCP_BUF_SIZE = 4096"
definition MAX_CONN_TIMEOUT :: int where "MAX_CONN_TIMEOUT = 60000"
definition MINHEAP_INIT_SIZE :: nat where "MINHEAP_INIT_SIZE = 16"
definition EPOLL_EVENT_BASE_STOP :: int where "EPOLL_EVENT_BASE_STOP = 0"
definition EPOLL_ET_TYPE :: int where "EPOLL_ET_TYPE = 1"
definition EPOLL_LT_TYPE :: int where "EPOLL_LT_TYPE = 2"

section \<open>Byte buffers\<close>

text \<open>
  An allocated buffer is the list of its bytes; its length is the size that was allocated.
  Offsets are \<open>int\<close> because the program computes them in \<open>int\<close>.
\<close>

type_synonym buf = "byte list"

definition peek :: "buf \<Rightarrow> int \<Rightarrow> byte outcome" where
  "peek b i = (if 0 \<le> i \<and> i < int (length b) then Inr (b ! nat i) else undef OutOfBounds)"

definition poke :: "buf \<Rightarrow> int \<Rightarrow> byte \<Rightarrow> buf outcome" where
  "poke b i x = (if 0 \<le> i \<and> i < int (length b) then Inr (b[nat i := x]) else undef OutOfBounds)"

text \<open>The bytes of a \<open>memcpy\<close> source, and the effect of a \<open>memcpy\<close> on its destination.\<close>

definition mem_slice :: "buf \<Rightarrow> int \<Rightarrow> int \<Rightarrow> buf outcome" where
  "mem_slice b off n = (if 0 \<le> off \<and> 0 \<le> n \<and> off + n \<le> int (length b)
     then Inr (take (nat n) (drop (nat off) b)) else undef OutOfBounds)"

definition mem_copy :: "buf \<Rightarrow> int \<Rightarrow> buf \<Rightarrow> buf outcome" where
  "mem_copy b off xs = (if 0 \<le> off \<and> off + int (length xs) \<le> int (length b)
     then Inr (take (nat off) b @ xs @ drop (nat off + length xs) b) else undef OutOfBounds)"

lemma peek_Inr [simp]: "0 \<le> i \<Longrightarrow> i < int (length b) \<Longrightarrow> peek b i = Inr (b ! nat i)"
  by (simp add: peek_def)

lemma poke_Inr [simp]: "0 \<le> i \<Longrightarrow> i < int (length b) \<Longrightarrow> poke b i x = Inr (b[nat i := x])"
  by (simp add: poke_def)

lemma peek_Inr_iff [outcome_iff]:
  "peek b i = Inr x \<longleftrightarrow> 0 \<le> i \<and> i < int (length b) \<and> x = b ! nat i"
  by (auto simp: peek_def)

lemma poke_Inr_iff [outcome_iff]:
  "poke b i x = Inr b' \<longleftrightarrow> 0 \<le> i \<and> i < int (length b) \<and> b' = b[nat i := x]"
  by (auto simp: poke_def)

lemma mem_slice_Inr_iff [outcome_iff]:
  "mem_slice b off n = Inr xs \<longleftrightarrow>
     0 \<le> off \<and> 0 \<le> n \<and> off + n \<le> int (length b) \<and> xs = take (nat n) (drop (nat off) b)"
  by (auto simp: mem_slice_def)

lemma mem_copy_Inr_iff [outcome_iff]:
  "mem_copy b off xs = Inr b' \<longleftrightarrow> 0 \<le> off \<and> off + int (length xs) \<le> int (length b) \<and>
     b' = take (nat off) b @ xs @ drop (nat off + length xs) b"
  by (auto simp: mem_copy_def)

lemma mem_slice_length: "mem_slice b off n = Inr xs \<Longrightarrow> int (length xs) = n"
  by (auto simp: mem_slice_Inr_iff)

lemma mem_copy_length: "mem_copy b off xs = Inr b' \<Longrightarrow> length b' = length b"
  by (auto simp: mem_copy_Inr_iff)

lemma mem_slice_copy_same:
  assumes "mem_copy b off xs = Inr b'"
  shows "mem_slice b' off (int (length xs)) = Inr xs"
  using assms by (auto simp: mem_copy_Inr_iff mem_slice_Inr_iff)

lemma nth_mem_copy:
  assumes "mem_copy b off xs = Inr b'" and "i < length b"
  shows "b' ! i = (if nat off \<le> i \<and> i < nat off + length xs then xs ! (i - nat off) else b ! i)"
proof -
  from assms have off: "0 \<le> off" "nat off + length xs \<le> length b"
    and b': "b' = take (nat off) b @ xs @ drop (nat off + length xs) b"
    by (auto simp: mem_copy_Inr_iff)
  show ?thesis
    using off assms(2) unfolding b' by (auto simp: nth_append)
qed

text \<open>A field outside the written range keeps its bytes.\<close>

lemma mem_slice_copy_other:
  assumes b: "mem_copy b off xs = Inr b'" and "0 \<le> o2" "0 \<le> n" "o2 + n \<le> int (length b)"
    and disj: "o2 + n \<le> off \<or> off + int (length xs) \<le> o2"
  shows "mem_slice b' o2 n = mem_slice b o2 n"
proof -
  have len: "length b' = length b" by (rule mem_copy_length [OF b])
  have "take (nat n) (drop (nat o2) b') = take (nat n) (drop (nat o2) b)"
  proof (rule nth_equalityI)
    fix i assume "i < length (take (nat n) (drop (nat o2) b'))"
    then have "nat o2 + i < length b" "i < nat n" using len by auto
    with nth_mem_copy [OF b, of "nat o2 + i"] disj assms(2,3) b len
    show "take (nat n) (drop (nat o2) b') ! i = take (nat n) (drop (nat o2) b) ! i"
      by (auto simp: mem_copy_Inr_iff)
  qed (simp add: len)
  with len assms(2-4) show ?thesis by (simp add: mem_slice_def)
qed

section \<open>Network byte order\<close>

text \<open>
  \<open>htonl\<close> followed by a four-byte \<open>memcpy\<close> writes the most significant byte first, on
  any host; \<open>ntohl\<close> after a four-byte \<open>memcpy\<close> reads it back.
\<close>

definition htonl_bytes :: "u32 \<Rightarrow> buf" where
  "htonl_bytes v = [ucast (drop_bit 24 v), ucast (drop_bit 16 v), ucast (drop_bit 8 v), ucast v]"

fun ntohl_bytes :: "buf \<Rightarrow> u32" where
  "ntohl_bytes [a, b, c, d] =
     push_bit 24 (ucast a) OR push_bit 16 (ucast b) OR push_bit 8 (ucast c) OR ucast d"
| "ntohl_bytes _ = 0"

lemma length_htonl_bytes [simp]: "length (htonl_bytes v) = 4"
  by (simp add: htonl_bytes_def)

lemma ntohl_htonl [simp]: "ntohl_bytes (htonl_bytes v) = v"
proof (rule bit_word_eqI)
  fix n assume "n < LENGTH(32)"
  then have n: "n < 32" by simp
  consider "24 \<le> n" | "16 \<le> n" "n < 24" | "8 \<le> n" "n < 16" | "n < 8" by linarith
  then show "bit (ntohl_bytes (htonl_bytes v)) n = bit v n"
    using n by cases (auto simp: htonl_bytes_def bit_simps)
qed

lemma length_4E:
  assumes "length xs = 4"
  obtains a b c d where "xs = [a, b, c, d]"
  using assms by (auto simp: numeral_eq_Suc length_Suc_conv)

lemma htonl_ntohl:
  assumes "length bs = 4"
  shows "htonl_bytes (ntohl_bytes bs) = bs"
proof -
  obtain a b c d where bs: "bs = [a, b, c, d]"
    using assms by (rule length_4E)
  have "ucast (drop_bit 24 (ntohl_bytes bs)) = a"
    by (rule bit_word_eqI) (auto simp: bs bit_simps dest: bit_imp_le_length)
  moreover have "ucast (drop_bit 16 (ntohl_bytes bs)) = b"
    by (rule bit_word_eqI) (auto simp: bs bit_simps dest: bit_imp_le_length)
  moreover have "ucast (drop_bit 8 (ntohl_bytes bs)) = c"
    by (rule bit_word_eqI) (auto simp: bs bit_simps dest: bit_imp_le_length)
  moreover have "ucast (ntohl_bytes bs) = d"
    by (rule bit_word_eqI) (auto simp: bs bit_simps dest: bit_imp_le_length)
  ultimately show ?thesis
    by (simp add: htonl_bytes_def bs)
qed

end
