(* ===== verification/Timeval.thy ===== *)
theory Timeval
  imports Prelude
begin

text \<open>
  The time values of the timers: the \<open>struct timeval\<close> of \<open>sys/time.h\<close> and the three
  macros of \<open>include/min_heap.h\<close> that compare, add and subtract them.  The comparison makes the
  type a linear order (instance \<open>linorder\<close>), so that the heap proofs can use the order
  library; on normalised values the order and the two operations agree with microsecond counts.
\<close>

datatype timeval = Timeval (tv_sec: int) (tv_usec: int)

definition minheap_timercmp :: "timeval \<Rightarrow> timeval \<Rightarrow> (int \<Rightarrow> int \<Rightarrow> bool) \<Rightarrow> bool" where
  "minheap_timercmp a b cmp =
     (if tv_sec a = tv_sec b then cmp (tv_usec a) (tv_usec b) else cmp (tv_sec a) (tv_sec b))"

definition minheap_timeradd :: "timeval \<Rightarrow> timeval \<Rightarrow> timeval" where
  "minheap_timeradd a b =
     (let s = tv_sec a + tv_sec b; u = tv_usec a + tv_usec b
      in if 1000000 \<le> u then Timeval (s + 1) (u - 1000000) else Timeval s u)"

definition minheap_timersub :: "timeval \<Rightarrow> timeval \<Rightarrow> timeval" where
  "minheap_timersub a b =
     (let s = tv_sec a - tv_sec b; u = tv_usec a - tv_usec b
      in if u < 0 then Timeval (s - 1) (u + 1000000) else Timeval s u)"

section \<open>The order of the comparison macro\<close>

instantiation timeval :: linorder
begin

definition less_eq_timeval :: "timeval \<Rightarrow> timeval \<Rightarrow> bool" where
  "less_eq_timeval a b = minheap_timercmp a b (\<le>)"

definition less_timeval :: "timeval \<Rightarrow> timeval \<Rightarrow> bool" where
  "less_timeval a b = minheap_timercmp a b (<)"

instance
proof
  fix a b c :: timeval
  show "(a < b) = (a \<le> b \<and> \<not> b \<le> a)"
    by (auto simp: less_timeval_def less_eq_timeval_def minheap_timercmp_def)
  show "a \<le> a"
    by (simp add: less_eq_timeval_def minheap_timercmp_def)
  show "a \<le> b \<or> b \<le> a"
    by (auto simp: less_eq_timeval_def minheap_timercmp_def)
  show "a \<le> c" if "a \<le> b" "b \<le> c"
    using that by (auto simp: less_eq_timeval_def minheap_timercmp_def split: if_splits)
  show "a = b" if "a \<le> b" "b \<le> a"
    using that by (auto simp: less_eq_timeval_def minheap_timercmp_def timeval.expand split: if_splits)
qed

end

text \<open>The three uses the program makes of the macro: \<open><=\<close>, \<open><\<close> and \<open>></\<close>.\<close>

lemma timercmp_le [simp]: "minheap_timercmp a b (\<le>) \<longleftrightarrow> a \<le> b"
  by (simp add: less_eq_timeval_def)

lemma timercmp_lt [simp]: "minheap_timercmp a b (<) \<longleftrightarrow> a < b"
  by (simp add: less_timeval_def)

lemma timercmp_gt [simp]: "minheap_timercmp a b (>) \<longleftrightarrow> b < a"
  by (auto simp: less_timeval_def minheap_timercmp_def)

section \<open>Normalised values\<close>

definition tv_normal :: "timeval \<Rightarrow> bool" where
  "tv_normal t \<longleftrightarrow> 0 \<le> tv_usec t \<and> tv_usec t < 1000000"

definition to_usec :: "timeval \<Rightarrow> int" where
  "to_usec t = tv_sec t * 1000000 + tv_usec t"

lemma timeradd_to_usec: "to_usec (minheap_timeradd a b) = to_usec a + to_usec b"
  by (simp add: to_usec_def minheap_timeradd_def Let_def)

lemma timersub_to_usec: "to_usec (minheap_timersub a b) = to_usec a - to_usec b"
  by (simp add: to_usec_def minheap_timersub_def Let_def)

lemma timeradd_normal: "tv_normal a \<Longrightarrow> tv_normal b \<Longrightarrow> tv_normal (minheap_timeradd a b)"
  by (auto simp: tv_normal_def minheap_timeradd_def Let_def)

lemma timersub_normal: "tv_normal a \<Longrightarrow> tv_normal b \<Longrightarrow> tv_normal (minheap_timersub a b)"
  by (auto simp: tv_normal_def minheap_timersub_def Let_def)

lemma timeval_le_iff_usec:
  "tv_normal a \<Longrightarrow> tv_normal b \<Longrightarrow> a \<le> b \<longleftrightarrow> to_usec a \<le> to_usec b"
  by (auto simp: less_eq_timeval_def minheap_timercmp_def to_usec_def tv_normal_def)

lemma to_usec_inj: "tv_normal a \<Longrightarrow> tv_normal b \<Longrightarrow> to_usec a = to_usec b \<Longrightarrow> a = b"
  by (simp add: timeval_le_iff_usec order_eq_iff)

lemma timersub_timeradd:
  "tv_normal a \<Longrightarrow> tv_normal b \<Longrightarrow> minheap_timersub (minheap_timeradd a b) b = a"
  by (rule to_usec_inj) (simp_all add: timersub_normal timeradd_normal timeradd_to_usec timersub_to_usec)

end
