(* ===== verification/HeapArray.thy ===== *)
theory HeapArray
  imports Main "HOL-Library.Multiset"
begin

text \<open>
  Binary heaps in an array, as \<open>src/min_heap.c\<close> keeps them, on plain lists: the reference
  for the two sift loops.  A loop works with a \<open>hole\<close>, an index whose cell is about to be
  overwritten, and the element \<open>x\<close> that will finally be stored.  The invariants
  \<open>up_ok\<close> and \<open>down_ok\<close> say what holds of the array around the hole; both end in
  \<open>heap_ordered\<close>.  Nothing here mentions memory: theory \<open>MinHeap\<close> shows that
  the C loops compute these functions.
\<close>

definition parent :: "nat \<Rightarrow> nat" where
  "parent i = (i - 1) div 2"

named_theorems hole_arith \<open>positions of parents and children\<close>

lemma parent_less [hole_arith]: "i \<noteq> 0 \<Longrightarrow> parent i < i"
  by (simp add: parent_def)

lemma parent_le: "parent i \<le> i"
  by (simp add: parent_def)

lemma parent_eq_iff [hole_arith]: "i \<noteq> 0 \<Longrightarrow> parent i = h \<longleftrightarrow> i = 2 * h + 1 \<or> i = 2 * h + 2"
  by (auto simp: parent_def)

definition heap_ordered :: "('p \<Rightarrow> 'k::linorder) \<Rightarrow> 'p list \<Rightarrow> bool" where
  "heap_ordered key ps \<longleftrightarrow>
     (\<forall>i < length ps. i \<noteq> 0 \<longrightarrow> key (ps ! parent i) \<le> key (ps ! i))"

lemma heap_orderedD:
  "heap_ordered key ps \<Longrightarrow> i < length ps \<Longrightarrow> i \<noteq> 0 \<Longrightarrow> key (ps ! parent i) \<le> key (ps ! i)"
  by (simp add: heap_ordered_def)

lemma heap_ordered_Nil [simp]: "heap_ordered key []"
  by (simp add: heap_ordered_def)

lemma heap_ordered_take: "heap_ordered key ps \<Longrightarrow> heap_ordered key (take n ps)"
  by (auto simp: heap_ordered_def le_less_trans [OF parent_le])

lemma heap_ordered_cong:
  assumes "heap_ordered key ps" and "\<And>p. p \<in> set ps \<Longrightarrow> key' p = key p"
  shows "heap_ordered key' ps"
  using assms by (auto simp: heap_ordered_def le_less_trans [OF parent_le])

text \<open>The root is a minimum.\<close>

lemma heap_ordered_root:
  assumes "heap_ordered key ps" and "i < length ps"
  shows "key (ps ! 0) \<le> key (ps ! i)"
  using assms(2)
proof (induction i rule: less_induct)
  case (less i)
  show ?case
  proof (cases "i = 0")
    case False
    then have "parent i < i" by (rule parent_less)
    with less have "key (ps ! 0) \<le> key (ps ! parent i)" by simp
    also have "\<dots> \<le> key (ps ! i)"
      using heap_orderedD [OF assms(1) less.prems False] .
    finally show ?thesis .
  qed simp
qed

section \<open>Sifting up\<close>

function sift_up :: "('p \<Rightarrow> 'k::linorder) \<Rightarrow> 'p list \<Rightarrow> nat \<Rightarrow> 'p \<Rightarrow> 'p list" where
  "sift_up key ps h x =
     (if h \<noteq> 0 \<and> key x < key (ps ! parent h)
      then sift_up key (ps[h := ps ! parent h]) (parent h) x
      else ps[h := x])"
  by pat_completeness auto
termination
  by (relation "measure (\<lambda>(key, ps, h, x). h)") (auto simp: parent_less)

declare sift_up.simps [simp del]

definition up_ok :: "('p \<Rightarrow> 'k::linorder) \<Rightarrow> 'p list \<Rightarrow> nat \<Rightarrow> 'p \<Rightarrow> bool" where
  "up_ok key ps h x \<longleftrightarrow> h < length ps \<and>
     (\<forall>i < length ps. i \<noteq> 0 \<longrightarrow> i \<noteq> h \<longrightarrow> parent i \<noteq> h \<longrightarrow> key (ps ! parent i) \<le> key (ps ! i)) \<and>
     (\<forall>i < length ps. i \<noteq> 0 \<longrightarrow> parent i = h \<longrightarrow>
        key x \<le> key (ps ! i) \<and> (h \<noteq> 0 \<longrightarrow> key (ps ! parent h) \<le> key (ps ! i)))"

lemma up_ok_bound: "up_ok key ps h x \<Longrightarrow> h < length ps"
  by (simp add: up_ok_def)

lemma up_ok_edge:
  "up_ok key ps h x \<Longrightarrow> i < length ps \<Longrightarrow> i \<noteq> 0 \<Longrightarrow> i \<noteq> h \<Longrightarrow> parent i \<noteq> h \<Longrightarrow>
     key (ps ! parent i) \<le> key (ps ! i)"
  by (simp add: up_ok_def)

lemma up_ok_child:
  "up_ok key ps h x \<Longrightarrow> i < length ps \<Longrightarrow> i \<noteq> 0 \<Longrightarrow> parent i = h \<Longrightarrow> key x \<le> key (ps ! i)"
  "up_ok key ps h x \<Longrightarrow> i < length ps \<Longrightarrow> i \<noteq> 0 \<Longrightarrow> parent i = h \<Longrightarrow> h \<noteq> 0 \<Longrightarrow>
     key (ps ! parent h) \<le> key (ps ! i)"
  by (simp_all add: up_ok_def)

lemma up_ok_step:
  assumes ok: "up_ok key ps h x" and h: "h \<noteq> 0" and lt: "key x < key (ps ! parent h)"
  shows "up_ok key (ps[h := ps ! parent h]) (parent h) x"
proof -
  let ?p = "parent h" and ?qs = "ps[h := ps ! parent h]"
  have hb: "h < length ps" using ok by (rule up_ok_bound)
  have ph: "?p < h" using h by (rule parent_less)
  have pp: "?p \<noteq> 0 \<Longrightarrow> key (ps ! parent ?p) \<le> key (ps ! ?p)"
    using up_ok_edge [OF ok, of ?p] ph hb parent_less [of ?p] by auto
  have edge: "key (?qs ! parent i) \<le> key (?qs ! i)"
    if i: "i < length ps" "i \<noteq> 0" "i \<noteq> ?p" "parent i \<noteq> ?p" for i
  proof (cases "parent i = h")
    case True
    then show ?thesis
      using up_ok_child(2) [OF ok] i h hb parent_less [OF i(2)] by (auto simp: nth_list_update)
  next
    case False
    moreover have "i \<noteq> h" using i(4) by auto
    ultimately show ?thesis
      using up_ok_edge [OF ok i(1,2)] by simp
  qed
  have child: "key x \<le> key (?qs ! i) \<and> (?p \<noteq> 0 \<longrightarrow> key (?qs ! parent ?p) \<le> key (?qs ! i))"
    if i: "i < length ps" "i \<noteq> 0" "parent i = ?p" for i
  proof -
    have grand: "?qs ! parent ?p = ps ! parent ?p"
      using ph parent_le [of ?p] by (simp add: nth_list_update)
    show ?thesis
    proof (cases "i = h")
      case True
      then show ?thesis using lt pp hb grand by auto
    next
      case False
      then have "key (ps ! ?p) \<le> key (ps ! i)"
        using up_ok_edge [OF ok i(1,2)] i(3) ph by auto
      then show ?thesis using False lt pp grand by force
    qed
  qed
  show ?thesis
    unfolding up_ok_def using edge child hb ph by simp
qed

lemma up_ok_final:
  assumes ok: "up_ok key ps h x" and stop: "\<not> (h \<noteq> 0 \<and> key x < key (ps ! parent h))"
  shows "heap_ordered key (ps[h := x])"
proof -
  have "key (ps[h := x] ! parent i) \<le> key (ps[h := x] ! i)" if i: "i < length ps" "i \<noteq> 0" for i
  proof -
    have "parent i < i" using i(2) by (rule parent_less)
    then show ?thesis
      using i stop up_ok_edge [OF ok i] up_ok_child(1) [OF ok i] up_ok_bound [OF ok]
      by (auto simp: nth_list_update not_less)
  qed
  then show ?thesis by (simp add: heap_ordered_def)
qed

lemma sift_up_heap: "up_ok key ps h x \<Longrightarrow> heap_ordered key (sift_up key ps h x)"
proof (induction key ps h x rule: sift_up.induct)
  case (1 key ps h x)
  then show ?case
    by (cases "h \<noteq> 0 \<and> key x < key (ps ! parent h)")
       (auto simp: sift_up.simps [of key ps h x] up_ok_step up_ok_final simp del: not_gr_zero)
qed

lemma length_sift_up [simp]: "length (sift_up key ps h x) = length ps"
proof (induction key ps h x rule: sift_up.induct)
  case (1 key ps h x)
  then show ?case by (simp add: sift_up.simps [of key ps h x])
qed

text \<open>Moving a cell into the hole and the hole to that cell does not change the multiset.\<close>

lemma mset_move_hole:
  assumes "h < length ps" "p < length ps" "h \<noteq> p"
  shows "mset (ps[h := ps ! p, p := x]) = mset (ps[h := x])"
proof -
  have "ps[h := ps ! p, p := x] = (ps[h := x])[h := (ps[h := x]) ! p, p := (ps[h := x]) ! h]"
    using assms by simp
  moreover have "mset \<dots> = mset (ps[h := x])"
    using assms by (intro mset_swap) auto
  ultimately show ?thesis by (simp only:)
qed

lemma mset_sift_up: "h < length ps \<Longrightarrow> mset (sift_up key ps h x) = mset (ps[h := x])"
proof (induction key ps h x rule: sift_up.induct)
  case (1 key ps h x)
  show ?case
  proof (cases "h \<noteq> 0 \<and> key x < key (ps ! parent h)")
    case True
    then have p: "parent h < h" by (simp add: parent_less)
    with 1 True show ?thesis
      by (simp add: sift_up.simps [of key ps h x] mset_move_hole)
  next
    case False
    then show ?thesis by (subst sift_up.simps) (simp only: if_False)
  qed
qed

text \<open>Cells behind the hole are not touched.\<close>

lemma sift_up_beyond: "h < i \<Longrightarrow> sift_up key ps h x ! i = ps ! i"
proof (induction key ps h x rule: sift_up.induct)
  case (1 key ps h x)
  then show ?case
    using parent_le [of h] by (subst sift_up.simps) auto
qed

section \<open>Sifting down\<close>

text \<open>
  The loop of the program picks the smaller child of the hole with one index computation:
  it starts from the right child and steps back to the left one when there is no right child
  or the right child is greater.
\<close>

definition min_child :: "('p \<Rightarrow> 'k::linorder) \<Rightarrow> 'p list \<Rightarrow> nat \<Rightarrow> nat" where
  "min_child key ps h =
     (let c = 2 * (h + 1)
      in if c = length ps then c - 1
         else if key (ps ! (c - 1)) < key (ps ! c) then c - 1 else c)"

lemma min_child_eq:
  "min_child key ps h =
     (if 2 * h + 2 = length ps \<or> key (ps ! (2 * h + 1)) < key (ps ! (2 * h + 2))
      then 2 * h + 1 else 2 * h + 2)"
proof -
  have "2 * (h + 1) - 1 = 2 * h + 1" "2 * (h + 1) = 2 * h + 2" by simp_all
  then show ?thesis unfolding min_child_def Let_def by (simp only: if_split) auto
qed

lemma min_child_cases: "min_child key ps h = 2 * h + 1 \<or> min_child key ps h = 2 * h + 2"
  by (simp add: min_child_eq)

lemma min_child_greater: "h < min_child key ps h"
  using min_child_cases [of key ps h] by auto

lemma min_child_bound: "2 * (h + 1) \<le> length ps \<Longrightarrow> min_child key ps h < length ps"
  by (auto simp: min_child_eq)

lemma parent_min_child [simp]: "parent (min_child key ps h) = h"
  using min_child_cases [of key ps h] by (auto simp: parent_def)

lemma min_child_le:
  assumes "i < length ps" and "i \<noteq> 0" and "parent i = h"
  shows "key (ps ! min_child key ps h) \<le> key (ps ! i)"
proof -
  from assms have "i = 2 * h + 1 \<or> i = 2 * h + 2" by (simp add: parent_eq_iff)
  with assms(1) show ?thesis by (auto simp: min_child_eq)
qed

function sift_down :: "('p \<Rightarrow> 'k::linorder) \<Rightarrow> 'p list \<Rightarrow> nat \<Rightarrow> 'p \<Rightarrow> 'p list" where
  "sift_down key ps h x =
     (if 2 * (h + 1) \<le> length ps \<and> key (ps ! min_child key ps h) < key x
      then sift_down key (ps[h := ps ! min_child key ps h]) (min_child key ps h) x
      else ps[h := x])"
  by pat_completeness auto
termination
proof (relation "measure (\<lambda>(key, ps, h, x). length ps - h)", goal_cases)
  case (2 key ps h x)
  then have "h < min_child key ps h" "min_child key ps h < length ps"
    by (auto intro: min_child_greater min_child_bound)
  then show ?case by simp
qed simp

declare sift_down.simps [simp del]

definition down_ok :: "('p \<Rightarrow> 'k::linorder) \<Rightarrow> 'p list \<Rightarrow> nat \<Rightarrow> 'p \<Rightarrow> bool" where
  "down_ok key ps h x \<longleftrightarrow> h < length ps \<and>
     (\<forall>i < length ps. i \<noteq> 0 \<longrightarrow> i \<noteq> h \<longrightarrow> parent i \<noteq> h \<longrightarrow> key (ps ! parent i) \<le> key (ps ! i)) \<and>
     (h \<noteq> 0 \<longrightarrow> key (ps ! parent h) \<le> key x \<and>
        (\<forall>i < length ps. i \<noteq> 0 \<longrightarrow> parent i = h \<longrightarrow> key (ps ! parent h) \<le> key (ps ! i)))"

lemma down_ok_bound: "down_ok key ps h x \<Longrightarrow> h < length ps"
  by (simp add: down_ok_def)

lemma down_ok_edge:
  "down_ok key ps h x \<Longrightarrow> i < length ps \<Longrightarrow> i \<noteq> 0 \<Longrightarrow> i \<noteq> h \<Longrightarrow> parent i \<noteq> h \<Longrightarrow>
     key (ps ! parent i) \<le> key (ps ! i)"
  by (simp add: down_ok_def)

lemma down_ok_above:
  "down_ok key ps h x \<Longrightarrow> h \<noteq> 0 \<Longrightarrow> key (ps ! parent h) \<le> key x"
  "down_ok key ps h x \<Longrightarrow> h \<noteq> 0 \<Longrightarrow> i < length ps \<Longrightarrow> i \<noteq> 0 \<Longrightarrow> parent i = h \<Longrightarrow>
     key (ps ! parent h) \<le> key (ps ! i)"
  by (simp_all add: down_ok_def)

text \<open>The order around the hole does not depend on the key of the element that leaves it, as long
  as that key only grows.\<close>

lemma down_ok_raise:
  assumes ok: "down_ok key ps h x" and d: "distinct ps"
    and same: "\<And>q. q \<noteq> ps ! h \<Longrightarrow> key' q = key q" and le: "key (ps ! h) \<le> key' (ps ! h)"
  shows "down_ok key' ps h x"
proof -
  have hb: "h < length ps" using ok by (rule down_ok_bound)
  have eq: "key' (ps ! i) = key (ps ! i)" if "i < length ps" "i \<noteq> h" for i
    using that same [of "ps ! i"] d hb by (simp add: nth_eq_iff_index_eq)
  have par: "parent i < length ps" "parent h \<noteq> h" if "i < length ps" "h \<noteq> 0" for i
    using that parent_le [of i] parent_less [of h] by auto
  have x: "key x \<le> key' x" using same [of x] le by (cases "x = ps ! h") auto
  have edge: "key' (ps ! parent i) \<le> key' (ps ! i)" if "i < length ps" "i \<noteq> 0" "i \<noteq> h" "parent i \<noteq> h" for i
    using down_ok_edge [OF ok that] eq [of i] eq [of "parent i"] that parent_le [of i] by simp
  have above: "key' (ps ! parent h) \<le> key' x" if "h \<noteq> 0"
    using down_ok_above(1) [OF ok that] eq [OF par [OF hb that]] x by simp
  have child: "key' (ps ! parent h) \<le> key' (ps ! i)" if "h \<noteq> 0" "i < length ps" "i \<noteq> 0" "parent i = h" for i
  proof -
    have "i \<noteq> h" using that(3,4) parent_less [of i] by auto
    then show ?thesis
      using down_ok_above(2) [OF ok that] eq [OF par [OF hb that(1)]] eq [OF that(2)] by simp
  qed
  show ?thesis unfolding down_ok_def using hb edge above child by blast
qed

lemma down_ok_step:
  assumes ok: "down_ok key ps h x" and b: "2 * (h + 1) \<le> length ps"
    and lt: "key (ps ! min_child key ps h) < key x"
  shows "down_ok key (ps[h := ps ! min_child key ps h]) (min_child key ps h) x"
proof -
  let ?c = "min_child key ps h" and ?qs = "ps[h := ps ! min_child key ps h]"
  have hc: "h < ?c" by (rule min_child_greater)
  have cb: "?c < length ps" using b by (rule min_child_bound)
  have hb: "h < length ps" using ok by (rule down_ok_bound)
  have edge: "key (?qs ! parent i) \<le> key (?qs ! i)"
    if i: "i < length ps" "i \<noteq> 0" "i \<noteq> ?c" "parent i \<noteq> ?c" for i
  proof -
    have "parent i < i" using i(2) by (rule parent_less)
    then show ?thesis
      using i hb hc cb down_ok_edge [OF ok i(1,2)] down_ok_above(2) [OF ok, of ?c]
        min_child_le [OF i(1,2), of h key]
      by (auto simp: nth_list_update)
  qed
  have child: "key (?qs ! h) \<le> key (?qs ! i)" if i: "i < length ps" "i \<noteq> 0" "parent i = ?c" for i
  proof -
    have "?c < i" using i(3) parent_less [OF i(2)] by simp
    then show ?thesis
      using i hb hc down_ok_edge [OF ok i(1,2)] by auto
  qed
  show ?thesis
    unfolding down_ok_def using edge child hb hc cb lt by simp
qed

lemma down_ok_final:
  assumes ok: "down_ok key ps h x"
    and stop: "\<not> (2 * (h + 1) \<le> length ps \<and> key (ps ! min_child key ps h) < key x)"
  shows "heap_ordered key (ps[h := x])"
proof -
  have hb: "h < length ps" using ok by (rule down_ok_bound)
  have "key (ps[h := x] ! parent i) \<le> key (ps[h := x] ! i)" if i: "i < length ps" "i \<noteq> 0" for i
  proof -
    have lt: "parent i < i" using i(2) by (rule parent_less)
    have "key x \<le> key (ps ! i)" if h: "parent i = h"
    proof -
      have "2 * (h + 1) \<le> length ps" using i h by (auto simp: parent_eq_iff)
      with stop have "key x \<le> key (ps ! min_child key ps h)" by (simp add: not_less)
      also have "\<dots> \<le> key (ps ! i)" using i h by (rule min_child_le)
      finally show ?thesis .
    qed
    then show ?thesis
      using i lt hb down_ok_edge [OF ok i] down_ok_above(1) [OF ok]
      by (auto simp: nth_list_update)
  qed
  then show ?thesis by (simp add: heap_ordered_def)
qed

lemma sift_down_heap: "down_ok key ps h x \<Longrightarrow> heap_ordered key (sift_down key ps h x)"
proof (induction key ps h x rule: sift_down.induct)
  case (1 key ps h x)
  show ?case
  proof (cases "2 * (h + 1) \<le> length ps \<and> key (ps ! min_child key ps h) < key x")
    case True
    with 1 show ?thesis by (subst sift_down.simps) (simp add: down_ok_step)
  next
    case False
    with 1 show ?thesis by (subst sift_down.simps) (simp only: if_False down_ok_final [OF 1(2) False])
  qed
qed

lemma length_sift_down [simp]: "length (sift_down key ps h x) = length ps"
proof (induction key ps h x rule: sift_down.induct)
  case (1 key ps h x)
  then show ?case by (subst sift_down.simps) simp
qed

lemma mset_sift_down: "h < length ps \<Longrightarrow> mset (sift_down key ps h x) = mset (ps[h := x])"
proof (induction key ps h x rule: sift_down.induct)
  case (1 key ps h x)
  show ?case
  proof (cases "2 * (h + 1) \<le> length ps \<and> key (ps ! min_child key ps h) < key x")
    case True
    then have "min_child key ps h < length ps" by (simp add: min_child_bound)
    moreover have "h \<noteq> min_child key ps h" using min_child_greater [of h key ps] by simp
    ultimately show ?thesis
      using 1 True by (subst sift_down.simps) (simp add: mset_move_hole)
  next
    case False
    then show ?thesis by (subst sift_down.simps) (simp only: if_False)
  qed
qed

text \<open>
  The program sifts the last element down while it still occupies the last cell: the hole
  never reaches that cell, because the element is not smaller than itself.
\<close>

lemma sift_down_last:
  assumes "h < length ps - 1" and "ps ! (length ps - 1) = x"
  shows "sift_down key ps h x ! (length ps - 1) = x"
  using assms
proof (induction key ps h x rule: sift_down.induct)
  case (1 key ps h x)
  show ?case
  proof (cases "2 * (h + 1) \<le> length ps \<and> key (ps ! min_child key ps h) < key x")
    case True
    then have "min_child key ps h < length ps" by (simp add: min_child_bound)
    moreover have "min_child key ps h \<noteq> length ps - 1" using True 1(3) by auto
    ultimately have "min_child key ps h < length ps - 1" by simp
    with 1 True show ?thesis by (subst sift_down.simps) simp
  next
    case False
    with 1 show ?thesis by (subst sift_down.simps) auto
  qed
qed

section \<open>Removing a cell\<close>

text \<open>
  Deleting position \<open>i\<close>: the last element is sifted into the hole and the last cell is
  given up.  Sifting up is only needed when the last element is smaller than the parent of the
  hole.
\<close>

lemma heap_ordered_replace_down:
  assumes ho: "heap_ordered key ps" and h: "h < length ps"
    and x: "h \<noteq> 0 \<Longrightarrow> key (ps ! parent h) \<le> key x"
  shows "down_ok key ps h x"
proof -
  have "key (ps ! parent h) \<le> key (ps ! i)"
    if "h \<noteq> 0" "i < length ps" "i \<noteq> 0" "parent i = h" for i
    using heap_orderedD [OF ho h that(1)] heap_orderedD [OF ho that(2,3)] that(4) by simp
  then show ?thesis
    using h x heap_orderedD [OF ho] unfolding down_ok_def by auto
qed

lemma heap_ordered_replace_up:
  assumes ho: "heap_ordered key ps" and h: "h < length ps" "h \<noteq> 0"
    and x: "key x < key (ps ! parent h)"
  shows "up_ok key ps h x"
proof -
  have "key x \<le> key (ps ! i) \<and> key (ps ! parent h) \<le> key (ps ! i)"
    if "i < length ps" "i \<noteq> 0" "parent i = h" for i
    using heap_orderedD [OF ho h] heap_orderedD [OF ho that(1,2)] that(3) x by force
  then show ?thesis
    using h heap_orderedD [OF ho] unfolding up_ok_def by auto
qed

lemma mset_drop_last:
  assumes "qs \<noteq> []" and "last qs = x" and "mset qs = mset (ps[h := x])" and "h < length ps"
  shows "mset (butlast qs) = mset ps - {#ps ! h#}"
proof -
  have "mset qs = add_mset x (mset (butlast qs))"
    using assms(1,2) append_butlast_last_id [OF assms(1)]
    by (metis add_mset_add_single mset.simps(1,2) mset_append)
  moreover have "mset (ps[h := x]) = add_mset x (mset ps - {#ps ! h#})"
    using assms(4) by (rule mset_update)
  ultimately show ?thesis using assms(3) by simp
qed

lemma heap_ordered_snoc:
  assumes "heap_ordered key ps"
  shows "up_ok key (ps @ [x]) (length ps) x"
proof -
  have p: "parent i < length ps" if "i \<le> length ps" "i \<noteq> 0" for i
    using parent_less [OF that(2)] that(1) by simp
  then have "parent i \<noteq> length ps" if "i \<le> length ps" "i \<noteq> 0" for i
    using that by fastforce
  with p show ?thesis
    using heap_orderedD [OF assms] unfolding up_ok_def
    by (auto simp: nth_append less_Suc_eq)
qed

end
