(* ===== verification/MinHeap.thy ===== *)
theory MinHeap
  imports Prelude Timeval HeapArray
begin

text \<open>
  The timer heap of \<open>src/min_heap.c\<close> and \<open>include/min_heap.h\<close>: an array of pointers to
  \<open>TimeoutEvent\<close> nodes, each node carrying its own position in the array.  Pointers are
  natural numbers (0 is \<open>NULL\<close>), the nodes live in a store, a node that has been freed
  is absent from the store.  Cells of the array that \<open>realloc\<close> added and nobody wrote are
  \<open>None\<close>; the \<open>NULL\<close> array of a new heap is the empty list.

  The indices are natural numbers: with \<open>iNodeUsed\<close> an \<open>int\<close>, the unsigned index
  computations of the two sift loops stay below \<open>2 ^ 32\<close> for every hole inside the array, and
  \<open>(0u - 1) / 2\<close>, computed when the hole is the root, is never used as an index.
\<close>

type_synonym tptr = nat

abbreviation NULL :: nat where "NULL \<equiv> 0"

text \<open>The functions the program registers as timeout callbacks (a function pointer in C).\<close>

datatype TimeoutProcCallback = ConnectionTimeoutCallback

record TimeoutEvent =
  te_iPid :: int
  te_iFd :: int
  iHeapIndex :: int
  stTimeout :: timeval
  stInterval :: timeval
  pFunTimeoutProcCallback :: "TimeoutProcCallback option"
  pstCallbackArg :: nat

record MinHeapHeader =
  ppstTimeoutEventHeader :: "tptr option list"
  iNodeCapacity :: nat
  iNodeUsed :: nat
  iCurPid :: int

type_synonym tev_store = "tptr \<Rightarrow> TimeoutEvent option"

text \<open>What a heap function can reach: the header its pointer argument points to, and the nodes.\<close>

record heap_state =
  hs_hdr :: "MinHeapHeader option"
  hs_tevs :: tev_store

section \<open>Memory accesses\<close>

definition tev_get :: "tev_store \<Rightarrow> tptr \<Rightarrow> TimeoutEvent outcome" where
  "tev_get S p = (if p = NULL then undef NullDeref
     else (case S p of None \<Rightarrow> undef UseAfterFree | Some e \<Rightarrow> Inr e))"

definition set_index :: "tev_store \<Rightarrow> tptr \<Rightarrow> int \<Rightarrow> tev_store outcome" where
  "set_index S p i = cbind (tev_get S p) (\<lambda>e. Inr (S(p \<mapsto> e\<lparr>iHeapIndex := i\<rparr>)))"

definition read_cell :: "tptr option list \<Rightarrow> int \<Rightarrow> tptr outcome" where
  "read_cell arr i = (if 0 \<le> i \<and> i < int (length arr)
     then (case arr ! nat i of None \<Rightarrow> undef Indeterminate | Some p \<Rightarrow> Inr p)
     else undef OutOfBounds)"

definition write_cell :: "tptr option list \<Rightarrow> nat \<Rightarrow> tptr \<Rightarrow> tptr option list outcome" where
  "write_cell arr i p = (if i < length arr then Inr (arr[i := Some p]) else undef OutOfBounds)"

section \<open>The functions of min_heap.c\<close>

text \<open>The success path of the C function returns without a value: the result is then \<open>None\<close>.\<close>

definition MinheapTimeoutEventInit ::
  "tev_store \<Rightarrow> tptr \<Rightarrow> TimeoutProcCallback option \<Rightarrow> nat \<Rightarrow> int \<Rightarrow> int
     \<Rightarrow> (int option \<times> tev_store) outcome" where
  "MinheapTimeoutEventInit S p cb arg pid fd =
     (if p = NULL then Inr (Some RET_FAIL, S)
      else cbind (tev_get S p) (\<lambda>e.
        Inr (None, S(p \<mapsto> e\<lparr>iHeapIndex := -1, pFunTimeoutProcCallback := cb,
                          pstCallbackArg := arg, te_iFd := fd, te_iPid := pid\<rparr>))))"

definition MinheapNodeCmpGreater :: "tev_store \<Rightarrow> tptr \<Rightarrow> tptr \<Rightarrow> bool outcome" where
  "MinheapNodeCmpGreater S a b =
     (if a = NULL \<or> b = NULL then Inl (Exits 1)
      else cbind (tev_get S a) (\<lambda>ea. cbind (tev_get S b) (\<lambda>eb.
        Inr (minheap_timercmp (stTimeout ea) (stTimeout eb) (>)))))"

definition MinheapCreate :: "int \<Rightarrow> MinHeapHeader option \<Rightarrow> int \<times> MinHeapHeader option" where
  "MinheapCreate pid hdr = (case hdr of None \<Rightarrow> (RET_FAIL, None)
     | Some H \<Rightarrow> (RET_SUCC, Some \<lparr>ppstTimeoutEventHeader = [], iNodeCapacity = 0,
                                  iNodeUsed = 0, iCurPid = pid\<rparr>))"

text \<open>The header keeps its dangling array pointer; the model records that the array is gone.\<close>

definition MinheapDestory :: "MinHeapHeader option \<Rightarrow> int \<times> MinHeapHeader option" where
  "MinheapDestory hdr = (case hdr of None \<Rightarrow> (RET_FAIL, None)
     | Some H \<Rightarrow> (RET_SUCC, Some (H\<lparr>ppstTimeoutEventHeader := []\<rparr>)))"

definition MinheapIsEmpty :: "MinHeapHeader option \<Rightarrow> int" where
  "MinheapIsEmpty hdr = (case hdr of None \<Rightarrow> RET_FAIL | Some H \<Rightarrow> of_bool (0 = iNodeUsed H))"

definition MinheapIsTop :: "tev_store \<Rightarrow> tptr \<Rightarrow> int outcome" where
  "MinheapIsTop S p = (if p = NULL then Inr RET_FAIL
     else cbind (tev_get S p) (\<lambda>e. Inr (of_bool (0 = iHeapIndex e))))"

definition MinheapGetCurSize :: "MinHeapHeader option \<Rightarrow> int" where
  "MinheapGetCurSize hdr = (case hdr of None \<Rightarrow> RET_FAIL | Some H \<Rightarrow> int (iNodeUsed H))"

definition MinheapGetTopElement :: "MinHeapHeader option \<Rightarrow> tptr outcome" where
  "MinheapGetTopElement hdr = (case hdr of None \<Rightarrow> Inr NULL
     | Some H \<Rightarrow>
        if ppstTimeoutEventHeader H = [] then Inr NULL
        else if iNodeUsed H \<noteq> 0 then read_cell (ppstTimeoutEventHeader H) 0
        else Inr NULL)"

text \<open>A successful \<open>realloc\<close> to \<open>n\<close> cells: the old cells stay, the new ones are unwritten.\<close>

definition grow_array :: "MinHeapHeader \<Rightarrow> nat \<Rightarrow> MinHeapHeader" where
  "grow_array H n = H\<lparr>iNodeCapacity := n, ppstTimeoutEventHeader :=
     take n (ppstTimeoutEventHeader H) @ replicate (n - length (ppstTimeoutEventHeader H)) None\<rparr>"

text \<open>\<open>mem\<close> says whether \<open>realloc\<close> finds the memory.\<close>

definition MinheapReserveSize ::
  "bool \<Rightarrow> heap_state \<Rightarrow> int \<Rightarrow> (int \<times> heap_state) outcome" where
  "MinheapReserveSize mem st n = (case hs_hdr st of None \<Rightarrow> Inr (RET_FAIL, st)
     | Some H \<Rightarrow>
        if n < 0 then Inr (RET_FAIL, st)
        else if n \<le> int (iNodeCapacity H) then Inr (RET_SUCC, st)
        else cbind (if iNodeCapacity H \<noteq> 0 then c_int (int (iNodeCapacity H) * 2)
                    else Inr (int MINHEAP_INIT_SIZE)) (\<lambda>sz.
          let iNewSize = nat (if sz < n then n else sz)
          in if \<not> mem then Inr (RET_FAIL, st)
             else Inr (RET_SUCC, st\<lparr>hs_hdr := Some (grow_array H iNewSize)\<rparr>)))"

text \<open>The loop of \<open>__MinheapShiftUp\<close>; it stops with the final hole.\<close>

function shift_up_loop ::
  "tptr option list \<Rightarrow> tev_store \<Rightarrow> nat \<Rightarrow> tptr
     \<Rightarrow> (tptr option list \<times> tev_store \<times> nat) outcome" where
  "shift_up_loop arr S hole e =
     (if hole \<noteq> 0 then
        cbind (read_cell arr (int (parent hole))) (\<lambda>p.
        cbind (MinheapNodeCmpGreater S p e) (\<lambda>gt.
          if gt then
            cbind (write_cell arr hole p) (\<lambda>arr'.
            cbind (set_index S p (int hole)) (\<lambda>S'.
              shift_up_loop arr' S' (parent hole) e))
          else Inr (arr, S, hole)))
      else Inr (arr, S, hole))"
  by pat_completeness auto
termination
  by (relation "measure (\<lambda>(arr, S, hole, e). hole)") (auto simp: parent_less)

declare shift_up_loop.simps [simp del]

text \<open>Both sift functions end by storing the element in the hole and its index in the element.\<close>

definition place :: "tptr option list \<Rightarrow> tev_store \<Rightarrow> nat \<Rightarrow> tptr
    \<Rightarrow> (tptr option list \<times> tev_store) outcome" where
  "place arr S hole e = cbind (write_cell arr hole e) (\<lambda>arr'.
     cbind (set_index S e (int hole)) (\<lambda>S'. Inr (arr', S')))"

definition MinheapShiftUp :: "heap_state \<Rightarrow> nat \<Rightarrow> tptr \<Rightarrow> (int \<times> heap_state) outcome" where
  "MinheapShiftUp st hole e = (case hs_hdr st of None \<Rightarrow> Inr (RET_FAIL, st)
     | Some H \<Rightarrow>
        if e = NULL then Inr (RET_FAIL, st)
        else cbind (shift_up_loop (ppstTimeoutEventHeader H) (hs_tevs st) hole e) (\<lambda>(arr, S, h).
          cbind (place arr S h e) (\<lambda>(arr', S').
            Inr (RET_SUCC, \<lparr>hs_hdr = Some (H\<lparr>ppstTimeoutEventHeader := arr'\<rparr>), hs_tevs = S'\<rparr>))))"

text \<open>
  The loop of \<open>__MinheapShiftDown\<close>.  The child index starts at the right child; it steps
  back to the left child when the right one does not exist or is greater.
\<close>

definition pick_child :: "nat \<Rightarrow> tptr option list \<Rightarrow> tev_store \<Rightarrow> nat \<Rightarrow> nat outcome" where
  "pick_child used arr S uMinChildIndex =
     (if uMinChildIndex = used then Inr (uMinChildIndex - 1)
      else cbind (read_cell arr (int uMinChildIndex)) (\<lambda>r.
           cbind (read_cell arr (int (uMinChildIndex - 1))) (\<lambda>l.
           cbind (MinheapNodeCmpGreater S r l) (\<lambda>gt.
             Inr (if gt then uMinChildIndex - 1 else uMinChildIndex)))))"

lemma pick_child_cases:
  "pick_child used arr S m = Inr c \<Longrightarrow> c = m - 1 \<or> c = m"
  by (auto simp: pick_child_def outcome_iff split: if_splits)

text \<open>Both exits of the source are kept, although the second can never be taken.\<close>

function shift_down_loop ::
  "nat \<Rightarrow> tptr option list \<Rightarrow> tev_store \<Rightarrow> nat \<Rightarrow> tptr
     \<Rightarrow> (tptr option list \<times> tev_store \<times> nat) outcome" where
  "shift_down_loop used arr S hole e =
     (if 2 * (hole + 1) \<le> used then
        cbind (pick_child used arr S (2 * (hole + 1))) (\<lambda>c.
        cbind (read_cell arr (int c)) (\<lambda>p.
        cbind (MinheapNodeCmpGreater S e p) (\<lambda>gt.
          if \<not> gt then Inr (arr, S, hole)
          else cbind (MinheapNodeCmpGreater S p e) (\<lambda>gt2.
            if gt2 then Inr (arr, S, hole)
            else cbind (write_cell arr hole p) (\<lambda>arr'.
                 cbind (set_index S p (int hole)) (\<lambda>S'.
                   shift_down_loop used arr' S' c e))))))
      else Inr (arr, S, hole))"
  by pat_completeness auto
termination
  by (relation "measure (\<lambda>(used, arr, S, hole, e). used - hole)")
     (auto dest: pick_child_cases)

declare shift_down_loop.simps [simp del]

definition MinheapShiftDown :: "heap_state \<Rightarrow> nat \<Rightarrow> tptr \<Rightarrow> (int \<times> heap_state) outcome" where
  "MinheapShiftDown st hole e = (case hs_hdr st of None \<Rightarrow> Inr (RET_FAIL, st)
     | Some H \<Rightarrow>
        if e = NULL then Inr (RET_FAIL, st)
        else cbind (shift_down_loop (iNodeUsed H) (ppstTimeoutEventHeader H) (hs_tevs st) hole e)
          (\<lambda>(arr, S, h). cbind (place arr S h e) (\<lambda>(arr', S').
            Inr (RET_SUCC, \<lparr>hs_hdr = Some (H\<lparr>ppstTimeoutEventHeader := arr'\<rparr>), hs_tevs = S'\<rparr>))))"

text \<open>\<open>iNodeUsed += 1\<close> and \<open>iNodeUsed -= 1\<close> on the header.\<close>

definition bump_used :: "heap_state \<Rightarrow> heap_state" where
  "bump_used st = st\<lparr>hs_hdr := map_option (\<lambda>H. H\<lparr>iNodeUsed := iNodeUsed H + 1\<rparr>) (hs_hdr st)\<rparr>"

definition drop_used :: "heap_state \<Rightarrow> heap_state" where
  "drop_used st = st\<lparr>hs_hdr := map_option (\<lambda>H. H\<lparr>iNodeUsed := iNodeUsed H - 1\<rparr>) (hs_hdr st)\<rparr>"

definition MinHeapPush :: "bool \<Rightarrow> heap_state \<Rightarrow> tptr \<Rightarrow> (int \<times> heap_state) outcome" where
  "MinHeapPush mem st e = (case hs_hdr st of None \<Rightarrow> Inr (RET_FAIL, st)
     | Some H \<Rightarrow>
        if e = NULL then Inr (RET_FAIL, st)
        else cbind (c_int (int (iNodeUsed H) + 1)) (\<lambda>iNewSize.
             cbind (MinheapReserveSize mem st iNewSize) (\<lambda>(r, st1).
               if r = RET_FAIL then Inr (RET_FAIL, st1)
               else cbind (MinheapShiftUp st1 (iNodeUsed H) e) (\<lambda>(r2, st2).
                 if r2 = RET_FAIL then Inr (RET_FAIL, st2)
                 else Inr (RET_SUCC, bump_used st2)))))"

definition MinheapPop :: "heap_state \<Rightarrow> (tptr \<times> heap_state) outcome" where
  "MinheapPop st = (case hs_hdr st of None \<Rightarrow> Inr (NULL, st)
     | Some H \<Rightarrow>
        if iNodeUsed H \<noteq> 0 then
          cbind (read_cell (ppstTimeoutEventHeader H) 0) (\<lambda>top.
          cbind (read_cell (ppstTimeoutEventHeader H) (int (iNodeUsed H) - 1)) (\<lambda>lst.
            if lst = NULL then Inr (NULL, st)
            else cbind (MinheapShiftDown st 0 lst) (\<lambda>(r, st1).
              if r = RET_SUCC then
                cbind (set_index (hs_tevs st1) top (-1)) (\<lambda>S.
                  Inr (top, drop_used (st1\<lparr>hs_tevs := S\<rparr>)))
              else Inr (NULL, st1))))
        else Inr (NULL, st))"

text \<open>
  \<open>MinheapErase\<close>, with the branch of the source kept: after sifting up, the index that is
  reset is the one of the last element, not the one of the deleted element.
\<close>

definition erase_parent_greater ::
  "tptr option list \<Rightarrow> tev_store \<Rightarrow> int \<Rightarrow> tptr \<Rightarrow> bool outcome" where
  "erase_parent_greater arr S idx lst =
     (if 0 < idx
      then cbind (read_cell arr ((idx - 1) div 2)) (\<lambda>p. MinheapNodeCmpGreater S p lst)
      else Inr False)"

definition MinheapErase :: "heap_state \<Rightarrow> tptr \<Rightarrow> (int \<times> heap_state) outcome" where
  "MinheapErase st del = (case hs_hdr st of None \<Rightarrow> Inr (RET_FAIL, st)
     | Some H \<Rightarrow>
        if del = NULL then Inr (RET_FAIL, st)
        else cbind (tev_get (hs_tevs st) del) (\<lambda>d.
          if iHeapIndex d \<noteq> -1 then
            cbind (read_cell (ppstTimeoutEventHeader H) (int (iNodeUsed H) - 1)) (\<lambda>lst.
              if lst = NULL then Inr (RET_FAIL, st)
              else
                cbind (erase_parent_greater (ppstTimeoutEventHeader H) (hs_tevs st) (iHeapIndex d) lst) (\<lambda>up.
                let hole = nat (iHeapIndex d mod 4294967296) in
                if up then
                  cbind (MinheapShiftUp st hole lst) (\<lambda>(r, st1).
                    if r = RET_SUCC then
                      cbind (set_index (hs_tevs st1) lst (-1)) (\<lambda>S.
                        Inr (RET_SUCC, drop_used (st1\<lparr>hs_tevs := S\<rparr>)))
                    else Inr (RET_FAIL, st1))
                else
                  cbind (MinheapShiftDown st hole lst) (\<lambda>(r, st1).
                    if r = RET_SUCC then
                      cbind (set_index (hs_tevs st1) del (-1)) (\<lambda>S.
                        Inr (RET_SUCC, drop_used (st1\<lparr>hs_tevs := S\<rparr>)))
                    else Inr (RET_FAIL, st1))))
          else Inr (RET_FAIL, st)))"

section \<open>Facts about memory accesses\<close>

lemma read_cell_Some [simp]:
  "i < length arr \<Longrightarrow> arr ! i = Some p \<Longrightarrow> read_cell arr (int i) = Inr p"
  by (simp add: read_cell_def)

lemma write_cell_Inr [simp]: "i < length arr \<Longrightarrow> write_cell arr i p = Inr (arr[i := Some p])"
  by (simp add: write_cell_def)

lemma tev_get_Some [simp]: "p \<noteq> NULL \<Longrightarrow> S p = Some e \<Longrightarrow> tev_get S p = Inr e"
  by (simp add: tev_get_def)

lemma set_index_Some [simp]:
  "p \<noteq> NULL \<Longrightarrow> S p = Some e \<Longrightarrow> set_index S p i = Inr (S(p \<mapsto> e\<lparr>iHeapIndex := i\<rparr>))"
  by (simp add: set_index_def)

definition key_of :: "tev_store \<Rightarrow> tptr \<Rightarrow> timeval" where
  "key_of S p = stTimeout (the (S p))"

lemma CmpGreater_eq [simp]:
  "a \<noteq> NULL \<Longrightarrow> b \<noteq> NULL \<Longrightarrow> S a \<noteq> None \<Longrightarrow> S b \<noteq> None \<Longrightarrow>
     MinheapNodeCmpGreater S a b = Inr (key_of S b < key_of S a)"
  by (auto simp: MinheapNodeCmpGreater_def key_of_def)

text \<open>The sift loops change nothing but heap indices.\<close>

definition same_nodes :: "tev_store \<Rightarrow> tev_store \<Rightarrow> bool" where
  "same_nodes S S' \<longleftrightarrow> (\<forall>p. map_option (iHeapIndex_update (\<lambda>_. 0)) (S' p)
                            = map_option (iHeapIndex_update (\<lambda>_. 0)) (S p))"

lemma same_nodes_refl [simp]: "same_nodes S S"
  by (simp add: same_nodes_def)

lemma same_nodes_trans: "same_nodes S S' \<Longrightarrow> same_nodes S' S'' \<Longrightarrow> same_nodes S S''"
  by (simp add: same_nodes_def)

lemma same_nodes_upd: "S p = Some e \<Longrightarrow> same_nodes S (S(p \<mapsto> e\<lparr>iHeapIndex := i\<rparr>))"
  by (simp add: same_nodes_def)

lemma same_nodes_None: "same_nodes S S' \<Longrightarrow> S' p = None \<longleftrightarrow> S p = None"
  by (metis same_nodes_def map_option_is_None)

lemma same_nodes_Some:
  assumes "same_nodes S S'" and "S p = Some e"
  obtains i where "S' p = Some (e\<lparr>iHeapIndex := i\<rparr>)"
proof -
  have "map_option (iHeapIndex_update (\<lambda>_. 0)) (S' p) = Some (e\<lparr>iHeapIndex := 0\<rparr>)"
    using assms by (simp add: same_nodes_def)
  then obtain e' where e': "S' p = Some e'" "e'\<lparr>iHeapIndex := 0\<rparr> = e\<lparr>iHeapIndex := 0\<rparr>"
    by auto
  then have "e' = e\<lparr>iHeapIndex := iHeapIndex e'\<rparr>"
    by (metis TimeoutEvent.surjective TimeoutEvent.update_convs(3))
  with e' that show thesis by metis
qed

lemma same_nodes_key: "same_nodes S S' \<Longrightarrow> key_of S' p = key_of S p"
proof (cases "S p")
  case None
  then show "same_nodes S S' \<Longrightarrow> key_of S' p = key_of S p"
    using same_nodes_None [of S S' p] by (simp add: key_of_def)
next
  case (Some e)
  then show "same_nodes S S' \<Longrightarrow> key_of S' p = key_of S p"
    by (auto simp: key_of_def elim: same_nodes_Some)
qed

end
