(* ===== verification/MinHeapCorrect.thy ===== *)
theory MinHeapCorrect
  imports MinHeap
begin

text \<open>
  The C heap refines the list heap of theory \<open>HeapArray\<close>.  \<open>hole_ok\<close> relates the array
  and the nodes in the middle of a sift loop to a list with a hole; \<open>heap_rep\<close> is the
  representation relation of a heap at rest: the used cells hold the listed pointers, every node
  is allocated and carries its own position, and the list is heap ordered by timeout.
\<close>

section \<open>Inside a sift loop\<close>

definition hole_ok :: "tptr option list \<Rightarrow> tev_store \<Rightarrow> tptr list \<Rightarrow> nat \<Rightarrow> tptr \<Rightarrow> bool" where
  "hole_ok arr S ps h x \<longleftrightarrow> h < length ps \<and> length ps \<le> length arr \<and> x \<noteq> NULL \<and> S x \<noteq> None \<and>
     (\<forall>i < length ps. i \<noteq> h \<longrightarrow> arr ! i = Some (ps ! i) \<and> ps ! i \<noteq> NULL \<and>
        (\<exists>e. S (ps ! i) = Some e \<and> iHeapIndex e = int i)) \<and>
     (\<forall>i < length ps. \<forall>j < length ps. i \<noteq> j \<longrightarrow> i \<noteq> h \<longrightarrow> j \<noteq> h \<longrightarrow> ps ! i \<noteq> ps ! j)"

definition others :: "tptr list \<Rightarrow> nat \<Rightarrow> tptr set" where
  "others ps h = {ps ! i |i. i < length ps \<and> i \<noteq> h}"

lemma hole_okD:
  assumes "hole_ok arr S ps h x"
  shows "h < length ps" "length ps \<le> length arr" "x \<noteq> NULL" "\<exists>e. S x = Some e"
  using assms by (auto simp: hole_ok_def)

lemma hole_ok_cell:
  assumes "hole_ok arr S ps h x" and "i < length ps" and "i \<noteq> h"
  shows "arr ! i = Some (ps ! i)" "ps ! i \<noteq> NULL" "\<exists>e. S (ps ! i) = Some e \<and> iHeapIndex e = int i"
  using assms by (auto simp: hole_ok_def)

lemma hole_ok_read [simp]:
  "hole_ok arr S ps h x \<Longrightarrow> i < length ps \<Longrightarrow> i \<noteq> h \<Longrightarrow> read_cell arr (int i) = Inr (ps ! i)"
  using hole_ok_cell(1) [of arr S ps h x i] hole_okD(2) [of arr S ps h x] by simp

lemma others_move:
  assumes "h < length ps" "p < length ps" "p \<noteq> h"
  shows "others (ps[h := ps ! p]) p = others ps h"
proof
  show "others (ps[h := ps ! p]) p \<subseteq> others ps h"
    using assms unfolding others_def by (auto simp: nth_list_update)
  have "ps ! i \<in> others (ps[h := ps ! p]) p" if "i < length ps" "i \<noteq> h" for i
  proof (cases "i = p")
    case True
    with assms show ?thesis unfolding others_def by (intro CollectI exI [of _ h]) auto
  next
    case False
    with that show ?thesis unfolding others_def by (intro CollectI exI [of _ i]) auto
  qed
  then show "others ps h \<subseteq> others (ps[h := ps ! p]) p"
    unfolding others_def [of ps h] by auto
qed

text \<open>One iteration of either loop: the element at \<open>p\<close> moves into the hole.\<close>

lemma hole_ok_move:
  assumes ok: "hole_ok arr S ps h x" and p: "p < length ps" "p \<noteq> h" and e: "S (ps ! p) = Some e"
  shows "hole_ok (arr[h := Some (ps ! p)]) (S(ps ! p \<mapsto> e\<lparr>iHeapIndex := int h\<rparr>))
           (ps[h := ps ! p]) p x"
proof -
  have h: "h < length ps" "length ps \<le> length arr" using hole_okD [OF ok] by auto
  have ne: "ps ! i \<noteq> ps ! p" if "i < length ps" "i \<noteq> h" "i \<noteq> p" for i
    using ok p that unfolding hole_ok_def by blast
  have dist: "ps[h := ps ! p] ! i \<noteq> ps[h := ps ! p] ! j"
    if "i < length ps" "j < length ps" "i \<noteq> j" "i \<noteq> p" "j \<noteq> p" for i j
  proof -
    have "i \<noteq> h \<Longrightarrow> j \<noteq> h \<Longrightarrow> ps ! i \<noteq> ps ! j"
      using ok that unfolding hole_ok_def by blast
    then show ?thesis
      using ne [of i] ne [of j] that h by (auto simp: nth_list_update)
  qed
  have cell: "(arr[h := Some (ps ! p)]) ! i = Some (ps[h := ps ! p] ! i) \<and> ps[h := ps ! p] ! i \<noteq> NULL
      \<and> (\<exists>e'. (S(ps ! p \<mapsto> e\<lparr>iHeapIndex := int h\<rparr>)) (ps[h := ps ! p] ! i) = Some e'
            \<and> iHeapIndex e' = int i)"
    if i: "i < length ps" "i \<noteq> p" for i
  proof (cases "i = h")
    case True
    then show ?thesis using h hole_ok_cell(2) [OF ok p] by simp
  next
    case False
    then show ?thesis using hole_ok_cell [OF ok i(1) False] ne [OF i(1) False i(2)] by simp
  qed
  show ?thesis
    unfolding hole_ok_def
    using cell dist p h hole_okD(3,4) [OF ok] by (auto simp: fun_upd_apply)
qed

text \<open>
  What a loop establishes when it stops: an array with a hole at \<open>h'\<close> whose list, with the
  element put into the hole, is the result of the reference function.
\<close>

definition sifted ::
  "tptr option list \<times> tev_store \<times> nat \<Rightarrow> tptr option list \<Rightarrow> tev_store \<Rightarrow> tptr list \<Rightarrow> nat \<Rightarrow> tptr
     \<Rightarrow> tptr list \<Rightarrow> bool" where
  "sifted res arr S ps h x qs = (case res of (arr', S', h') \<Rightarrow>
     (\<exists>ps'. hole_ok arr' S' ps' h' x \<and> ps'[h' := x] = qs \<and> length ps' = length ps
        \<and> others ps' h' = others ps h)
     \<and> (h' = h \<or> ps ! h' \<noteq> x) \<and> length arr' = length arr \<and> same_nodes S S' \<and> (\<forall>q. q \<notin> others ps h \<longrightarrow> S' q = S q))"

lemma sifted_stop:
  "hole_ok arr S ps h x \<Longrightarrow> sifted (arr, S, h) arr S ps h x (ps[h := x])"
  by (auto simp: sifted_def)

lemma sifted_at:
  assumes "sifted (arr', S', h') arr S ps h x qs"
  shows "h' < length qs" "qs ! h' = x" "length qs = length ps" "h' = h \<or> ps ! h' \<noteq> x"
  using assms by (auto simp: sifted_def dest: hole_okD(1))

lemma sifted_step:
  assumes ok: "hole_ok arr S ps h x" and p: "p < length ps" "p \<noteq> h" and e: "S (ps ! p) = Some e"
    and ne: "ps ! p \<noteq> x"
    and rest: "sifted res (arr[h := Some (ps ! p)]) (S(ps ! p \<mapsto> e\<lparr>iHeapIndex := int h\<rparr>))
                 (ps[h := ps ! p]) p x qs"
  shows "sifted res arr S ps h x qs"
proof -
  have mem: "ps ! p \<in> others ps h" using p unfolding others_def by blast
  have sn: "same_nodes S (S(ps ! p \<mapsto> e\<lparr>iHeapIndex := int h\<rparr>))" using e by (rule same_nodes_upd)
  show ?thesis
    using rest mem same_nodes_trans [OF sn] ne
    by (auto simp: sifted_def others_move [OF hole_okD(1) [OF ok] p] split: prod.splits)
qed

lemma same_nodes_sift:
  assumes "same_nodes S S'"
  shows "sift_up (key_of S') ps h x = sift_up (key_of S) ps h x"
    and "sift_down (key_of S') ps h x = sift_down (key_of S) ps h x"
proof -
  have "key_of S' = key_of S" using same_nodes_key [OF assms] by blast
  then show "sift_up (key_of S') ps h x = sift_up (key_of S) ps h x"
    and "sift_down (key_of S') ps h x = sift_down (key_of S) ps h x" by simp_all
qed

lemma shift_up_loop_sifts:
  assumes "hole_ok arr S ps h x"
  shows "\<exists>res. shift_up_loop arr S h x = Inr res \<and>
           sifted res arr S ps h x (sift_up (key_of S) ps h x)"
  using assms
proof (induction h arbitrary: arr S ps rule: less_induct)
  case (less h)
  note ok = less.prems
  let ?p = "parent h"
  show ?case
  proof (cases "h \<noteq> 0 \<and> key_of S x < key_of S (ps ! ?p)")
    case True
    then have ph: "?p < h" by (simp add: parent_less)
    then have p: "?p < length ps" "?p \<noteq> h" using hole_okD(1) [OF ok] by auto
    obtain e where e: "S (ps ! ?p) = Some e" using hole_ok_cell(3) [OF ok p] by blast
    let ?arr = "arr[h := Some (ps ! ?p)]" and ?S = "S(ps ! ?p \<mapsto> e\<lparr>iHeapIndex := int h\<rparr>)"
    have sn: "same_nodes S ?S" using e by (rule same_nodes_upd)
    obtain res where res: "shift_up_loop ?arr ?S ?p x = Inr res"
      "sifted res ?arr ?S (ps[h := ps ! ?p]) ?p x (sift_up (key_of ?S) (ps[h := ps ! ?p]) ?p x)"
      using less.IH [OF ph hole_ok_move [OF ok p e]] by blast
    have "shift_up_loop arr S h x = Inr res"
      using True e p hole_okD [OF ok] hole_ok_cell [OF ok p] res(1)
      by (subst shift_up_loop.simps) (auto simp: hole_ok_read [OF ok])
    moreover have "sift_up (key_of ?S) (ps[h := ps ! ?p]) ?p x = sift_up (key_of S) ps h x"
      using True by (simp add: same_nodes_sift [OF sn] sift_up.simps [of _ ps h x])
    ultimately show ?thesis
      using sifted_step [OF ok p e _ res(2)] True by auto
  next
    case False
    have "shift_up_loop arr S h x = Inr (arr, S, h)"
    proof (cases "h = 0")
      case False
      then have p: "?p < length ps" "?p \<noteq> h"
        using parent_less [OF False] hole_okD(1) [OF ok] by auto
      with False \<open>\<not> (h \<noteq> 0 \<and> _)\<close> show ?thesis
        using hole_okD [OF ok] hole_ok_cell [OF ok p]
        by (subst shift_up_loop.simps) (auto simp: hole_ok_read [OF ok])
    qed (simp add: shift_up_loop.simps)
    moreover have "sift_up (key_of S) ps h x = ps[h := x]"
      using False by (subst sift_up.simps) (simp only: if_False)
    ultimately show ?thesis using sifted_stop [OF ok] by auto
  qed
qed

lemma pick_child_eq:
  assumes ok: "hole_ok arr S ps h x" and b: "2 * (h + 1) \<le> length ps"
  shows "pick_child (length ps) arr S (2 * (h + 1)) = Inr (min_child (key_of S) ps h)"
proof (cases "2 * (h + 1) = length ps")
  case True
  then show ?thesis unfolding pick_child_def min_child_def Let_def by (simp only: True if_True refl)
next
  case False
  let ?c = "2 * (h + 1)"
  from False b have c: "?c < length ps" "?c \<noteq> h" "?c - 1 < length ps" "?c - 1 \<noteq> h" by auto
  have cmp: "MinheapNodeCmpGreater S (ps ! ?c) (ps ! (?c - 1)) =
      Inr (key_of S (ps ! (?c - 1)) < key_of S (ps ! ?c))"
    using hole_ok_cell [OF ok c(1,2)] hole_ok_cell [OF ok c(3,4)] by (intro CmpGreater_eq) auto
  show ?thesis
    unfolding pick_child_def min_child_def Let_def
    by (simp only: hole_ok_read [OF ok c(1,2)] hole_ok_read [OF ok c(3,4)] cmp False if_False cbind_simps)
qed

lemma shift_down_loop_sifts:
  assumes "hole_ok arr S ps h x"
  shows "\<exists>res. shift_down_loop (length ps) arr S h x = Inr res \<and>
           sifted res arr S ps h x (sift_down (key_of S) ps h x)"
  using assms
proof (induction "length ps - h" arbitrary: arr S ps h rule: less_induct)
  case less
  note ok = less.prems
  let ?c = "min_child (key_of S) ps h"
  show ?case
  proof (cases "2 * (h + 1) \<le> length ps")
    case False
    then have "shift_down_loop (length ps) arr S h x = Inr (arr, S, h)"
      by (simp add: shift_down_loop.simps)
    moreover have "sift_down (key_of S) ps h x = ps[h := x]"
      using False by (subst sift_down.simps) simp
    ultimately show ?thesis using sifted_stop [OF ok] by auto
  next
    case b: True
    have c: "?c < length ps" "?c \<noteq> h" "h < ?c"
      using min_child_bound [OF b] min_child_greater [of h "key_of S" ps] by auto
    obtain e where e: "S (ps ! ?c) = Some e" using hole_ok_cell(3) [OF ok c(1,2)] by blast
    note facts = b e c hole_okD [OF ok] hole_ok_cell [OF ok c(1,2)]
    show ?thesis
    proof (cases "key_of S (ps ! ?c) < key_of S x")
      case True
      let ?arr = "arr[h := Some (ps ! ?c)]" and ?S = "S(ps ! ?c \<mapsto> e\<lparr>iHeapIndex := int h\<rparr>)"
      have sn: "same_nodes S ?S" using e by (rule same_nodes_upd)
      have "length (ps[h := ps ! ?c]) - ?c < length ps - h" using c by simp
      from less.hyps [OF this hole_ok_move [OF ok c(1,2) e]]
      obtain res where res: "shift_down_loop (length ps) ?arr ?S ?c x = Inr res"
        "sifted res ?arr ?S (ps[h := ps ! ?c]) ?c x (sift_down (key_of ?S) (ps[h := ps ! ?c]) ?c x)"
        by (auto simp only: length_list_update)
      have "shift_down_loop (length ps) arr S h x = Inr res"
        using facts True res(1)
        by (subst shift_down_loop.simps) (auto simp: hole_ok_read [OF ok] pick_child_eq [OF ok b, simplified])
      moreover have "sift_down (key_of ?S) (ps[h := ps ! ?c]) ?c x = sift_down (key_of S) ps h x"
        using True b by (simp add: same_nodes_sift [OF sn] sift_down.simps [of _ ps h x])
      ultimately show ?thesis
        using sifted_step [OF ok c(1,2) e _ res(2)] True by auto
    next
      case False
      then have "shift_down_loop (length ps) arr S h x = Inr (arr, S, h)"
        using facts
        by (subst shift_down_loop.simps) (auto simp: hole_ok_read [OF ok] pick_child_eq [OF ok b, simplified])
      moreover have "sift_down (key_of S) ps h x = ps[h := x]"
        using False by (subst sift_down.simps) simp
      ultimately show ?thesis using sifted_stop [OF ok] by auto
    qed
  qed
qed

section \<open>A heap at rest\<close>

text \<open>
  The array and the nodes agree on which node is where (\<open>heap_shape\<close>); in addition the
  timeouts are in heap order (\<open>heap_rep\<close>).
\<close>

definition heap_shape :: "MinHeapHeader \<Rightarrow> tev_store \<Rightarrow> tptr list \<Rightarrow> bool" where
  "heap_shape H S ps \<longleftrightarrow>
     take (iNodeUsed H) (ppstTimeoutEventHeader H) = map Some ps \<and>
     iNodeUsed H = length ps \<and> iNodeCapacity H = length (ppstTimeoutEventHeader H) \<and>
     int (iNodeCapacity H) \<le> INT_MAX \<and> distinct ps \<and>
     (\<forall>i < length ps. ps ! i \<noteq> NULL \<and> (\<exists>e. S (ps ! i) = Some e \<and> iHeapIndex e = int i))"

definition heap_rep :: "MinHeapHeader \<Rightarrow> tev_store \<Rightarrow> tptr list \<Rightarrow> bool" where
  "heap_rep H S ps \<longleftrightarrow> heap_shape H S ps \<and> heap_ordered (key_of S) ps"

text \<open>An executable form of the relation, for concrete heaps.\<close>

lemma heap_shape_code [code]:
  "heap_shape H S ps \<longleftrightarrow>
     take (iNodeUsed H) (ppstTimeoutEventHeader H) = map Some ps \<and>
     iNodeUsed H = length ps \<and> iNodeCapacity H = length (ppstTimeoutEventHeader H) \<and>
     int (iNodeCapacity H) \<le> INT_MAX \<and> distinct ps \<and>
     (\<forall>i < length ps. ps ! i \<noteq> NULL \<and> map_option iHeapIndex (S (ps ! i)) = Some (int i))"
  by (auto simp: heap_shape_def)

lemma heap_rep_shape: "heap_rep H S ps \<Longrightarrow> heap_shape H S ps"
  by (simp add: heap_rep_def)

lemma heap_shapeD:
  assumes "heap_shape H S ps"
  shows "iNodeUsed H = length ps" "iNodeCapacity H = length (ppstTimeoutEventHeader H)"
    "length ps \<le> length (ppstTimeoutEventHeader H)" "distinct ps" "int (length ps) \<le> INT_MAX"
    "int (length (ppstTimeoutEventHeader H)) \<le> INT_MAX"
proof -
  show "iNodeUsed H = length ps" "iNodeCapacity H = length (ppstTimeoutEventHeader H)" "distinct ps"
    "int (length (ppstTimeoutEventHeader H)) \<le> INT_MAX"
    using assms by (auto simp: heap_shape_def)
  have "length (take (iNodeUsed H) (ppstTimeoutEventHeader H)) = length (map Some ps)"
    using assms unfolding heap_shape_def by metis
  then show "length ps \<le> length (ppstTimeoutEventHeader H)"
    using assms by (auto simp: heap_shape_def)
  then show "int (length ps) \<le> INT_MAX"
    using assms by (simp add: heap_shape_def)
qed

lemma heap_repD:
  assumes "heap_rep H S ps"
  shows "iNodeUsed H = length ps" "iNodeCapacity H = length (ppstTimeoutEventHeader H)"
    "length ps \<le> length (ppstTimeoutEventHeader H)" "distinct ps" "heap_ordered (key_of S) ps"
    "int (length ps) \<le> INT_MAX"
  using assms heap_shapeD [OF heap_rep_shape [OF assms]] by (simp_all add: heap_rep_def)

lemma heap_shape_cell:
  assumes "heap_shape H S ps" and "i < length ps"
  shows "ppstTimeoutEventHeader H ! i = Some (ps ! i)" "ps ! i \<noteq> NULL"
    "\<exists>e. S (ps ! i) = Some e \<and> iHeapIndex e = int i"
proof -
  have "take (iNodeUsed H) (ppstTimeoutEventHeader H) = map Some ps"
    using assms(1) unfolding heap_shape_def by blast
  then have "take (iNodeUsed H) (ppstTimeoutEventHeader H) ! i = map Some ps ! i" by (simp only:)
  then show "ppstTimeoutEventHeader H ! i = Some (ps ! i)"
    using assms heap_shapeD(1) [OF assms(1)] by simp
  show "ps ! i \<noteq> NULL" "\<exists>e. S (ps ! i) = Some e \<and> iHeapIndex e = int i"
    using assms by (auto simp: heap_shape_def)
qed

lemmas heap_rep_cell = heap_shape_cell [OF heap_rep_shape]

lemma heap_shape_node:
  assumes "heap_shape H S ps" and "p \<in> set ps"
  shows "p \<noteq> NULL" "\<exists>e. S p = Some e \<and> 0 \<le> iHeapIndex e \<and> iHeapIndex e < int (length ps)
           \<and> ps ! nat (iHeapIndex e) = p"
proof -
  obtain i where i: "i < length ps" "ps ! i = p" using assms(2) by (auto simp: in_set_conv_nth)
  then show "p \<noteq> NULL" using heap_shape_cell(2) [OF assms(1) i(1)] by simp
  show "\<exists>e. S p = Some e \<and> 0 \<le> iHeapIndex e \<and> iHeapIndex e < int (length ps)
           \<and> ps ! nat (iHeapIndex e) = p"
    using heap_shape_cell(3) [OF assms(1) i(1)] i by auto
qed

lemmas heap_rep_node = heap_shape_node [OF heap_rep_shape]

text \<open>Only the nodes of the heap matter.\<close>

lemma heap_rep_frame:
  assumes "heap_rep H S ps" and "\<And>p. p \<in> set ps \<Longrightarrow> S' p = S p"
  shows "heap_rep H S' ps"
proof -
  have "heap_ordered (key_of S') ps"
    by (rule heap_ordered_cong [OF heap_repD(5) [OF assms(1)]]) (simp add: key_of_def assms(2))
  then show ?thesis using assms by (auto simp: heap_rep_def heap_shape_def)
qed

lemma hole_ok_heap:
  assumes "heap_shape H S ps" and "h < length ps" and "x \<in> set ps"
  shows "hole_ok (ppstTimeoutEventHeader H) S ps h x"
  using assms heap_shapeD [OF assms(1)] heap_shape_cell [OF assms(1)] heap_shape_node [OF assms(1,3)]
  unfolding hole_ok_def by (auto simp: nth_eq_iff_index_eq)

text \<open>
  Putting the element into the final hole.  \<open>n\<close> cells are kept: all of them after a push,
  all but the last after a removal, where the last cell still holds the element.
\<close>

lemma place_rep:
  assumes sift: "sifted (arr', S', h') arr S ps h x qs"
    and n: "n \<le> length qs" "\<And>i. i < n \<Longrightarrow> qs ! i = x \<Longrightarrow> i = h'"
    and dist: "distinct (take n qs)" and ord: "heap_ordered (key_of S) (take n qs)"
    and cap: "int (length arr) \<le> INT_MAX"
  shows "\<exists>S2. place arr' S' h' x = Inr (arr'[h' := Some x], S2) \<and> same_nodes S S2
      \<and> (\<forall>q. q \<notin> insert x (others ps h) \<longrightarrow> S2 q = S q)
      \<and> length arr' = length arr \<and> heap_rep (H\<lparr>ppstTimeoutEventHeader := arr'[h' := Some x],
            iNodeUsed := n, iNodeCapacity := length arr\<rparr>) S2 (take n qs)"
proof -
  from sift obtain ps' where ok: "hole_ok arr' S' ps' h' x" and qs: "qs = ps'[h' := x]"
    and len: "length ps' = length ps" "length arr' = length arr"
    and oth: "others ps' h' = others ps h" and sn: "same_nodes S S'"
    and fr: "\<And>q. q \<notin> others ps h \<Longrightarrow> S' q = S q"
    by (auto simp: sifted_def)
  obtain e where e: "S' x = Some e" using hole_okD(4) [OF ok] by blast
  let ?S2 = "S'(x \<mapsto> e\<lparr>iHeapIndex := int h'\<rparr>)" and ?arr = "arr'[h' := Some x]"
  have h': "h' < length ps'" "length ps' \<le> length arr'" "x \<noteq> NULL" using hole_okD [OF ok] by auto
  have sn2: "same_nodes S ?S2" by (rule same_nodes_trans [OF sn]) (rule same_nodes_upd, rule e)
  have key: "key_of ?S2 = key_of S" using same_nodes_key [OF sn2] by blast
  have cells: "?arr ! i = Some (qs ! i)" if "i < length ps'" for i
    using that h' hole_ok_cell(1) [OF ok] by (cases "i = h'") (auto simp: qs)
  have nodes: "qs ! i \<noteq> NULL \<and> (\<exists>e'. ?S2 (qs ! i) = Some e' \<and> iHeapIndex e' = int i)"
    if i: "i < n" for i
  proof (cases "i = h'")
    case True
    then show ?thesis using h' by (simp add: qs)
  next
    case False
    then have "qs ! i \<noteq> x" using n(2) [OF i] by blast
    moreover have "i < length ps'" "qs ! i = ps' ! i" using i n(1) False by (auto simp: qs)
    ultimately show ?thesis using hole_ok_cell(2,3) [OF ok _ False] by simp
  qed
  have "place arr' S' h' x = Inr (?arr, ?S2)"
    using e h' by (simp add: place_def)
  moreover have "take n ?arr = map Some (take n qs)"
    using cells n(1) h' by (intro nth_equalityI) (auto simp: qs)
  then have "heap_rep (H\<lparr>ppstTimeoutEventHeader := ?arr, iNodeUsed := n,
        iNodeCapacity := length arr\<rparr>) ?S2 (take n qs)"
    using nodes dist ord n(1) h' len cap unfolding heap_rep_def heap_shape_def key by (auto simp: qs)
  ultimately show ?thesis using sn2 fr len(2) by auto
qed

lemma hdr_capacity:
  "iNodeCapacity H = length (ppstTimeoutEventHeader H) \<Longrightarrow>
     H\<lparr>ppstTimeoutEventHeader := a, iNodeUsed := n,
       iNodeCapacity := length (ppstTimeoutEventHeader H)\<rparr> = H\<lparr>ppstTimeoutEventHeader := a, iNodeUsed := n\<rparr>"
  by (cases H) simp

section \<open>Push\<close>

text \<open>The capacity of an array that held \<open>n\<close> nodes and had to make room for one more.\<close>

definition grown_capacity :: "nat \<Rightarrow> nat \<Rightarrow> nat" where
  "grown_capacity cap n = (if n < cap then cap else if cap \<noteq> 0 then max (2 * cap) (n + 1) else max MINHEAP_INIT_SIZE (n + 1))"

lemma grown_capacity_ge: "cap \<le> grown_capacity cap n" "n < cap \<Longrightarrow> grown_capacity cap n = cap"
  by (auto simp: grown_capacity_def max_def)

lemma heap_rep_grow:
  assumes rep: "heap_rep H S ps" and n: "iNodeCapacity H \<le> n" "int n \<le> INT_MAX"
  shows "heap_rep (grow_array H n) S ps"
proof -
  let ?arr = "ppstTimeoutEventHeader H"
  have len: "length ps \<le> length ?arr" "length ?arr \<le> n" "iNodeUsed H = length ps"
    using heap_repD [OF rep] n by auto
  have "take (iNodeUsed H) ?arr = map Some ps" using rep unfolding heap_rep_def heap_shape_def by blast
  then have "take (length ps) (take n ?arr @ replicate (n - length ?arr) None) = map Some ps"
    using len by simp
  then show ?thesis using rep n len unfolding heap_rep_def heap_shape_def grow_array_def by simp
qed

lemma ReserveSize_rep:
  assumes st: "hs_hdr st = Some H" and rep: "heap_rep H (hs_tevs st) ps"
    and room: "mem \<or> length ps < iNodeCapacity H" and cap: "2 * int (iNodeCapacity H) \<le> INT_MAX"
  shows "\<exists>H'. MinheapReserveSize mem st (int (length ps) + 1) = Inr (RET_SUCC, st\<lparr>hs_hdr := Some H'\<rparr>)
           \<and> heap_rep H' (hs_tevs st) ps \<and> length ps < iNodeCapacity H'
           \<and> iNodeCapacity H' = grown_capacity (iNodeCapacity H) (length ps)"
proof (cases "length ps < iNodeCapacity H")
  case True
  then have "MinheapReserveSize mem st (int (length ps) + 1) = Inr (RET_SUCC, st\<lparr>hs_hdr := Some H\<rparr>)"
    using st by (cases st) (simp add: MinheapReserveSize_def)
  moreover have "grown_capacity (iNodeCapacity H) (length ps) = iNodeCapacity H"
    using True by (simp add: grown_capacity_def)
  ultimately show ?thesis using True rep by metis
next
  case False
  let ?arr = "ppstTimeoutEventHeader H" and ?n = "length ps"
  have full: "iNodeCapacity H = ?n" "length ?arr = ?n" "mem"
    using False heap_repD [OF rep] room by auto
  let ?sz = "if iNodeCapacity H \<noteq> 0 then int (iNodeCapacity H) * 2 else int MINHEAP_INIT_SIZE"
  let ?new = "nat (if ?sz < int ?n + 1 then int ?n + 1 else ?sz)"
  have new: "?n < ?new" by auto
  have "MinheapReserveSize mem st (int ?n + 1) = Inr (RET_SUCC, st\<lparr>hs_hdr := Some (grow_array H ?new)\<rparr>)"
    using st full cap by (auto simp: MinheapReserveSize_def INT_MAX_def Let_def)
  moreover have "heap_rep (grow_array H ?new) (hs_tevs st) ps"
    by (rule heap_rep_grow [OF rep]) (use full cap in \<open>auto simp: INT_MAX_def MINHEAP_INIT_SIZE_def\<close>)
  moreover have "?n < iNodeCapacity (grow_array H ?new)" using new by (simp add: grow_array_def)
  moreover have "iNodeCapacity (grow_array H ?new) = grown_capacity (iNodeCapacity H) ?n"
    using full(1) by (cases ps) (auto simp: grow_array_def grown_capacity_def MINHEAP_INIT_SIZE_def max_def)
  ultimately show ?thesis by blast
qed

lemma hole_ok_snoc:
  assumes rep: "heap_rep H S ps" and "length ps < iNodeCapacity H" "x \<noteq> NULL" "S x = Some e"
  shows "hole_ok (ppstTimeoutEventHeader H) S (ps @ [x]) (length ps) x"
  using assms heap_repD [OF rep] heap_rep_cell [OF rep]
  unfolding hole_ok_def by (auto simp: nth_append nth_eq_iff_index_eq)

lemma others_snoc: "others (ps @ [x]) (length ps) = set ps"
  unfolding others_def set_conv_nth
  by (rule Collect_cong, rule iff_exI) (auto simp: nth_append)

text \<open>Pushing an allocated node that is not in the heap.\<close>

lemma Push_rep:
  assumes st: "hs_hdr st = Some H" and rep: "heap_rep H (hs_tevs st) ps"
    and room: "mem \<or> length ps < iNodeCapacity H" and cap: "2 * int (iNodeCapacity H) \<le> INT_MAX"
    and x: "x \<noteq> NULL" "x \<notin> set ps" "hs_tevs st x = Some e"
  shows "\<exists>H' S' qs. MinHeapPush mem st x = Inr (RET_SUCC, \<lparr>hs_hdr = Some H', hs_tevs = S'\<rparr>)
     \<and> heap_rep H' S' qs \<and> mset qs = add_mset x (mset ps) \<and> same_nodes (hs_tevs st) S'
     \<and> (\<forall>q. q \<notin> insert x (set ps) \<longrightarrow> S' q = hs_tevs st q)
     \<and> qs = sift_up (key_of (hs_tevs st)) (ps @ [x]) (length ps) x
     \<and> iNodeCapacity H' = grown_capacity (iNodeCapacity H) (length ps)"
proof -
  let ?S = "hs_tevs st" and ?n = "length ps"
  obtain H1 where H1: "MinheapReserveSize mem st (int ?n + 1) = Inr (RET_SUCC, st\<lparr>hs_hdr := Some H1\<rparr>)"
    "heap_rep H1 ?S ps" "?n < iNodeCapacity H1" "iNodeCapacity H1 = grown_capacity (iNodeCapacity H) ?n"
    using ReserveSize_rep [OF st rep room cap] by blast
  let ?arr = "ppstTimeoutEventHeader H1" and ?qs = "sift_up (key_of ?S) (ps @ [x]) ?n x"
  have ok: "hole_ok ?arr ?S (ps @ [x]) ?n x" by (rule hole_ok_snoc [OF H1(2,3) x(1,3)])
  obtain arr' S' h' where loop: "shift_up_loop ?arr ?S ?n x = Inr (arr', S', h')"
    and sift: "sifted (arr', S', h') ?arr ?S (ps @ [x]) ?n x ?qs"
    using shift_up_loop_sifts [OF ok] by (metis prod_cases3)
  have ms: "mset ?qs = add_mset x (mset ps)" by (simp add: mset_sift_up)
  then have dist: "distinct ?qs"
    using x(2) heap_repD(4) [OF rep] by (metis distinct.simps(2) mset.simps(2) mset_eq_imp_distinct_iff set_mset_mset)
  have ord: "heap_ordered (key_of ?S) ?qs"
    by (intro sift_up_heap heap_ordered_snoc heap_repD(5) [OF rep])
  have at: "i = h'" if "i < length ?qs" "?qs ! i = x" for i
    using that nth_eq_iff_index_eq [OF dist that(1) sifted_at(1) [OF sift]] sifted_at(2) [OF sift]
    by simp
  have tk: "take (length ?qs) ?qs = ?qs" by simp
  obtain S2 where pl: "place arr' S' h' x = Inr (arr'[h' := Some x], S2)" "same_nodes ?S S2"
    "\<forall>q. q \<notin> insert x (others (ps @ [x]) ?n) \<longrightarrow> S2 q = ?S q"
    "heap_rep (H1\<lparr>ppstTimeoutEventHeader := arr'[h' := Some x], iNodeUsed := length ?qs,
        iNodeCapacity := length ?arr\<rparr>) S2 ?qs"
    using place_rep [OF sift order_refl at, of H1] dist ord heap_shapeD(6) [OF heap_rep_shape [OF H1(2)]] unfolding tk by blast
  have oth: "others (ps @ [x]) ?n = set ps" by (rule others_snoc)
  let ?H' = "H1\<lparr>ppstTimeoutEventHeader := arr'[h' := Some x], iNodeUsed := iNodeUsed H1 + 1\<rparr>"
  have size: "c_int (int ?n + 1) = Inr (int ?n + 1)"
    using heap_repD(1-3) [OF rep] cap by (simp add: INT_MAX_def)
  have up: "MinheapShiftUp (st\<lparr>hs_hdr := Some H1\<rparr>) ?n x =
      Inr (RET_SUCC, \<lparr>hs_hdr = Some (H1\<lparr>ppstTimeoutEventHeader := arr'[h' := Some x]\<rparr>), hs_tevs = S2\<rparr>)"
    using x(1) loop pl(1) by (simp add: MinheapShiftUp_def)
  have "MinHeapPush mem st x = Inr (RET_SUCC, \<lparr>hs_hdr = Some ?H', hs_tevs = S2\<rparr>)"
    using st x(1) H1(1) heap_repD(1) [OF rep] up
    by (simp add: MinHeapPush_def bump_used_def size)
  moreover have "heap_rep ?H' S2 ?qs"
    using pl(4) heap_repD(1) [OF H1(2)] by (simp add: hdr_capacity [OF heap_repD(2) [OF H1(2)]])
  moreover have "\<forall>q. q \<notin> insert x (set ps) \<longrightarrow> S2 q = ?S q" using pl(3) oth by simp
  moreover have "iNodeCapacity ?H' = grown_capacity (iNodeCapacity H) ?n" using H1(4) by simp
  ultimately show ?thesis using ms pl(2) by blast
qed

section \<open>Removal\<close>

text \<open>
  After a sift loop has moved the last element towards position \<open>h\<close>, the heap without its
  last cell has lost exactly the element that was at \<open>h\<close>.
\<close>

lemma remove_rep:
  assumes rep: "heap_shape H S ps" and h: "h < length ps" and x: "x = ps ! (length ps - 1)"
    and sift: "sifted (arr', S', h') (ppstTimeoutEventHeader H) S ps h x qs"
    and ord: "heap_ordered (key_of S) qs" and ms: "mset qs = mset (ps[h := x])"
    and lst: "qs ! (length ps - 1) = x"
  shows "\<exists>S2. place arr' S' h' x = Inr (arr'[h' := Some x], S2) \<and> same_nodes S S2
      \<and> (\<forall>q. q \<notin> set ps \<longrightarrow> S2 q = S q) \<and> mset (butlast qs) = mset ps - {#ps ! h#}
      \<and> heap_rep (H\<lparr>ppstTimeoutEventHeader := arr'[h' := Some x], iNodeUsed := length ps - 1\<rparr>) S2 (butlast qs)"
proof -
  let ?n = "length ps - 1"
  have len: "length qs = length ps" using sifted_at(3) [OF sift] .
  have ne: "qs \<noteq> []" using len h by auto
  have lq: "last qs = x" using lst len ne by (simp add: last_conv_nth)
  have bl: "butlast qs = take ?n qs" by (simp add: butlast_conv_take len)
  have ms': "mset (butlast qs) = mset ps - {#ps ! h#}" by (rule mset_drop_last [OF ne lq ms h])
  have "mset ps = add_mset (ps ! h) (mset (butlast qs))"
    using ms' h by (simp add: insert_DiffM2 nth_mem_mset)
  then have "distinct (ps ! h # butlast qs)"
    using heap_shapeD(4) [OF rep] mset_eq_imp_distinct_iff [of ps "ps ! h # butlast qs"] by simp
  then have dist: "distinct (butlast qs)" and out: "ps ! h \<notin> set (butlast qs)" by simp_all
  have at: "i = h'" if i: "i < ?n" "qs ! i = x" for i
  proof (cases "h = ?n")
    case True
    then have "x \<notin> set (butlast qs)" using out x by simp
    then show ?thesis using i len by (auto simp: bl in_set_conv_nth)
  next
    case False
    then have "h' \<noteq> ?n" using sifted_at(4) [OF sift] x by auto
    then have "h' < ?n" using sifted_at(1) [OF sift] len by simp
    then have "take ?n qs ! i = take ?n qs ! h'" using i sifted_at(2) [OF sift] by simp
    then show ?thesis
      using dist i(1) \<open>h' < ?n\<close> len unfolding bl by (simp add: nth_eq_iff_index_eq del: nth_take)
  qed
  have oth: "insert x (others ps h) \<subseteq> set ps" using h x by (auto simp: others_def)
  have n: "?n \<le> length qs" using len by simp
  obtain S2 where pl: "place arr' S' h' x = Inr (arr'[h' := Some x], S2)" "same_nodes S S2"
    "\<forall>q. q \<notin> insert x (others ps h) \<longrightarrow> S2 q = S q"
    "heap_rep (H\<lparr>ppstTimeoutEventHeader := arr'[h' := Some x], iNodeUsed := ?n,
        iNodeCapacity := length (ppstTimeoutEventHeader H)\<rparr>) S2 (butlast qs)"
    using place_rep [OF sift n at dist [unfolded bl] heap_ordered_take [OF ord] heap_shapeD(6) [OF rep], of H]
    unfolding bl by blast
  from pl ms' oth show ?thesis
    unfolding hdr_capacity [OF heap_shapeD(2) [OF rep]] by (intro exI [of _ S2]) auto
qed

lemma ShiftDown_rep:
  assumes st: "hs_hdr st = Some H" and rep: "heap_shape H (hs_tevs st) ps" and h: "h < length ps"
    and x: "x = ps ! (length ps - 1)" and dok: "down_ok (key_of (hs_tevs st)) ps h x"
  shows "\<exists>arr S2 qs. MinheapShiftDown st h x =
       Inr (RET_SUCC, \<lparr>hs_hdr = Some (H\<lparr>ppstTimeoutEventHeader := arr\<rparr>), hs_tevs = S2\<rparr>)
     \<and> same_nodes (hs_tevs st) S2 \<and> (\<forall>q. q \<notin> set ps \<longrightarrow> S2 q = hs_tevs st q)
     \<and> mset qs = mset ps - {#ps ! h#} \<and> qs = butlast (sift_down (key_of (hs_tevs st)) ps h x)
     \<and> heap_rep (H\<lparr>ppstTimeoutEventHeader := arr, iNodeUsed := length ps - 1\<rparr>) S2 qs"
proof -
  let ?S = "hs_tevs st" and ?arr = "ppstTimeoutEventHeader H"
  let ?qs = "sift_down (key_of ?S) ps h x"
  have xs: "x \<in> set ps" using h x by simp
  have ok: "hole_ok ?arr ?S ps h x" by (rule hole_ok_heap [OF rep h xs])
  obtain arr' S' h' where loop: "shift_down_loop (length ps) ?arr ?S h x = Inr (arr', S', h')"
    and sift: "sifted (arr', S', h') ?arr ?S ps h x ?qs"
    using shift_down_loop_sifts [OF ok] by (metis prod_cases3)
  have lst: "?qs ! (length ps - 1) = x"
  proof (cases "h = length ps - 1")
    case True
    then have "\<not> 2 * (h + 1) \<le> length ps" using h by simp
    then show ?thesis using True h by (subst sift_down.simps) simp
  next
    case False
    then show ?thesis using h x sift_down_last [of h ps x "key_of ?S"] by simp
  qed
  have "MinheapShiftDown st h x = cbind (place arr' S' h' x) (\<lambda>(arr', S').
      Inr (RET_SUCC, \<lparr>hs_hdr = Some (H\<lparr>ppstTimeoutEventHeader := arr'\<rparr>), hs_tevs = S'\<rparr>))"
    using st loop heap_shapeD(1) [OF rep] heap_shape_node(1) [OF rep xs]
    by (simp add: MinheapShiftDown_def)
  moreover obtain S2 where "place arr' S' h' x = Inr (arr'[h' := Some x], S2)" "same_nodes ?S S2"
    "\<forall>q. q \<notin> set ps \<longrightarrow> S2 q = ?S q" "mset (butlast ?qs) = mset ps - {#ps ! h#}"
    "heap_rep (H\<lparr>ppstTimeoutEventHeader := arr'[h' := Some x], iNodeUsed := length ps - 1\<rparr>) S2 (butlast ?qs)"
    using remove_rep [OF rep h x sift sift_down_heap [OF dok] mset_sift_down [OF h] lst] by blast
  ultimately show ?thesis
    by (intro exI [of _ "arr'[h' := Some x]"] exI [of _ S2] exI [of _ "butlast ?qs"]) simp
qed

lemma ShiftUp_rep:
  assumes st: "hs_hdr st = Some H" and rep: "heap_shape H (hs_tevs st) ps" and h: "h < length ps - 1"
    and x: "x = ps ! (length ps - 1)" and uok: "up_ok (key_of (hs_tevs st)) ps h x"
  shows "\<exists>arr S2 qs. MinheapShiftUp st h x =
       Inr (RET_SUCC, \<lparr>hs_hdr = Some (H\<lparr>ppstTimeoutEventHeader := arr\<rparr>), hs_tevs = S2\<rparr>)
     \<and> same_nodes (hs_tevs st) S2 \<and> (\<forall>q. q \<notin> set ps \<longrightarrow> S2 q = hs_tevs st q)
     \<and> mset qs = mset ps - {#ps ! h#}
     \<and> heap_rep (H\<lparr>ppstTimeoutEventHeader := arr, iNodeUsed := length ps - 1\<rparr>) S2 qs"
proof -
  let ?S = "hs_tevs st" and ?arr = "ppstTimeoutEventHeader H"
  let ?qs = "sift_up (key_of ?S) ps h x"
  have h': "h < length ps" using h by simp
  then have xs: "x \<in> set ps" using x by simp
  have ok: "hole_ok ?arr ?S ps h x" by (rule hole_ok_heap [OF rep h' xs])
  obtain arr' S' h2 where loop: "shift_up_loop ?arr ?S h x = Inr (arr', S', h2)"
    and sift: "sifted (arr', S', h2) ?arr ?S ps h x ?qs"
    using shift_up_loop_sifts [OF ok] by (metis prod_cases3)
  have "MinheapShiftUp st h x = cbind (place arr' S' h2 x) (\<lambda>(arr', S').
      Inr (RET_SUCC, \<lparr>hs_hdr = Some (H\<lparr>ppstTimeoutEventHeader := arr'\<rparr>), hs_tevs = S'\<rparr>))"
    using st loop heap_shape_node(1) [OF rep xs] by (simp add: MinheapShiftUp_def)
  moreover have "?qs ! (length ps - 1) = x" using h x by (simp add: sift_up_beyond)
  moreover from this obtain S2 where "place arr' S' h2 x = Inr (arr'[h2 := Some x], S2)" "same_nodes ?S S2"
    "\<forall>q. q \<notin> set ps \<longrightarrow> S2 q = ?S q" "mset (butlast ?qs) = mset ps - {#ps ! h#}"
    "heap_rep (H\<lparr>ppstTimeoutEventHeader := arr'[h2 := Some x], iNodeUsed := length ps - 1\<rparr>) S2 (butlast ?qs)"
    using remove_rep [OF rep h' x sift sift_up_heap [OF uok] mset_sift_up [OF h']] by blast
  ultimately show ?thesis
    by (intro exI [of _ "arr'[h2 := Some x]"] exI [of _ S2] exI [of _ "butlast ?qs"]) simp
qed

section \<open>Top, pop and erase\<close>

lemma GetTop_rep:
  assumes "heap_rep H S ps"
  shows "MinheapGetTopElement (Some H) = Inr (if ps = [] then NULL else ps ! 0)"
proof (cases "ps = []")
  case True
  then show ?thesis using heap_repD(1) [OF assms] by (simp add: MinheapGetTopElement_def)
next
  case False
  then have "0 < length (ppstTimeoutEventHeader H)" using heap_repD(3) [OF assms] by auto
  then show ?thesis
    using False heap_repD(1) [OF assms] heap_rep_cell(1) [OF assms, of 0]
    by (simp add: MinheapGetTopElement_def read_cell_def)
qed

lemma top_le:
  assumes "heap_rep H S ps" and "p \<in> set ps"
  shows "key_of S (ps ! 0) \<le> key_of S p"
  using assms heap_ordered_root [OF heap_repD(5) [OF assms(1)]] by (auto simp: in_set_conv_nth)

lemma read_last:
  assumes "heap_shape H S ps" and "ps \<noteq> []"
  shows "read_cell (ppstTimeoutEventHeader H) (int (iNodeUsed H) - 1) = Inr (ps ! (length ps - 1))"
proof -
  have eq: "int (iNodeUsed H) - 1 = int (length ps - 1)"
    using assms heap_shapeD(1) [OF assms(1)] by (cases ps) auto
  have lt: "length ps - 1 < length ps" using assms(2) by simp
  then show ?thesis
    unfolding eq using heap_shape_cell(1) [OF assms(1) lt] heap_shapeD(3) [OF assms(1)]
    by (intro read_cell_Some) auto
qed

lemma Pop_empty:
  "hs_hdr st = Some H \<Longrightarrow> heap_rep H (hs_tevs st) [] \<Longrightarrow> MinheapPop st = Inr (NULL, st)"
  using heap_repD(1) [of H "hs_tevs st" "[]"] by (simp add: MinheapPop_def)

lemma heap_rep_mset_subset: "mset qs = mset ps - {#p#} \<Longrightarrow> set qs \<subseteq> set ps"
  by (metis in_diffD set_mset_mset subsetI)

lemma mset_remove_notin:
  assumes "distinct ps" "p \<in> set ps" "mset qs = mset ps - {#p#}"
  shows "p \<notin> set qs"
proof -
  have "mset ps = mset (p # qs)" using assms(2,3) by simp
  then have "distinct (p # qs)" using assms(1) mset_eq_imp_distinct_iff by blast
  then show ?thesis by simp
qed

text \<open>Resetting the index of a removed node leaves the heap alone.\<close>

lemma heap_rep_reset:
  assumes rep: "heap_rep H S qs" and p: "p \<notin> set qs" "S p = Some e"
  shows "heap_rep H (S(p \<mapsto> e\<lparr>iHeapIndex := -1\<rparr>)) qs"
  by (rule heap_rep_frame [OF rep]) (use p in auto)

lemma Pop_rep:
  assumes st: "hs_hdr st = Some H" and rep: "heap_rep H (hs_tevs st) ps" and ne: "ps \<noteq> []"
  shows "\<exists>H' S' qs e. MinheapPop st = Inr (ps ! 0, \<lparr>hs_hdr = Some H', hs_tevs = S'\<rparr>)
     \<and> heap_rep H' S' qs \<and> mset qs = mset ps - {#ps ! 0#} \<and> same_nodes (hs_tevs st) S'
     \<and> (\<forall>q. q \<notin> set ps \<longrightarrow> S' q = hs_tevs st q) \<and> S' (ps ! 0) = Some e \<and> iHeapIndex e = -1
     \<and> qs = butlast (sift_down (key_of (hs_tevs st)) ps 0 (ps ! (length ps - 1))) \<and> iNodeCapacity H' = iNodeCapacity H"
proof -
  let ?S = "hs_tevs st" and ?x = "ps ! (length ps - 1)"
  have len: "0 < length ps" using ne by simp
  have dok: "down_ok (key_of ?S) ps 0 ?x"
    by (rule heap_ordered_replace_down [OF heap_repD(5) [OF rep] len]) simp
  obtain arr S2 qs where sd: "MinheapShiftDown st 0 ?x =
       Inr (RET_SUCC, \<lparr>hs_hdr = Some (H\<lparr>ppstTimeoutEventHeader := arr\<rparr>), hs_tevs = S2\<rparr>)"
    and sn: "same_nodes ?S S2" and fr: "\<forall>q. q \<notin> set ps \<longrightarrow> S2 q = ?S q"
    and ms: "mset qs = mset ps - {#ps ! 0#}"
    and ref: "qs = butlast (sift_down (key_of ?S) ps 0 ?x)"
    and rep2: "heap_rep (H\<lparr>ppstTimeoutEventHeader := arr, iNodeUsed := length ps - 1\<rparr>) S2 qs"
    using ShiftDown_rep [OF st heap_rep_shape [OF rep] len refl dok] by blast
  have top: "ps ! 0 \<in> set ps" "?x \<in> set ps" using len by simp_all
  have nz: "ps ! 0 \<noteq> NULL" "?x \<noteq> NULL" using heap_rep_node(1) [OF rep] top by blast+
  obtain e0 where "?S (ps ! 0) = Some e0" using heap_rep_node(2) [OF rep top(1)] by blast
  then obtain i where e: "S2 (ps ! 0) = Some (e0\<lparr>iHeapIndex := i\<rparr>)"
    using same_nodes_Some [OF sn] by blast
  let ?e = "e0\<lparr>iHeapIndex := -1\<rparr>"
  let ?S' = "S2(ps ! 0 \<mapsto> ?e)"
  let ?H' = "H\<lparr>ppstTimeoutEventHeader := arr, iNodeUsed := iNodeUsed H - 1\<rparr>"
  have rd0: "read_cell (ppstTimeoutEventHeader H) 0 = Inr (ps ! 0)"
    using heap_rep_cell(1) [OF rep len] heap_repD(3) [OF rep] len by (auto simp: read_cell_def)
  have "MinheapPop st = Inr (ps ! 0, \<lparr>hs_hdr = Some ?H', hs_tevs = ?S'\<rparr>)"
    using st ne rd0 read_last [OF heap_rep_shape [OF rep] ne] sd nz e heap_repD(1) [OF rep]
    by (simp add: MinheapPop_def drop_used_def)
  moreover have "heap_rep ?H' ?S' qs"
    using heap_rep_reset [OF rep2 mset_remove_notin [OF heap_repD(4) [OF rep] top(1) ms] e] heap_repD(1) [OF rep]
    by simp
  moreover have "same_nodes ?S ?S'"
    using same_nodes_trans [OF sn same_nodes_upd [of S2 "ps ! 0" "e0\<lparr>iHeapIndex := i\<rparr>" "-1"]] e by simp
  moreover have "\<forall>q. q \<notin> set ps \<longrightarrow> ?S' q = ?S q" using fr top(1) by auto
  ultimately show ?thesis
    using ms ref by (intro exI [of _ ?H'] exI [of _ ?S'] exI [of _ qs] exI [of _ ?e]) simp
qed

text \<open>
  \<open>MinheapErase\<close> chooses its branch by comparing the last element with the parent of the
  deleted position.
\<close>

definition erase_goes_up :: "tev_store \<Rightarrow> tptr list \<Rightarrow> nat \<Rightarrow> bool" where
  "erase_goes_up S ps i \<longleftrightarrow>
     i \<noteq> 0 \<and> key_of S (ps ! (length ps - 1)) < key_of S (ps ! parent i)"

text \<open>In a heap of at most five nodes the last one is never below the wrong parent.\<close>

lemma few_nodes_erase_down:
  assumes rep: "heap_rep H S ps" and few: "length ps \<le> 5" and i: "i < length ps"
  shows "\<not> erase_goes_up S ps i"
proof
  assume up: "erase_goes_up S ps i"
  let ?n = "length ps - 1"
  have i0: "i \<noteq> 0" and lt: "key_of S (ps ! ?n) < key_of S (ps ! parent i)" using up by (simp_all add: erase_goes_up_def)
  have n0: "?n \<noteq> 0" "?n < length ps" using i i0 by auto
  have ord: "key_of S (ps ! parent j) \<le> key_of S (ps ! j)" if "j < length ps" "j \<noteq> 0" for j
    using heap_orderedD [OF heap_repD(5) [OF rep] that] by simp
  have "parent i = 0 \<or> parent i = parent ?n"
    using i few i0 by (auto simp: parent_def)
  then show False
  proof
    assume "parent i = 0"
    moreover have "key_of S (ps ! 0) \<le> key_of S (ps ! ?n)"
      using heap_ordered_root [OF heap_repD(5) [OF rep] n0(2)] by simp
    ultimately show False using lt by simp
  next
    assume "parent i = parent ?n"
    then show False using lt ord [OF n0(2,1)] by simp
  qed
qed

lemma erase_branch:
  assumes rep: "heap_shape H S ps" and i: "i < length ps"
  shows "erase_parent_greater (ppstTimeoutEventHeader H) S (int i) (ps ! (length ps - 1))
           = Inr (erase_goes_up S ps i)"
proof (cases "i = 0")
  case True
  then show ?thesis by (simp add: erase_goes_up_def erase_parent_greater_def)
next
  case False
  then have pi: "(int i - 1) div 2 = int (parent i)" by (simp add: parent_def of_nat_div of_nat_diff)
  have p: "parent i < length ps" using parent_less [OF False] i by simp
  have l: "length ps - 1 < length ps" using i by simp
  have rd: "read_cell (ppstTimeoutEventHeader H) (int (parent i)) = Inr (ps ! parent i)"
    using heap_shape_cell(1) [OF rep p] heap_shapeD(3) [OF rep] p by (intro read_cell_Some) auto
  show ?thesis
    using False rd heap_shape_cell(2,3) [OF rep p] heap_shape_cell(2,3) [OF rep l]
    by (auto simp: erase_parent_greater_def pi erase_goes_up_def)
qed

lemma nat_index_mod:
  assumes "heap_shape H S ps" and "i < length ps"
  shows "nat (int i mod 4294967296) = i"
  using assms heap_shapeD(5) [OF assms(1)] by (simp add: INT_MAX_def)

lemma Erase_absent:
  assumes "hs_hdr st = Some H" "p \<noteq> NULL" "hs_tevs st p = Some e" "iHeapIndex e = -1"
  shows "MinheapErase st p = Inr (RET_FAIL, st)"
  using assms by (simp add: MinheapErase_def)

text \<open>The branch that sifts down removes the node and resets its index.\<close>

lemma Erase_shape_down:
  assumes st: "hs_hdr st = Some H" and rep: "heap_shape H (hs_tevs st) ps" and i: "i < length ps"
    and br: "\<not> erase_goes_up (hs_tevs st) ps i" and dok: "down_ok (key_of (hs_tevs st)) ps i (ps ! (length ps - 1))"
  shows "\<exists>H' S' qs e. MinheapErase st (ps ! i) = Inr (RET_SUCC, \<lparr>hs_hdr = Some H', hs_tevs = S'\<rparr>)
     \<and> heap_rep H' S' qs \<and> mset qs = mset ps - {#ps ! i#} \<and> iNodeCapacity H' = iNodeCapacity H \<and> same_nodes (hs_tevs st) S'
     \<and> (\<forall>q. q \<notin> set ps \<longrightarrow> S' q = hs_tevs st q) \<and> S' (ps ! i) = Some e \<and> iHeapIndex e = -1"
proof -
  let ?S = "hs_tevs st" and ?x = "ps ! (length ps - 1)"
  obtain arr S2 qs where sd: "MinheapShiftDown st i ?x =
       Inr (RET_SUCC, \<lparr>hs_hdr = Some (H\<lparr>ppstTimeoutEventHeader := arr\<rparr>), hs_tevs = S2\<rparr>)"
    and sn: "same_nodes ?S S2" and fr: "\<forall>q. q \<notin> set ps \<longrightarrow> S2 q = ?S q"
    and ms: "mset qs = mset ps - {#ps ! i#}"
    and rep2: "heap_rep (H\<lparr>ppstTimeoutEventHeader := arr, iNodeUsed := length ps - 1\<rparr>) S2 qs"
    using ShiftDown_rep [OF st rep i refl dok] by blast
  have mem: "ps ! i \<in> set ps" "?x \<in> set ps" using i by simp_all
  have nz: "ps ! i \<noteq> NULL" "?x \<noteq> NULL" using heap_shape_node(1) [OF rep] mem by blast+
  obtain e0 where e0: "?S (ps ! i) = Some e0" "iHeapIndex e0 = int i"
    using heap_shape_cell(3) [OF rep i] by blast
  then obtain k where e: "S2 (ps ! i) = Some (e0\<lparr>iHeapIndex := k\<rparr>)"
    using same_nodes_Some [OF sn] by blast
  let ?e = "e0\<lparr>iHeapIndex := -1\<rparr>"
  let ?S' = "S2(ps ! i \<mapsto> ?e)"
  let ?H' = "H\<lparr>ppstTimeoutEventHeader := arr, iNodeUsed := iNodeUsed H - 1\<rparr>"
  have ne: "ps \<noteq> []" using i by auto
  have "MinheapErase st (ps ! i) = Inr (RET_SUCC, \<lparr>hs_hdr = Some ?H', hs_tevs = ?S'\<rparr>)"
    using st read_last [OF rep ne] sd nz e0 e br heap_shapeD(1) [OF rep]
    by (simp add: MinheapErase_def drop_used_def erase_branch [OF rep i, simplified One_nat_def]
        nat_index_mod [OF rep i] Let_def)
  moreover have "heap_rep ?H' ?S' qs"
    using heap_rep_reset [OF rep2 mset_remove_notin [OF heap_shapeD(4) [OF rep] mem(1) ms] e] heap_shapeD(1) [OF rep]
    by simp
  moreover have "same_nodes ?S ?S'"
    using same_nodes_trans [OF sn same_nodes_upd [of S2 "ps ! i" "e0\<lparr>iHeapIndex := k\<rparr>" "-1"]] e by simp
  moreover have "\<forall>q. q \<notin> set ps \<longrightarrow> ?S' q = ?S q" using fr mem(1) by auto
  ultimately show ?thesis using ms by (intro exI [of _ ?H'] exI [of _ ?S'] exI [of _ qs] exI [of _ ?e]) simp
qed

lemma Erase_down:
  assumes st: "hs_hdr st = Some H" and rep: "heap_rep H (hs_tevs st) ps" and i: "i < length ps"
    and br: "\<not> erase_goes_up (hs_tevs st) ps i"
  shows "\<exists>H' S' qs e. MinheapErase st (ps ! i) = Inr (RET_SUCC, \<lparr>hs_hdr = Some H', hs_tevs = S'\<rparr>)
     \<and> heap_rep H' S' qs \<and> mset qs = mset ps - {#ps ! i#} \<and> iNodeCapacity H' = iNodeCapacity H \<and> same_nodes (hs_tevs st) S'
     \<and> (\<forall>q. q \<notin> set ps \<longrightarrow> S' q = hs_tevs st q) \<and> S' (ps ! i) = Some e \<and> iHeapIndex e = -1"
proof (rule Erase_shape_down [OF st heap_rep_shape [OF rep] i br])
  show "down_ok (key_of (hs_tevs st)) ps i (ps ! (length ps - 1))"
    by (rule heap_ordered_replace_down [OF heap_repD(5) [OF rep] i])
       (use br in \<open>simp add: erase_goes_up_def not_less\<close>)
qed

text \<open>
  A timer whose timeout has been moved to a later time while it was in the heap (which is how a
  timer is restarted) can still be erased: only its own edges are out of order.
\<close>

lemma heap_shape_rekey:
  assumes "heap_shape H S ps" and "S p = Some e" and "iHeapIndex e' = iHeapIndex e"
  shows "heap_shape H (S(p \<mapsto> e')) ps"
  using assms unfolding heap_shape_def by fastforce

lemma Erase_rekeyed:
  assumes hd: "hs_hdr st = Some H" and rep: "heap_rep H S ps" and i: "i < length ps"
    and br: "\<not> erase_goes_up S ps i" and e: "S (ps ! i) = Some e"
    and e': "iHeapIndex e' = iHeapIndex e" "stTimeout e \<le> stTimeout e'"
    and st: "hs_tevs st = S(ps ! i \<mapsto> e')"
  shows "\<exists>H' S' qs e2. MinheapErase st (ps ! i) = Inr (RET_SUCC, \<lparr>hs_hdr = Some H', hs_tevs = S'\<rparr>)
     \<and> heap_rep H' S' qs \<and> mset qs = mset ps - {#ps ! i#} \<and> iNodeCapacity H' = iNodeCapacity H \<and> same_nodes (hs_tevs st) S'
     \<and> (\<forall>q. q \<notin> set ps \<longrightarrow> S' q = hs_tevs st q) \<and> S' (ps ! i) = Some e2 \<and> iHeapIndex e2 = -1"
proof (rule Erase_shape_down [OF hd _ i])
  let ?x = "ps ! (length ps - 1)"
  show shape: "heap_shape H (hs_tevs st) ps"
    unfolding st by (rule heap_shape_rekey [OF heap_rep_shape [OF rep] e e'(1)])
  have keys: "key_of (hs_tevs st) q = key_of S q" if "q \<noteq> ps ! i" for q
    using that by (simp add: st key_of_def)
  have le: "key_of S (ps ! i) \<le> key_of (hs_tevs st) (ps ! i)" using e e'(2) by (simp add: st key_of_def)
  have "down_ok (key_of S) ps i ?x"
    by (rule heap_ordered_replace_down [OF heap_repD(5) [OF rep] i])
       (use br in \<open>simp add: erase_goes_up_def not_less\<close>)
  then show "down_ok (key_of (hs_tevs st)) ps i ?x"
    by (rule down_ok_raise [where key = "key_of S", OF _ heap_repD(4) [OF rep] keys le])
  then show "\<not> erase_goes_up (hs_tevs st) ps i"
    using down_ok_above(1) by (fastforce simp: erase_goes_up_def)
qed

text \<open>
  The branch that sifts up also takes the node out of the array and keeps the order, but the
  index it resets is the one of the last element, which stays in the heap; the deleted node keeps
  its old index.
\<close>

lemma Erase_up:
  assumes st: "hs_hdr st = Some H" and rep: "heap_rep H (hs_tevs st) ps" and i: "i < length ps"
    and br: "erase_goes_up (hs_tevs st) ps i"
  shows "\<exists>H' S2 qs e. MinheapErase st (ps ! i) = Inr (RET_SUCC, \<lparr>hs_hdr = Some H',
        hs_tevs = S2(ps ! (length ps - 1) \<mapsto> e\<lparr>iHeapIndex := -1\<rparr>)\<rparr>)
     \<and> S2 (ps ! (length ps - 1)) = Some e \<and> heap_rep H' S2 qs \<and> mset qs = mset ps - {#ps ! i#}
     \<and> same_nodes (hs_tevs st) S2 \<and> i < length ps - 1
     \<and> (\<forall>q. q \<notin> set ps \<longrightarrow> S2 q = hs_tevs st q)"
proof -
  let ?S = "hs_tevs st" and ?x = "ps ! (length ps - 1)"
  have i0: "i \<noteq> 0" and lt: "key_of ?S ?x < key_of ?S (ps ! parent i)"
    using br by (simp_all add: erase_goes_up_def)
  have "i \<noteq> length ps - 1"
    using heap_orderedD [OF heap_repD(5) [OF rep] i i0] lt by auto
  then have il: "i < length ps - 1" using i by simp
  have uok: "up_ok (key_of ?S) ps i ?x"
    by (rule heap_ordered_replace_up [OF heap_repD(5) [OF rep] i i0 lt])
  obtain arr S2 qs where su: "MinheapShiftUp st i ?x =
       Inr (RET_SUCC, \<lparr>hs_hdr = Some (H\<lparr>ppstTimeoutEventHeader := arr\<rparr>), hs_tevs = S2\<rparr>)"
    and sn: "same_nodes ?S S2" and fr: "\<forall>q. q \<notin> set ps \<longrightarrow> S2 q = ?S q"
    and ms: "mset qs = mset ps - {#ps ! i#}"
    and rep2: "heap_rep (H\<lparr>ppstTimeoutEventHeader := arr, iNodeUsed := length ps - 1\<rparr>) S2 qs"
    using ShiftUp_rep [OF st heap_rep_shape [OF rep] il refl uok] by blast
  have mem: "ps ! i \<in> set ps" "?x \<in> set ps" using i by simp_all
  have nz: "ps ! i \<noteq> NULL" "?x \<noteq> NULL" using heap_rep_node(1) [OF rep] mem by blast+
  obtain e0 where e0: "?S (ps ! i) = Some e0" "iHeapIndex e0 = int i"
    using heap_rep_cell(3) [OF rep i] by blast
  obtain ex where ex: "S2 ?x = Some ex"
    using heap_rep_node(2) [OF rep mem(2)] same_nodes_Some [OF sn] by blast
  let ?H' = "H\<lparr>ppstTimeoutEventHeader := arr, iNodeUsed := iNodeUsed H - 1\<rparr>"
  have ne: "ps \<noteq> []" using i by auto
  have "MinheapErase st (ps ! i) =
      Inr (RET_SUCC, \<lparr>hs_hdr = Some ?H', hs_tevs = S2(?x \<mapsto> ex\<lparr>iHeapIndex := -1\<rparr>)\<rparr>)"
    using st read_last [OF heap_rep_shape [OF rep] ne] su nz e0 ex br heap_repD(1) [OF rep]
    by (simp add: MinheapErase_def drop_used_def erase_branch [OF heap_rep_shape [OF rep] i, simplified One_nat_def]
        nat_index_mod [OF heap_rep_shape [OF rep] i] Let_def)
  moreover have "heap_rep ?H' S2 qs" using rep2 heap_repD(1) [OF rep] by simp
  ultimately show ?thesis using ms sn fr ex il by blast
qed

end
