(* ===== verification/TimerQueue.thy ===== *)
theory TimerQueue
  imports MinHeapCorrect
begin

text \<open>
  What the reactor relies on when it uses the timer heap, as a locale: the earliest timer is at
  the top, a pop removes it, a push adds a timer, and no operation changes a timer's time.  Its
  client lemmas are about popping until nothing is left (which sorts) and popping what is due.
  The heap of \<open>min_heap.c\<close> is the interpretation, and the properties of the heap follow.
\<close>

locale timer_queue =
  fixes top :: "'s \<Rightarrow> 'p outcome"
    and pop :: "'s \<Rightarrow> ('p \<times> 's) outcome"
    and push :: "'s \<Rightarrow> 'p \<Rightarrow> (int \<times> 's) outcome"
    and can_push :: "'s \<Rightarrow> 'p \<Rightarrow> bool"
    and holds :: "'s \<Rightarrow> 'p set \<Rightarrow> bool"
    and key :: "'s \<Rightarrow> 'p \<Rightarrow> 'k::linorder"
    and null :: 'p
  assumes finite_held: "holds s A \<Longrightarrow> finite A"
    and null_not_held: "holds s A \<Longrightarrow> null \<notin> A"
    and top_empty: "holds s {} \<Longrightarrow> top s = Inr null"
    and top_least: "holds s A \<Longrightarrow> A \<noteq> {} \<Longrightarrow>
          \<exists>p. top s = Inr p \<and> p \<in> A \<and> (\<forall>q \<in> A. key s p \<le> key s q)"
    and pop_top: "holds s A \<Longrightarrow> A \<noteq> {} \<Longrightarrow> top s = Inr p \<Longrightarrow>
          \<exists>s'. pop s = Inr (p, s') \<and> holds s' (A - {p}) \<and> key s' = key s"
    and push_adds: "holds s A \<Longrightarrow> p \<notin> A \<Longrightarrow> can_push s p \<Longrightarrow>
          \<exists>s'. push s p = Inr (RET_SUCC, s') \<and> holds s' (insert p A) \<and> key s' = key s"

text \<open>Popping a given number of times, collecting what comes out.\<close>

fun pop_many :: "('s \<Rightarrow> ('p \<times> 's) outcome) \<Rightarrow> nat \<Rightarrow> 's \<Rightarrow> ('p list \<times> 's) outcome" where
  "pop_many pop 0 s = Inr ([], s)"
| "pop_many pop (Suc n) s =
     cbind (pop s) (\<lambda>(p, s1). cbind (pop_many pop n s1) (\<lambda>(ps, s2). Inr (p # ps, s2)))"

context timer_queue
begin

lemma pop_least:
  assumes "holds s A" and "A \<noteq> {}"
  obtains p s' where "pop s = Inr (p, s')" "p \<in> A" "\<forall>q \<in> A. key s p \<le> key s q"
    "holds s' (A - {p})" "key s' = key s"
proof -
  obtain p where p: "top s = Inr p" "p \<in> A" "\<forall>q \<in> A. key s p \<le> key s q"
    using top_least [OF assms] by blast
  with pop_top [OF assms p(1)] that show thesis by blast
qed

text \<open>Emptying the queue lists its elements in the order of their keys.\<close>

lemma pop_all_sorted:
  assumes "holds s A"
  shows "\<exists>ps s'. pop_many pop (card A) s = Inr (ps, s') \<and> set ps = A \<and> distinct ps
           \<and> sorted (map (key s) ps) \<and> holds s' {}"
  using assms
proof (induction "card A" arbitrary: s A)
  case 0
  then have "A = {}" using finite_held by force
  with 0 show ?case by simp
next
  case (Suc n)
  have fin: "finite A" using finite_held [OF Suc.prems] .
  have ne: "A \<noteq> {}" using Suc.hyps(2) by auto
  obtain p s1 where p: "pop s = Inr (p, s1)" "p \<in> A" "\<forall>q \<in> A. key s p \<le> key s q"
    "holds s1 (A - {p})" "key s1 = key s"
    using pop_least [OF Suc.prems ne] by blast
  have c: "n = card (A - {p})" using Suc.hyps(2) p(2) fin by simp
  obtain ps s2 where ps: "pop_many pop n s1 = Inr (ps, s2)" "set ps = A - {p}" "distinct ps"
    "sorted (map (key s) ps)" "holds s2 {}"
    using Suc.hyps(1) [OF c p(4)] c p(5) by auto
  have "pop_many pop (card A) s = Inr (p # ps, s2)"
    using ps(1) p(1) by (simp flip: Suc.hyps(2))
  then show ?case using ps p(2,3) by auto
qed

end

section \<open>The heap of min_heap.c as a timer queue\<close>

text \<open>\<open>heap_ok st ps\<close>: the state holds a well-formed heap with the nodes \<open>ps\<close> in array order.\<close>

definition heap_ok :: "heap_state \<Rightarrow> tptr list \<Rightarrow> bool" where
  "heap_ok st ps \<longleftrightarrow> (case hs_hdr st of None \<Rightarrow> False | Some H \<Rightarrow> heap_rep H (hs_tevs st) ps)"

definition heap_holds :: "heap_state \<Rightarrow> tptr set \<Rightarrow> bool" where
  "heap_holds st A \<longleftrightarrow> (\<exists>ps. heap_ok st ps \<and> A = set ps)"

text \<open>A push cannot overflow the capacity computation, and its argument is an allocated node.\<close>

definition heap_can_push :: "heap_state \<Rightarrow> tptr \<Rightarrow> bool" where
  "heap_can_push st p \<longleftrightarrow> p \<noteq> NULL \<and> hs_tevs st p \<noteq> None \<and>
     (case hs_hdr st of None \<Rightarrow> False | Some H \<Rightarrow> 2 * int (iNodeCapacity H) \<le> INT_MAX)"

lemma heap_okE:
  assumes "heap_ok st ps"
  obtains H where "hs_hdr st = Some H" "heap_rep H (hs_tevs st) ps"
  using assms by (auto simp: heap_ok_def split: option.splits)

lemma heap_okI: "heap_rep H S ps \<Longrightarrow> heap_ok \<lparr>hs_hdr = Some H, hs_tevs = S\<rparr> ps"
  by (simp add: heap_ok_def)

lemma heap_can_pushE:
  assumes "heap_can_push st p" and "hs_hdr st = Some H"
  obtains e where "p \<noteq> NULL" "hs_tevs st p = Some e" "2 * int (iNodeCapacity H) \<le> INT_MAX"
  using assms by (auto simp: heap_can_push_def)

lemma key_of_same: "same_nodes S S' \<Longrightarrow> key_of S' = key_of S"
  using same_nodes_key by blast

lemma set_mset_diff:
  assumes "mset qs = mset ps - {#p#}" and "distinct ps"
  shows "set qs = set ps - {p}"
proof -
  have "set qs = set_mset (mset ps - {#p#})" using assms(1) by (metis set_mset_mset)
  also have "\<dots> = set ps - {p}"
    using assms(2) by (metis mset_remove1 set_mset_mset set_remove1_eq)
  finally show ?thesis .
qed

interpretation heapq: timer_queue
  "\<lambda>st. MinheapGetTopElement (hs_hdr st)" MinheapPop "MinHeapPush True"
  heap_can_push heap_holds "\<lambda>st. key_of (hs_tevs st)" NULL
proof (unfold_locales, goal_cases)
  case (1 s A)
  then show ?case by (auto simp: heap_holds_def)
next
  case (2 s A)
  then show ?case by (auto simp: heap_holds_def elim!: heap_okE dest: heap_rep_node(1))
next
  case (3 s)
  then show ?case by (auto simp: heap_holds_def GetTop_rep elim!: heap_okE)
next
  case (4 s A)
  then obtain ps where ps: "heap_ok s ps" "A = set ps" by (auto simp: heap_holds_def)
  with 4 have ne: "ps \<noteq> []" by auto
  from ps(1) show ?case
  proof (rule heap_okE)
    fix H assume H: "hs_hdr s = Some H" "heap_rep H (hs_tevs s) ps"
    then show ?case using ne ps(2) GetTop_rep [OF H(2)] top_le [OF H(2)] by auto
  qed
next
  case (5 s A p)
  then obtain ps where ps: "heap_ok s ps" "A = set ps" by (auto simp: heap_holds_def)
  with 5 have ne: "ps \<noteq> []" by auto
  from ps(1) show ?case
  proof (rule heap_okE)
    fix H assume H: "hs_hdr s = Some H" "heap_rep H (hs_tevs s) ps"
    have p: "p = ps ! 0" using 5(3) ne H GetTop_rep [OF H(2)] by simp
    obtain H' S' qs where q: "MinheapPop s = Inr (ps ! 0, \<lparr>hs_hdr = Some H', hs_tevs = S'\<rparr>)"
      "heap_rep H' S' qs" "mset qs = mset ps - {#ps ! 0#}" "same_nodes (hs_tevs s) S'"
      using Pop_rep [OF H ne] by blast
    have "heap_holds \<lparr>hs_hdr = Some H', hs_tevs = S'\<rparr> (A - {p})"
      unfolding heap_holds_def p ps(2) set_mset_diff [OF q(3) heap_repD(4) [OF H(2)], symmetric]
      using heap_okI [OF q(2)] by blast
    then show ?case using q(1) p key_of_same [OF q(4)] by auto
  qed
next
  case (6 s A p)
  then obtain ps where ps: "heap_ok s ps" "A = set ps" by (auto simp: heap_holds_def)
  from ps(1) show ?case
  proof (rule heap_okE)
    fix H assume H: "hs_hdr s = Some H" "heap_rep H (hs_tevs s) ps"
    obtain e where e: "p \<noteq> NULL" "hs_tevs s p = Some e" "2 * int (iNodeCapacity H) \<le> INT_MAX"
      using heap_can_pushE [OF 6(3) H(1)] by blast
    obtain H' S' qs where q: "MinHeapPush True s p = Inr (RET_SUCC, \<lparr>hs_hdr = Some H', hs_tevs = S'\<rparr>)"
      "heap_rep H' S' qs" "mset qs = add_mset p (mset ps)" "same_nodes (hs_tevs s) S'"
      using Push_rep [OF H disjI1 [OF TrueI] e(3,1) _ e(2)] 6(2) ps(2) by blast
    have "set qs = insert p A" using q(3) ps(2) by (metis set_mset_add_mset_insert set_mset_mset)
    then have "heap_holds \<lparr>hs_hdr = Some H', hs_tevs = S'\<rparr> (insert p A)"
      unfolding heap_holds_def using heap_okI [OF q(2)] by blast
    then show ?case using q(1) key_of_same [OF q(4)] by auto
  qed
qed

end
