(* ===== verification/HeapProperties.thy ===== *)
theory HeapProperties
  imports TimerQueue
begin

text \<open>
  The properties of the timer heap of \<open>src/min_heap.c\<close>, each with a concrete instance.  The
  instances work on a store of fifteen timers (node \<open>k\<close> expires at second \<open>k\<close>) and on
  heaps built by the program's own pushes.
\<close>

section \<open>Concrete heaps\<close>

definition timer :: "int \<Rightarrow> TimeoutEvent" where
  "timer k = \<lparr>te_iPid = 1, te_iFd = k, iHeapIndex = -1, stTimeout = Timeval k 0,
     stInterval = Timeval 60 0, pFunTimeoutProcCallback = None, pstCallbackArg = 0\<rparr>"

definition timers15 :: tev_store where
  "timers15 p = (if 1 \<le> p \<and> p \<le> 15 then Some (timer (int p)) else None)"

definition empty_heap :: heap_state where
  "empty_heap = \<lparr>hs_hdr = Some \<lparr>ppstTimeoutEventHeader = [], iNodeCapacity = 0, iNodeUsed = 0,
     iCurPid = 1\<rparr>, hs_tevs = timers15\<rparr>"

datatype heap_op = Push tptr | Erase tptr

fun heap_run :: "heap_op list \<Rightarrow> heap_state \<Rightarrow> heap_state outcome" where
  "heap_run [] st = Inr st"
| "heap_run (Push p # ops) st = cbind (MinHeapPush True st p) (\<lambda>(r, st1). heap_run ops st1)"
| "heap_run (Erase p # ops) st = cbind (MinheapErase st p) (\<lambda>(r, st1). heap_run ops st1)"

lemma empty_heap_ok: "heap_ok empty_heap []"
  by (simp add: heap_ok_def empty_heap_def heap_rep_def heap_shape_def INT_MAX_def)

lemma first_push:
  "\<exists>st. MinHeapPush True empty_heap 3 = Inr (RET_SUCC, st) \<and> heap_ok st [3]
     \<and> key_of (hs_tevs st) = key_of timers15"
proof -
  have can: "heap_can_push empty_heap 3"
    by (simp add: heap_can_push_def empty_heap_def timers15_def INT_MAX_def)
  have "heap_holds empty_heap {}"
    unfolding heap_holds_def by (intro exI [of _ "[]"] conjI empty_heap_ok) simp
  then obtain st where st: "MinHeapPush True empty_heap 3 = Inr (RET_SUCC, st)"
    "heap_holds st {3}" "key_of (hs_tevs st) = key_of (hs_tevs empty_heap)"
    using heapq.push_adds [OF _ _ can] by auto
  obtain ps where ps: "heap_ok st ps" "{3} = set ps" using st(2) unfolding heap_holds_def by blast
  have "distinct ps" using ps(1) by (rule heap_okE) (rule heap_repD(4))
  then have "length ps = 1"
    using ps(2) distinct_card [of ps] by (metis card_1_singleton_iff One_nat_def)
  then have "ps = [3]" using ps(2) by (cases ps) auto
  moreover have "hs_tevs empty_heap = timers15" by (simp add: empty_heap_def)
  ultimately show ?thesis using st(1,3) ps(1) by (intro exI [of _ st]) simp
qed

section \<open>Push, pop and order\<close>

text \<open>C13: pushing an allocated node that is not in the heap returns \<open>RET_SUCC\<close> and yields a
  well-formed heap (heap order, every node's \<open>iHeapIndex\<close> its own position, no duplicate) with
  exactly the old nodes and the new one; no field of any node but the index changes, and the new
  array is the reference sift-up of the old one.\<close>

theorem heap_push_correct:
  assumes "heap_ok st ps" and "heap_can_push st x" and "x \<notin> set ps"
  shows "\<exists>st' qs. MinHeapPush True st x = Inr (RET_SUCC, st') \<and> heap_ok st' qs
     \<and> mset qs = add_mset x (mset ps) \<and> same_nodes (hs_tevs st) (hs_tevs st')
     \<and> qs = sift_up (key_of (hs_tevs st)) (ps @ [x]) (length ps) x"
proof -
  obtain H where H: "hs_hdr st = Some H" "heap_rep H (hs_tevs st) ps"
    using assms(1) by (rule heap_okE)
  obtain e where e: "x \<noteq> NULL" "hs_tevs st x = Some e" "2 * int (iNodeCapacity H) \<le> INT_MAX"
    using heap_can_pushE [OF assms(2) H(1)] by blast
  show ?thesis
    using Push_rep [OF H disjI1 [OF TrueI] e(3,1) assms(3) e(2)] heap_okI by fastforce
qed

theorem heap_push_correct_witness:
  "\<exists>st' qs. MinHeapPush True empty_heap 3 = Inr (RET_SUCC, st') \<and> heap_ok st' qs
     \<and> mset qs = add_mset 3 (mset []) \<and> same_nodes (hs_tevs empty_heap) (hs_tevs st')
     \<and> qs = sift_up (key_of (hs_tevs empty_heap)) ([] @ [3]) (length ([] :: nat list)) 3"
  by (rule heap_push_correct [OF empty_heap_ok])
     (simp_all add: heap_can_push_def empty_heap_def timers15_def INT_MAX_def)

text \<open>C12: popping a non-empty heap returns a node of least timeout (the one \<open>MinheapGetTopElement\<close>
  shows), removes exactly that node, keeps the heap well-formed and resets the popped node's
  index to -1.\<close>

theorem heap_pop_correct:
  assumes "heap_ok st ps" and "ps \<noteq> []"
  shows "\<exists>top st' qs e. MinheapPop st = Inr (top, st') \<and> MinheapGetTopElement (hs_hdr st) = Inr top
     \<and> top \<in> set ps \<and> (\<forall>p \<in> set ps. key_of (hs_tevs st) top \<le> key_of (hs_tevs st) p)
     \<and> heap_ok st' qs \<and> mset qs = mset ps - {#top#} \<and> same_nodes (hs_tevs st) (hs_tevs st')
     \<and> hs_tevs st' top = Some e \<and> iHeapIndex e = -1"
proof -
  obtain H where H: "hs_hdr st = Some H" "heap_rep H (hs_tevs st) ps"
    using assms(1) by (rule heap_okE)
  have "ps ! 0 \<in> set ps" using assms(2) by simp
  then show ?thesis
    using Pop_rep [OF H assms(2)] GetTop_rep [OF H(2)] top_le [OF H(2)] H(1) assms(2) heap_okI
    by fastforce
qed

theorem heap_pop_correct_witness:
  "\<exists>st. MinHeapPush True empty_heap 3 = Inr (RET_SUCC, st) \<and>
     (\<exists>top st' qs e. MinheapPop st = Inr (top, st') \<and> MinheapGetTopElement (hs_hdr st) = Inr top
     \<and> top \<in> set [3] \<and> (\<forall>p \<in> set [3]. key_of (hs_tevs st) top \<le> key_of (hs_tevs st) p)
     \<and> heap_ok st' qs \<and> mset qs = mset [3] - {#top#} \<and> same_nodes (hs_tevs st) (hs_tevs st')
     \<and> hs_tevs st' top = Some e \<and> iHeapIndex e = -1)"
proof -
  obtain st where st: "MinHeapPush True empty_heap 3 = Inr (RET_SUCC, st)" "heap_ok st [3]"
    using first_push by blast
  then show ?thesis using heap_pop_correct [OF st(2)] by (intro exI [of _ st] conjI) auto
qed

text \<open>
  Emptying a heap by \<open>MinheapPop\<close> returns every node exactly once, in the order of the
  timeouts, and leaves an empty heap.\<close>

theorem heap_pops_in_order:
  assumes "heap_holds st A"
  shows "\<exists>ps st'. pop_many MinheapPop (card A) st = Inr (ps, st') \<and> set ps = A \<and> distinct ps
           \<and> sorted (map (key_of (hs_tevs st)) ps) \<and> heap_holds st' {}"
  using assms by (rule heapq.pop_all_sorted)

theorem heap_pops_in_order_witness:
  "\<exists>st. MinHeapPush True empty_heap 3 = Inr (RET_SUCC, st) \<and>
     (\<exists>ps st'. pop_many MinheapPop (card {3 :: nat}) st = Inr (ps, st') \<and> set ps = {3} \<and> distinct ps
           \<and> sorted (map (key_of (hs_tevs st)) ps) \<and> heap_holds st' {})"
proof -
  obtain st where st: "MinHeapPush True empty_heap 3 = Inr (RET_SUCC, st)" "heap_ok st [3]"
    using first_push by blast
  then have "heap_holds st {3}" by (auto simp: heap_holds_def intro!: exI [of _ "[3]"])
  then show ?thesis using heap_pops_in_order st(1) by (intro exI [of _ st] conjI)
qed

section \<open>Erase\<close>

text \<open>
  When the last element is not smaller than the parent of the deleted position,
  \<open>MinheapErase\<close> removes exactly the given node, keeps the heap well-formed and resets the
  removed node's index.\<close>

theorem heap_erase_correct:
  assumes "heap_ok st ps" and "i < length ps" and "\<not> erase_goes_up (hs_tevs st) ps i"
  shows "\<exists>st' qs e. MinheapErase st (ps ! i) = Inr (RET_SUCC, st') \<and> heap_ok st' qs
     \<and> mset qs = mset ps - {#ps ! i#} \<and> same_nodes (hs_tevs st) (hs_tevs st')
     \<and> hs_tevs st' (ps ! i) = Some e \<and> iHeapIndex e = -1"
proof -
  obtain H where H: "hs_hdr st = Some H" "heap_rep H (hs_tevs st) ps"
    using assms(1) by (rule heap_okE)
  show ?thesis using Erase_down [OF H assms(2,3)] heap_okI by fastforce
qed

theorem heap_erase_correct_witness:
  "\<exists>st. MinHeapPush True empty_heap 3 = Inr (RET_SUCC, st) \<and>
     (\<exists>st' qs e. MinheapErase st ([3] ! 0) = Inr (RET_SUCC, st') \<and> heap_ok st' qs
     \<and> mset qs = mset [3] - {#[3] ! 0#} \<and> same_nodes (hs_tevs st) (hs_tevs st')
     \<and> hs_tevs st' ([3] ! 0) = Some e \<and> iHeapIndex e = -1)"
proof -
  obtain st where st: "MinHeapPush True empty_heap 3 = Inr (RET_SUCC, st)" "heap_ok st [3]"
    using first_push by blast
  have "\<not> erase_goes_up (hs_tevs st) [3] 0" by (simp add: erase_goes_up_def)
  then show ?thesis
    using st(1) by (intro exI [of _ st] conjI heap_erase_correct [OF st(2)]) simp_all
qed

text \<open>
  In the other branch of \<open>MinheapErase\<close> (the last element is smaller than the parent
  of the deleted position) the array is right, but the function resets the index of the last
  element instead of the deleted one: afterwards a node that is still in the heap has index -1, so
  a later \<open>MinheapErase\<close> of that node fails and leaves it in the heap.\<close>

theorem heap_erase_marks_wrong_node:
  assumes "heap_ok st ps" and "i < length ps" and "erase_goes_up (hs_tevs st) ps i"
  shows "\<exists>st' H' qs e. MinheapErase st (ps ! i) = Inr (RET_SUCC, st') \<and> hs_hdr st' = Some H'
     \<and> mset qs = mset ps - {#ps ! i#}
     \<and> take (iNodeUsed H') (ppstTimeoutEventHeader H') = map Some qs
     \<and> heap_ordered (key_of (hs_tevs st')) qs
     \<and> last ps \<in> set qs \<and> hs_tevs st' (last ps) = Some e \<and> iHeapIndex e = -1
     \<and> MinheapErase st' (last ps) = Inr (RET_FAIL, st')"
proof -
  obtain H where H: "hs_hdr st = Some H" "heap_rep H (hs_tevs st) ps"
    using assms(1) by (rule heap_okE)
  have ne: "ps \<noteq> []" using assms(2) by auto
  let ?x = "ps ! (length ps - 1)"
  obtain H' S2 qs e where r: "MinheapErase st (ps ! i) = Inr (RET_SUCC, \<lparr>hs_hdr = Some H',
        hs_tevs = S2(?x \<mapsto> e\<lparr>iHeapIndex := -1\<rparr>)\<rparr>)"
    "S2 ?x = Some e" "heap_rep H' S2 qs" "mset qs = mset ps - {#ps ! i#}" "i < length ps - 1"
    using Erase_up [OF H assms(2,3)] by blast
  let ?S = "S2(?x \<mapsto> e\<lparr>iHeapIndex := -1\<rparr>)"
  have "set qs = set ps - {ps ! i}" by (rule set_mset_diff [OF r(4) heap_repD(4) [OF H(2)]])
  moreover have "?x \<noteq> ps ! i"
    using r(5) heap_repD(4) [OF H(2)] by (simp add: nth_eq_iff_index_eq)
  ultimately have x: "?x \<in> set qs" "?x \<noteq> NULL" "?x = last ps"
    using ne heap_rep_node(1) [OF H(2), of ?x] by (auto simp: last_conv_nth)
  have key: "key_of ?S = key_of S2" by (rule key_of_same) (rule same_nodes_upd, rule r(2))
  have "MinheapErase \<lparr>hs_hdr = Some H', hs_tevs = ?S\<rparr> ?x =
      Inr (RET_FAIL, \<lparr>hs_hdr = Some H', hs_tevs = ?S\<rparr>)"
    by (rule Erase_absent) (use x(2) in auto)
  moreover have "heap_ordered (key_of ?S) qs" using heap_repD(5) [OF r(3)] by (simp only: key)
  moreover have "take (iNodeUsed H') (ppstTimeoutEventHeader H') = map Some qs"
    using r(3) unfolding heap_rep_def heap_shape_def by blast
  ultimately show ?thesis
    using r(1,4) x(1)
    by (intro exI [of _ "\<lparr>hs_hdr = Some H', hs_tevs = ?S\<rparr>"] exI [of _ H'] exI [of _ qs]
        exI [of _ "e\<lparr>iHeapIndex := -1\<rparr>"]) (simp flip: x(3))
qed

text \<open>
  Fifteen connections are accepted one second apart, then eight of them close.  Every erase of
  the run takes the branch that sifts down; the next one does not.
\<close>

definition ops15 :: "heap_op list" where
  "ops15 = map Push [1..<16] @ map Erase [2, 4, 5, 8, 9, 15, 13, 14]"

lemma ops15_reaches:
  "\<exists>st. heap_run ops15 empty_heap = Inr st \<and> heap_ok st [1, 10, 3, 12, 11, 6, 7]
     \<and> erase_goes_up (hs_tevs st) [1, 10, 3, 12, 11, 6, 7] 3"
proof -
  have "case heap_run ops15 empty_heap of Inl h \<Rightarrow> False | Inr st \<Rightarrow>
      heap_ok st [1, 10, 3, 12, 11, 6, 7] \<and> erase_goes_up (hs_tevs st) [1, 10, 3, 12, 11, 6, 7] 3"
    unfolding ops15_def by code_simp
  then show ?thesis by (auto split: sum.splits)
qed

theorem heap_erase_marks_wrong_node_witness:
  "\<exists>st. heap_run ops15 empty_heap = Inr st \<and>
     (\<exists>st' H' qs e. MinheapErase st ([1, 10, 3, 12, 11, 6, 7] ! 3) = Inr (RET_SUCC, st')
     \<and> hs_hdr st' = Some H'
     \<and> mset qs = mset [1, 10, 3, 12, 11, 6, 7] - {#[1, 10, 3, 12, 11, 6, 7] ! 3#}
     \<and> take (iNodeUsed H') (ppstTimeoutEventHeader H') = map Some qs
     \<and> heap_ordered (key_of (hs_tevs st')) qs
     \<and> last [1, 10, 3, 12, 11, 6, 7] \<in> set qs
     \<and> hs_tevs st' (last [1, 10, 3, 12, 11, 6, 7]) = Some e \<and> iHeapIndex e = -1
     \<and> MinheapErase st' (last [1, 10, 3, 12, 11, 6, 7]) = Inr (RET_FAIL, st'))"
proof -
  obtain st where st: "heap_run ops15 empty_heap = Inr st" "heap_ok st [1, 10, 3, 12, 11, 6, 7]"
    "erase_goes_up (hs_tevs st) [1, 10, 3, 12, 11, 6, 7] 3"
    using ops15_reaches by blast
  show ?thesis
    using st(1) by (intro exI [of _ st] conjI heap_erase_marks_wrong_node [OF st(2) _ st(3)]) simp_all
qed

section \<open>Capacity\<close>

text \<open>
  Growing the pointer array keeps every stored pointer and every node, makes room for the
  requested number of cells, and never shrinks; when \<open>realloc\<close> fails or the size is negative
  the heap is unchanged and \<open>RET_FAIL\<close> is returned.\<close>

theorem heap_reserve_correct:
  assumes "heap_ok st ps" and "hs_hdr st = Some H" and "2 * int (iNodeCapacity H) \<le> INT_MAX"
    and "n \<le> INT_MAX"
  shows "\<exists>r st'. MinheapReserveSize mem st n = Inr (r, st') \<and> heap_ok st' ps
     \<and> hs_tevs st' = hs_tevs st
     \<and> (r = RET_SUCC \<longleftrightarrow> 0 \<le> n \<and> (mem \<or> n \<le> int (iNodeCapacity H)))
     \<and> (r = RET_SUCC \<longrightarrow> (\<exists>H'. hs_hdr st' = Some H' \<and> n \<le> int (iNodeCapacity H')
            \<and> iNodeCapacity H \<le> iNodeCapacity H'))
     \<and> (r \<noteq> RET_SUCC \<longrightarrow> st' = st)"
proof -
  have rep: "heap_rep H (hs_tevs st) ps" using assms(1,2) by (auto elim: heap_okE)
  show ?thesis
  proof (cases "n < 0 \<or> n \<le> int (iNodeCapacity H) \<or> \<not> mem")
    case True
    then show ?thesis
      using assms by (auto simp: MinheapReserveSize_def Let_def INT_MAX_def)
  next
    case False
    let ?sz = "if iNodeCapacity H \<noteq> 0 then int (iNodeCapacity H) * 2 else int MINHEAP_INIT_SIZE"
    let ?new = "nat (if ?sz < n then n else ?sz)"
    have new: "int (iNodeCapacity H) \<le> int ?new" "n \<le> int ?new" "int ?new \<le> INT_MAX"
      using False assms(3,4) by (auto simp: INT_MAX_def MINHEAP_INIT_SIZE_def)
    let ?H = "grow_array H ?new"
    have "MinheapReserveSize mem st n = Inr (RET_SUCC, st\<lparr>hs_hdr := Some ?H\<rparr>)"
      using assms(2,3) False
      by (auto simp: MinheapReserveSize_def INT_MAX_def Let_def grow_array_def)
    moreover have "heap_rep ?H (hs_tevs st) ps"
      using rep new by (intro heap_rep_grow) auto
    ultimately show ?thesis
      using new False by (auto simp: heap_ok_def grow_array_def)
  qed
qed

theorem heap_reserve_correct_witness:
  "\<exists>r st'. MinheapReserveSize True empty_heap 17 = Inr (r, st') \<and> heap_ok st' []
     \<and> hs_tevs st' = hs_tevs empty_heap
     \<and> (r = RET_SUCC \<longleftrightarrow> 0 \<le> (17 :: int) \<and> (True \<or> 17 \<le> int (iNodeCapacity (the (hs_hdr empty_heap)))))
     \<and> (r = RET_SUCC \<longrightarrow> (\<exists>H'. hs_hdr st' = Some H' \<and> 17 \<le> int (iNodeCapacity H')
            \<and> iNodeCapacity (the (hs_hdr empty_heap)) \<le> iNodeCapacity H'))
     \<and> (r \<noteq> RET_SUCC \<longrightarrow> st' = empty_heap)"
  by (rule heap_reserve_correct [OF empty_heap_ok]) (simp_all add: empty_heap_def INT_MAX_def)

end
