(* ===== verification/CMemory.thy ===== *)
theory CMemory
  imports Prelude
begin

text \<open>
  The byte memory behind the program's \<open>char *\<close> pointers: numbered blocks, one per
  \<open>malloc\<close>, and pointers that name a block and an offset in it.  A packet view and the
  connection buffer it points into therefore share their bytes, as in the program.  A freed block
  is absent from the memory, and block numbers are never used twice, so that a stale pointer is
  noticed.
\<close>

type_synonym bmem = "nat \<Rightarrow> buf option"

datatype charp = CNull | Ptr nat int

fun ptr_add :: "charp \<Rightarrow> int \<Rightarrow> charp" where
  "ptr_add CNull k = CNull"
| "ptr_add (Ptr b off) k = Ptr b (off + k)"

text \<open>The block a pointer names, with the offset of the pointer.\<close>

fun deref_block :: "bmem \<Rightarrow> charp \<Rightarrow> (nat \<times> int \<times> buf) outcome" where
  "deref_block m CNull = undef NullDeref"
| "deref_block m (Ptr b off) =
     (case m b of None \<Rightarrow> undef UseAfterFree | Some bs \<Rightarrow> Inr (b, off, bs))"

definition load_bytes :: "bmem \<Rightarrow> charp \<Rightarrow> int \<Rightarrow> buf outcome" where
  "load_bytes m p n = cbind (deref_block m p) (\<lambda>(b, off, bs). mem_slice bs off n)"

definition store_bytes :: "bmem \<Rightarrow> charp \<Rightarrow> buf \<Rightarrow> bmem outcome" where
  "store_bytes m p xs = cbind (deref_block m p) (\<lambda>(b, off, bs).
     cbind (mem_copy bs off xs) (\<lambda>bs'. Inr (m(b \<mapsto> bs'))))"

text \<open>\<open>p[i]\<close> as a value and as the target of an assignment.\<close>

definition load_byte :: "bmem \<Rightarrow> charp \<Rightarrow> int \<Rightarrow> byte outcome" where
  "load_byte m p i = cbind (deref_block m p) (\<lambda>(b, off, bs). peek bs (off + i))"

definition store_byte :: "bmem \<Rightarrow> charp \<Rightarrow> int \<Rightarrow> byte \<Rightarrow> bmem outcome" where
  "store_byte m p i x = cbind (deref_block m p) (\<lambda>(b, off, bs).
     cbind (poke bs (off + i) x) (\<lambda>bs'. Inr (m(b \<mapsto> bs'))))"

text \<open>
  \<open>memmove\<close> copies between any ranges; \<open>memcpy\<close> has no defined result on ranges that
  overlap.  A copy of a range onto itself, which every implementation leaves as it is, is
  accepted.
\<close>

fun overlapping :: "charp \<Rightarrow> charp \<Rightarrow> int \<Rightarrow> bool" where
  "overlapping (Ptr b o1) (Ptr c o2) n \<longleftrightarrow> b = c \<and> o1 \<noteq> o2 \<and> \<bar>o1 - o2\<bar> < n"
| "overlapping _ _ n \<longleftrightarrow> False"

definition c_memmove :: "bmem \<Rightarrow> charp \<Rightarrow> charp \<Rightarrow> int \<Rightarrow> bmem outcome" where
  "c_memmove m d s n = cbind (load_bytes m s n) (\<lambda>xs. store_bytes m d xs)"

definition c_memcpy :: "bmem \<Rightarrow> charp \<Rightarrow> charp \<Rightarrow> int \<Rightarrow> bmem outcome" where
  "c_memcpy m d s n = (if overlapping d s n then undef Overlap else c_memmove m d s n)"

text \<open>\<open>strlen\<close> reads up to the first zero byte, which has to be inside the block.\<close>

definition c_strlen :: "bmem \<Rightarrow> charp \<Rightarrow> int outcome" where
  "c_strlen m p = cbind (deref_block m p) (\<lambda>(b, off, bs).
     if off < 0 \<or> int (length bs) < off then undef OutOfBounds
     else let s = takeWhile (\<lambda>x. x \<noteq> 0) (drop (nat off) bs)
          in if nat off + length s < length bs then Inr (int (length s)) else undef OutOfBounds)"

section \<open>Facts\<close>

lemma ptr_add_simps [simp]:
  "ptr_add p 0 = p"
  "ptr_add (ptr_add p i) j = ptr_add p (i + j)"
  "ptr_add p k = CNull \<longleftrightarrow> p = CNull"
  by (cases p; simp)+

lemma deref_block_Inr_iff [outcome_iff]:
  "deref_block m p = Inr x \<longleftrightarrow> (\<exists>b off bs. p = Ptr b off \<and> m b = Some bs \<and> x = (b, off, bs))"
  by (cases p) (auto split: option.splits)

lemma load_bytes_Inr_iff [outcome_iff]:
  "load_bytes m p n = Inr xs \<longleftrightarrow>
     (\<exists>b off bs. p = Ptr b off \<and> m b = Some bs \<and> mem_slice bs off n = Inr xs)"
  by (auto simp: load_bytes_def cbind_Inr_iff deref_block_Inr_iff)

lemma store_bytes_Inr_iff [outcome_iff]:
  "store_bytes m p xs = Inr m' \<longleftrightarrow>
     (\<exists>b off bs bs'. p = Ptr b off \<and> m b = Some bs \<and> mem_copy bs off xs = Inr bs' \<and> m' = m(b \<mapsto> bs'))"
  by (auto simp: store_bytes_def cbind_Inr_iff deref_block_Inr_iff)

lemma load_byte_Inr_iff [outcome_iff]:
  "load_byte m p i = Inr x \<longleftrightarrow>
     (\<exists>b off bs. p = Ptr b off \<and> m b = Some bs \<and> peek bs (off + i) = Inr x)"
  by (auto simp: load_byte_def cbind_Inr_iff deref_block_Inr_iff)

lemma store_byte_Inr_iff [outcome_iff]:
  "store_byte m p i x = Inr m' \<longleftrightarrow>
     (\<exists>b off bs bs'. p = Ptr b off \<and> m b = Some bs \<and> poke bs (off + i) x = Inr bs' \<and> m' = m(b \<mapsto> bs'))"
  by (auto simp: store_byte_def cbind_Inr_iff deref_block_Inr_iff)

text \<open>\<open>mem_sized m m'\<close>: the same blocks are allocated in both memories, with the same sizes.\<close>

definition mem_sized :: "bmem \<Rightarrow> bmem \<Rightarrow> bool" where
  "mem_sized m m' \<longleftrightarrow> (\<forall>b. map_option length (m' b) = map_option length (m b))"

lemma mem_sized_refl [simp]: "mem_sized m m"
  by (simp add: mem_sized_def)

lemma mem_sized_trans: "mem_sized a b \<Longrightarrow> mem_sized b c \<Longrightarrow> mem_sized a c"
  by (simp add: mem_sized_def)

lemma mem_sized_store: "store_bytes m p xs = Inr m' \<Longrightarrow> mem_sized m m'"
  by (auto simp: store_bytes_Inr_iff mem_sized_def dest: mem_copy_length)

lemma mem_sized_store_byte: "store_byte m p i x = Inr m' \<Longrightarrow> mem_sized m m'"
  by (auto simp: store_byte_Inr_iff poke_Inr_iff mem_sized_def)

lemma mem_sized_memmove: "c_memmove m d s n = Inr m' \<Longrightarrow> mem_sized m m'"
  by (auto simp: c_memmove_def cbind_Inr_iff dest: mem_sized_store)

lemma mem_sized_memcpy: "c_memcpy m d s n = Inr m' \<Longrightarrow> mem_sized m m'"
  by (auto simp: c_memcpy_def dest: mem_sized_memmove split: if_splits)

text \<open>The block of a pointer that was stored through is the only one that changes.\<close>

lemma store_bytes_frame:
  "store_bytes m (Ptr b off) xs = Inr m' \<Longrightarrow> c \<noteq> b \<Longrightarrow> m' c = m c"
  by (auto simp: store_bytes_Inr_iff)

lemma load_store_same:
  assumes "store_bytes m p xs = Inr m'"
  shows "load_bytes m' p (int (length xs)) = Inr xs"
  using assms by (auto simp: store_bytes_Inr_iff load_bytes_Inr_iff dest: mem_slice_copy_same)

lemma load_store_other:
  assumes st: "store_bytes m (Ptr b o1) xs = Inr m'"
    and disj: "c \<noteq> b \<or> o2 + n \<le> o1 \<or> o1 + int (length xs) \<le> o2"
    and ld: "load_bytes m (Ptr c o2) n = Inr ys"
  shows "load_bytes m' (Ptr c o2) n = Inr ys"
proof (cases "c = b")
  case True
  obtain bs bs' where bs: "m b = Some bs" "mem_copy bs o1 xs = Inr bs'" "m' = m(b \<mapsto> bs')"
    using st by (auto simp: store_bytes_Inr_iff)
  have sl: "mem_slice bs o2 n = Inr ys" using ld True bs(1) by (auto simp: load_bytes_Inr_iff)
  then have "0 \<le> o2" "0 \<le> n" "o2 + n \<le> int (length bs)" by (auto simp: mem_slice_Inr_iff)
  then have "mem_slice bs' o2 n = mem_slice bs o2 n"
    using mem_slice_copy_other [OF bs(2)] disj True by blast
  then show ?thesis using sl bs(3) True by (simp add: load_bytes_def)
next
  case False
  then show ?thesis using st ld by (auto simp: store_bytes_Inr_iff load_bytes_Inr_iff)
qed

lemma store_byte_as_bytes:
  "store_byte m p i x = store_bytes m (ptr_add p i) [x]"
proof (cases p)
  case (Ptr b off)
  show ?thesis
  proof (cases "m b")
    case (Some bs)
    have "poke bs (off + i) x = mem_copy bs (off + i) [x]"
      by (auto simp: poke_def mem_copy_def upd_conv_take_nth_drop)
    then show ?thesis by (simp add: Ptr Some store_byte_def store_bytes_def)
  qed (simp add: Ptr store_byte_def store_bytes_def)
qed (simp add: store_byte_def store_bytes_def)

lemma load_byte_as_bytes:
  "load_byte m p i = Inr x \<longleftrightarrow> load_bytes m (ptr_add p i) 1 = Inr [x]"
  by (cases p) (auto simp: load_byte_Inr_iff load_bytes_Inr_iff peek_Inr_iff mem_slice_Inr_iff
      take_Suc_conv_app_nth hd_drop_conv_nth take_Suc numeral_eq_Suc)

section \<open>Ranges\<close>

text \<open>\<open>mem_at m b o xs\<close>: block \<open>b\<close> holds the bytes \<open>xs\<close> from offset \<open>o\<close>;
  \<open>mem_room m b n\<close>: the block has at least \<open>n\<close> bytes.\<close>

definition mem_at :: "bmem \<Rightarrow> nat \<Rightarrow> int \<Rightarrow> buf \<Rightarrow> bool" where
  "mem_at m b off xs \<longleftrightarrow> load_bytes m (Ptr b off) (int (length xs)) = Inr xs"

definition mem_room :: "bmem \<Rightarrow> nat \<Rightarrow> int \<Rightarrow> bool" where
  "mem_room m b n \<longleftrightarrow> (case m b of None \<Rightarrow> False | Some bs \<Rightarrow> n \<le> int (length bs))"

lemma mem_room_sized:
  assumes "mem_sized m m'" and "mem_room m b n"
  shows "mem_room m' b n"
proof -
  have "map_option length (m' b) = map_option length (m b)"
    using assms(1) unfolding mem_sized_def by blast
  then show ?thesis
    using assms(2) by (cases "m b"; cases "m' b") (simp_all add: mem_room_def)
qed

lemma mem_at_iff:
  "mem_at m b off xs \<longleftrightarrow> (\<exists>bs. m b = Some bs \<and> 0 \<le> off \<and> off + int (length xs) \<le> int (length bs)
     \<and> take (length xs) (drop (nat off) bs) = xs)"
  by (auto simp: mem_at_def load_bytes_Inr_iff mem_slice_Inr_iff)

lemma take_drop_append_iff:
  assumes "k + length xs + length ys \<le> length bs"
  shows "take (length (xs @ ys)) (drop k bs) = xs @ ys \<longleftrightarrow>
    take (length xs) (drop k bs) = xs \<and> take (length ys) (drop (k + length xs) bs) = ys"
  using assms by (simp add: take_add add.commute append_eq_append_conv)

lemma mem_at_append:
  "mem_at m b off (xs @ ys) \<longleftrightarrow> mem_at m b off xs \<and> mem_at m b (off + int (length xs)) ys"
  (is "?L \<longleftrightarrow> ?R")
proof (cases "\<exists>bs. m b = Some bs \<and> 0 \<le> off \<and> off + int (length xs) + int (length ys) \<le> int (length bs)")
  case True
  then obtain bs where bs: "m b = Some bs" "0 \<le> off"
    "off + int (length xs) + int (length ys) \<le> int (length bs)" by blast
  have k: "nat off + length xs + length ys \<le> length bs" using bs(2,3) by linarith
  have n: "nat (off + int (length xs)) = nat off + length xs" using bs(2) by linarith
  have "?L \<longleftrightarrow> take (length (xs @ ys)) (drop (nat off) bs) = xs @ ys"
    using bs by (simp add: mem_at_iff add.assoc)
  also have "\<dots> \<longleftrightarrow> ?R"
    unfolding take_drop_append_iff [OF k] using bs by (simp add: mem_at_iff n)
  finally show ?thesis .
next
  case False
  then show ?thesis by (auto simp: mem_at_iff)
qed

lemma mem_at_byte: "mem_at m b off [x] \<longleftrightarrow> load_byte m (Ptr b 0) off = Inr x"
  by (simp add: mem_at_def load_byte_as_bytes)

lemma store_room:
  assumes "mem_room m b n" and "0 \<le> off" and "off + int (length xs) \<le> n"
  obtains m' where "store_bytes m (Ptr b off) xs = Inr m'" "mem_room m' b n" "mem_at m' b off xs"
    "\<And>c o2 ys. mem_at m c o2 ys \<Longrightarrow>
       c \<noteq> b \<or> o2 + int (length ys) \<le> off \<or> off + int (length xs) \<le> o2 \<Longrightarrow> mem_at m' c o2 ys"
proof -
  obtain bs where bs: "m b = Some bs" "n \<le> int (length bs)"
    using assms(1) by (auto simp: mem_room_def split: option.splits)
  then obtain m' where m': "store_bytes m (Ptr b off) xs = Inr m'"
    using assms(2,3) by (auto simp: store_bytes_def mem_copy_def)
  show thesis
  proof (rule that [OF m'])
    show "mem_room m' b n" using mem_room_sized [OF mem_sized_store [OF m'] assms(1)] .
    show "mem_at m' b off xs" unfolding mem_at_def by (rule load_store_same [OF m'])
    show "\<And>c o2 ys. mem_at m c o2 ys \<Longrightarrow>
       c \<noteq> b \<or> o2 + int (length ys) \<le> off \<or> off + int (length xs) \<le> o2 \<Longrightarrow> mem_at m' c o2 ys"
      unfolding mem_at_def by (rule load_store_other [OF m'])
  qed
qed

lemma mem_at_load: "mem_at m b off xs \<Longrightarrow> int (length xs) = n \<Longrightarrow> load_bytes m (Ptr b off) n = Inr xs"
  by (auto simp: mem_at_def)

lemma mem_at_load_byte: "mem_at m b (off + i) [x] \<Longrightarrow> load_byte m (Ptr b off) i = Inr x"
  by (simp add: mem_at_def load_byte_as_bytes)

text \<open>\<open>kept_outside m m' b lo hi\<close>: an operation changed at most the bytes from \<open>lo\<close> to below \<open>hi\<close> of
  block \<open>b\<close>.\<close>

definition kept_outside :: "bmem \<Rightarrow> bmem \<Rightarrow> nat \<Rightarrow> int \<Rightarrow> int \<Rightarrow> bool" where
  "kept_outside m m' b lo hi \<longleftrightarrow> (\<forall>c o2 ys. mem_at m c o2 ys \<longrightarrow>
     c \<noteq> b \<or> o2 + int (length ys) \<le> lo \<or> hi \<le> o2 \<longrightarrow> mem_at m' c o2 ys)"

lemma kept_outsideD:
  "kept_outside m m' b lo hi \<Longrightarrow> mem_at m c o2 ys \<Longrightarrow>
     c \<noteq> b \<or> o2 + int (length ys) \<le> lo \<or> hi \<le> o2 \<Longrightarrow> mem_at m' c o2 ys"
  by (auto simp: kept_outside_def)

lemma kept_outside_trans:
  assumes "kept_outside m1 m2 b lo hi" "kept_outside m2 m3 b lo' hi'" "l \<le> lo" "l \<le> lo'" "hi \<le> h" "hi' \<le> h"
  shows "kept_outside m1 m3 b l h"
  using assms unfolding kept_outside_def by (meson order_trans)

lemma store_kept:
  assumes "mem_room m b n" and "0 \<le> off" and "off + int (length xs) \<le> n"
  obtains m' where "store_bytes m (Ptr b off) xs = Inr m'" "mem_room m' b n" "mem_at m' b off xs"
    "kept_outside m m' b off (off + int (length xs))"
  using store_room [OF assms] unfolding kept_outside_def by metis

lemma kept_outside_refl [simp]: "kept_outside m m b lo hi"
  by (simp add: kept_outside_def)

end
