(* ===== verification/BinProto.thy ===== *)
theory BinProto
  imports CMemory
begin

text \<open>
  The packet layer of \<open>src/bin_proto.c\<close> and \<open>include/bin_proto.h\<close>: a packet is
  \<open>SOH len cmd seq body EOT\<close> with the three fields in network byte order, and a
  \<open>PacketPack\<close> is a view of such a packet inside a connection's buffer.  The operations that
  also need a connection are in theory \<open>PacketHandlers\<close>.  A pack pointer is an option
  (\<open>NULL\<close> is \<open>None\<close>); an operation that assigns to the pack returns the new one.
\<close>

section \<open>The format\<close>

definition PROTO_SOH :: byte where "PROTO_SOH = 0x28"
definition PROTO_EOT :: byte where "PROTO_EOT = 0x29"

definition PACKET_SOH_POS :: int where "PACKET_SOH_POS = 0"
definition PACKET_LEN_POS :: int where "PACKET_LEN_POS = PACKET_SOH_POS + 1"
definition PACKET_CMD_POS :: int where "PACKET_CMD_POS = PACKET_LEN_POS + 4"
definition PACKET_SEQ_POS :: int where "PACKET_SEQ_POS = PACKET_CMD_POS + 4"
definition PACKET_BODY_POS :: int where "PACKET_BODY_POS = PACKET_SEQ_POS + 4"

definition PACKET_MIN_LEN :: u32 where "PACKET_MIN_LEN = 18"
definition PACKET_MAX_LEN :: int where "PACKET_MAX_LEN = 1024 * 1024"
definition PACKET_HEAD_LEN :: int where "PACKET_HEAD_LEN = 5"

definition CMD_TEST_VALUE :: u32 where "CMD_TEST_VALUE = 0x2900"
definition CMD_TEST_ECHO :: u32 where "CMD_TEST_ECHO = 0x3000"

lemmas packet_pos = PACKET_SOH_POS_def PACKET_LEN_POS_def PACKET_CMD_POS_def PACKET_SEQ_POS_def
  PACKET_BODY_POS_def

record PacketPack =
  pBuffer :: charp
  iPos :: int
  iTailer :: int
  iHeader :: int
  iTotal :: int

section \<open>Views\<close>

text \<open>\<open>ok\<close> says whether \<open>malloc\<close> finds the memory for the view.\<close>

definition CreatePackFromBuffer ::
  "bool \<Rightarrow> bmem \<Rightarrow> charp \<Rightarrow> int \<Rightarrow> (PacketPack option \<times> bmem) outcome" where
  "CreatePackFromBuffer ok m t_pBuffer t_iLen =
     (if t_pBuffer = CNull then Inr (None, m)
      else if \<not> ok then Inr (None, m)
      else let pk = \<lparr>pBuffer = t_pBuffer, iPos = PACKET_BODY_POS, iTailer = PACKET_BODY_POS,
                     iHeader = 0, iTotal = t_iLen\<rparr>
        in cbind (store_byte m (pBuffer pk) PACKET_SOH_POS PROTO_SOH) (\<lambda>m1.
           cbind (store_byte m1 (pBuffer pk) (iTailer pk) PROTO_EOT) (\<lambda>m2.
           cbind (store_bytes m2 (ptr_add (pBuffer pk) PACKET_LEN_POS) (htonl_bytes PACKET_MIN_LEN))
             (\<lambda>m3. Inr (Some pk, m3)))))"

definition PacketPack2String :: "bmem \<Rightarrow> PacketPack option \<Rightarrow> (charp \<times> bmem) outcome" where
  "PacketPack2String m t_pstPacketPack = (case t_pstPacketPack of None \<Rightarrow> Inr (CNull, m)
     | Some pk \<Rightarrow>
        cbind (store_byte m (pBuffer pk) PACKET_SOH_POS PROTO_SOH) (\<lambda>m1.
        cbind (store_byte m1 (pBuffer pk) (iTailer pk) PROTO_EOT) (\<lambda>m2.
        cbind (c_int (iTailer pk + 1)) (\<lambda>len.
        cbind (store_bytes m2 (ptr_add (pBuffer pk) PACKET_LEN_POS) (htonl_bytes (word_of_int len)))
          (\<lambda>m3. Inr (pBuffer pk, m3))))))"

text \<open>The two tests of the packet's ends, the second only made when the first one passes.\<close>

definition bad_ends :: "bmem \<Rightarrow> PacketPack \<Rightarrow> bool outcome" where
  "bad_ends m pk = cbind (load_byte m (pBuffer pk) PACKET_SOH_POS) (\<lambda>soh.
     if soh \<noteq> PROTO_SOH then Inr True
     else cbind (load_byte m (pBuffer pk) (iTailer pk)) (\<lambda>eot. Inr (eot \<noteq> PROTO_EOT)))"

definition String2PacketPack ::
  "bool \<Rightarrow> bmem \<Rightarrow> charp \<Rightarrow> int \<Rightarrow> PacketPack option outcome" where
  "String2PacketPack ok m t_pbuff t_iLen =
     (if t_pbuff = CNull \<or> t_iLen < 0 then Inr None
      else if \<not> ok then Inr None
      else let pk = \<lparr>pBuffer = t_pbuff, iPos = PACKET_BODY_POS, iTailer = t_iLen - 1,
                     iHeader = 0, iTotal = t_iLen\<rparr>
        in cbind (bad_ends m pk) (\<lambda>bad. Inr (if bad then None else Some pk)))"

section \<open>Fields\<close>

text \<open>
  \<open>SetPacketLen\<close> and \<open>SetPacketCmd\<close> take the address of an element of the array
  \<open>t_pstPacketPack\<close> is taken to point to, not of the packet's buffer: the four bytes go
  \<open>sizeof(PacketPack)\<close> times the field position behind the start of a single allocated
  \<open>PacketPack\<close> of 24 bytes (a pointer and four \<open>int32_t\<close>).
\<close>

definition sizeof_PacketPack :: nat where "sizeof_PacketPack = 24"

definition write_pack_element :: "int \<Rightarrow> buf \<Rightarrow> unit outcome" where
  "write_pack_element k xs =
     cbind (mem_copy (replicate sizeof_PacketPack 0) (int sizeof_PacketPack * k) xs) (\<lambda>_. Inr ())"

definition SetPacketLen :: "PacketPack option \<Rightarrow> u32 \<Rightarrow> unit outcome" where
  "SetPacketLen t_pstPacketPack t_uPacketLen = (case t_pstPacketPack of None \<Rightarrow> Inr ()
     | Some pk \<Rightarrow> write_pack_element PACKET_LEN_POS (htonl_bytes t_uPacketLen))"

definition GetPktLenFromHead :: u32 where "GetPktLenFromHead = 0"

definition GetPacketLen :: "PacketPack option \<Rightarrow> u32 outcome" where
  "GetPacketLen t_pstPacketPack = (case t_pstPacketPack of None \<Rightarrow> Inr 0
     | Some pk \<Rightarrow> cbind (c_int (iTailer pk + 1)) (\<lambda>len. Inr (word_of_int len)))"

definition SetPacketCmd :: "PacketPack option \<Rightarrow> u32 \<Rightarrow> unit outcome" where
  "SetPacketCmd t_pstPacketPack t_uPacketCmd = (case t_pstPacketPack of None \<Rightarrow> Inr ()
     | Some pk \<Rightarrow> write_pack_element PACKET_CMD_POS (htonl_bytes t_uPacketCmd))"

definition GetPacketCmd :: "bmem \<Rightarrow> PacketPack option \<Rightarrow> u32 outcome" where
  "GetPacketCmd m t_pstPacketPack = (case t_pstPacketPack of None \<Rightarrow> Inr 0
     | Some pk \<Rightarrow> cbind (load_bytes m (ptr_add (pBuffer pk) PACKET_CMD_POS) 4)
                   (\<lambda>bs. Inr (ntohl_bytes bs)))"

definition SetPacketSeq :: "bmem \<Rightarrow> PacketPack option \<Rightarrow> u32 \<Rightarrow> bmem outcome" where
  "SetPacketSeq m t_pstPacketPack t_uPacketSeq = (case t_pstPacketPack of None \<Rightarrow> Inr m
     | Some pk \<Rightarrow> store_bytes m (ptr_add (pBuffer pk) PACKET_SEQ_POS) (htonl_bytes t_uPacketSeq))"

definition GetPacketSeq :: "bmem \<Rightarrow> PacketPack option \<Rightarrow> u32 outcome" where
  "GetPacketSeq m t_pstPacketPack = (case t_pstPacketPack of None \<Rightarrow> Inr 0
     | Some pk \<Rightarrow> cbind (load_bytes m (ptr_add (pBuffer pk) PACKET_SEQ_POS) 4)
                   (\<lambda>bs. Inr (ntohl_bytes bs)))"

section \<open>Body\<close>

definition GetDataPos :: "PacketPack option \<Rightarrow> charp" where
  "GetDataPos t_pstPacketPack = (case t_pstPacketPack of None \<Rightarrow> CNull
     | Some pk \<Rightarrow> ptr_add (pBuffer pk) PACKET_BODY_POS)"

definition GetDataSize :: "PacketPack option \<Rightarrow> int outcome" where
  "GetDataSize t_pstPacketPack = (case t_pstPacketPack of None \<Rightarrow> Inr (-1)
     | Some pk \<Rightarrow> c_int (iTailer pk - iPos pk))"

definition SetDataBody ::
  "bmem \<Rightarrow> PacketPack option \<Rightarrow> charp \<Rightarrow> int \<Rightarrow> (int \<times> PacketPack option \<times> bmem) outcome" where
  "SetDataBody m t_pstPacketPack t_pData t_iDataLen = (case t_pstPacketPack of
       None \<Rightarrow> Inr (-1, None, m)
     | Some pk \<Rightarrow>
        if t_pData = CNull \<or> t_iDataLen \<le> 0 then Inr (-1, Some pk, m)
        else cbind (c_int (iTailer pk + t_iDataLen)) (\<lambda>top.
             cbind (c_int (iTotal pk - 1)) (\<lambda>lim.
               if top > lim then Inr (-1, Some pk, m)
               else cbind (c_memcpy m (ptr_add (pBuffer pk) (iTailer pk)) t_pData t_iDataLen) (\<lambda>m1.
                 let pk' = pk\<lparr>iTailer := top\<rparr>
                 in cbind (store_byte m1 (pBuffer pk') (iTailer pk') PROTO_EOT) (\<lambda>m2.
                      Inr (0, Some pk', m2))))))"

text \<open>
  \<open>AddAllData2Packet\<close> writes two string literals, not its argument: seven bytes of
  \<open>"ffllosb"\<close>, then the remaining length from a literal of twenty-one characters and a
  terminating zero.  The test against \<open>iTotal\<close> has an empty body; it is kept for the
  additions it makes.
\<close>

definition ffllosb :: buf where "ffllosb = [0x66, 0x66, 0x6C, 0x6C, 0x6F, 0x73, 0x62]"

definition literal_a :: buf where "literal_a = replicate 21 0x61 @ [0]"

definition AddAllData2Packet ::
  "bmem \<Rightarrow> PacketPack option \<Rightarrow> charp \<Rightarrow> int \<Rightarrow> (int \<times> PacketPack option \<times> bmem) outcome" where
  "AddAllData2Packet m t_pstPacketPack t_pBuffer t_uBuffLen = (case t_pstPacketPack of
       None \<Rightarrow> Inr (RET_FAIL, None, m)
     | Some pk \<Rightarrow>
        if t_pBuffer = CNull \<or> t_uBuffLen \<le> 0 then Inr (RET_FAIL, Some pk, m)
        else cbind (c_int (iTailer pk + t_uBuffLen)) (\<lambda>top.
             cbind (c_int (iTotal pk - 1)) (\<lambda>_.
             cbind (c_strlen m t_pBuffer) (\<lambda>_.
             let iOriLen = int (length ffllosb) in
             cbind (store_bytes m (ptr_add (pBuffer pk) (iTailer pk)) ffllosb) (\<lambda>m1.
             cbind (mem_slice literal_a 0 (t_uBuffLen - iOriLen)) (\<lambda>lits.
             cbind (store_bytes m1 (ptr_add (pBuffer pk) (iTailer pk + iOriLen - 1)) lits) (\<lambda>m2.
             cbind (load_byte m2 (pBuffer pk) (iTailer pk + 1)) (\<lambda>_.
             let pk' = pk\<lparr>iTailer := top\<rparr> in
             cbind (store_byte m2 (pBuffer pk') (iTailer pk') PROTO_EOT) (\<lambda>m3.
               Inr (RET_SUCC, Some pk', m3))))))))))"

section \<open>Facts\<close>

lemma SetPacketLen_undefined: "SetPacketLen (Some pk) v = undef OutOfBounds"
  by (simp add: SetPacketLen_def write_pack_element_def mem_copy_def packet_pos sizeof_PacketPack_def)

lemma SetPacketCmd_undefined: "SetPacketCmd (Some pk) v = undef OutOfBounds"
  by (simp add: SetPacketCmd_def write_pack_element_def mem_copy_def packet_pos sizeof_PacketPack_def)

lemma bad_ends_Inr_iff [outcome_iff]:
  "bad_ends m pk = Inr b \<longleftrightarrow> (\<exists>soh. load_byte m (pBuffer pk) PACKET_SOH_POS = Inr soh \<and>
     (if soh \<noteq> PROTO_SOH then b = True
      else \<exists>eot. load_byte m (pBuffer pk) (iTailer pk) = Inr eot \<and> b = (eot \<noteq> PROTO_EOT)))"
  by (auto simp: bad_ends_def cbind_Inr_iff)

text \<open>What an accepted view looks like.\<close>

lemma String2PacketPack_SomeD:
  assumes "String2PacketPack ok m p n = Inr (Some pk)"
  shows "pBuffer pk = p" "p \<noteq> CNull" "iTailer pk = n - 1" "iPos pk = PACKET_BODY_POS" "iTotal pk = n"
    "load_byte m p 0 = Inr PROTO_SOH" "load_byte m p (n - 1) = Inr PROTO_EOT"
  using assms
  by (auto simp: String2PacketPack_def Let_def cbind_Inr_iff bad_ends_Inr_iff PACKET_SOH_POS_def
      split: if_splits)

lemma GetPacketSeq_Set:
  assumes "SetPacketSeq m (Some pk) v = Inr m'"
  shows "GetPacketSeq m' (Some pk) = Inr v"
  using load_store_same [of m _ "htonl_bytes v" m'] assms
  by (simp add: SetPacketSeq_def GetPacketSeq_def)

text \<open>A write outside the four bytes of the field does not change what \<open>GetPacketSeq\<close> reads.\<close>

lemma load_bytes_store_byte:
  assumes "store_byte m (Ptr b o1) i x = Inr m'" and "load_bytes m (Ptr c o2) n = Inr ys"
    and "c \<noteq> b \<or> o2 + n \<le> o1 + i \<or> o1 + i < o2"
  shows "load_bytes m' (Ptr c o2) n = Inr ys"
  using load_store_other [of m b "o1 + i" "[x]" m' c o2 n ys] assms by (auto simp: store_byte_as_bytes)

lemma GetPacketSeq_load:
  "GetPacketSeq m (Some pk) = Inr v \<longleftrightarrow>
     (\<exists>bs. load_bytes m (ptr_add (pBuffer pk) 9) 4 = Inr bs \<and> v = ntohl_bytes bs)"
  by (auto simp: GetPacketSeq_def cbind_Inr_iff packet_pos)

end
