(* ===== verification/BinProtoProperties.thy ===== *)
theory BinProtoProperties
  imports BinProto
begin

text \<open>
  The properties of the packet layer: the packets the operations build are exactly those of a
  reference encoder, the operations that read a packet invert it, and the bounds of the body
  operations.
\<close>

section \<open>Reference encoder\<close>

definition packet_bytes :: "u32 \<Rightarrow> u32 \<Rightarrow> buf \<Rightarrow> buf" where
  "packet_bytes cmd seqno body = [PROTO_SOH] @ htonl_bytes (of_nat (14 + length body))
     @ htonl_bytes cmd @ htonl_bytes seqno @ body @ [PROTO_EOT]"

lemma length_packet_bytes [simp]: "length (packet_bytes cmd seqno body) = 14 + length body"
  by (simp add: packet_bytes_def)

lemma mem_at_packet:
  "mem_at m b off (packet_bytes cmd seqno body) \<longleftrightarrow>
     mem_at m b off [PROTO_SOH] \<and> mem_at m b (off + 1) (htonl_bytes (of_nat (14 + length body)))
     \<and> mem_at m b (off + 5) (htonl_bytes cmd) \<and> mem_at m b (off + 9) (htonl_bytes seqno)
     \<and> mem_at m b (off + 13) body \<and> mem_at m b (off + 13 + int (length body)) [PROTO_EOT]"
  by (simp only: packet_bytes_def mem_at_append length_htonl_bytes) (simp add: add.assoc)

lemma word_len: "(word_of_int (13 + int n + 1) :: u32) = of_nat (14 + n)"
proof -
  have "13 + int n + 1 = int (14 + n)" by simp
  then show ?thesis by (simp only: of_int_of_nat_eq)
qed

text \<open>The three writes that both \<open>__CreatePackFromBuffer\<close> and \<open>PacketPack2String\<close> make
  change the ends and the length field only.\<close>

definition kept_but_ends :: "bmem \<Rightarrow> bmem \<Rightarrow> nat \<Rightarrow> int \<Rightarrow> int \<Rightarrow> bool" where
  "kept_but_ends m m' b off t \<longleftrightarrow> (\<forall>c o2 ys. mem_at m c o2 ys \<longrightarrow>
     c \<noteq> b \<or> o2 + int (length ys) \<le> off \<or> off + t + 1 \<le> o2
       \<or> off + 5 \<le> o2 \<and> o2 + int (length ys) \<le> off + t \<longrightarrow> mem_at m' c o2 ys)"

lemma kept_but_endsD:
  "kept_but_ends m m' b off t \<Longrightarrow> mem_at m c o2 ys \<Longrightarrow>
     c \<noteq> b \<or> o2 + int (length ys) \<le> off \<or> off + t + 1 \<le> o2
       \<or> off + 5 \<le> o2 \<and> o2 + int (length ys) \<le> off + t \<Longrightarrow> mem_at m' c o2 ys"
  unfolding kept_but_ends_def by blast

lemma kept_but_endsI:
  assumes "kept_outside m m1 b off (off + 1)" "kept_outside m1 m2 b (off + t) (off + t + 1)"
    "kept_outside m2 m3 b (off + 1) (off + 5)" "13 \<le> t"
  shows "kept_but_ends m m3 b off t"
  unfolding kept_but_ends_def
proof (intro allI impI)
  fix c o2 ys
  assume a: "mem_at m c o2 ys" and d: "c \<noteq> b \<or> o2 + int (length ys) \<le> off \<or> off + t + 1 \<le> o2
       \<or> off + 5 \<le> o2 \<and> o2 + int (length ys) \<le> off + t"
  have "mem_at m1 c o2 ys" by (rule kept_outsideD [OF assms(1) a]) (use d assms(4) in linarith)
  then have "mem_at m2 c o2 ys" by (rule kept_outsideD [OF assms(2)]) (use d assms(4) in linarith)
  then show "mem_at m3 c o2 ys" by (rule kept_outsideD [OF assms(3)]) (use d assms(4) in linarith)
qed

lemma frame_writes:
  assumes room: "mem_room m b n" and "0 \<le> off" "13 \<le> t" "off + t + 1 \<le> n"
  obtains m1 m2 m3 where "store_byte m (Ptr b off) 0 PROTO_SOH = Inr m1"
    "store_byte m1 (Ptr b off) t PROTO_EOT = Inr m2"
    "store_bytes m2 (Ptr b (off + 1)) (htonl_bytes v) = Inr m3" "mem_room m3 b n"
    "mem_at m3 b off [PROTO_SOH]" "mem_at m3 b (off + t) [PROTO_EOT]" "mem_at m3 b (off + 1) (htonl_bytes v)"
    "kept_but_ends m m3 b off t"
proof -
  obtain m1 where m1: "store_bytes m (Ptr b off) [PROTO_SOH] = Inr m1" "mem_room m1 b n"
    "mem_at m1 b off [PROTO_SOH]" "kept_outside m m1 b off (off + int (length [PROTO_SOH]))"
    by (rule store_kept [OF room, of off "[PROTO_SOH]"]) (use assms(2-4) in simp_all)
  obtain m2 where m2: "store_bytes m1 (Ptr b (off + t)) [PROTO_EOT] = Inr m2" "mem_room m2 b n"
    "mem_at m2 b (off + t) [PROTO_EOT]" "kept_outside m1 m2 b (off + t) (off + t + int (length [PROTO_EOT]))"
    by (rule store_kept [OF m1(2), of "off + t" "[PROTO_EOT]"]) (use assms(2-4) in simp_all)
  obtain m3 where m3: "store_bytes m2 (Ptr b (off + 1)) (htonl_bytes v) = Inr m3" "mem_room m3 b n"
    "mem_at m3 b (off + 1) (htonl_bytes v)"
    "kept_outside m2 m3 b (off + 1) (off + 1 + int (length (htonl_bytes v)))"
    by (rule store_kept [OF m2(2), of "off + 1" "htonl_bytes v"]) (use assms(2-4) in simp_all)
  have "mem_at m2 b off [PROTO_SOH]" by (rule kept_outsideD [OF m2(4) m1(3)]) (use assms(3) in simp)
  then have s: "mem_at m3 b off [PROTO_SOH]" by (rule kept_outsideD [OF m3(4)]) (use assms(3) in simp)
  have e: "mem_at m3 b (off + t) [PROTO_EOT]"
    by (rule kept_outsideD [OF m3(4) m2(3)]) (use assms(3) in simp)
  have k: "kept_but_ends m m3 b off t"
    by (rule kept_but_endsI [OF m1(4) [simplified] m2(4) [simplified] _ assms(3)]) (use m3(4) in \<open>simp add: add.commute\<close>)
  show thesis
    by (rule that [OF _ _ m3(1,2) s e m3(3) k]) (use m1(1) m2(1) in \<open>simp_all add: store_byte_as_bytes\<close>)
qed

section \<open>Building a packet\<close>

definition built_pack :: "nat \<Rightarrow> int \<Rightarrow> int \<Rightarrow> int \<Rightarrow> PacketPack" where
  "built_pack b off cap t = \<lparr>pBuffer = Ptr b off, iPos = 13, iTailer = t, iHeader = 0, iTotal = cap\<rparr>"

lemma CreatePack_built:
  assumes "mem_room m b n" "0 \<le> off" "off + 14 \<le> n"
  obtains m' where "CreatePackFromBuffer True m (Ptr b off) cap = Inr (Some (built_pack b off cap 13), m')"
    "mem_room m' b n"
    "kept_but_ends m m' b off 13"
proof -
  obtain m1 m2 m3 where w: "store_byte m (Ptr b off) 0 PROTO_SOH = Inr m1"
    "store_byte m1 (Ptr b off) 13 PROTO_EOT = Inr m2"
    "store_bytes m2 (Ptr b (off + 1)) (htonl_bytes PACKET_MIN_LEN) = Inr m3" "mem_room m3 b n"
    "kept_but_ends m m3 b off 13"
    by (rule frame_writes [OF assms(1,2), of 13 PACKET_MIN_LEN]) (use assms(3) in simp_all)
  show thesis
    by (rule that [OF _ w(4,5)])
       (use w(1-3) in \<open>simp add: CreatePackFromBuffer_def built_pack_def packet_pos Let_def\<close>)
qed

lemma SetSeq_built:
  assumes "mem_room m b n" "0 \<le> off" "off + 14 \<le> n"
  obtains m' where "SetPacketSeq m (Some (built_pack b off cap t)) v = Inr m'" "mem_room m' b n"
    "mem_at m' b (off + 9) (htonl_bytes v)" "kept_outside m m' b (off + 9) (off + 13)"
proof -
  obtain m' where "store_bytes m (Ptr b (off + 9)) (htonl_bytes v) = Inr m'" "mem_room m' b n"
    "mem_at m' b (off + 9) (htonl_bytes v)" "kept_outside m m' b (off + 9) (off + 13)"
    by (rule store_kept [OF assms(1), of "off + 9" "htonl_bytes v"]) (use assms in \<open>simp_all add: add.commute\<close>)
  then show thesis
    using that [of m'] by (simp add: SetPacketSeq_def built_pack_def packet_pos)
qed

text \<open>\<open>SetDataBody\<close> on a view whose range is inside its block, with data from another block.\<close>

lemma SetDataBody_built:
  assumes room: "mem_room m b (off + cap)" and "0 \<le> off" "0 \<le> t" "cap \<le> INT_MAX"
    and src: "mem_at m c so data" "c \<noteq> b" and n: "data \<noteq> []" "t + int (length data) < cap"
  obtains m' where "SetDataBody m (Some (built_pack b off cap t)) (Ptr c so) (int (length data))
      = Inr (0, Some (built_pack b off cap (t + int (length data))), m')"
    "mem_room m' b (off + cap)" "mem_at m' b (off + t) data"
    "mem_at m' b (off + t + int (length data)) [PROTO_EOT]"
    "kept_outside m m' b (off + t) (off + t + int (length data) + 1)"
proof -
  let ?n = "int (length data)"
  obtain m1 where m1: "store_bytes m (Ptr b (off + t)) data = Inr m1" "mem_room m1 b (off + cap)"
    "mem_at m1 b (off + t) data" "kept_outside m m1 b (off + t) (off + t + ?n)"
    by (rule store_kept [OF room, of "off + t" data]) (use assms(2,3) n in simp_all)
  obtain m2 where m2: "store_bytes m1 (Ptr b (off + t + ?n)) [PROTO_EOT] = Inr m2" "mem_room m2 b (off + cap)"
    "mem_at m2 b (off + t + ?n) [PROTO_EOT]" 
    "kept_outside m1 m2 b (off + t + ?n) (off + t + ?n + int (length [PROTO_EOT]))"
    by (rule store_kept [OF m1(2), of "off + t + ?n" "[PROTO_EOT]"]) (use assms(2,3) n in simp_all)
  have cpy: "c_memcpy m (Ptr b (off + t)) (Ptr c so) ?n = Inr m1"
    using m1(1) src by (simp add: c_memcpy_def c_memmove_def mem_at_def)
  have "mem_at m2 b (off + t) data" by (rule kept_outsideD [OF m2(4) m1(3)]) simp
  moreover have "kept_outside m m2 b (off + t) (off + t + ?n + 1)"
    by (rule kept_outside_trans [OF m1(4) m2(4)]) simp_all
  moreover have "SetDataBody m (Some (built_pack b off cap t)) (Ptr c so) ?n
      = Inr (0, Some (built_pack b off cap (t + ?n)), m2)"
    using cpy m2(1) n assms(3,4)
    by (simp add: SetDataBody_def built_pack_def INT_MAX_def store_byte_as_bytes Let_def add.assoc)
  ultimately show thesis using that m2(2,3) by blast
qed

lemma Pack2String_built:
  assumes "mem_room m b n" "0 \<le> off" "13 \<le> t" "off + t + 1 \<le> n" "t < INT_MAX"
  obtains m' where "PacketPack2String m (Some (built_pack b off cap t)) = Inr (Ptr b off, m')"
    "mem_at m' b off [PROTO_SOH]" "mem_at m' b (off + t) [PROTO_EOT]"
    "mem_at m' b (off + 1) (htonl_bytes (word_of_int (t + 1)))"
    "kept_but_ends m m' b off t"
proof -
  obtain m1 m2 m3 where w: "store_byte m (Ptr b off) 0 PROTO_SOH = Inr m1"
    "store_byte m1 (Ptr b off) t PROTO_EOT = Inr m2"
    "store_bytes m2 (Ptr b (off + 1)) (htonl_bytes (word_of_int (t + 1))) = Inr m3"
    "mem_at m3 b off [PROTO_SOH]" "mem_at m3 b (off + t) [PROTO_EOT]"
    "mem_at m3 b (off + 1) (htonl_bytes (word_of_int (t + 1)))"
    "kept_but_ends m m3 b off t"
    by (rule frame_writes [OF assms(1-4), of "word_of_int (t + 1)"])
  have i: "c_int (t + 1) = Inr (t + 1)" using assms(3,5) by (simp add: INT_MAX_def)
  show thesis
    by (rule that [OF _ w(4-7)])
       (use w(1-3) i in \<open>simp add: PacketPack2String_def built_pack_def packet_pos\<close>)
qed

section \<open>Reading a packet\<close>

lemma packet_decodes:
  assumes "mem_at m b off (packet_bytes cmd seqno body)" and "14 + int (length body) \<le> INT_MAX"
  shows "\<exists>pk. String2PacketPack True m (Ptr b off) (14 + int (length body)) = Inr (Some pk)
     \<and> GetPacketCmd m (Some pk) = Inr cmd \<and> GetPacketSeq m (Some pk) = Inr seqno
     \<and> GetPacketLen (Some pk) = Inr (of_nat (14 + length body))
     \<and> GetDataSize (Some pk) = Inr (int (length body))
     \<and> load_bytes m (GetDataPos (Some pk)) (int (length body)) = Inr body"
proof -
  let ?n = "int (length body)" and ?pk = "built_pack b off (14 + int (length body)) (13 + int (length body))"
  have at: "mem_at m b off [PROTO_SOH]" "mem_at m b (off + 5) (htonl_bytes cmd)"
    "mem_at m b (off + 9) (htonl_bytes seqno)" "mem_at m b (off + 13) body"
    "mem_at m b (off + 13 + ?n) [PROTO_EOT]"
    using assms(1) unfolding mem_at_packet by simp_all
  have ends: "load_byte m (Ptr b off) 0 = Inr PROTO_SOH" "load_byte m (Ptr b off) (13 + ?n) = Inr PROTO_EOT"
    using at(1,5) by (simp_all add: mem_at_load_byte add.assoc)
  have "String2PacketPack True m (Ptr b off) (14 + ?n) = Inr (Some ?pk)"
    using ends by (simp add: String2PacketPack_def Let_def bad_ends_def built_pack_def packet_pos)
  moreover have "GetPacketCmd m (Some ?pk) = Inr cmd"
    using mem_at_load [OF at(2)] by (simp add: GetPacketCmd_def built_pack_def packet_pos)
  moreover have "GetPacketSeq m (Some ?pk) = Inr seqno"
    using mem_at_load [OF at(3)] by (simp add: GetPacketSeq_def built_pack_def packet_pos)
  moreover have "GetPacketLen (Some ?pk) = Inr (of_nat (14 + length body))"
    using assms(2) unfolding word_len [symmetric]
    by (simp add: GetPacketLen_def built_pack_def INT_MAX_def)
  moreover have "GetDataSize (Some ?pk) = Inr ?n"
    using assms(2) by (simp add: GetDataSize_def built_pack_def INT_MAX_def)
  moreover have "load_bytes m (GetDataPos (Some ?pk)) ?n = Inr body"
    using mem_at_load [OF at(4)] by (simp add: GetDataPos_def built_pack_def packet_pos)
  ultimately show ?thesis by blast
qed

section \<open>Properties\<close>

text \<open>C31: filling an empty buffer range through the packet operations (create the view, set the
  sequence number, set the body, finish) writes exactly the packet of the reference encoder, with
  the command that was already in the buffer (the program has no operation that sets it), and
  changes nothing outside the packet's range.\<close>

theorem packet_build_encodes:
  assumes "mem_room m b (off + cap)" "0 \<le> off" "cap \<le> INT_MAX"
    and "mem_at m b (off + 5) (htonl_bytes cmd)"
    and "mem_at m c so body" "c \<noteq> b" "body \<noteq> []" "14 + int (length body) \<le> cap"
  shows "\<exists>pk m1 m2 pk' m3 m4.
       CreatePackFromBuffer True m (Ptr b off) cap = Inr (Some pk, m1)
     \<and> SetPacketSeq m1 (Some pk) seqno = Inr m2
     \<and> SetDataBody m2 (Some pk) (Ptr c so) (int (length body)) = Inr (0, Some pk', m3)
     \<and> PacketPack2String m3 (Some pk') = Inr (Ptr b off, m4)
     \<and> GetPacketLen (Some pk') = Inr (of_nat (14 + length body))
     \<and> mem_at m4 b off (packet_bytes cmd seqno body)
     \<and> kept_outside m m4 b off (off + 14 + int (length body))"
proof -
  let ?n = "int (length body)" and ?p = "built_pack b off cap"
  have n: "0 < ?n" using assms(7) by simp
  obtain m1 where m1: "CreatePackFromBuffer True m (Ptr b off) cap = Inr (Some (?p 13), m1)"
    "mem_room m1 b (off + cap)" "kept_but_ends m m1 b off 13"
    by (rule CreatePack_built [OF assms(1,2)]) (use assms(8) n in simp_all)
  obtain m2 where m2: "SetPacketSeq m1 (Some (?p 13)) seqno = Inr m2" "mem_room m2 b (off + cap)"
    "mem_at m2 b (off + 9) (htonl_bytes seqno)" "kept_outside m1 m2 b (off + 9) (off + 13)"
    by (rule SetSeq_built [OF m1(2) assms(2)]) (use assms(8) n in simp_all)
  have src: "mem_at m2 c so body"
    using kept_outsideD [OF m2(4) kept_but_endsD [OF m1(3) assms(5)]] assms(6) by blast
  obtain m3 where m3: "SetDataBody m2 (Some (?p 13)) (Ptr c so) ?n = Inr (0, Some (?p (13 + ?n)), m3)"
    "mem_room m3 b (off + cap)" "mem_at m3 b (off + 13) body"
    "kept_outside m2 m3 b (off + 13) (off + 13 + ?n + 1)"
    by (rule SetDataBody_built [OF m2(2) assms(2) _ assms(3) src assms(6,7), of 13]) (use assms(8) in simp_all)
  obtain m4 where m4: "PacketPack2String m3 (Some (?p (13 + ?n))) = Inr (Ptr b off, m4)"
    "mem_at m4 b off [PROTO_SOH]" "mem_at m4 b (off + (13 + ?n)) [PROTO_EOT]"
    "mem_at m4 b (off + 1) (htonl_bytes (word_of_int (13 + ?n + 1)))"
    "kept_but_ends m3 m4 b off (13 + ?n)"
    by (rule Pack2String_built [OF m3(2) assms(2), of "13 + ?n" cap]) (use assms(3,8) n in simp_all)
  have cmd: "mem_at m4 b (off + 5) (htonl_bytes cmd)"
    by (rule kept_but_endsD [OF m4(5) kept_outsideD [OF m3(4) kept_outsideD [OF m2(4)
          kept_but_endsD [OF m1(3) assms(4)]]]]) (use n in simp_all)
  have sq: "mem_at m4 b (off + 9) (htonl_bytes seqno)"
    by (rule kept_but_endsD [OF m4(5) kept_outsideD [OF m3(4) m2(3)]]) (use n in simp_all)
  have bd: "mem_at m4 b (off + 13) body"
    by (rule kept_but_endsD [OF m4(5) m3(3)]) simp
  note w = word_len [of "length body"]
  have pkt: "mem_at m4 b off (packet_bytes cmd seqno body)"
    unfolding mem_at_packet using m4(2-4) cmd sq bd w by (simp add: add.assoc)
  have out: "kept_outside m m4 b off (off + 14 + ?n)"
    unfolding kept_outside_def
  proof (intro allI impI)
    fix d o2 ys
    assume a: "mem_at m d o2 ys" and dj: "d \<noteq> b \<or> o2 + int (length ys) \<le> off \<or> off + 14 + ?n \<le> o2"
    have "mem_at m1 d o2 ys" by (rule kept_but_endsD [OF m1(3) a]) (use dj in linarith)
    then have "mem_at m2 d o2 ys" by (rule kept_outsideD [OF m2(4)]) (use dj n in linarith)
    then have "mem_at m3 d o2 ys" by (rule kept_outsideD [OF m3(4)]) (use dj n in linarith)
    then show "mem_at m4 d o2 ys" by (rule kept_but_endsD [OF m4(5)]) (use dj n in linarith)
  qed
  have len: "GetPacketLen (Some (?p (13 + ?n))) = Inr (of_nat (14 + length body))"
    using assms(3,8) unfolding w [symmetric] by (simp add: GetPacketLen_def built_pack_def INT_MAX_def)
  show ?thesis using m1(1) m2(1) m3(1) m4(1) len pkt out by blast
qed

text \<open>C26: reading inverts building: on a buffer that holds a packet of the reference encoder,
  \<open>String2PacketPack\<close> accepts it, and the getters return its command, sequence number, total
  length, body length and body.\<close>

theorem packet_read_decodes:
  assumes "mem_at m b off (packet_bytes cmd seqno body)" and "14 + int (length body) \<le> INT_MAX"
  shows "\<exists>pk. String2PacketPack True m (Ptr b off) (14 + int (length body)) = Inr (Some pk)
     \<and> GetPacketCmd m (Some pk) = Inr cmd \<and> GetPacketSeq m (Some pk) = Inr seqno
     \<and> GetPacketLen (Some pk) = Inr (of_nat (14 + length body))
     \<and> GetDataSize (Some pk) = Inr (int (length body))
     \<and> load_bytes m (GetDataPos (Some pk)) (int (length body)) = Inr body"
  using assms by (rule packet_decodes)

text \<open>
  \<open>SetDataBody\<close> on a view whose range lies inside its block never leaves that range:
  it either appends the data, moves the end of the packet and marks it, or refuses (no data, or
  no room for the data and the end mark) and changes nothing.\<close>

theorem set_data_body_bounds:
  assumes "mem_room m b (off + cap)" "0 \<le> off" "0 \<le> t" "t < cap" "cap \<le> INT_MAX"
    and "mem_at m c so body" "c \<noteq> b" "t + int (length body) \<le> INT_MAX"
  shows "\<exists>r pk' m'. SetDataBody m (Some (built_pack b off cap t)) (Ptr c so) (int (length body))
         = Inr (r, Some pk', m')
     \<and> (if body \<noteq> [] \<and> t + int (length body) < cap
        then r = 0 \<and> pk' = built_pack b off cap (t + int (length body))
          \<and> mem_at m' b (off + t) body \<and> mem_at m' b (off + t + int (length body)) [PROTO_EOT]
          \<and> kept_outside m m' b (off + t) (off + t + int (length body) + 1)
        else r = -1 \<and> pk' = built_pack b off cap t \<and> m' = m)"
proof (cases "body \<noteq> [] \<and> t + int (length body) < cap")
  case True
  then show ?thesis using SetDataBody_built [OF assms(1-3,5-7)] by metis
next
  case False
  have "SetDataBody m (Some (built_pack b off cap t)) (Ptr c so) (int (length body))
      = Inr (-1, Some (built_pack b off cap t), m)"
    using False assms(3,4,5,8) by (auto simp: SetDataBody_def built_pack_def INT_MAX_def)
  then show ?thesis using False by auto
qed

text \<open>
  \<open>String2PacketPack\<close> accepts a non-empty readable range exactly when its first
  byte is the start mark and its last byte the end mark; the length field is not compared with
  the length it is given.\<close>

theorem packet_accepted_iff_ends:
  assumes "mem_at m b off xs" "xs \<noteq> []"
  shows "String2PacketPack ok m (Ptr b off) (int (length xs)) =
    Inr (if ok \<and> hd xs = PROTO_SOH \<and> last xs = PROTO_EOT
         then Some (built_pack b off (int (length xs)) (int (length xs) - 1)) else None)"
proof -
  have sp: "xs = [hd xs] @ tl xs" "xs = butlast xs @ [last xs]" using assms(2) by simp_all
  have "mem_at m b off ([hd xs] @ tl xs)" using assms(1) sp(1) by simp
  then have h: "load_byte m (Ptr b off) 0 = Inr (hd xs)"
    by (intro mem_at_load_byte) (simp only: mem_at_append add_0_right)
  have "mem_at m b off (butlast xs @ [last xs])" using assms(1) sp(2) by simp
  then have "mem_at m b (off + int (length (butlast xs))) [last xs]" by (simp only: mem_at_append)
  moreover have "int (length (butlast xs)) = int (length xs) - 1"
    using assms(2) by (cases xs) auto
  ultimately have l: "load_byte m (Ptr b off) (int (length xs) - 1) = Inr (last xs)"
    by (intro mem_at_load_byte) simp
  show ?thesis
    using h l by (simp add: String2PacketPack_def bad_ends_def Let_def built_pack_def packet_pos)
qed

text \<open>
  \<open>SetPacketLen\<close> and \<open>SetPacketCmd\<close> write outside the pack structure on
  every pack that is not null.\<close>

theorem set_len_cmd_out_of_bounds:
  "SetPacketLen (Some pk) v = undef OutOfBounds \<and> SetPacketCmd (Some pk) v = undef OutOfBounds"
  by (simp add: SetPacketLen_undefined SetPacketCmd_undefined)

text \<open>
  \<open>AddAllData2Packet\<close> never completes for a length below 7 or above 29: its second
  copy then has a negative length or reads behind the 22 bytes of the literal.  Its caller passes
  the body length plus 128.\<close>

theorem add_all_data_needs_short_length:
  assumes "n < 7 \<or> 29 < n" and "0 < n" and "src \<noteq> CNull"
  shows "\<nexists>r. AddAllData2Packet m (Some pk) src n = Inr r"
proof -
  have "mem_slice literal_a 0 (n - int (length ffllosb)) = undef OutOfBounds"
    using assms(1) by (auto simp: mem_slice_def literal_a_def ffllosb_def)
  then show ?thesis
    using assms(2,3) by (auto simp: AddAllData2Packet_def Let_def cbind_Inr_iff)
qed

section \<open>Instances\<close>

definition two_blocks :: bmem where
  "two_blocks = [0 \<mapsto> replicate 40 0, 1 \<mapsto> [0x68, 0x69]]"

lemma two_blocks_at:
  "mem_room two_blocks 0 (4 + 30)" "mem_at two_blocks 0 (4 + 5) (htonl_bytes 0)"
  "mem_at two_blocks 1 0 [0x68, 0x69]"
  by (simp_all add: mem_room_def mem_at_iff two_blocks_def htonl_bytes_def numeral_eq_Suc)

theorem packet_build_encodes_witness:
  "\<exists>pk m1 m2 pk' m3 m4.
       CreatePackFromBuffer True two_blocks (Ptr 0 4) 30 = Inr (Some pk, m1)
     \<and> SetPacketSeq m1 (Some pk) 7 = Inr m2
     \<and> SetDataBody m2 (Some pk) (Ptr 1 0) (int (length [0x68 :: byte, 0x69])) = Inr (0, Some pk', m3)
     \<and> PacketPack2String m3 (Some pk') = Inr (Ptr 0 4, m4)
     \<and> GetPacketLen (Some pk') = Inr (of_nat (14 + length [0x68 :: byte, 0x69]))
     \<and> mem_at m4 0 4 (packet_bytes 0 7 [0x68, 0x69])
     \<and> kept_outside two_blocks m4 0 4 (4 + 14 + int (length [0x68 :: byte, 0x69]))"
  by (rule packet_build_encodes [OF two_blocks_at(1) _ _ two_blocks_at(2,3)]) (simp_all add: INT_MAX_def)

definition echo_block :: bmem where
  "echo_block = [3 \<mapsto> packet_bytes CMD_TEST_ECHO 1 [0x68, 0x69]]"

lemma echo_block_at: "mem_at echo_block 3 0 (packet_bytes CMD_TEST_ECHO 1 [0x68, 0x69])"
  by (simp add: mem_at_iff echo_block_def)

theorem packet_read_decodes_witness:
  "\<exists>pk. String2PacketPack True echo_block (Ptr 3 0) (14 + int (length [0x68 :: byte, 0x69])) = Inr (Some pk)
     \<and> GetPacketCmd echo_block (Some pk) = Inr CMD_TEST_ECHO \<and> GetPacketSeq echo_block (Some pk) = Inr 1
     \<and> GetPacketLen (Some pk) = Inr (of_nat (14 + length [0x68 :: byte, 0x69]))
     \<and> GetDataSize (Some pk) = Inr (int (length [0x68 :: byte, 0x69]))
     \<and> load_bytes echo_block (GetDataPos (Some pk)) (int (length [0x68 :: byte, 0x69])) = Inr [0x68, 0x69]"
  by (rule packet_read_decodes [OF echo_block_at]) (simp add: INT_MAX_def)

theorem set_data_body_bounds_witness:
  "\<exists>r pk' m'. SetDataBody two_blocks (Some (built_pack 0 4 30 13)) (Ptr 1 0) (int (length [0x68 :: byte, 0x69]))
         = Inr (r, Some pk', m')
     \<and> (if [0x68 :: byte, 0x69] \<noteq> [] \<and> 13 + int (length [0x68 :: byte, 0x69]) < 30
        then r = 0 \<and> pk' = built_pack 0 4 30 (13 + int (length [0x68 :: byte, 0x69]))
          \<and> mem_at m' 0 (4 + 13) [0x68, 0x69] \<and> mem_at m' 0 (4 + 13 + int (length [0x68 :: byte, 0x69])) [PROTO_EOT]
          \<and> kept_outside two_blocks m' 0 (4 + 13) (4 + 13 + int (length [0x68 :: byte, 0x69]) + 1)
        else r = -1 \<and> pk' = built_pack 0 4 30 13 \<and> m' = two_blocks)"
  by (rule set_data_body_bounds [OF two_blocks_at(1) _ _ _ _ two_blocks_at(3)]) (simp_all add: INT_MAX_def)

theorem packet_accepted_iff_ends_witness:
  "String2PacketPack True two_blocks (Ptr 1 0) (int (length [0x68 :: byte, 0x69])) =
    Inr (if True \<and> hd [0x68, 0x69] = PROTO_SOH \<and> last [0x68, 0x69] = PROTO_EOT
         then Some (built_pack 1 0 (int (length [0x68 :: byte, 0x69])) (int (length [0x68 :: byte, 0x69]) - 1))
         else None)"
  by (rule packet_accepted_iff_ends [OF two_blocks_at(3)]) simp

theorem add_all_data_needs_short_length_witness:
  "\<nexists>r. AddAllData2Packet two_blocks (Some (built_pack 0 4 30 13)) (Ptr 1 0) 130 = Inr r"
  by (rule add_all_data_needs_short_length) simp_all

end
