(* ===== verification/World.thy ===== *)
theory World
  imports CMemory MinHeap
begin

text \<open>
  The state of one worker process and of the kernel objects it uses: the \<open>EventBase\<close> and the
  \<open>FdEvent\<close> array of \<open>include/reactor.h\<close>, the connections, the byte buffers, the timer
  nodes, the allocator, and the sockets with what the network has for them.  One \<open>EventBase\<close>
  exists per process, so a pointer to it is \<open>NULL\<close> or not.
\<close>

section \<open>The kernel\<close>

text \<open>
  What the network brings to a socket is a script that \<open>read\<close> consumes: data, the end of the
  stream, or an error of one call; an empty script means that a read would block.  What a socket
  takes is a script of the room \<open>write\<close> finds.  \<open>EWOULDBLOCK\<close> is \<open>EAGAIN\<close> on
  Linux; every other error is \<open>EOTHER\<close>.
\<close>

datatype errno = EAGAIN | EINTR | EOTHER

datatype net_in = Data buf | Eof | InErr errno
datatype net_out = Room nat | OutErr errno
datatype net_conn =
    Incoming int buf int "net_in list" "net_out list"   \<comment> \<open>descriptor, address, port, its future\<close>
  | ConnErr errno

record sock =
  s_flags :: u32
  s_reuseaddr :: bool
  s_keepalive :: bool
  s_sndbuf :: "int option"
  s_port :: "int option"
  s_listening :: bool
  s_in :: "net_in list"
  s_out :: "net_out list"
  s_sent :: buf
  s_conns :: "net_conn list"

text \<open>
  \<open>k_ctl\<close> answers the calls that only succeed or fail for reasons outside the model
  (\<open>fcntl\<close>, \<open>setsockopt\<close>, \<open>bind\<close>, \<open>listen\<close>, \<open>epoll_ctl\<close>), in the order of the
  calls; an exhausted list answers yes.  \<open>k_interest\<close> is the interest list of the epoll object.
\<close>

record kernel =
  k_socks :: "int \<Rightarrow> sock option"
  k_interest :: "int \<Rightarrow> u32 option"
  k_ctl :: "bool list"

definition O_NONBLOCK :: u32 where "O_NONBLOCK = 0x800"
definition EPOLLIN :: u32 where "EPOLLIN = 1"
definition EPOLLOUT :: u32 where "EPOLLOUT = 4"
definition EPOLLERR :: u32 where "EPOLLERR = 8"
definition EPOLLHUP :: u32 where "EPOLLHUP = 0x10"

fun next_answer :: "bool list \<Rightarrow> bool \<times> bool list" where
  "next_answer [] = (True, [])"
| "next_answer (a # as) = (a, as)"

definition sock_is_open :: "kernel \<Rightarrow> int \<Rightarrow> bool" where
  "sock_is_open k fd \<longleftrightarrow> k_socks k fd \<noteq> None"

text \<open>\<open>close\<close> also takes the descriptor out of the interest list.\<close>

definition sys_close :: "kernel \<Rightarrow> int \<Rightarrow> kernel" where
  "sys_close k fd = k\<lparr>k_socks := (k_socks k)(fd := None), k_interest := (k_interest k)(fd := None)\<rparr>"

datatype epoll_op = EPOLL_CTL_ADD | EPOLL_CTL_MOD | EPOLL_CTL_DEL

definition epoll_ctl :: "kernel \<Rightarrow> epoll_op \<Rightarrow> int \<Rightarrow> u32 \<Rightarrow> int \<times> kernel" where
  "epoll_ctl k iOper fd events =
     (let (ok, rest) = next_answer (k_ctl k);
          k1 = k\<lparr>k_ctl := rest\<rparr>;
          valid = (sock_is_open k fd \<and> (k_interest k fd = None \<longleftrightarrow> iOper = EPOLL_CTL_ADD))
      in if ok \<and> valid
         then (0, k1\<lparr>k_interest := (k_interest k)(fd := if iOper = EPOLL_CTL_DEL then None else Some events)\<rparr>)
         else (-1, k1))"

section \<open>The records of reactor.h\<close>

text \<open>The event callbacks of the program; \<open>CbWild\<close> is a function pointer nobody wrote.\<close>

datatype EventCallbackProc = CbNull | AcceptProc | RecvProc | SendProc | CbWild

record FdEvent =
  iMask :: u32
  pFunEventCallbackWrite :: EventCallbackProc
  pFunEventCallbackRead :: EventCallbackProc
  pstArg :: nat

record EventBase =
  iSize :: int
  iFdEventArraySize :: int
  iStopSign :: int
  iEpType :: int
  iEpfd :: int
  iListenFd :: int
  iClientCount :: int
  pstTimeCache :: "timeval option"
  pstHeapHeader :: "MinHeapHeader option"
  pstFdEventsArray :: "FdEvent list"

record ConnFd =
  pstEventBase :: nat
  pstTimeoutEvent :: tptr
  iFd :: int
  iPacketLen :: int
  pszRecvBuf :: charp
  pszSendBuf :: charp
  iRecvTotalLen :: int
  iRecvCurLen :: int
  iSendTotalLen :: int
  iSendCurLen :: int
  iSendPacketLen :: int
  szIpaddr :: buf
  iPort :: int

section \<open>The process\<close>

text \<open>
  \<open>w_malloc\<close> answers the requests for memory in order (exhausted: granted), \<open>w_next\<close> is
  the next unused address and \<open>w_junk\<close> the content of memory that has not been written.
\<close>

record world =
  w_base :: "EventBase option"
  w_conns :: "nat \<Rightarrow> ConnFd option"
  w_tevs :: tev_store
  w_mem :: bmem
  w_next :: nat
  w_malloc :: "bool list"
  w_junk :: "nat \<Rightarrow> byte"
  w_pid :: int
  w_now :: timeval
  w_kern :: kernel

definition get_base :: "world \<Rightarrow> nat \<Rightarrow> EventBase outcome" where
  "get_base w p = (if p = NULL then undef NullDeref
     else case w_base w of None \<Rightarrow> undef UseAfterFree | Some eb \<Rightarrow> Inr eb)"

definition get_conn :: "world \<Rightarrow> nat \<Rightarrow> ConnFd outcome" where
  "get_conn w p = (if p = NULL then undef NullDeref
     else case w_conns w p of None \<Rightarrow> undef UseAfterFree | Some c \<Rightarrow> Inr c)"

definition put_base :: "world \<Rightarrow> EventBase \<Rightarrow> world" where
  "put_base w eb = w\<lparr>w_base := Some eb\<rparr>"

definition put_conn :: "world \<Rightarrow> nat \<Rightarrow> ConnFd \<Rightarrow> world" where
  "put_conn w p c = w\<lparr>w_conns := (w_conns w)(p \<mapsto> c)\<rparr>"

definition put_mem :: "world \<Rightarrow> bmem \<Rightarrow> world" where
  "put_mem w m = w\<lparr>w_mem := m\<rparr>"

definition put_kern :: "world \<Rightarrow> kernel \<Rightarrow> world" where
  "put_kern w k = w\<lparr>w_kern := k\<rparr>"

text \<open>One request to the allocator: whether it is granted.\<close>

definition ask_malloc :: "world \<Rightarrow> bool \<times> world" where
  "ask_malloc w = (let (ok, rest) = next_answer (w_malloc w) in (ok, w\<lparr>w_malloc := rest\<rparr>))"

text \<open>\<open>malloc\<close> of \<open>n\<close> bytes, and \<open>free\<close> of a byte buffer (of \<open>NULL\<close>: nothing).\<close>

definition malloc_bytes :: "world \<Rightarrow> int \<Rightarrow> charp \<times> world" where
  "malloc_bytes w n = (let (ok, w1) = ask_malloc w in
     if ok \<and> 0 \<le> n
     then (Ptr (w_next w1) 0, w1\<lparr>w_next := w_next w1 + 1,
             w_mem := (w_mem w1)(w_next w1 \<mapsto> map (w_junk w1) [0..<nat n])\<rparr>)
     else (CNull, w1))"

fun free_bytes :: "world \<Rightarrow> charp \<Rightarrow> world outcome" where
  "free_bytes w CNull = Inr w"
| "free_bytes w (Ptr b off) =
     (if off = 0 \<and> w_mem w b \<noteq> None then Inr (w\<lparr>w_mem := (w_mem w)(b := None)\<rparr>)
      else undef UseAfterFree)"

text \<open>\<open>malloc\<close> and \<open>free\<close> of a connection or a timer node, which are stored by address.\<close>

definition alloc_addr :: "world \<Rightarrow> nat \<times> world" where
  "alloc_addr w = (let (ok, w1) = ask_malloc w in
     if ok then (w_next w1, w1\<lparr>w_next := w_next w1 + 1\<rparr>) else (NULL, w1))"

definition free_tev :: "world \<Rightarrow> tptr \<Rightarrow> world outcome" where
  "free_tev w p = (if p = NULL then Inr w
     else if w_tevs w p = None then undef UseAfterFree
     else Inr (w\<lparr>w_tevs := (w_tevs w)(p := None)\<rparr>))"

definition free_conn :: "world \<Rightarrow> nat \<Rightarrow> world outcome" where
  "free_conn w p = (if w_conns w p = None then undef UseAfterFree
     else Inr (w\<lparr>w_conns := (w_conns w)(p := None)\<rparr>))"

text \<open>The timer heap of the process, as the functions of \<open>min_heap.c\<close> see it.\<close>

definition heap_of :: "world \<Rightarrow> EventBase \<Rightarrow> heap_state" where
  "heap_of w eb = \<lparr>hs_hdr = pstHeapHeader eb, hs_tevs = w_tevs w\<rparr>"

definition put_heap :: "world \<Rightarrow> EventBase \<Rightarrow> heap_state \<Rightarrow> world" where
  "put_heap w eb st = w\<lparr>w_base := Some (eb\<lparr>pstHeapHeader := hs_hdr st\<rparr>), w_tevs := hs_tevs st\<rparr>"

section \<open>Facts\<close>

lemma get_base_Inr_iff [outcome_iff]: "get_base w p = Inr eb \<longleftrightarrow> p \<noteq> NULL \<and> w_base w = Some eb"
  by (auto simp: get_base_def split: option.splits)

lemma get_conn_Inr_iff [outcome_iff]: "get_conn w p = Inr c \<longleftrightarrow> p \<noteq> NULL \<and> w_conns w p = Some c"
  by (auto simp: get_conn_def split: option.splits)

lemma get_base_Inr [simp]: "p \<noteq> NULL \<Longrightarrow> w_base w = Some eb \<Longrightarrow> get_base w p = Inr eb"
  by (simp add: get_base_def)

lemma get_conn_Inr [simp]: "p \<noteq> NULL \<Longrightarrow> w_conns w p = Some c \<Longrightarrow> get_conn w p = Inr c"
  by (simp add: get_conn_def)

lemma put_simps [simp]:
  "w_base (put_base w eb) = Some eb" "w_conns (put_base w eb) = w_conns w"
  "w_tevs (put_base w eb) = w_tevs w" "w_mem (put_base w eb) = w_mem w"
  "w_next (put_base w eb) = w_next w" "w_malloc (put_base w eb) = w_malloc w"
  "w_junk (put_base w eb) = w_junk w" "w_pid (put_base w eb) = w_pid w"
  "w_now (put_base w eb) = w_now w" "w_kern (put_base w eb) = w_kern w"
  "w_base (put_conn w p c) = w_base w" "w_conns (put_conn w p c) = (w_conns w)(p \<mapsto> c)"
  "w_tevs (put_conn w p c) = w_tevs w" "w_mem (put_conn w p c) = w_mem w"
  "w_next (put_conn w p c) = w_next w" "w_malloc (put_conn w p c) = w_malloc w"
  "w_junk (put_conn w p c) = w_junk w" "w_pid (put_conn w p c) = w_pid w"
  "w_now (put_conn w p c) = w_now w" "w_kern (put_conn w p c) = w_kern w"
  "w_base (put_mem w m) = w_base w" "w_conns (put_mem w m) = w_conns w"
  "w_tevs (put_mem w m) = w_tevs w" "w_mem (put_mem w m) = m"
  "w_next (put_mem w m) = w_next w" "w_malloc (put_mem w m) = w_malloc w"
  "w_junk (put_mem w m) = w_junk w" "w_pid (put_mem w m) = w_pid w"
  "w_now (put_mem w m) = w_now w" "w_kern (put_mem w m) = w_kern w"
  "w_base (put_kern w k) = w_base w" "w_conns (put_kern w k) = w_conns w"
  "w_tevs (put_kern w k) = w_tevs w" "w_mem (put_kern w k) = w_mem w"
  "w_next (put_kern w k) = w_next w" "w_malloc (put_kern w k) = w_malloc w"
  "w_junk (put_kern w k) = w_junk w" "w_pid (put_kern w k) = w_pid w"
  "w_now (put_kern w k) = w_now w" "w_kern (put_kern w k) = k"
  "w_base (put_heap w eb st) = Some (eb\<lparr>pstHeapHeader := hs_hdr st\<rparr>)"
  "w_conns (put_heap w eb st) = w_conns w" "w_tevs (put_heap w eb st) = hs_tevs st"
  "w_mem (put_heap w eb st) = w_mem w" "w_next (put_heap w eb st) = w_next w"
  "w_malloc (put_heap w eb st) = w_malloc w" "w_junk (put_heap w eb st) = w_junk w"
  "w_pid (put_heap w eb st) = w_pid w" "w_now (put_heap w eb st) = w_now w"
  "w_kern (put_heap w eb st) = w_kern w"
  by (simp_all add: put_base_def put_conn_def put_mem_def put_kern_def put_heap_def)

lemma put_conn_twice [simp]: "put_conn (put_conn w p c) p c' = put_conn w p c'"
  by (simp add: put_conn_def)

lemma heap_of_simps [simp]: "hs_hdr (heap_of w eb) = pstHeapHeader eb" "hs_tevs (heap_of w eb) = w_tevs w"
  by (simp_all add: heap_of_def)

lemma ask_malloc_frame:
  assumes "ask_malloc w = (ok, w')"
  shows "w' = w\<lparr>w_malloc := w_malloc w'\<rparr>"
  using assms by (auto simp: ask_malloc_def split: prod.splits)

lemma epoll_ctl_socks:
  assumes "epoll_ctl k iOper fd ev = (r, k')"
  shows "k_socks k' = k_socks k"
  using assms by (auto simp: epoll_ctl_def Let_def split: prod.splits if_splits)

lemma epoll_ctl_ok:
  assumes "epoll_ctl k iOper fd ev = (r, k')"
  shows "r = 0 \<and> sock_is_open k fd \<and> (k_interest k fd = None \<longleftrightarrow> iOper = EPOLL_CTL_ADD)
       \<and> k_interest k' = (k_interest k)(fd := if iOper = EPOLL_CTL_DEL then None else Some ev)
     \<or> r = -1 \<and> k_interest k' = k_interest k"
  using assms by (auto simp: epoll_ctl_def Let_def split: prod.splits if_splits)

end
