(* ===== verification/SocketApi.thy ===== *)
theory SocketApi
  imports World
begin

text \<open>
  The socket wrappers of \<open>src/socket_api.c\<close>: the nonblocking read and write loops, the option
  setters and the creation of the listening socket.  The functions change the kernel (the sockets)
  and, for a receive, the byte memory.  Logging is left out.
\<close>

section \<open>System calls on one socket\<close>

datatype 'a sys_result = Got 'a | Failed errno

text \<open>\<open>read\<close> of at most \<open>n > 0\<close> bytes: fewer when fewer have arrived, none at the end.\<close>

fun sys_read :: "net_in list \<Rightarrow> nat \<Rightarrow> buf sys_result \<times> net_in list" where
  "sys_read [] n = (Failed EAGAIN, [])"
| "sys_read (Eof # r) n = (Got [], Eof # r)"
| "sys_read (InErr e # r) n = (Failed e, r)"
| "sys_read (Data bs # r) n =
     (if length bs \<le> n then (Got bs, r) else (Got (take n bs), Data (drop n bs) # r))"

fun sys_write :: "net_out list \<Rightarrow> nat \<Rightarrow> nat sys_result \<times> net_out list" where
  "sys_write [] n = (Failed EAGAIN, [])"
| "sys_write (OutErr e # r) n = (Failed e, r)"
| "sys_write (Room k # r) n = (Got (min k n), r)"

lemma sys_read_length: "sys_read s n = (res, s') \<Longrightarrow> length s' \<le> length s"
  by (erule sys_read.elims) (auto split: if_splits)

lemma sys_read_Got: "sys_read s n = (Got bs, s') \<Longrightarrow> length bs \<le> n"
  by (erule sys_read.elims) (auto split: if_splits)

lemma sys_read_Failed: "sys_read s n = (Failed e, s') \<Longrightarrow> e \<noteq> EAGAIN \<Longrightarrow> length s' < length s"
  by (erule sys_read.elims) (auto split: if_splits)

lemma sys_write_consumes: "sys_write s n = (res, s') \<Longrightarrow> res \<noteq> Failed EAGAIN \<Longrightarrow> length s' < length s"
  by (erule sys_write.elims) auto

lemma recv_loop_progress:
  assumes "(Got bs, s') = sys_read s (nat (need - cnt))" and "bs \<noteq> []" and "cnt < need"
  shows "nat (need - (cnt + int (length bs))) + length s' < nat (need - cnt) + length s"
proof -
  have "length s' \<le> length s" "length bs \<le> nat (need - cnt)" "0 < length bs"
    using sys_read_length sys_read_Got assms(1,2) by (metis, metis, simp)
  then show ?thesis by linarith
qed

section \<open>The read and write loops\<close>

text \<open>The loop of \<open>PynServerRecvData\<close>, with the count of bytes already stored.\<close>

function recv_loop :: "bmem \<Rightarrow> charp \<Rightarrow> int \<Rightarrow> int \<Rightarrow> net_in list \<Rightarrow> (int \<times> bmem \<times> net_in list) outcome" where
  "recv_loop m p iRecvCount need s =
     (if iRecvCount < need then
        (case sys_read s (nat (need - iRecvCount)) of
           (Got bs, s') \<Rightarrow>
              if bs = [] then Inr (0, m, s')
              else cbind (store_bytes m (ptr_add p iRecvCount) bs) (\<lambda>m'.
                     recv_loop m' p (iRecvCount + int (length bs)) need s')
         | (Failed e, s') \<Rightarrow>
              if e = EAGAIN then Inr (iRecvCount, m, s')
              else if e = EINTR then recv_loop m p iRecvCount need s'
              else Inr (-1, m, s'))
      else Inr (iRecvCount, m, s))"
  by pat_completeness auto
termination
  by (relation "measure (\<lambda>(m, p, cnt, need, s). nat (need - cnt) + length s)")
     (auto intro: recv_loop_progress dest: sys_read_Failed [OF sym])

declare recv_loop.simps [simp del]

function send_loop :: "bmem \<Rightarrow> charp \<Rightarrow> int \<Rightarrow> int \<Rightarrow> net_out list \<Rightarrow> buf \<Rightarrow> (int \<times> net_out list \<times> buf) outcome" where
  "send_loop m p iSendCount need s sent =
     (if iSendCount < need then
        (case sys_write s (nat (need - iSendCount)) of
           (Got k, s') \<Rightarrow>
              cbind (load_bytes m (ptr_add p iSendCount) (int k)) (\<lambda>bs.
                send_loop m p (iSendCount + int k) need s' (sent @ bs))
         | (Failed e, s') \<Rightarrow>
              if e = EAGAIN then Inr (iSendCount, s', sent)
              else if e = EINTR then send_loop m p iSendCount need s' sent
              else Inr (-1, s', sent))
      else Inr (iSendCount, s, sent))"
  by pat_completeness auto
termination
  by (relation "measure (\<lambda>(m, p, cnt, need, s, sent). length s)")
     (auto dest!: sys_write_consumes [OF sym])

declare send_loop.simps [simp del]

text \<open>
  A call on a descriptor that is not open fails with \<open>EBADF\<close>: the first \<open>read\<close> or
  \<open>write\<close> returns -1, unless the loop is not entered at all.
\<close>

definition PynServerRecvData :: "world \<Rightarrow> int \<Rightarrow> charp \<Rightarrow> int \<Rightarrow> (int \<times> world) outcome" where
  "PynServerRecvData w t_iFd t_pszRecvBuff need =
     (if t_pszRecvBuff = CNull \<or> t_iFd < 0 then Inr (0, w)
      else case k_socks (w_kern w) t_iFd of
        None \<Rightarrow> Inr (if 0 < need then -1 else 0, w)
      | Some so \<Rightarrow> cbind (recv_loop (w_mem w) t_pszRecvBuff 0 need (s_in so)) (\<lambda>(r, m', s').
          Inr (r, w\<lparr>w_mem := m', w_kern := (w_kern w)\<lparr>k_socks :=
            (k_socks (w_kern w))(t_iFd \<mapsto> so\<lparr>s_in := s'\<rparr>)\<rparr>\<rparr>)))"

definition PynServerSendData :: "world \<Rightarrow> int \<Rightarrow> charp \<Rightarrow> int \<Rightarrow> (int \<times> world) outcome" where
  "PynServerSendData w t_iFd t_pszSendBuff need =
     (if t_pszSendBuff = CNull \<or> t_iFd \<le> 0 \<or> need < 0 then Inr (-1, w)
      else case k_socks (w_kern w) t_iFd of
        None \<Rightarrow> Inr (if 0 < need then -1 else 0, w)
      | Some so \<Rightarrow> cbind (send_loop (w_mem w) t_pszSendBuff 0 need (s_out so) (s_sent so)) (\<lambda>(r, s', sent').
          Inr (r, w\<lparr>w_kern := (w_kern w)\<lparr>k_socks :=
            (k_socks (w_kern w))(t_iFd \<mapsto> so\<lparr>s_out := s', s_sent := sent'\<rparr>)\<rparr>\<rparr>)))"

section \<open>Options\<close>

text \<open>A control call on a socket: it fails on a closed descriptor or when the kernel says no.\<close>

definition sys_control :: "kernel \<Rightarrow> int \<Rightarrow> (sock \<Rightarrow> sock) \<Rightarrow> bool \<times> kernel" where
  "sys_control k fd f = (case k_socks k fd of None \<Rightarrow> (False, k)
     | Some so \<Rightarrow> let (ok, rest) = next_answer (k_ctl k); k1 = k\<lparr>k_ctl := rest\<rparr>
        in if ok then (True, k1\<lparr>k_socks := (k_socks k)(fd \<mapsto> f so)\<rparr>) else (False, k1))"

definition PynServerSetNonblock :: "kernel \<Rightarrow> int \<Rightarrow> int \<times> kernel" where
  "PynServerSetNonblock k t_iFd =
     (if t_iFd < 0 then (RET_FAIL, k)
      else let (got, k1) = sys_control k t_iFd id in      \<comment> \<open>\<open>F_GETFL\<close>\<close>
      if \<not> got then (RET_FAIL, k1)
      else let (put, k2) = sys_control k1 t_iFd (\<lambda>so. so\<lparr>s_flags := s_flags so OR O_NONBLOCK\<rparr>) in
      if \<not> put then (RET_FAIL, k2) else (RET_SUCC, k2))"

definition set_option :: "kernel \<Rightarrow> int \<Rightarrow> (sock \<Rightarrow> sock) \<Rightarrow> int \<times> kernel" where
  "set_option k fd f = (let (ok, k1) = sys_control k fd f in (if ok then RET_SUCC else RET_FAIL, k1))"

definition PynServerSetTcpSendbuffer :: "kernel \<Rightarrow> int \<Rightarrow> int \<Rightarrow> int \<times> kernel" where
  "PynServerSetTcpSendbuffer k t_iFd t_iBufferSize =
     (if t_iFd < 0 \<or> t_iBufferSize \<le> 0 then (RET_FAIL, k)
      else set_option k t_iFd (s_sndbuf_update (\<lambda>_. Some t_iBufferSize)))"

definition PynServerSetTcpKeepalive :: "kernel \<Rightarrow> int \<Rightarrow> int \<times> kernel" where
  "PynServerSetTcpKeepalive k t_iFd =
     (if t_iFd < 0 then (RET_FAIL, k) else set_option k t_iFd (s_keepalive_update (\<lambda>_. True)))"

definition PynServerSetTcpReuseaddr :: "kernel \<Rightarrow> int \<Rightarrow> int \<times> kernel" where
  "PynServerSetTcpReuseaddr k t_iFd =
     (if t_iFd < 0 then (RET_FAIL, k) else set_option k t_iFd (s_reuseaddr_update (\<lambda>_. True)))"

section \<open>Creating sockets\<close>

definition new_sock :: sock where
  "new_sock = \<lparr>s_flags = 0, s_reuseaddr = False, s_keepalive = False, s_sndbuf = None, s_port = None,
     s_listening = False, s_in = [], s_out = [], s_sent = [], s_conns = []\<rparr>"

text \<open>\<open>socket()\<close> with the descriptor it returns, -1 when it fails.\<close>

definition sys_socket :: "kernel \<Rightarrow> int \<Rightarrow> kernel" where
  "sys_socket k fd = (if fd = -1 then k else k\<lparr>k_socks := (k_socks k)(fd \<mapsto> new_sock)\<rparr>)"

text \<open>
  In \<open>PynCreateTcpSocket\<close> the variable receives the result of the comparison with -1, not the
  descriptor: it is 0 whenever \<open>socket\<close> succeeds.
\<close>

definition PynCreateTcpSocket :: "kernel \<Rightarrow> int \<Rightarrow> int \<times> kernel" where
  "PynCreateTcpSocket k fd =
     (let k0 = sys_socket k fd; iSock = (of_bool (fd = -1) :: int) in
      if iSock \<noteq> 0 then (RET_FAIL, k0)
      else let (ok, k1) = sys_control k0 iSock (s_reuseaddr_update (\<lambda>_. True)) in
      if \<not> ok then (RET_FAIL, k1)
      else let (r, k2) = PynServerSetNonblock k1 iSock in
      if r = RET_FAIL then (RET_FAIL, k2) else (iSock, k2))"

definition PynResolveDnsNonBlock :: int where "PynResolveDnsNonBlock = RET_SUCC"

text \<open>The local \<open>iSock\<close> is returned without having been assigned.\<close>

definition PynServerConnectNonBlock :: "bool \<Rightarrow> int outcome" where
  "PynServerConnectNonBlock ip_null = (if ip_null then Inr RET_FAIL else undef Indeterminate)"

text \<open>
  \<open>PynServerCreateTcpServer\<close>: \<open>ip_null\<close> says that the address string is \<open>NULL\<close>,
  \<open>ip_valid\<close> what \<open>inet_aton\<close> says of it, \<open>fd\<close> is the result of \<open>socket()\<close>.
\<close>

definition PynServerCreateTcpServer :: "kernel \<Rightarrow> bool \<Rightarrow> bool \<Rightarrow> int \<Rightarrow> int \<Rightarrow> int \<times> kernel" where
  "PynServerCreateTcpServer k ip_null ip_valid t_iServerPort fd =
     (if ip_null then (RET_FAIL, k)
      else if t_iServerPort < 1024 \<or> t_iServerPort > 65535 then (RET_FAIL, k)
      else let k0 = sys_socket k fd in
      if fd = -1 then (RET_FAIL, k0)
      else let (r1, k1) = PynServerSetTcpReuseaddr k0 fd in
      if r1 = RET_FAIL then (RET_FAIL, k1)
      else let (r2, k2) = PynServerSetNonblock k1 fd in
      if r2 = RET_FAIL then (RET_FAIL, k2)
      else if \<not> ip_valid then (RET_FAIL, sys_close k2 fd)
      else let (bound, k3) = sys_control k2 fd (s_port_update (\<lambda>_. Some t_iServerPort)) in
      if \<not> bound then (RET_FAIL, sys_close k3 fd)
      else let (listening, k4) = sys_control k3 fd (s_listening_update (\<lambda>_. True)) in
      if \<not> listening then (RET_FAIL, sys_close k4 fd)
      else (fd, k4))"

end
