(* ===== verification/SocketProperties.thy ===== *)
theory SocketProperties
  imports SocketApi
begin

text \<open>
  The properties of the socket wrappers: what the nonblocking loops deliver of the byte streams,
  that they end and stay inside their buffers, and what the creation of the listening socket leaves
  behind on each path.
\<close>

section \<open>The receive loop\<close>

text \<open>The bytes a script still brings before the stream ends or breaks.\<close>

fun arriving :: "net_in list \<Rightarrow> buf" where
  "arriving [] = []"
| "arriving (Data bs # r) = bs @ arriving r"
| "arriving (Eof # r) = []"
| "arriving (InErr e # r) = (if e = EOTHER then [] else arriving r)"

lemma sys_read_arriving:
  "sys_read s n = (Got bs, s') \<Longrightarrow> arriving s = bs @ arriving s'"
  "sys_read s n = (Failed e, s') \<Longrightarrow> e \<noteq> EOTHER \<Longrightarrow> arriving s = arriving s'"
  by (erule sys_read.elims; auto split: if_splits)+

definition recv_result :: "bmem \<Rightarrow> nat \<Rightarrow> int \<Rightarrow> int \<Rightarrow> int \<Rightarrow> net_in list
    \<Rightarrow> int \<Rightarrow> bmem \<Rightarrow> net_in list \<Rightarrow> bool" where
  "recv_result m b off cnt need s r m' s' \<longleftrightarrow>
     -1 \<le> r \<and> r \<le> need \<and> mem_sized m m' \<and> kept_outside m m' b (off + cnt) (off + need)
     \<and> (0 < r \<longrightarrow> cnt \<le> r \<and> (\<exists>bs. int (length bs) = r - cnt \<and> arriving s = bs @ arriving s'
            \<and> mem_at m' b (off + cnt) bs))"

lemma mem_at_Nil: "mem_room m b n \<Longrightarrow> 0 \<le> off \<Longrightarrow> off \<le> n \<Longrightarrow> mem_at m b off []"
  by (auto simp: mem_at_iff mem_room_def split: option.splits)

lemma recv_loop_result:
  assumes "mem_room m b (off + need)" "0 \<le> off" "0 \<le> cnt" "cnt \<le> need"
  shows "\<exists>r m' s'. recv_loop m (Ptr b off) cnt need s = Inr (r, m', s')
     \<and> recv_result m b off cnt need s r m' s'"
  using assms
proof (induction m "Ptr b off" cnt need s rule: recv_loop.induct)
  case (1 m cnt need s)
  have stay: "recv_result m b off cnt need s r m s'"
    if "r = cnt \<or> r = 0 \<or> r = -1" "r = cnt \<Longrightarrow> arriving s = arriving s'" for r s'
    unfolding recv_result_def
    using that "1.prems" mem_at_Nil [OF "1.prems"(1), of "off + cnt"] by auto
  show ?case
  proof (cases "cnt < need")
    case False
    then show ?thesis using stay [of cnt s] by (simp add: recv_loop.simps)
  next
    case lt: True
    obtain res s1 where rd: "sys_read s (nat (need - cnt)) = (res, s1)" by fastforce
    show ?thesis
    proof (cases res)
      case (Failed e)
      show ?thesis
      proof (cases "e = EINTR")
        case True
        obtain r m' s' where ih: "recv_loop m (Ptr b off) cnt need s1 = Inr (r, m', s')"
          "recv_result m b off cnt need s1 r m' s'"
          using "1.hyps"(2) [OF lt rd [symmetric] Failed _ True] True "1.prems" by blast
        have "arriving s = arriving s1" using sys_read_arriving(2) rd Failed True by blast
        then have "recv_result m b off cnt need s r m' s'" using ih(2) by (simp add: recv_result_def)
        moreover have "recv_loop m (Ptr b off) cnt need s = recv_loop m (Ptr b off) cnt need s1"
          using lt rd Failed True by (subst recv_loop.simps) simp
        ultimately show ?thesis using ih(1) by auto
      next
        case False
        then show ?thesis
          using stay [of cnt s1] stay [of "-1" s1] lt rd Failed sys_read_arriving(2) [of s _ e s1] "1.prems"
          by (cases "e = EAGAIN") (auto simp: recv_loop.simps [of m _ cnt])
      qed
    next
      case (Got bs)
      show ?thesis
      proof (cases "bs = []")
        case True
        then show ?thesis
          using stay [of 0 s1] lt rd Got sys_read_arriving(1) [of s _ bs s1]
          by (auto simp: recv_loop.simps [of m _ cnt])
      next
        case ne: False
        have len: "int (length bs) \<le> need - cnt" using sys_read_Got rd Got lt by fastforce
        obtain m1 where m1: "store_bytes m (Ptr b (off + cnt)) bs = Inr m1" "mem_room m1 b (off + need)"
          "mem_at m1 b (off + cnt) bs" "kept_outside m m1 b (off + cnt) (off + cnt + int (length bs))"
          by (rule store_kept [OF "1.prems"(1), of "off + cnt" bs]) (use "1.prems" len in simp_all)
        have "\<exists>r m' s'. recv_loop m1 (Ptr b off) (cnt + int (length bs)) need s1 = Inr (r, m', s')
           \<and> recv_result m1 b off (cnt + int (length bs)) need s1 r m' s'"
          by (rule "1.hyps"(1) [OF lt rd [symmetric] Got ne]) (use m1 len "1.prems" in simp_all)
        then obtain r m' s' where ih: "recv_loop m1 (Ptr b off) (cnt + int (length bs)) need s1 = Inr (r, m', s')"
          "recv_result m1 b off (cnt + int (length bs)) need s1 r m' s'" by blast
        have step: "recv_loop m (Ptr b off) cnt need s = Inr (r, m', s')"
          using lt rd Got ne m1(1) ih(1) by (subst recv_loop.simps) simp
        have k: "kept_outside m m' b (off + cnt) (off + need)"
          using ih(2) len ne by (intro kept_outside_trans [OF m1(4)]) (auto simp: recv_result_def)
        have "recv_result m b off cnt need s r m' s'"
          unfolding recv_result_def
        proof (intro conjI impI)
          show "mem_sized m m'" using mem_sized_trans [OF mem_sized_store [OF m1(1)]] ih(2)
            by (simp add: recv_result_def)
          assume "0 < r"
          then obtain bs2 where bs2: "cnt + int (length bs) \<le> r" "int (length bs2) = r - (cnt + int (length bs))"
            "arriving s1 = bs2 @ arriving s'" "mem_at m' b (off + (cnt + int (length bs))) bs2"
            using ih(2) by (auto simp: recv_result_def)
          have "mem_at m' b (off + cnt) bs"
            by (rule kept_outsideD [of m1 m' b "off + (cnt + int (length bs))" "off + need"])
               (use ih(2) m1(3) in \<open>simp_all add: recv_result_def\<close>)
          then have "mem_at m' b (off + cnt) (bs @ bs2)" using bs2(4) by (simp add: mem_at_append add.assoc)
          moreover have "arriving s = (bs @ bs2) @ arriving s'"
            using sys_read_arriving(1) rd Got bs2(3) by fastforce
          ultimately show "\<exists>bs. int (length bs) = r - cnt \<and> arriving s = bs @ arriving s' \<and> mem_at m' b (off + cnt) bs"
            using bs2(2) by (intro exI [of _ "bs @ bs2"]) simp
          show "cnt \<le> r" using bs2(1) by simp
        qed (use ih(2) k in \<open>simp_all add: recv_result_def\<close>)
        then show ?thesis using step by blast
      qed
    qed
  qed
qed

section \<open>The send loop\<close>

lemma sys_write_Got: "sys_write s n = (Got k, s') \<Longrightarrow> k \<le> n"
  by (erule sys_write.elims) auto

text \<open>\<open>rest\<close> are the bytes of the buffer from the current position to the end of the request.\<close>

definition send_result :: "buf \<Rightarrow> int \<Rightarrow> buf \<Rightarrow> int \<Rightarrow> buf \<Rightarrow> bool" where
  "send_result rest cnt sent r sent' \<longleftrightarrow>
     (\<exists>n \<le> length rest. sent' = sent @ take n rest \<and> (r = cnt + int n \<or> r = -1))"

lemma send_result_step:
  assumes "send_result (drop k rest) (cnt + int k) (sent @ take k rest) r sent'" and "k \<le> length rest"
  shows "send_result rest cnt sent r sent'"
proof -
  obtain n where n: "n \<le> length (drop k rest)" "sent' = (sent @ take k rest) @ take n (drop k rest)"
    "r = cnt + int k + int n \<or> r = -1"
    using assms(1) unfolding send_result_def by blast
  then have "k + n \<le> length rest" "sent' = sent @ take (k + n) rest"
    using assms(2) by (simp_all add: take_add)
  then show ?thesis unfolding send_result_def using n(3) by (intro exI [of _ "k + n"]) auto
qed

lemma send_loop_result:
  assumes "mem_at m b (off + cnt) rest" "int (length rest) = need - cnt"
  shows "\<exists>r s' sent'. send_loop m (Ptr b off) cnt need s sent = Inr (r, s', sent')
     \<and> send_result rest cnt sent r sent'"
  using assms
proof (induction m "Ptr b off" cnt need s sent arbitrary: rest rule: send_loop.induct)
  case (1 m cnt need s sent)
  have stay: "send_result rest cnt sent r sent" if "r = cnt \<or> r = -1" for r
    unfolding send_result_def using that by (intro exI [of _ 0]) auto
  show ?case
  proof (cases "cnt < need")
    case False
    then show ?thesis using stay [of cnt] by (simp add: send_loop.simps)
  next
    case lt: True
    obtain res s1 where wr: "sys_write s (nat (need - cnt)) = (res, s1)" by fastforce
    show ?thesis
    proof (cases res)
      case (Failed e)
      show ?thesis
      proof (cases "e = EINTR")
        case True
        have "send_loop m (Ptr b off) cnt need s sent = send_loop m (Ptr b off) cnt need s1 sent"
          using lt wr Failed True by (subst send_loop.simps) simp
        then show ?thesis
          using "1.hyps"(2) [OF lt wr [symmetric] Failed _ True "1.prems"] True by simp
      next
        case False
        then show ?thesis
          using stay [of cnt] stay [of "-1"] lt wr Failed
          by (cases "e = EAGAIN") (auto simp: send_loop.simps [of m _ cnt])
      qed
    next
      case (Got k)
      have k: "k \<le> length rest" using sys_write_Got wr Got lt "1.prems"(2) by fastforce
      have "mem_at m b (off + cnt) (take k rest @ drop k rest)" using "1.prems"(1) by simp
      then have at: "mem_at m b (off + cnt) (take k rest)" "mem_at m b (off + (cnt + int k)) (drop k rest)"
        using k by (simp_all only: mem_at_append) (simp_all add: add.assoc min_absorb2)
      have ld: "load_bytes m (ptr_add (Ptr b off) cnt) (int k) = Inr (take k rest)"
        using mem_at_load [OF at(1)] k by simp
      obtain r s' sent' where ih:
        "send_loop m (Ptr b off) (cnt + int k) need s1 (sent @ take k rest) = Inr (r, s', sent')"
        "send_result (drop k rest) (cnt + int k) (sent @ take k rest) r sent'"
        using "1.hyps"(1) [OF lt wr [symmetric] Got ld at(2)] k "1.prems"(2) by auto
      have "send_loop m (Ptr b off) cnt need s sent = Inr (r, s', sent')"
        using lt wr Got ld ih(1) by (subst send_loop.simps) simp
      then show ?thesis using send_result_step [OF ih(2) k] by blast
    qed
  qed
qed

section \<open>Properties of the loops\<close>

text \<open>C32: on an open socket and with room for the request, \<open>PynServerRecvData\<close> always
  returns, with at most the requested count, and touches nothing outside the requested range; a
  positive result is the number of bytes it stored, and these are exactly the next bytes of the
  stream, none of them lost or repeated.\<close>

theorem recv_delivers_stream:
  assumes "0 \<le> fd" "k_socks (w_kern w) fd = Some so" "mem_room (w_mem w) b (off + need)" "0 \<le> off" "0 \<le> need"
  shows "\<exists>r m' s'. PynServerRecvData w fd (Ptr b off) need =
        Inr (r, w\<lparr>w_mem := m', w_kern := (w_kern w)\<lparr>k_socks := (k_socks (w_kern w))(fd \<mapsto> so\<lparr>s_in := s'\<rparr>)\<rparr>\<rparr>)
     \<and> -1 \<le> r \<and> r \<le> need \<and> mem_sized (w_mem w) m' \<and> kept_outside (w_mem w) m' b off (off + need)
     \<and> (0 < r \<longrightarrow> (\<exists>bs. int (length bs) = r \<and> mem_at m' b off bs \<and> arriving (s_in so) = bs @ arriving s'))"
proof -
  obtain r m' s' where r: "recv_loop (w_mem w) (Ptr b off) 0 need (s_in so) = Inr (r, m', s')"
    "recv_result (w_mem w) b off 0 need (s_in so) r m' s'"
    using recv_loop_result [OF assms(3,4) order_refl assms(5)] by blast
  have "PynServerRecvData w fd (Ptr b off) need =
        Inr (r, w\<lparr>w_mem := m', w_kern := (w_kern w)\<lparr>k_socks := (k_socks (w_kern w))(fd \<mapsto> so\<lparr>s_in := s'\<rparr>)\<rparr>\<rparr>)"
    using assms(1,2) r(1) by (simp add: PynServerRecvData_def)
  moreover have "0 < r \<longrightarrow> (\<exists>bs. int (length bs) = r \<and> mem_at m' b off bs \<and> arriving (s_in so) = bs @ arriving s')"
    using r(2) by (auto simp: recv_result_def)
  ultimately show ?thesis using r(2) by (intro exI [of _ r] exI [of _ m'] exI [of _ s']) (simp add: recv_result_def)
qed

text \<open>C33: \<open>PynServerSendData\<close> on an open socket always returns; what it hands to the kernel
  is a prefix of the requested bytes, appended to what was sent before, and a result that is not -1
  is the length of that prefix.\<close>

theorem send_hands_over_prefix:
  assumes "0 < fd" "k_socks (w_kern w) fd = Some so" "mem_at (w_mem w) b off bs"
  shows "\<exists>r s' n. PynServerSendData w fd (Ptr b off) (int (length bs)) =
        Inr (r, w\<lparr>w_kern := (w_kern w)\<lparr>k_socks := (k_socks (w_kern w))(fd \<mapsto>
               so\<lparr>s_out := s', s_sent := s_sent so @ take n bs\<rparr>)\<rparr>\<rparr>)
     \<and> n \<le> length bs \<and> (r = int n \<or> r = -1)"
proof -
  obtain r s' sent' where r: "send_loop (w_mem w) (Ptr b off) 0 (int (length bs)) (s_out so) (s_sent so)
      = Inr (r, s', sent')" "send_result bs 0 (s_sent so) r sent'"
    using send_loop_result [of "w_mem w" b off 0 bs "int (length bs)" "s_out so" "s_sent so"] assms(3)
    by fastforce
  then show ?thesis
    using assms(1,2) by (auto simp: PynServerSendData_def send_result_def)
qed

text \<open>
  The result 0 of \<open>PynServerRecvData\<close> does not tell the end of the stream from
  a socket that has nothing to read yet, and when the stream ends within a request the bytes that
  were read before the end are not counted.\<close>

theorem recv_zero_is_ambiguous:
  assumes "0 \<le> fd" "k_socks (w_kern w) fd = Some so" "mem_room (w_mem w) b (off + need)" "0 \<le> off" "0 < need"
    and "s_in so = [] \<or> (\<exists>r. s_in so = Eof # r)
       \<or> (\<exists>bs r. s_in so = Data bs # Eof # r \<and> int (length bs) < need)"
  shows "\<exists>w'. PynServerRecvData w fd (Ptr b off) need = Inr (0, w')"
proof -
  have "\<exists>m' s'. recv_loop (w_mem w) (Ptr b off) 0 need (s_in so) = Inr (0, m', s')"
    using assms(6)
  proof (elim disjE exE conjE)
    fix bs r assume s: "s_in so = Data bs # Eof # r" and l: "int (length bs) < need"
    obtain m' where "store_bytes (w_mem w) (Ptr b off) bs = Inr m'"
      by (rule store_kept [OF assms(3,4), of bs]) (use l in simp_all)
    then show ?thesis using s l assms(5) by (simp add: recv_loop.simps)
  qed (use assms(5) in \<open>simp_all add: recv_loop.simps\<close>)
  then show ?thesis using assms(1,2) by (auto simp: PynServerRecvData_def)
qed

section \<open>Properties of the socket creation\<close>

lemma sys_control_result:
  assumes "sys_control k fd f = (ok, k')" and "k_socks k fd = Some so"
  shows "k_socks k' = (if ok then (k_socks k)(fd \<mapsto> f so) else k_socks k)" "k_interest k' = k_interest k"
  using assms by (auto simp: sys_control_def Let_def split: prod.splits if_splits)

lemma SetNonblock_result:
  assumes "PynServerSetNonblock k fd = (r, k')" and "k_socks k fd = Some so" and "0 \<le> fd"
  shows "r = RET_SUCC \<and> k_socks k' = (k_socks k)(fd \<mapsto> so\<lparr>s_flags := s_flags so OR O_NONBLOCK\<rparr>)
     \<or> r = RET_FAIL \<and> k_socks k' = k_socks k" "k_interest k' = k_interest k"
proof -
  obtain got k1 where 1: "sys_control k fd id = (got, k1)" by fastforce
  obtain put k2 where 2: "sys_control k1 fd (\<lambda>so. so\<lparr>s_flags := s_flags so OR O_NONBLOCK\<rparr>) = (put, k2)"
    by fastforce
  note r1 = sys_control_result [OF 1 assms(2)]
  have s1: "k_socks k1 = k_socks k" using r1(1) assms(2) by (simp add: map_upd_triv)
  then have so1: "k_socks k1 fd = Some so" using assms(2) by simp
  note r2 = sys_control_result [OF 2 so1]
  show "r = RET_SUCC \<and> k_socks k' = (k_socks k)(fd \<mapsto> so\<lparr>s_flags := s_flags so OR O_NONBLOCK\<rparr>)
     \<or> r = RET_FAIL \<and> k_socks k' = k_socks k"
    using assms(1,3) 1 2 r2(1) s1 by (auto simp: PynServerSetNonblock_def split: if_splits)
  show "k_interest k' = k_interest k"
    using assms(1,3) 1 2 r1(2) r2(2) by (auto simp: PynServerSetNonblock_def split: if_splits)
qed

text \<open>
  When \<open>PynServerCreateTcpServer\<close> does not fail it returns the descriptor of the
  new socket, which is nonblocking, reuses its address, is bound to the requested port (between
  1024 and 65535) and listens; every other socket is as before.\<close>

theorem create_server_listens:
  assumes "PynServerCreateTcpServer k ip_null ip_valid port fd = (r, k')" and "r \<noteq> RET_FAIL" and "0 \<le> fd"
  shows "r = fd \<and> \<not> ip_null \<and> ip_valid \<and> 1024 \<le> port \<and> port \<le> 65535 \<and> k_interest k' = k_interest k
     \<and> k_socks k' = (k_socks k)(fd \<mapsto> new_sock\<lparr>s_flags := O_NONBLOCK, s_reuseaddr := True,
                                          s_port := Some port, s_listening := True\<rparr>)"
proof -
  let ?k0 = "sys_socket k fd"
  have k0: "k_socks ?k0 = (k_socks k)(fd \<mapsto> new_sock)" "k_interest ?k0 = k_interest k"
    using assms(3) by (simp_all add: sys_socket_def)
  then have o0: "k_socks ?k0 fd = Some new_sock" by simp
  obtain ok1 k1 where 1: "sys_control ?k0 fd (s_reuseaddr_update (\<lambda>_. True)) = (ok1, k1)" by fastforce
  obtain r2 k2 where 2: "PynServerSetNonblock k1 fd = (r2, k2)" by fastforce
  obtain ok3 k3 where 3: "sys_control k2 fd (s_port_update (\<lambda>_. Some port)) = (ok3, k3)" by fastforce
  obtain ok4 k4 where 4: "sys_control k3 fd (s_listening_update (\<lambda>_. True)) = (ok4, k4)" by fastforce
  have ok: "\<not> ip_null" "1024 \<le> port" "port \<le> 65535" "ok1" "r2 \<noteq> RET_FAIL" "ip_valid" "ok3" "ok4" "r = fd" "k' = k4"
    using assms 1 2 3 4
    by (auto simp: PynServerCreateTcpServer_def PynServerSetTcpReuseaddr_def set_option_def split: if_splits)
  let ?s1 = "new_sock\<lparr>s_reuseaddr := True\<rparr>" and ?s2 = "new_sock\<lparr>s_flags := O_NONBLOCK, s_reuseaddr := True\<rparr>"
  have k1: "k_socks k1 = (k_socks k)(fd \<mapsto> ?s1)" "k_interest k1 = k_interest k"
    using sys_control_result [OF 1 o0] ok(4) k0 by simp_all
  then have "k_socks k1 fd = Some ?s1" by simp
  then have k2: "k_socks k2 = (k_socks k)(fd \<mapsto> ?s2)" "k_interest k2 = k_interest k"
    using SetNonblock_result [OF 2 _ assms(3)] ok(5) k1 by (auto simp: new_sock_def)
  then have "k_socks k2 fd = Some ?s2" by simp
  then have k3: "k_socks k3 = (k_socks k)(fd \<mapsto> ?s2\<lparr>s_port := Some port\<rparr>)" "k_interest k3 = k_interest k"
    using sys_control_result [OF 3] ok(7) k2 by auto
  then have "k_socks k3 fd = Some (?s2\<lparr>s_port := Some port\<rparr>)" by simp
  then have "k_socks k4 = (k_socks k)(fd \<mapsto> ?s2\<lparr>s_port := Some port, s_listening := True\<rparr>)"
    "k_interest k4 = k_interest k"
    using sys_control_result [OF 4] ok(8) k3 by auto
  then show ?thesis using ok by simp
qed

text \<open>
  When setting an option of the new socket fails, \<open>PynServerCreateTcpServer\<close>
  reports the failure but leaves the socket open.\<close>

theorem create_server_leaks_on_option_failure:
  assumes "k_ctl k = False # rest" "1024 \<le> port" "port \<le> 65535" "0 \<le> fd"
  shows "\<exists>k'. PynServerCreateTcpServer k False ip_valid port fd = (RET_FAIL, k') \<and> sock_is_open k' fd"
  using assms
  by (auto simp: PynServerCreateTcpServer_def PynServerSetTcpReuseaddr_def set_option_def sys_control_def
      sys_socket_def sock_is_open_def)

text \<open>
  \<open>PynCreateTcpSocket\<close> never returns the socket it creates (unless that is
  descriptor 0): it works on descriptor 0 instead and leaves the new socket untouched and open.\<close>

theorem create_socket_returns_comparison:
  assumes "PynCreateTcpSocket k fd = (r, k')" "0 < fd"
  shows "(r = 0 \<or> r = RET_FAIL) \<and> k_socks k' fd = Some new_sock"
proof -
  obtain ok k1 where 1: "sys_control (sys_socket k fd) 0 (s_reuseaddr_update (\<lambda>_. True)) = (ok, k1)" by fastforce
  obtain r2 k2 where 2: "PynServerSetNonblock k1 0 = (r2, k2)" by fastforce
  have r: "(r, k') = (if ok then if r2 = RET_FAIL then (RET_FAIL, k2) else (0, k2) else (RET_FAIL, k1))"
    using assms 1 2 by (auto simp: PynCreateTcpSocket_def)
  have other: "k_socks k1 fd = Some new_sock" "k_socks k2 fd = k_socks k1 fd"
    using 1 2 assms(2)
    by (auto simp: sys_control_def sys_socket_def PynServerSetNonblock_def Let_def split: option.splits prod.splits if_splits)
  then show ?thesis using r by (auto split: if_splits)
qed

section \<open>Instances\<close>

definition no_conns :: "nat \<Rightarrow> ConnFd option" where "no_conns p = None"

text \<open>A process without connections, whose socket 5 receives and may send.\<close>

definition demo_sock :: "net_in list \<Rightarrow> net_out list \<Rightarrow> sock" where
  "demo_sock i out = new_sock\<lparr>s_in := i, s_out := out\<rparr>"

definition demo_world :: "net_in list \<Rightarrow> net_out list \<Rightarrow> world" where
  "demo_world i out = \<lparr>w_base = None, w_conns = no_conns, w_tevs = Map.empty,
     w_mem = [0 \<mapsto> [1, 2, 3, 4, 5, 6]], w_next = 1, w_malloc = [], w_junk = (\<lambda>_. 0), w_pid = 1,
     w_now = Timeval 1 0, w_kern = \<lparr>k_socks = [5 \<mapsto> demo_sock i out], k_interest = Map.empty, k_ctl = []\<rparr>\<rparr>"

lemma demo_world_simps [simp]:
  "k_socks (w_kern (demo_world i out)) 5 = Some (demo_sock i out)"
  "s_in (demo_sock i out) = i" "s_out (demo_sock i out) = out" "s_sent (demo_sock i out) = []"
  "mem_room (w_mem (demo_world i out)) 0 6" "mem_at (w_mem (demo_world i out)) 0 0 [1, 2, 3, 4, 5, 6]"
  by (simp_all add: demo_world_def demo_sock_def new_sock_def mem_room_def mem_at_iff)

definition script1 :: "net_in list" where
  "script1 = [Data [9, 8], InErr EINTR, Data [7, 6, 5], Eof]"

theorem recv_delivers_stream_witness:
  "\<exists>r m' s'. PynServerRecvData (demo_world script1 []) 5 (Ptr 0 1) 5 =
        Inr (r, (demo_world script1 [])\<lparr>w_mem := m', w_kern := (w_kern (demo_world script1 []))\<lparr>k_socks :=
            (k_socks (w_kern (demo_world script1 [])))(5 \<mapsto> (demo_sock script1 [])\<lparr>s_in := s'\<rparr>)\<rparr>\<rparr>)
     \<and> -1 \<le> r \<and> r \<le> 5 \<and> mem_sized (w_mem (demo_world script1 [])) m'
     \<and> kept_outside (w_mem (demo_world script1 [])) m' 0 1 (1 + 5)
     \<and> (0 < r \<longrightarrow> (\<exists>bs. int (length bs) = r \<and> mem_at m' 0 1 bs
            \<and> arriving (s_in (demo_sock script1 [])) = bs @ arriving s'))"
  by (rule recv_delivers_stream) simp_all

theorem send_hands_over_prefix_witness:
  "\<exists>r s' n. PynServerSendData (demo_world [] [Room 2, OutErr EINTR, Room 9]) 5 (Ptr 0 0)
        (int (length [1 :: byte, 2, 3, 4, 5, 6])) =
        Inr (r, (demo_world [] [Room 2, OutErr EINTR, Room 9])\<lparr>w_kern :=
          (w_kern (demo_world [] [Room 2, OutErr EINTR, Room 9]))\<lparr>k_socks :=
          (k_socks (w_kern (demo_world [] [Room 2, OutErr EINTR, Room 9])))(5 \<mapsto>
               (demo_sock [] [Room 2, OutErr EINTR, Room 9])\<lparr>s_out := s',
               s_sent := s_sent (demo_sock [] [Room 2, OutErr EINTR, Room 9]) @ take n [1, 2, 3, 4, 5, 6]\<rparr>)\<rparr>\<rparr>)
     \<and> n \<le> length [1 :: byte, 2, 3, 4, 5, 6] \<and> (r = int n \<or> r = -1)"
  by (rule send_hands_over_prefix) simp_all

theorem recv_zero_is_ambiguous_witness:
  "(\<exists>w'. PynServerRecvData (demo_world [] []) 5 (Ptr 0 1) 5 = Inr (0, w'))
   \<and> (\<exists>w'. PynServerRecvData (demo_world [Data [9, 8], Eof] []) 5 (Ptr 0 1) 5 = Inr (0, w'))"
  by (intro conjI; rule recv_zero_is_ambiguous [OF _ demo_world_simps(1), where need = 5]) simp_all

definition idle_kernel :: "bool list \<Rightarrow> kernel" where
  "idle_kernel ctl = \<lparr>k_socks = Map.empty, k_interest = Map.empty, k_ctl = ctl\<rparr>"

theorem create_server_listens_witness:
  "\<exists>r k'. PynServerCreateTcpServer (idle_kernel []) False True 8080 5 = (r, k') \<and> r \<noteq> RET_FAIL
   \<and> (r = 5 \<and> \<not> False \<and> True \<and> 1024 \<le> (8080 :: int) \<and> (8080 :: int) \<le> 65535
      \<and> k_interest k' = k_interest (idle_kernel [])
      \<and> k_socks k' = (k_socks (idle_kernel []))(5 \<mapsto> new_sock\<lparr>s_flags := O_NONBLOCK, s_reuseaddr := True,
                                          s_port := Some 8080, s_listening := True\<rparr>))"
proof -
  obtain r k' where r: "PynServerCreateTcpServer (idle_kernel []) False True 8080 5 = (r, k')" by fastforce
  have "fst (PynServerCreateTcpServer (idle_kernel []) False True 8080 5) \<noteq> RET_FAIL" by code_simp
  then have "r \<noteq> RET_FAIL" using r by simp
  from r this create_server_listens [OF r this] show ?thesis by (intro exI [of _ r] exI [of _ k'] conjI) simp_all
qed

theorem create_server_leaks_on_option_failure_witness:
  "\<exists>k'. PynServerCreateTcpServer (idle_kernel [False]) False True 8080 5 = (RET_FAIL, k') \<and> sock_is_open k' 5"
  by (rule create_server_leaks_on_option_failure) (simp_all add: idle_kernel_def)

theorem create_socket_returns_comparison_witness:
  "\<exists>r k'. PynCreateTcpSocket (idle_kernel []) 5 = (r, k') \<and> (r = 0 \<or> r = RET_FAIL) \<and> k_socks k' 5 = Some new_sock"
proof -
  obtain r k' where r: "PynCreateTcpSocket (idle_kernel []) 5 = (r, k')" by fastforce
  from r create_socket_returns_comparison [OF r] show ?thesis by (intro exI [of _ r] exI [of _ k'] conjI) simp_all
qed

end
