(* ===== verification/Reactor.thy ===== *)
theory Reactor
  imports World "HOL-Library.Signed_Division"
begin

text \<open>
  The event core of \<open>src/reactor.c\<close>: creating and deleting the \<open>EventBase\<close>, registering
  events with the kernel's interest list, and the timer registration on top of the heap.  The
  dispatch loop, which calls the event handlers, is in theory \<open>Dispatch\<close>.
\<close>

section \<open>The array of event slots\<close>

definition get_slot :: "EventBase \<Rightarrow> int \<Rightarrow> FdEvent outcome" where
  "get_slot eb fd = (if 0 \<le> fd \<and> fd < int (length (pstFdEventsArray eb))
     then Inr (pstFdEventsArray eb ! nat fd) else undef OutOfBounds)"

definition put_slot :: "EventBase \<Rightarrow> int \<Rightarrow> FdEvent \<Rightarrow> EventBase" where
  "put_slot eb fd sl = eb\<lparr>pstFdEventsArray := (pstFdEventsArray eb)[nat fd := sl]\<rparr>"

definition empty_slot :: FdEvent where
  "empty_slot = \<lparr>iMask = 0, pFunEventCallbackWrite = CbNull, pFunEventCallbackRead = CbNull, pstArg = NULL\<rparr>"

text \<open>The address of an array element is never \<open>NULL\<close>, so the test of it is left out.\<close>

definition FdFileEventInit :: "world \<Rightarrow> nat \<Rightarrow> int \<Rightarrow> (int \<times> world) outcome" where
  "FdFileEventInit w ep t_iFd = (if ep = NULL then Inr (RET_FAIL, w)
     else cbind (get_base w ep) (\<lambda>eb.
          cbind (get_slot eb t_iFd) (\<lambda>sl.
            Inr (RET_SUCC, put_base w (put_slot eb t_iFd empty_slot)))))"

section \<open>Registering events\<close>

definition epoll_events :: "u32 \<Rightarrow> u32" where
  "epoll_events msk =
     (if msk AND EVENT_READABLE \<noteq> 0 then EPOLLIN else 0) OR
     (if msk AND EVENT_WRITABLE \<noteq> 0 then EPOLLOUT else 0)"

text \<open>The slot after an event has been added: its mask, the callbacks of the event, the argument.\<close>

definition slot_with :: "FdEvent \<Rightarrow> u32 \<Rightarrow> EventCallbackProc \<Rightarrow> nat \<Rightarrow> FdEvent" where
  "slot_with sl msk cb arg = sl\<lparr>iMask := iMask sl OR msk,
     pFunEventCallbackRead := (if msk AND EVENT_READABLE \<noteq> 0 then cb else pFunEventCallbackRead sl),
     pFunEventCallbackWrite := (if msk AND EVENT_WRITABLE \<noteq> 0 then cb else pFunEventCallbackWrite sl),
     pstArg := arg\<rparr>"

definition EventAdd ::
  "world \<Rightarrow> nat \<Rightarrow> int \<Rightarrow> u32 \<Rightarrow> EventCallbackProc \<Rightarrow> nat \<Rightarrow> (int \<times> world) outcome" where
  "EventAdd w ep t_iFd t_iEventMask t_pEventCallbackProc t_pstCallbackArg =
     (if ep = NULL then Inr (RET_FAIL, w)
      else cbind (get_base w ep) (\<lambda>eb.
        if t_iFd > iFdEventArraySize eb then Inr (RET_FAIL, w)
        else cbind (get_slot eb t_iFd) (\<lambda>sl.
          if iMask sl AND t_iEventMask \<noteq> 0 then Inr (RET_SUCC, w)
          else let iOper = (if iMask sl = EVENT_NONE then EPOLL_CTL_ADD else EPOLL_CTL_MOD);
                   sl' = slot_with sl t_iEventMask t_pEventCallbackProc t_pstCallbackArg;
                   w1 = put_base w (put_slot eb t_iFd sl');
                   (r, k') = epoll_ctl (w_kern w) iOper t_iFd (epoll_events (iMask sl'))
               in Inr (if r = -1 then RET_FAIL else RET_SUCC, put_kern w1 k'))))"

definition EventDel :: "world \<Rightarrow> nat \<Rightarrow> int \<Rightarrow> u32 \<Rightarrow> (int \<times> world) outcome" where
  "EventDel w ep t_iFd t_iEventMask =
     (if ep = NULL then Inr (RET_FAIL, w)
      else cbind (get_base w ep) (\<lambda>eb.
        if iFdEventArraySize eb < t_iFd then Inr (RET_FAIL, w)
        else cbind (get_slot eb t_iFd) (\<lambda>sl.
          if iMask sl = EVENT_NONE then Inr (RET_SUCC, w)
          else if iMask sl AND t_iEventMask = 0 then Inr (RET_SUCC, w)
          else let sl' = sl\<lparr>iMask := iMask sl AND NOT t_iEventMask\<rparr>;
                   iOper = (if iMask sl' = EVENT_NONE then EPOLL_CTL_DEL else EPOLL_CTL_MOD);
                   w1 = put_base w (put_slot eb t_iFd sl');
                   (r, k') = epoll_ctl (w_kern w) iOper t_iFd (epoll_events (iMask sl'))
               in Inr (if 0 > r then RET_FAIL else RET_SUCC, put_kern w1 k'))))"

section \<open>Creating and deleting the base\<close>

text \<open>
  \<open>__CreateNewEventBase\<close>.  \<open>epfd\<close> is the result of \<open>epoll_create\<close>, \<open>junk\<close> the content of
  the memory that \<open>malloc\<close> returns for the slots, which is not cleared.  The five requests for
  memory are answered in their order.  The result is the pointer (1, the base) or \<open>NULL\<close>.
\<close>

definition fresh_base :: "int \<Rightarrow> int \<Rightarrow> (nat \<Rightarrow> FdEvent) \<Rightarrow> int \<Rightarrow> timeval \<Rightarrow> EventBase" where
  "fresh_base n epfd junk pid now = \<lparr>iSize = n, iFdEventArraySize = n, iStopSign = 0, iEpType = 0,
     iEpfd = epfd, iListenFd = 0, iClientCount = 0, pstTimeCache = Some now,
     pstHeapHeader = snd (MinheapCreate pid (Some \<lparr>ppstTimeoutEventHeader = [], iNodeCapacity = 0,
                                                   iNodeUsed = 0, iCurPid = 0\<rparr>)),
     pstFdEventsArray = map junk [0..<nat n]\<rparr>"

definition CreateNewEventBase :: "world \<Rightarrow> int \<Rightarrow> int \<Rightarrow> (nat \<Rightarrow> FdEvent) \<Rightarrow> nat \<times> world" where
  "CreateNewEventBase w t_iEventSize epfd junk =
     (if t_iEventSize \<le> 0 then (NULL, w)
      else let (ok1, w1) = ask_malloc w in
      if \<not> ok1 then (NULL, w1)
      else if epfd < 0 then (NULL, w1)
      else let (ok2, w2) = ask_malloc w1 in
      if \<not> ok2 then (NULL, w2)
      else let (ok3, w3) = ask_malloc w2 in
      if \<not> ok3 then (NULL, w3)
      else let (ok4, w4) = ask_malloc w3 in
      if \<not> ok4 then (NULL, w4)
      else let (ok5, w5) = ask_malloc w4 in
      if \<not> ok5 then (NULL, w5)
      else (1, w5\<lparr>w_base := Some (fresh_base t_iEventSize epfd junk (w_pid w) (w_now w))\<rparr>))"

definition EventBaseCreate ::
  "world \<Rightarrow> int \<Rightarrow> int \<Rightarrow> int \<Rightarrow> (nat \<Rightarrow> FdEvent) \<Rightarrow> (nat \<times> world) outcome" where
  "EventBaseCreate w t_iFd t_iMaxEventSize epfd junk =
     (if t_iFd < 0 \<or> t_iMaxEventSize \<le> 0 then Inr (NULL, w)
      else let (ep, w1) = CreateNewEventBase w t_iMaxEventSize epfd junk in
      if ep = NULL then Inr (NULL, w1)
      else cbind (get_base w1 ep) (\<lambda>eb.
        let w2 = put_base w1 (eb\<lparr>iListenFd := t_iFd, iEpType := EPOLL_LT_TYPE\<rparr>) in
        cbind (EventAdd w2 ep t_iFd EVENT_READABLE AcceptProc NULL) (\<lambda>(r, w3).
          if r = RET_FAIL then Inr (NULL, w3) else Inr (ep, w3))))"

text \<open>\<open>__DeleteEventBase\<close> frees every block of the base (but not the epoll descriptor).\<close>

definition DeleteEventBase :: "world \<Rightarrow> nat \<Rightarrow> world outcome" where
  "DeleteEventBase w ep = (if ep = NULL then Inr w
     else cbind (get_base w ep) (\<lambda>eb. Inr (w\<lparr>w_base := None\<rparr>)))"

definition EventBaseStop :: "world \<Rightarrow> nat \<Rightarrow> world outcome" where
  "EventBaseStop w ep = (if ep = NULL then Inr w
     else cbind (get_base w ep) (\<lambda>eb. Inr (put_base w (eb\<lparr>iStopSign := EPOLL_EVENT_BASE_STOP\<rparr>))))"

section \<open>Timers\<close>

definition time_cache :: "EventBase \<Rightarrow> timeval outcome" where
  "time_cache eb = (case pstTimeCache eb of None \<Rightarrow> undef NullDeref | Some t \<Rightarrow> Inr t)"

text \<open>The interval of a timer: seconds, and the remaining milliseconds as microseconds.\<close>

definition interval_of :: "int \<Rightarrow> timeval" where
  "interval_of t_uSec = Timeval (t_uSec sdiv 1000) (t_uSec smod 1000)"

text \<open>
  The results of the erase and of the push are not looked at.  One answer of the allocator is
  drawn for the push; it matters only when the array has to grow.
\<close>

definition RegisterTimerOutEvent :: "world \<Rightarrow> nat \<Rightarrow> tptr \<Rightarrow> int \<Rightarrow> (int \<times> world) outcome" where
  "RegisterTimerOutEvent w ep tp t_uSec =
     (if ep = NULL \<or> tp = NULL then Inr (RET_FAIL, w)
      else cbind (get_base w ep) (\<lambda>eb.
           cbind (tev_get (w_tevs w) tp) (\<lambda>e.
           cbind (time_cache eb) (\<lambda>now.
             let e' = e\<lparr>stInterval := interval_of t_uSec,
                        stTimeout := minheap_timeradd now (interval_of t_uSec)\<rparr>;
                 (mem, w1) = ask_malloc w in
             cbind (MinheapErase (heap_of (w1\<lparr>w_tevs := (w_tevs w)(tp \<mapsto> e')\<rparr>) eb) tp) (\<lambda>(_, h1).
             cbind (MinHeapPush mem h1 tp) (\<lambda>(_, h2).
               Inr (RET_SUCC, put_heap w1 eb h2)))))))"

definition UnregisterTimerOutEvent :: "world \<Rightarrow> nat \<Rightarrow> tptr \<Rightarrow> (int \<times> world) outcome" where
  "UnregisterTimerOutEvent w ep tp =
     (if tp = NULL \<or> ep = NULL then Inr (RET_FAIL, w)
      else cbind (get_base w ep) (\<lambda>eb.
           cbind (MinheapErase (heap_of w eb) tp) (\<lambda>(r, h).
             if r = RET_FAIL then Inr (RET_FAIL, put_heap w eb h)
             else Inr (RET_SUCC, put_heap w eb h))))"

text \<open>
  \<open>GetEPollwaitTimeoutValue\<close> returns with its result the value it stores through its second
  argument, if it stores one.  \<open>save_null\<close> says that this argument is \<open>NULL\<close>.
\<close>

definition GetEPollwaitTimeoutValue ::
  "world \<Rightarrow> nat \<Rightarrow> bool \<Rightarrow> (int \<times> timeval option \<times> world) outcome" where
  "GetEPollwaitTimeoutValue w ep save_null =
     (if save_null \<or> ep = NULL then Inr (-1, None, w)
      else cbind (get_base w ep) (\<lambda>eb.
        case pstTimeCache eb of None \<Rightarrow> Inr (-1, None, w)
        | Some cached \<Rightarrow>
            cbind (MinheapGetTopElement (pstHeapHeader eb)) (\<lambda>top.
              if top = NULL then Inr (-1, None, w)
              else let cur = (if tv_sec cached = 0 then w_now w else cached);
                       w1 = put_base w (eb\<lparr>pstTimeCache := Some cur\<rparr>) in
                cbind (tev_get (w_tevs w) top) (\<lambda>e.
                  if minheap_timercmp cur (stTimeout e) (\<le>)
                  then Inr (0, Some (minheap_timersub (stTimeout e) cur), w1)
                  else Inr (0, Some (Timeval 0 0), w1)))))"

section \<open>Facts\<close>

lemma get_slot_Inr_iff [outcome_iff]:
  "get_slot eb fd = Inr sl \<longleftrightarrow>
     0 \<le> fd \<and> fd < int (length (pstFdEventsArray eb)) \<and> sl = pstFdEventsArray eb ! nat fd"
  by (auto simp: get_slot_def)

lemma time_cache_Inr_iff [outcome_iff]: "time_cache eb = Inr t \<longleftrightarrow> pstTimeCache eb = Some t"
  by (auto simp: time_cache_def split: option.splits)

lemma slots_put_slot [simp]:
  "pstFdEventsArray (put_slot eb fd sl) = (pstFdEventsArray eb)[nat fd := sl]"
  "iFdEventArraySize (put_slot eb fd sl) = iFdEventArraySize eb"
  "pstHeapHeader (put_slot eb fd sl) = pstHeapHeader eb"
  "pstTimeCache (put_slot eb fd sl) = pstTimeCache eb"
  "iEpType (put_slot eb fd sl) = iEpType eb" "iListenFd (put_slot eb fd sl) = iListenFd eb"
  "iStopSign (put_slot eb fd sl) = iStopSign eb" "iClientCount (put_slot eb fd sl) = iClientCount eb"
  by (simp_all add: put_slot_def)

lemma epoll_events_eq:
  "epoll_events 0 = 0" "epoll_events EVENT_READABLE = EPOLLIN" "epoll_events EVENT_WRITABLE = EPOLLOUT"
  by (simp_all add: epoll_events_def EVENT_READABLE_def EVENT_WRITABLE_def)

text \<open>What a call of the two operations changes: one slot, and the kernel's interest list.\<close>

lemma EventAdd_cases:
  assumes "EventAdd w ep fd msk cb arg = Inr (r, w')"
  obtains (null) "ep = NULL" "w' = w" "r = RET_FAIL"
  | (range) eb where "w_base w = Some eb" "iFdEventArraySize eb < fd" "w' = w" "r = RET_FAIL"
  | (known) eb sl where "w_base w = Some eb" "get_slot eb fd = Inr sl" "iMask sl AND msk \<noteq> 0" "w' = w" "r = RET_SUCC"
  | (new) eb sl k' where "ep \<noteq> NULL" "w_base w = Some eb" "fd \<le> iFdEventArraySize eb" "get_slot eb fd = Inr sl"
      "iMask sl AND msk = 0"
      "epoll_ctl (w_kern w) (if iMask sl = EVENT_NONE then EPOLL_CTL_ADD else EPOLL_CTL_MOD) fd
         (epoll_events (iMask sl OR msk)) = (if r = RET_SUCC then 0 else -1, k')"
      "w' = put_kern (put_base w (put_slot eb fd (slot_with sl msk cb arg))) k'"
proof (cases "ep = NULL")
  case True
  then show thesis by (rule null) (use True assms in \<open>simp_all add: EventAdd_def\<close>)
next
  case ep: False
  obtain eb where eb: "w_base w = Some eb"
    using assms ep by (auto simp: EventAdd_def cbind_Inr_iff get_base_Inr_iff)
  show thesis
  proof (cases "iFdEventArraySize eb < fd")
    case True
    show thesis by (rule range [OF eb True]) (use True assms ep eb in \<open>simp_all add: EventAdd_def\<close>)
  next
    case rng: False
    obtain sl where sl: "get_slot eb fd = Inr sl"
      using assms ep eb rng by (auto simp: EventAdd_def cbind_Inr_iff)
    show thesis
    proof (cases "iMask sl AND msk = 0")
      case False
      show thesis
        by (rule known [OF eb sl False]) (use False assms ep eb rng sl in \<open>simp_all add: EventAdd_def\<close>)
    next
      case True
      let ?op = "if iMask sl = EVENT_NONE then EPOLL_CTL_ADD else EPOLL_CTL_MOD"
      obtain c k' where c: "epoll_ctl (w_kern w) ?op fd (epoll_events (iMask sl OR msk)) = (c, k')"
        by fastforce
      have "c = 0 \<or> c = -1" using epoll_ctl_ok [OF c] by auto
      moreover have "r = (if c = -1 then RET_FAIL else RET_SUCC)
          \<and> w' = put_kern (put_base w (put_slot eb fd (slot_with sl msk cb arg))) k'"
        using assms ep eb rng sl True c by (simp add: EventAdd_def slot_with_def Let_def)
      ultimately show thesis
        by (intro new [OF ep eb _ sl True, of k']) (use rng c in auto)
    qed
  qed
qed

lemma EventDel_cases:
  assumes "EventDel w ep fd msk = Inr (r, w')"
  obtains (null) "ep = NULL" "w' = w" "r = RET_FAIL"
  | (range) eb where "w_base w = Some eb" "iFdEventArraySize eb < fd" "w' = w" "r = RET_FAIL"
  | (absent) eb sl where "w_base w = Some eb" "get_slot eb fd = Inr sl" "iMask sl AND msk = 0" "w' = w" "r = RET_SUCC"
  | (known) eb sl k' where "ep \<noteq> NULL" "w_base w = Some eb" "fd \<le> iFdEventArraySize eb" "get_slot eb fd = Inr sl"
      "iMask sl AND msk \<noteq> 0"
      "epoll_ctl (w_kern w) (if iMask sl AND NOT msk = EVENT_NONE then EPOLL_CTL_DEL else EPOLL_CTL_MOD) fd
         (epoll_events (iMask sl AND NOT msk)) = (if r = RET_SUCC then 0 else -1, k')"
      "w' = put_kern (put_base w (put_slot eb fd (sl\<lparr>iMask := iMask sl AND NOT msk\<rparr>))) k'"
proof (cases "ep = NULL")
  case True
  then show thesis by (rule null) (use True assms in \<open>simp_all add: EventDel_def\<close>)
next
  case ep: False
  obtain eb where eb: "w_base w = Some eb"
    using assms ep by (auto simp: EventDel_def cbind_Inr_iff get_base_Inr_iff)
  show thesis
  proof (cases "iFdEventArraySize eb < fd")
    case True
    show thesis by (rule range [OF eb True]) (use True assms ep eb in \<open>simp_all add: EventDel_def\<close>)
  next
    case rng: False
    obtain sl where sl: "get_slot eb fd = Inr sl"
      using assms ep eb rng by (auto simp: EventDel_def cbind_Inr_iff)
    show thesis
    proof (cases "iMask sl AND msk = 0")
      case True
      show thesis
        by (rule absent [OF eb sl True])
           (use True assms ep eb rng sl in \<open>simp_all add: EventDel_def split: if_splits\<close>)
    next
      case False
      then have ne: "iMask sl \<noteq> EVENT_NONE" by (auto simp: EVENT_NONE_def)
      let ?op = "if iMask sl AND NOT msk = EVENT_NONE then EPOLL_CTL_DEL else EPOLL_CTL_MOD"
      obtain c k' where c: "epoll_ctl (w_kern w) ?op fd (epoll_events (iMask sl AND NOT msk)) = (c, k')"
        by fastforce
      have "c = 0 \<or> c = -1" using epoll_ctl_ok [OF c] by auto
      moreover have "r = (if 0 > c then RET_FAIL else RET_SUCC)
          \<and> w' = put_kern (put_base w (put_slot eb fd (sl\<lparr>iMask := iMask sl AND NOT msk\<rparr>))) k'"
        using assms ep eb rng sl False ne c by (simp add: EventDel_def Let_def)
      ultimately show thesis
        by (intro known [OF ep eb _ sl False, of k']) (use rng c in auto)
    qed
  qed
qed

end
