(* ===== verification/InterestSet.thy ===== *)
theory InterestSet
  imports Reactor
begin

text \<open>
  What the event handlers rely on when they register and unregister events, as a locale: the masks
  kept by the program and the kernel's interest list stay in step, whatever the sequence of
  registrations.  \<open>EventAdd\<close> and \<open>EventDel\<close> of \<open>src/reactor.c\<close> are the interpretation.
\<close>

section \<open>The contract\<close>

text \<open>The reference behaviour on one mask: an addition that shares a bit with the mask is ignored.\<close>

definition add_bits :: "u32 \<Rightarrow> u32 \<Rightarrow> u32" where
  "add_bits m b = (if m AND b \<noteq> 0 then m else m OR b)"

definition del_bits :: "u32 \<Rightarrow> u32 \<Rightarrow> u32" where
  "del_bits m b = m AND NOT b"

definition in_sync :: "(int \<Rightarrow> u32) \<Rightarrow> (int \<Rightarrow> u32 option) \<Rightarrow> bool" where
  "in_sync masks watched \<longleftrightarrow>
     (\<forall>fd. watched fd = (if masks fd = 0 then None else Some (epoll_events (masks fd))))"

datatype interest_op = AddOp int u32 EventCallbackProc nat | DelOp int u32

fun op_fd :: "interest_op \<Rightarrow> int" where
  "op_fd (AddOp fd m cb arg) = fd"
| "op_fd (DelOp fd m) = fd"

fun op_bits :: "interest_op \<Rightarrow> u32" where
  "op_bits (AddOp fd m cb arg) = m"
| "op_bits (DelOp fd m) = m"

fun op_spec :: "(int \<Rightarrow> u32) \<Rightarrow> interest_op \<Rightarrow> (int \<Rightarrow> u32)" where
  "op_spec masks (AddOp fd m cb arg) = masks(fd := add_bits (masks fd) m)"
| "op_spec masks (DelOp fd m) = masks(fd := del_bits (masks fd) m)"

locale interest_set =
  fixes run1 :: "'s \<Rightarrow> interest_op \<Rightarrow> (int \<times> 's) outcome"
    and masks :: "'s \<Rightarrow> int \<Rightarrow> u32"
    and watched :: "'s \<Rightarrow> int \<Rightarrow> u32 option"
    and usable :: "'s \<Rightarrow> int set"
  assumes run1_ok: "in_sync (masks s) (watched s) \<Longrightarrow> op_fd x \<in> usable s \<Longrightarrow> op_bits x \<noteq> 0 \<Longrightarrow>
       \<exists>s'. run1 s x = Inr (RET_SUCC, s') \<and> masks s' = op_spec (masks s) x
          \<and> in_sync (masks s') (watched s') \<and> usable s' = usable s"

fun run_ops :: "('s \<Rightarrow> interest_op \<Rightarrow> (int \<times> 's) outcome) \<Rightarrow> interest_op list \<Rightarrow> 's \<Rightarrow> 's outcome" where
  "run_ops run1 [] s = Inr s"
| "run_ops run1 (x # xs) s = cbind (run1 s x) (\<lambda>(r, s1). run_ops run1 xs s1)"

context interest_set
begin

lemma run_ops_sync:
  assumes "in_sync (masks s) (watched s)" and "\<forall>x \<in> set xs. op_fd x \<in> usable s \<and> op_bits x \<noteq> 0"
  shows "\<exists>s'. run_ops run1 xs s = Inr s' \<and> masks s' = foldl op_spec (masks s) xs
     \<and> in_sync (masks s') (watched s')"
  using assms
proof (induction xs arbitrary: s)
  case (Cons x xs)
  obtain s1 where s1: "run1 s x = Inr (RET_SUCC, s1)" "masks s1 = op_spec (masks s) x"
    "in_sync (masks s1) (watched s1)" "usable s1 = usable s"
    using run1_ok [OF Cons.prems(1), of x] Cons.prems(2) by auto
  have "\<exists>s'. run_ops run1 xs s1 = Inr s' \<and> masks s' = foldl op_spec (masks s1) xs
     \<and> in_sync (masks s') (watched s')"
    by (rule Cons.IH [OF s1(3)]) (use Cons.prems(2) s1(4) in auto)
  then show ?case using s1(1,2) by auto
qed simp

end

section \<open>The reactor's masks and the epoll object\<close>

definition slot_mask :: "world \<Rightarrow> int \<Rightarrow> u32" where
  "slot_mask w fd = (case w_base w of None \<Rightarrow> 0 | Some eb \<Rightarrow>
     if 0 \<le> fd \<and> fd < int (length (pstFdEventsArray eb)) then iMask (pstFdEventsArray eb ! nat fd) else 0)"

definition watched_by_kernel :: "world \<Rightarrow> int \<Rightarrow> u32 option" where
  "watched_by_kernel w = k_interest (w_kern w)"

text \<open>The descriptors inside the array that are open, when the kernel refuses nothing.\<close>

definition usable_fds :: "world \<Rightarrow> int set" where
  "usable_fds w = (case w_base w of None \<Rightarrow> {} | Some eb \<Rightarrow>
     {fd. 0 \<le> fd \<and> fd < int (length (pstFdEventsArray eb)) \<and> fd \<le> iFdEventArraySize eb
        \<and> sock_is_open (w_kern w) fd \<and> k_ctl (w_kern w) = []})"

definition reactor_op :: "world \<Rightarrow> interest_op \<Rightarrow> (int \<times> world) outcome" where
  "reactor_op w x = (case x of AddOp fd m cb arg \<Rightarrow> EventAdd w 1 fd m cb arg | DelOp fd m \<Rightarrow> EventDel w 1 fd m)"

lemma in_sync_upd:
  assumes "in_sync M K" and "K' = K(fd := if m = 0 then None else Some (epoll_events m))"
  shows "in_sync (M(fd := m)) K'"
  using assms by (auto simp: in_sync_def)

lemma usableE:
  assumes "fd \<in> usable_fds w"
  obtains eb sl where "w_base w = Some eb" "get_slot eb fd = Inr sl" "fd \<le> iFdEventArraySize eb"
    "sock_is_open (w_kern w) fd" "k_ctl (w_kern w) = []" "slot_mask w fd = iMask sl"
    "0 \<le> fd" "fd < int (length (pstFdEventsArray eb))"
  using assms by (auto simp: usable_fds_def get_slot_def slot_mask_def split: option.splits)

lemma view_cong:
  assumes "w_base w' = w_base w" "w_kern w' = w_kern w"
  shows "slot_mask w' = slot_mask w" "watched_by_kernel w' = watched_by_kernel w" "usable_fds w' = usable_fds w"
proof -
  show "slot_mask w' = slot_mask w" by (rule ext) (simp only: slot_mask_def assms)
  show "watched_by_kernel w' = watched_by_kernel w" by (rule ext) (simp only: watched_by_kernel_def assms)
  show "usable_fds w' = usable_fds w" by (simp only: usable_fds_def assms)
qed

lemma view_cong_socks:
  assumes "w_base w' = w_base w" "k_interest (w_kern w') = k_interest (w_kern w)" "k_ctl (w_kern w') = k_ctl (w_kern w)"
    and "\<And>fd. k_socks (w_kern w') fd = None \<longleftrightarrow> k_socks (w_kern w) fd = None"
  shows "slot_mask w' = slot_mask w" "watched_by_kernel w' = watched_by_kernel w" "usable_fds w' = usable_fds w"
proof -
  show "slot_mask w' = slot_mask w" by (rule ext) (simp only: slot_mask_def assms(1))
  show "watched_by_kernel w' = watched_by_kernel w" by (rule ext) (simp only: watched_by_kernel_def assms(2))
  show "usable_fds w' = usable_fds w" by (simp only: usable_fds_def sock_is_open_def assms)
qed

lemma slot_mask_put:
  assumes "w_base w = Some eb" "0 \<le> fd" "fd < int (length (pstFdEventsArray eb))"
  shows "slot_mask (put_kern (put_base w (put_slot eb fd sl)) k) = (slot_mask w)(fd := iMask sl)"
  using assms by (auto simp: slot_mask_def fun_eq_iff nth_list_update nat_eq_iff)

lemma usable_put:
  assumes "w_base w = Some eb" "k_socks k = k_socks (w_kern w)" "k_ctl k = k_ctl (w_kern w)"
  shows "usable_fds (put_kern (put_base w (put_slot eb fd sl)) k) = usable_fds w"
  using assms by (simp add: usable_fds_def sock_is_open_def)

lemma epoll_ctl_granted:
  assumes "k_ctl k = []" "sock_is_open k fd" "k_interest k fd = None \<longleftrightarrow> iOper = EPOLL_CTL_ADD"
  shows "epoll_ctl k iOper fd ev =
    (0, k\<lparr>k_interest := (k_interest k)(fd := if iOper = EPOLL_CTL_DEL then None else Some ev)\<rparr>)"
  using assms by (cases k) (simp add: epoll_ctl_def sock_is_open_def)

lemma EventAdd_sync:
  assumes sync: "in_sync (slot_mask w) (watched_by_kernel w)" and us: "fd \<in> usable_fds w" and m: "m \<noteq> 0"
    and ep: "ep \<noteq> NULL"
  shows "\<exists>w'. EventAdd w ep fd m cb arg = Inr (RET_SUCC, w')
     \<and> slot_mask w' = (slot_mask w)(fd := add_bits (slot_mask w fd) m)
     \<and> in_sync (slot_mask w') (watched_by_kernel w') \<and> usable_fds w' = usable_fds w"
proof -
  obtain eb sl where u: "w_base w = Some eb" "get_slot eb fd = Inr sl" "fd \<le> iFdEventArraySize eb"
    "sock_is_open (w_kern w) fd" "k_ctl (w_kern w) = []" "slot_mask w fd = iMask sl"
    "0 \<le> fd" "fd < int (length (pstFdEventsArray eb))"
    using us by (rule usableE)
  show ?thesis
  proof (cases "iMask sl AND m = 0")
    case False
    then have "EventAdd w ep fd m cb arg = Inr (RET_SUCC, w)" using u ep by (simp add: EventAdd_def)
    then show ?thesis using False u(6) sync by (auto simp: add_bits_def)
  next
    case True
    let ?op = "if iMask sl = EVENT_NONE then EPOLL_CTL_ADD else EPOLL_CTL_MOD" and ?m = "iMask sl OR m"
    let ?k = "(w_kern w)\<lparr>k_interest := (k_interest (w_kern w))(fd \<mapsto> epoll_events ?m)\<rparr>"
    let ?w = "put_kern (put_base w (put_slot eb fd (slot_with sl m cb arg))) ?k"
    have "k_interest (w_kern w) fd = None \<longleftrightarrow> ?op = EPOLL_CTL_ADD"
      using sync u(6) by (auto simp: in_sync_def watched_by_kernel_def EVENT_NONE_def)
    note ctl = epoll_ctl_granted [OF u(5,4) this, of "epoll_events ?m"]
    have "EventAdd w ep fd m cb arg = Inr (RET_SUCC, ?w)"
      using u ep True ctl by (simp add: EventAdd_def slot_with_def Let_def)
    moreover have ms: "slot_mask ?w = (slot_mask w)(fd := ?m)"
      using slot_mask_put [OF u(1,7,8), of "slot_with sl m cb arg" ?k] by (simp add: slot_with_def)
    moreover have "?m \<noteq> 0" using m by (simp add: or_eq_0_iff)
    then have "in_sync (slot_mask ?w) (watched_by_kernel ?w)"
      unfolding ms using in_sync_upd [OF sync, of _ fd ?m] by (simp add: watched_by_kernel_def)
    moreover have "usable_fds ?w = usable_fds w" using u(1) by (rule usable_put) simp_all
    ultimately show ?thesis using True u(6) by (intro exI [of _ ?w]) (simp add: add_bits_def)
  qed
qed

lemma EventDel_sync:
  assumes sync: "in_sync (slot_mask w) (watched_by_kernel w)" and us: "fd \<in> usable_fds w" and ep: "ep \<noteq> NULL"
  shows "\<exists>w'. EventDel w ep fd m = Inr (RET_SUCC, w')
     \<and> slot_mask w' = (slot_mask w)(fd := del_bits (slot_mask w fd) m)
     \<and> in_sync (slot_mask w') (watched_by_kernel w') \<and> usable_fds w' = usable_fds w"
proof -
  obtain eb sl where u: "w_base w = Some eb" "get_slot eb fd = Inr sl" "fd \<le> iFdEventArraySize eb"
    "sock_is_open (w_kern w) fd" "k_ctl (w_kern w) = []" "slot_mask w fd = iMask sl"
    "0 \<le> fd" "fd < int (length (pstFdEventsArray eb))"
    using us by (rule usableE)
  show ?thesis
  proof (cases "iMask sl AND m = 0")
    case True
    then have "EventDel w ep fd m = Inr (RET_SUCC, w)" using u ep by (simp add: EventDel_def)
    moreover have "iMask sl AND NOT m = iMask sl"
      using True by (rule and_not_disjoint)
    ultimately show ?thesis using u(6) sync by (auto simp: del_bits_def)
  next
    case False
    let ?m = "iMask sl AND NOT m"
    let ?op = "if ?m = EVENT_NONE then EPOLL_CTL_DEL else EPOLL_CTL_MOD"
    let ?k = "(w_kern w)\<lparr>k_interest := (k_interest (w_kern w))(fd := if ?m = 0 then None else Some (epoll_events ?m))\<rparr>"
    let ?w = "put_kern (put_base w (put_slot eb fd (sl\<lparr>iMask := ?m\<rparr>))) ?k"
    have ne: "iMask sl \<noteq> 0" using False by auto
    then have "k_interest (w_kern w) fd = None \<longleftrightarrow> ?op = EPOLL_CTL_ADD"
      using sync u(6) by (auto simp: in_sync_def watched_by_kernel_def)
    note ctl = epoll_ctl_granted [OF u(5,4) this, of "epoll_events ?m"]
    have "EventDel w ep fd m = Inr (RET_SUCC, ?w)"
      using u ep False ne ctl by (simp add: EventDel_def Let_def EVENT_NONE_def)
    moreover have ms: "slot_mask ?w = (slot_mask w)(fd := ?m)"
      using slot_mask_put [OF u(1,7,8), of "sl\<lparr>iMask := ?m\<rparr>" ?k] by simp
    moreover have "in_sync (slot_mask ?w) (watched_by_kernel ?w)"
      unfolding ms using in_sync_upd [OF sync, of _ fd ?m] by (simp add: watched_by_kernel_def)
    moreover have "usable_fds ?w = usable_fds w" using u(1) by (rule usable_put) simp_all
    ultimately show ?thesis using u(6) by (intro exI [of _ ?w]) (simp add: del_bits_def)
  qed
qed

interpretation reactor_interest: interest_set reactor_op slot_mask watched_by_kernel usable_fds
proof
  fix s :: world and x :: interest_op
  assume a: "in_sync (slot_mask s) (watched_by_kernel s)" "op_fd x \<in> usable_fds s" "op_bits x \<noteq> 0"
  show "\<exists>s'. reactor_op s x = Inr (RET_SUCC, s') \<and> slot_mask s' = op_spec (slot_mask s) x
          \<and> in_sync (slot_mask s') (watched_by_kernel s') \<and> usable_fds s' = usable_fds s"
    using a by (cases x) (simp_all add: reactor_op_def EventAdd_sync EventDel_sync)
qed

end
