(* ===== verification/TimerTable.thy ===== *)
theory TimerTable
  imports TimerQueue Reactor
begin

text \<open>
  The timers of the process as a table from timer nodes to due times, and the refinement: the
  registration and the removal of a timer in \<open>src/reactor.c\<close> are an update and a deletion of the
  table, and the wait time of the event loop is computed from its least entry.
\<close>

definition timer_table :: "tptr list \<Rightarrow> tev_store \<Rightarrow> tptr \<Rightarrow> timeval option" where
  "timer_table ps S p = (if p \<in> set ps then Some (key_of S p) else None)"

text \<open>\<open>timers_ok w ps\<close>: the process has a base whose heap is well-formed and holds the nodes \<open>ps\<close>.\<close>

definition timers_ok :: "world \<Rightarrow> tptr list \<Rightarrow> bool" where
  "timers_ok w ps \<longleftrightarrow> (case w_base w of None \<Rightarrow> False | Some eb \<Rightarrow> heap_ok (heap_of w eb) ps)"

definition due_times :: "world \<Rightarrow> tptr list \<Rightarrow> tptr \<Rightarrow> timeval option" where
  "due_times w ps = timer_table ps (w_tevs w)"

lemma timers_okE:
  assumes "timers_ok w ps"
  obtains eb H where "w_base w = Some eb" "pstHeapHeader eb = Some H" "heap_rep H (w_tevs w) ps"
  using assms by (auto simp: timers_ok_def heap_ok_def split: option.splits)

lemma timers_ok_put_heap:
  "heap_rep H S ps \<Longrightarrow> timers_ok (put_heap w eb \<lparr>hs_hdr = Some H, hs_tevs = S\<rparr>) ps"
  by (simp add: timers_ok_def heap_ok_def)

lemma timer_table_insert:
  assumes "set qs = insert p (set ps)" and "\<And>q. q \<noteq> p \<Longrightarrow> key_of S' q = key_of S q"
  shows "timer_table qs S' = (timer_table ps S)(p \<mapsto> key_of S' p)"
  using assms by (auto simp: timer_table_def fun_eq_iff)

lemma timer_table_remove:
  assumes "set qs = set ps - {p}" and "\<And>q. key_of S' q = key_of S q"
  shows "timer_table qs S' = (timer_table ps S)(p := None)"
  using assms by (auto simp: timer_table_def fun_eq_iff)

text \<open>
  The timer of a node can be set when the node is not in the heap (and says so), or when it is in
  the heap, its new time is not earlier, and \<open>MinheapErase\<close> takes its correct branch.
\<close>

definition can_set :: "world \<Rightarrow> tptr list \<Rightarrow> tptr \<Rightarrow> timeval \<Rightarrow> bool" where
  "can_set w ps p due \<longleftrightarrow> p \<noteq> NULL \<and> (case w_tevs w p of None \<Rightarrow> False | Some e \<Rightarrow>
     if iHeapIndex e = -1 then p \<notin> set ps
     else p \<in> set ps \<and> stTimeout e \<le> due \<and> \<not> erase_goes_up (w_tevs w) ps (nat (iHeapIndex e)))"

definition heap_can_grow :: "EventBase \<Rightarrow> bool" where
  "heap_can_grow eb \<longleftrightarrow> (case pstHeapHeader eb of None \<Rightarrow> False | Some H \<Rightarrow> 2 * int (iNodeCapacity H) \<le> INT_MAX)"

text \<open>Erase and push as \<open>RegisterTimerOutEvent\<close> composes them.\<close>

lemma erase_push:
  assumes rep: "heap_rep H S ps" and cap: "2 * int (iNodeCapacity H) \<le> INT_MAX" and p: "p \<noteq> NULL"
    and e: "S p = Some e" and e': "iHeapIndex e' = iHeapIndex e"
    and ok: "if iHeapIndex e = -1 then p \<notin> set ps
       else p \<in> set ps \<and> stTimeout e \<le> stTimeout e' \<and> \<not> erase_goes_up S ps (nat (iHeapIndex e))"
  shows "\<exists>r h1 H' S' qs. MinheapErase \<lparr>hs_hdr = Some H, hs_tevs = S(p \<mapsto> e')\<rparr> p = Inr (r, h1)
     \<and> MinHeapPush True h1 p = Inr (RET_SUCC, \<lparr>hs_hdr = Some H', hs_tevs = S'\<rparr>)
     \<and> heap_rep H' S' qs \<and> set qs = insert p (set ps) \<and> same_nodes (S(p \<mapsto> e')) S'
     \<and> iNodeCapacity H' \<le> grown_capacity (iNodeCapacity H) (length ps)"
proof (cases "iHeapIndex e = -1")
  case True
  let ?S = "S(p \<mapsto> e')"
  let ?st = "\<lparr>hs_hdr = Some H, hs_tevs = ?S\<rparr>"
  have np: "p \<notin> set ps" using ok True by simp
  have rep': "heap_rep H ?S ps" by (rule heap_rep_frame [OF rep]) (use np in auto)
  have er: "MinheapErase ?st p = Inr (RET_FAIL, ?st)"
    by (rule Erase_absent [of _ H p e']) (use p True e' in auto)
  obtain H' S' qs where q: "MinHeapPush True ?st p = Inr (RET_SUCC, \<lparr>hs_hdr = Some H', hs_tevs = S'\<rparr>)"
    "heap_rep H' S' qs" "mset qs = add_mset p (mset ps)" "same_nodes ?S S'"
    "iNodeCapacity H' = grown_capacity (iNodeCapacity H) (length ps)"
    using Push_rep [of ?st H ps True p e'] rep' cap p np by auto
  have "set qs = insert p (set ps)" using q(3) by (metis set_mset_add_mset_insert set_mset_mset)
  then show ?thesis using er q by fastforce
next
  case False
  let ?S = "S(p \<mapsto> e')" and ?i = "nat (iHeapIndex e)"
  let ?st = "\<lparr>hs_hdr = Some H, hs_tevs = ?S\<rparr>"
  have pin: "p \<in> set ps" and le: "stTimeout e \<le> stTimeout e'" and br: "\<not> erase_goes_up S ps ?i"
    using ok False by simp_all
  have i: "?i < length ps" "ps ! ?i = p" using heap_rep_node(2) [OF rep pin] e by auto
  obtain H1 S1 qs1 e2 where er: "MinheapErase ?st p = Inr (RET_SUCC, \<lparr>hs_hdr = Some H1, hs_tevs = S1\<rparr>)"
    "heap_rep H1 S1 qs1" "mset qs1 = mset ps - {#p#}" "iNodeCapacity H1 = iNodeCapacity H" "same_nodes ?S S1"
    "S1 p = Some e2"
    using Erase_rekeyed [of ?st H S ps ?i e e'] rep i br e e' le by auto
  have np: "p \<notin> set qs1" by (rule mset_remove_notin [OF heap_repD(4) [OF rep] pin er(3)])
  obtain H' S' qs where q:
    "MinHeapPush True \<lparr>hs_hdr = Some H1, hs_tevs = S1\<rparr> p = Inr (RET_SUCC, \<lparr>hs_hdr = Some H', hs_tevs = S'\<rparr>)"
    "heap_rep H' S' qs" "mset qs = add_mset p (mset qs1)" "same_nodes S1 S'"
    "iNodeCapacity H' = grown_capacity (iNodeCapacity H1) (length qs1)"
    using Push_rep [of "\<lparr>hs_hdr = Some H1, hs_tevs = S1\<rparr>" H1 qs1 True p e2] er p np cap by auto
  have "mset qs = mset ps" using q(3) er(3) pin by simp
  then have "set qs = insert p (set ps)" using pin by (metis insert_absorb set_mset_mset)
  moreover have "same_nodes ?S S'" by (rule same_nodes_trans [OF er(5) q(4)])
  moreover have "length qs1 < length ps" using er(3) pin by (metis in_multiset_in_set mset_eq_length size_Diff1_less size_mset)
  then have "length qs1 < iNodeCapacity H" using heap_repD(2,3) [OF rep] by simp
  then have "iNodeCapacity H' \<le> grown_capacity (iNodeCapacity H) (length ps)"
    using q(5) er(4) grown_capacity_ge by simp
  ultimately show ?thesis using er(1) q(1,2) by blast
qed

lemma ask_malloc_granted: "w_malloc w = [] \<Longrightarrow> ask_malloc w = (True, w)"
  by (simp add: ask_malloc_def)

text \<open>The world after a timer operation: only the heap header and the nodes differ.\<close>

lemma Register_form:
  assumes tm: "timers_ok w ps" "w_base w = Some eb" "pstTimeCache eb = Some now" "heap_can_grow eb"
    and mem: "w_malloc w = []" and ep: "ep \<noteq> NULL" and e: "w_tevs w p = Some e"
    and set: "can_set w ps p (minheap_timeradd now (interval_of ms))"
  shows "\<exists>H' S' qs. RegisterTimerOutEvent w ep p ms =
       Inr (RET_SUCC, put_heap w eb \<lparr>hs_hdr = Some H', hs_tevs = S'\<rparr>)
     \<and> heap_rep H' S' qs \<and> set qs = insert p (set ps)
     \<and> same_nodes ((w_tevs w)(p \<mapsto> e\<lparr>stInterval := interval_of ms,
           stTimeout := minheap_timeradd now (interval_of ms)\<rparr>)) S'
     \<and> (\<exists>H. pstHeapHeader eb = Some H \<and> iNodeCapacity H' \<le> grown_capacity (iNodeCapacity H) (length ps))"
proof -
  let ?due = "minheap_timeradd now (interval_of ms)"
  obtain H where H: "pstHeapHeader eb = Some H" "heap_rep H (w_tevs w) ps"
    using tm(1,2) by (auto elim: timers_okE)
  have cap: "2 * int (iNodeCapacity H) \<le> INT_MAX" using tm(4) H(1) by (simp add: heap_can_grow_def)
  have p: "p \<noteq> NULL" using set by (simp add: can_set_def)
  let ?e = "e\<lparr>stInterval := interval_of ms, stTimeout := ?due\<rparr>"
  have ok: "if iHeapIndex e = -1 then p \<notin> set ps
       else p \<in> set ps \<and> stTimeout e \<le> stTimeout ?e \<and> \<not> erase_goes_up (w_tevs w) ps (nat (iHeapIndex e))"
    using set e by (simp add: can_set_def split: if_splits)
  obtain r h1 H' S' qs where q:
    "MinheapErase \<lparr>hs_hdr = Some H, hs_tevs = (w_tevs w)(p \<mapsto> ?e)\<rparr> p = Inr (r, h1)"
    "MinHeapPush True h1 p = Inr (RET_SUCC, \<lparr>hs_hdr = Some H', hs_tevs = S'\<rparr>)"
    "heap_rep H' S' qs" "set qs = insert p (set ps)" "same_nodes ((w_tevs w)(p \<mapsto> ?e)) S'"
    "iNodeCapacity H' \<le> grown_capacity (iNodeCapacity H) (length ps)"
    using erase_push [OF H(2) cap p e _ ok] by auto
  have "RegisterTimerOutEvent w ep p ms = Inr (RET_SUCC, put_heap w eb \<lparr>hs_hdr = Some H', hs_tevs = S'\<rparr>)"
    using ep p tm(2,3) e H(1) q(1,2) ask_malloc_granted [OF mem]
    by (simp add: RegisterTimerOutEvent_def time_cache_def tev_get_def heap_of_def Let_def)
  then show ?thesis using q(3-6) H(1) by blast
qed

text \<open>The same result read as a timer table.\<close>

lemma Register_table:
  assumes "timers_ok w ps" "w_base w = Some eb" "pstTimeCache eb = Some now" "heap_can_grow eb"
    and "w_malloc w = []" and "ep \<noteq> NULL" and set: "can_set w ps p (minheap_timeradd now (interval_of ms))"
  obtains H' S' qs where "RegisterTimerOutEvent w ep p ms =
       Inr (RET_SUCC, put_heap w eb \<lparr>hs_hdr = Some H', hs_tevs = S'\<rparr>)"
    "timers_ok (put_heap w eb \<lparr>hs_hdr = Some H', hs_tevs = S'\<rparr>) qs"
    "due_times (put_heap w eb \<lparr>hs_hdr = Some H', hs_tevs = S'\<rparr>) qs =
       (due_times w ps)(p \<mapsto> minheap_timeradd now (interval_of ms))"
proof -
  let ?due = "minheap_timeradd now (interval_of ms)"
  obtain e where e: "w_tevs w p = Some e" using set by (auto simp: can_set_def split: option.splits)
  obtain H' S' qs where q: "RegisterTimerOutEvent w ep p ms =
       Inr (RET_SUCC, put_heap w eb \<lparr>hs_hdr = Some H', hs_tevs = S'\<rparr>)" "heap_rep H' S' qs"
    "set qs = insert p (set ps)"
    "same_nodes ((w_tevs w)(p \<mapsto> e\<lparr>stInterval := interval_of ms, stTimeout := ?due\<rparr>)) S'"
    using Register_form [OF assms(1-6) e set] by blast
  have keys: "key_of S' q = (if q = p then ?due else key_of (w_tevs w) q)" for q
    using same_nodes_key [OF q(4), of q] by (simp add: key_of_def)
  then have "due_times (put_heap w eb \<lparr>hs_hdr = Some H', hs_tevs = S'\<rparr>) qs = (due_times w ps)(p \<mapsto> ?due)"
    using timer_table_insert [OF q(3), of S' "w_tevs w"] by (simp add: due_times_def)
  then show thesis by (rule that [OF q(1) timers_ok_put_heap [OF q(2)]])
qed

lemma Register_refines:
  assumes "timers_ok w ps" "w_base w = Some eb" "pstTimeCache eb = Some now" "heap_can_grow eb"
    and "w_malloc w = []" and "ep \<noteq> NULL" and set: "can_set w ps p (minheap_timeradd now (interval_of ms))"
  shows "\<exists>w' qs. RegisterTimerOutEvent w ep p ms = Inr (RET_SUCC, w') \<and> timers_ok w' qs
     \<and> due_times w' qs = (due_times w ps)(p \<mapsto> minheap_timeradd now (interval_of ms))"
  by (rule Register_table [OF assms]) blast

text \<open>
  A timer can be removed when it is not in the heap, or when \<open>MinheapErase\<close> takes its correct
  branch.
\<close>

definition can_remove :: "world \<Rightarrow> tptr list \<Rightarrow> tptr \<Rightarrow> bool" where
  "can_remove w ps p \<longleftrightarrow> p \<noteq> NULL \<and> (case w_tevs w p of None \<Rightarrow> False | Some e \<Rightarrow>
     if iHeapIndex e = -1 then p \<notin> set ps
     else p \<in> set ps \<and> \<not> erase_goes_up (w_tevs w) ps (nat (iHeapIndex e)))"

lemma Erase_removable:
  assumes tm: "timers_ok w ps" "w_base w = Some eb" and rm: "can_remove w ps p"
  obtains r H' S' qs where "MinheapErase (heap_of w eb) p = Inr (r, \<lparr>hs_hdr = Some H', hs_tevs = S'\<rparr>)"
    "r = (if p \<in> set ps then RET_SUCC else RET_FAIL)" "heap_rep H' S' qs" "set qs = set ps - {p}" "same_nodes (w_tevs w) S'"
    "map_option iNodeCapacity (pstHeapHeader eb) = Some (iNodeCapacity H')"
proof -
  obtain H where H: "pstHeapHeader eb = Some H" "heap_rep H (w_tevs w) ps"
    using tm by (auto elim: timers_okE)
  obtain e where e: "w_tevs w p = Some e" and nz: "p \<noteq> NULL"
    using rm by (auto simp: can_remove_def split: option.splits)
  show thesis
  proof (cases "iHeapIndex e = -1")
    case True
    then have np: "p \<notin> set ps" using rm e by (simp add: can_remove_def)
    have "MinheapErase (heap_of w eb) p = Inr (RET_FAIL, heap_of w eb)"
      by (rule Erase_absent [of _ H p e]) (use H nz e True in auto)
    then show thesis
      using np H by (intro that [of RET_FAIL H "w_tevs w" ps]) (auto simp: heap_of_def)
  next
    case False
    then have pin: "p \<in> set ps" and br: "\<not> erase_goes_up (w_tevs w) ps (nat (iHeapIndex e))"
      using rm e by (simp_all add: can_remove_def)
    have i: "nat (iHeapIndex e) < length ps" "ps ! nat (iHeapIndex e) = p"
      using heap_rep_node [OF H(2) pin] e by auto
    obtain H' S' qs where q: "MinheapErase (heap_of w eb) p = Inr (RET_SUCC, \<lparr>hs_hdr = Some H', hs_tevs = S'\<rparr>)"
      "heap_rep H' S' qs" "mset qs = mset ps - {#p#}" "same_nodes (w_tevs w) S'" "iNodeCapacity H' = iNodeCapacity H"
      using Erase_down [of "heap_of w eb" H ps "nat (iHeapIndex e)"] H i br by auto
    then show thesis
      using pin H(1) set_mset_diff [OF q(3) heap_repD(4) [OF H(2)]] by (intro that [OF q(1)]) simp_all
  qed
qed

text \<open>What \<open>UnregisterTimerOutEvent\<close> makes of the result of the erase.\<close>

lemma Unregister_erases:
  assumes "w_base w = Some eb" "ep \<noteq> NULL" "p \<noteq> NULL" "MinheapErase (heap_of w eb) p = Inr (r, st)"
  shows "UnregisterTimerOutEvent w ep p = Inr (if r = RET_FAIL then RET_FAIL else RET_SUCC, put_heap w eb st)"
  using assms by (simp add: UnregisterTimerOutEvent_def)

lemma Unregister_refines:
  assumes tm: "timers_ok w ps" and ep: "ep \<noteq> NULL" and rm: "can_remove w ps p"
  shows "\<exists>w' r qs. UnregisterTimerOutEvent w ep p = Inr (r, w') \<and> (r = RET_SUCC \<longleftrightarrow> p \<in> set ps)
     \<and> timers_ok w' qs \<and> due_times w' qs = (due_times w ps)(p := None)"
proof -
  obtain eb where eb: "w_base w = Some eb" using tm by (auto elim: timers_okE)
  obtain r H' S' qs where q: "MinheapErase (heap_of w eb) p = Inr (r, \<lparr>hs_hdr = Some H', hs_tevs = S'\<rparr>)"
    "r = (if p \<in> set ps then RET_SUCC else RET_FAIL)" "heap_rep H' S' qs" "set qs = set ps - {p}" "same_nodes (w_tevs w) S'"
    by (rule Erase_removable [OF tm eb rm])
  have "p \<noteq> NULL" using rm by (simp add: can_remove_def)
  note un = Unregister_erases [OF eb ep this q(1)]
  have "due_times (put_heap w eb \<lparr>hs_hdr = Some H', hs_tevs = S'\<rparr>) qs = (due_times w ps)(p := None)"
    using timer_table_remove [OF q(4) same_nodes_key [OF q(5)]] by (simp add: due_times_def)
  then show ?thesis using un q(2) timers_ok_put_heap [OF q(3)] by (auto split: if_splits)
qed

end
