(* ===== verification/ReactorProperties.thy ===== *)
theory ReactorProperties
  imports InterestSet TimerTable HeapProperties
begin

text \<open>
  The properties of the event core: the program's masks and the kernel's interest list agree after
  every sequence of registrations; setting and removing timers are updates of the table of due
  times; the wait time is the time to the earliest timer; and what the code does at the edges
  (a descriptor equal to the array size, a refused registration, unwritten slots, milliseconds).
\<close>

section \<open>Registration\<close>

text \<open>C14: every sequence of registrations and removals on open descriptors inside the array
  succeeds and keeps the masks and the kernel's interest list in step; the masks are those of the
  reference updates.\<close>

theorem event_masks_follow_kernel:
  assumes "in_sync (slot_mask w) (watched_by_kernel w)"
    and "\<forall>x \<in> set xs. op_fd x \<in> usable_fds w \<and> op_bits x \<noteq> 0"
  shows "\<exists>w'. run_ops reactor_op xs w = Inr w' \<and> slot_mask w' = foldl op_spec (slot_mask w) xs
     \<and> in_sync (slot_mask w') (watched_by_kernel w')"
  using assms by (rule reactor_interest.run_ops_sync)

text \<open>
  A descriptor equal to the size of the slot array passes the range checks of
  \<open>EventAdd\<close> and \<open>EventDel\<close> and makes both access the array out of bounds.\<close>

theorem event_range_check_off_by_one:
  assumes "w_base w = Some eb" and "iFdEventArraySize eb = int (length (pstFdEventsArray eb))" and "ep \<noteq> NULL"
  shows "EventAdd w ep (iFdEventArraySize eb) m cb arg = undef OutOfBounds
     \<and> EventDel w ep (iFdEventArraySize eb) m = undef OutOfBounds
     \<and> FdFileEventInit w ep (iFdEventArraySize eb) = undef OutOfBounds"
  using assms by (simp add: EventAdd_def EventDel_def FdFileEventInit_def get_slot_def)

text \<open>
  When the kernel refuses a registration, \<open>EventAdd\<close> reports the failure but keeps
  the event in the mask; a second attempt then reports success although the kernel does not watch
  the descriptor.\<close>

theorem refused_event_is_remembered:
  assumes "w_base w = Some eb" "get_slot eb fd = Inr sl" "fd \<le> iFdEventArraySize eb" "iMask sl = EVENT_NONE"
    and "k_ctl (w_kern w) = False # rest" "watched_by_kernel w fd = None" "m \<noteq> 0" "ep \<noteq> NULL"
  shows "\<exists>w'. EventAdd w ep fd m cb arg = Inr (RET_FAIL, w') \<and> watched_by_kernel w' fd = None
     \<and> EventAdd w' ep fd m cb arg = Inr (RET_SUCC, w')"
proof -
  let ?sl = "slot_with sl m cb arg" and ?k = "(w_kern w)\<lparr>k_ctl := rest\<rparr>"
  let ?w = "put_kern (put_base w (put_slot eb fd ?sl)) ?k"
  have sl: "0 \<le> fd" "nat fd < length (pstFdEventsArray eb)" using assms(2) by (auto simp: get_slot_Inr_iff)
  have 1: "EventAdd w ep fd m cb arg = Inr (RET_FAIL, ?w)"
    using assms by (simp add: EventAdd_def EVENT_NONE_def Let_def epoll_ctl_def)
  have m: "iMask ?sl = m" using assms(4) by (simp add: slot_with_def EVENT_NONE_def)
  have "get_slot (put_slot eb fd ?sl) fd = Inr ?sl" using sl by (simp add: get_slot_def)
  then have "EventAdd ?w ep fd m cb arg = Inr (RET_SUCC, ?w)"
    using assms(3,7,8) m by (simp add: EventAdd_def)
  moreover have "watched_by_kernel ?w fd = None" using assms(6) by (simp add: watched_by_kernel_def)
  ultimately show ?thesis using 1 by blast
qed

section \<open>Creating the base\<close>

text \<open>
  The slot array of a new base is not cleared, and what \<open>EventBaseCreate\<close> does
  depends on the mask found in the slot of the listening descriptor: on 0 the socket is watched for
  connections with the accept handler; on a mask with the read bit the base is returned but the
  socket is not watched; on any other mask the creation fails.\<close>

theorem base_creation_depends_on_junk:
  assumes "0 \<le> fd" "fd < n" "0 \<le> epfd" "w_malloc w = []" "k_ctl (w_kern w) = []"
    and "sock_is_open (w_kern w) fd" "watched_by_kernel w fd = None"
  shows "\<exists>p w'. EventBaseCreate w fd n epfd junk = Inr (p, w')
     \<and> (let m = iMask (junk (nat fd)) in
        if m = 0 then p = 1 \<and> timers_ok w' [] \<and> watched_by_kernel w' fd = Some EPOLLIN
           \<and> (\<exists>eb sl. w_base w' = Some eb \<and> iListenFd eb = fd \<and> iEpType eb = EPOLL_LT_TYPE
                \<and> get_slot eb fd = Inr sl \<and> iMask sl = EVENT_READABLE \<and> pFunEventCallbackRead sl = AcceptProc)
        else if m AND EVENT_READABLE \<noteq> 0 then p = 1 \<and> watched_by_kernel w' fd = None
        else p = NULL)"
proof -
  let ?eb = "(fresh_base n epfd junk (w_pid w) (w_now w))\<lparr>iListenFd := fd, iEpType := EPOLL_LT_TYPE\<rparr>"
  let ?w = "put_base w ?eb" and ?m = "iMask (junk (nat fd))"
  let ?sl = "slot_with (junk (nat fd)) EVENT_READABLE AcceptProc NULL"
  have slot: "get_slot ?eb fd = Inr (junk (nat fd))" "fd \<le> iFdEventArraySize ?eb"
    using assms(1,2) by (simp_all add: get_slot_def fresh_base_def)
  have mal: "ask_malloc w = (True, w)" by (rule ask_malloc_granted [OF assms(4)])
  have new: "CreateNewEventBase w n epfd junk = (1, put_base w (fresh_base n epfd junk (w_pid w) (w_now w)))"
    using assms(1-3) mal by (simp add: CreateNewEventBase_def put_base_def)
  have step: "EventBaseCreate w fd n epfd junk = cbind (EventAdd ?w 1 fd EVENT_READABLE AcceptProc NULL)
      (\<lambda>(r, w3). if r = RET_FAIL then Inr (NULL, w3) else Inr (1, w3))"
    using assms(1,2) new by (simp add: EventBaseCreate_def Let_def put_base_def del: One_nat_def)
  have rd: "EVENT_READABLE \<noteq> 0" by (simp add: EVENT_READABLE_def)
  consider "?m = 0" | "?m AND EVENT_READABLE \<noteq> 0" | "?m \<noteq> 0" "?m AND EVENT_READABLE = 0" by blast
  then show ?thesis
  proof cases
    case 1
    let ?k = "(w_kern w)\<lparr>k_interest := (k_interest (w_kern w))(fd \<mapsto> EPOLLIN)\<rparr>"
    let ?w' = "put_kern (put_base w (put_slot ?eb fd ?sl)) ?k"
    have ctl: "epoll_ctl (w_kern w) EPOLL_CTL_ADD fd EPOLLIN = (0, ?k)"
      using epoll_ctl_granted [OF assms(5,6), of EPOLL_CTL_ADD EPOLLIN] assms(7) by (simp add: watched_by_kernel_def)
    have m: "iMask ?sl = EVENT_READABLE" using 1 by (simp add: slot_with_def)
    have "EventAdd ?w 1 fd EVENT_READABLE AcceptProc NULL = Inr (RET_SUCC, ?w')"
      using slot 1 ctl m by (simp add: EventAdd_def Let_def EVENT_NONE_def epoll_events_eq put_base_def)
    moreover have "timers_ok ?w' []"
      by (simp add: timers_ok_def heap_ok_def heap_rep_def heap_shape_def fresh_base_def MinheapCreate_def
          put_slot_def INT_MAX_def)
    moreover have "get_slot (put_slot ?eb fd ?sl) fd = Inr ?sl"
      using assms(1,2) by (simp add: get_slot_def put_slot_def fresh_base_def nth_list_update)
    ultimately show ?thesis
      using step 1 m rd by (simp add: Let_def watched_by_kernel_def slot_with_def)
  next
    case 2
    then have "?m \<noteq> 0" by auto
    then show ?thesis using step slot 2 assms(7) by (simp add: EventAdd_def watched_by_kernel_def)
  next
    case 3
    have "epoll_ctl (w_kern w) EPOLL_CTL_MOD fd ev = (-1, w_kern w)" for ev
      using assms(5,7) by (cases "w_kern w") (simp add: epoll_ctl_def watched_by_kernel_def)
    then show ?thesis using step slot 3 by (simp add: EventAdd_def Let_def EVENT_NONE_def)
  qed
qed

section \<open>Timers\<close>

text \<open>C24: \<open>RegisterTimerOutEvent\<close> refines the update of the table of due times: the node is
  due at the cached time plus the interval, and no other timer changes.\<close>

theorem register_timer_refines:
  assumes "timers_ok w ps" "w_base w = Some eb" "pstTimeCache eb = Some now" "heap_can_grow eb"
    and "w_malloc w = []" "ep \<noteq> NULL" "can_set w ps p (minheap_timeradd now (interval_of ms))"
  shows "\<exists>w' qs. RegisterTimerOutEvent w ep p ms = Inr (RET_SUCC, w') \<and> timers_ok w' qs
     \<and> due_times w' qs = (due_times w ps)(p \<mapsto> minheap_timeradd now (interval_of ms))"
  using assms by (rule Register_refines)

text \<open>C25: \<open>UnregisterTimerOutEvent\<close> refines the deletion from the table, unless
  \<open>MinheapErase\<close> takes its wrong branch; it succeeds exactly when the timer was set.\<close>

theorem unregister_timer_refines:
  assumes "timers_ok w ps" "ep \<noteq> NULL" "can_remove w ps p"
  shows "\<exists>w' r qs. UnregisterTimerOutEvent w ep p = Inr (r, w') \<and> (r = RET_SUCC \<longleftrightarrow> p \<in> set ps)
     \<and> timers_ok w' qs \<and> due_times w' qs = (due_times w ps)(p := None)"
  using assms by (rule Unregister_refines)

text \<open>
  The interval stored for a number of milliseconds has the right length only for whole
  seconds: the remaining milliseconds are stored as microseconds.\<close>

theorem interval_loses_milliseconds:
  assumes "0 \<le> ms"
  shows "to_usec (interval_of ms) = ms * 1000 \<longleftrightarrow> ms mod 1000 = 0"
proof -
  have "to_usec (interval_of ms) = (ms div 1000) * 1000000 + ms mod 1000"
    using assms by (cases "ms = 0")
      (simp_all add: interval_of_def to_usec_def signed_divide_int_def signed_modulo_int_def)
  moreover have "ms * 1000 = (ms div 1000) * 1000000 + (ms mod 1000) * 1000"
    using div_mult_mod_eq [of ms 1000] by linarith
  ultimately show ?thesis by linarith
qed

text \<open>
  \<open>GetEPollwaitTimeoutValue\<close> answers -1 exactly when no timer is set, and otherwise
  stores the time until the earliest timer is due, or zero when it is due already; it never waits
  past a timer.\<close>

theorem wait_time_is_earliest_due:
  assumes "timers_ok w ps" "w_base w = Some eb" "pstTimeCache eb = Some now" "tv_sec now \<noteq> 0" "ep \<noteq> NULL"
    and "\<forall>p \<in> set ps. tv_normal (key_of (w_tevs w) p)" "tv_normal now"
  shows "\<exists>r saved. GetEPollwaitTimeoutValue w ep False = Inr (r, saved, w)
     \<and> (if ps = [] then r = -1
        else r = 0 \<and> (\<exists>t. saved = Some t \<and> 0 \<le> to_usec t
          \<and> (\<forall>p \<in> set ps. to_usec t \<le> max 0 (to_usec (key_of (w_tevs w) p) - to_usec now))
          \<and> (\<exists>p \<in> set ps. to_usec t = max 0 (to_usec (key_of (w_tevs w) p) - to_usec now))))"
proof -
  obtain H where H: "pstHeapHeader eb = Some H" "heap_rep H (w_tevs w) ps"
    using assms(1,2) by (auto elim: timers_okE)
  note top = GetTop_rep [OF H(2)]
  show ?thesis
  proof (cases "ps = []")
    case True
    then show ?thesis using assms(2,3,5) H(1) top by (simp add: GetEPollwaitTimeoutValue_def)
  next
    case False
    let ?p = "ps ! 0" and ?key = "key_of (w_tevs w)"
    have mem: "?p \<in> set ps" using False by simp
    obtain e where e: "w_tevs w ?p = Some e" and nz: "?p \<noteq> NULL"
      using heap_rep_node [OF H(2) mem] by blast
    have key: "stTimeout e = ?key ?p" using e by (simp add: key_of_def)
    have same: "put_base w (eb\<lparr>pstTimeCache := Some now\<rparr>) = w"
      using assms(2,3) by (simp add: put_base_def)
    let ?t = "if now \<le> ?key ?p then minheap_timersub (?key ?p) now else Timeval 0 0"
    have "GetEPollwaitTimeoutValue w ep False = Inr (0, Some ?t, w)"
      using assms(2-5) H(1) top False nz e key same
      by (simp add: GetEPollwaitTimeoutValue_def tev_get_def Let_def)
    moreover have t: "to_usec ?t = max 0 (to_usec (?key ?p) - to_usec now)"
      using timeval_le_iff_usec [of now "?key ?p"] assms(6,7) mem
      by (auto simp: timersub_to_usec) (simp_all add: to_usec_def)
    moreover have "to_usec (?key ?p) \<le> to_usec (?key q)" if "q \<in> set ps" for q
      using top_le [OF H(2) that] timeval_le_iff_usec [of "?key ?p" "?key q"] assms(6) mem that by blast
    then have "\<forall>q \<in> set ps. to_usec ?t \<le> max 0 (to_usec (?key q) - to_usec now)"
      unfolding t by force
    ultimately show ?thesis using False mem by (intro exI [of _ 0] exI [of _ "Some ?t"]) auto
  qed
qed

section \<open>Instances\<close>

text \<open>A process with eight slots, the open descriptors 3 to 6, fifteen timer nodes and an empty
  heap, at time \<open>now\<close>.\<close>

definition open_socks :: "int \<Rightarrow> sock option" where
  "open_socks fd = (if 3 \<le> fd \<and> fd \<le> 8 then Some \<lparr>s_flags = 0, s_reuseaddr = False, s_keepalive = False,
     s_sndbuf = None, s_port = None, s_listening = False, s_in = [], s_out = [], s_sent = [], s_conns = []\<rparr>
     else None)"

definition quiet_base :: "timeval \<Rightarrow> EventBase" where
  "quiet_base now = \<lparr>iSize = 8, iFdEventArraySize = 8, iStopSign = 0, iEpType = EPOLL_LT_TYPE, iEpfd = 2,
     iListenFd = 3, iClientCount = 0, pstTimeCache = Some now,
     pstHeapHeader = Some \<lparr>ppstTimeoutEventHeader = [], iNodeCapacity = 0, iNodeUsed = 0, iCurPid = 1\<rparr>,
     pstFdEventsArray = replicate 8 empty_slot\<rparr>"

definition quiet_world :: "bool list \<Rightarrow> world" where
  "quiet_world ctl = \<lparr>w_base = Some (quiet_base (Timeval 100 0)), w_conns = Map.empty, w_tevs = timers15,
     w_mem = Map.empty, w_next = 20, w_malloc = [], w_junk = (\<lambda>_. 0), w_pid = 1, w_now = Timeval 100 0,
     w_kern = \<lparr>k_socks = open_socks, k_interest = Map.empty, k_ctl = ctl\<rparr>\<rparr>"

lemma quiet_world_simps [simp]:
  "w_base (quiet_world ctl) = Some (quiet_base (Timeval 100 0))"
  "pstTimeCache (quiet_base now) = Some now" "w_malloc (quiet_world ctl) = []"
  "k_ctl (w_kern (quiet_world ctl)) = ctl" "watched_by_kernel (quiet_world ctl) fd = None"
  "w_tevs (quiet_world ctl) = timers15" "heap_can_grow (quiet_base now)"
  by (simp_all add: quiet_world_def quiet_base_def watched_by_kernel_def heap_can_grow_def INT_MAX_def)

lemma quiet_world_ok: "timers_ok (quiet_world ctl) []"
  by (simp add: timers_ok_def heap_ok_def heap_rep_def heap_shape_def quiet_base_def INT_MAX_def)

lemma quiet_world_sync: "in_sync (slot_mask (quiet_world ctl)) (watched_by_kernel (quiet_world ctl))"
  by (auto simp: in_sync_def slot_mask_def quiet_base_def empty_slot_def nth_replicate nat_less_iff)

lemma quiet_world_usable: "3 \<le> fd \<Longrightarrow> fd \<le> 7 \<Longrightarrow> fd \<in> usable_fds (quiet_world [])"
  by (simp add: usable_fds_def quiet_base_def sock_is_open_def) (simp add: quiet_world_def open_socks_def)

definition ops4 :: "interest_op list" where
  "ops4 = [AddOp 4 EVENT_READABLE RecvProc 1, AddOp 4 EVENT_WRITABLE SendProc 1, DelOp 4 EVENT_WRITABLE,
           AddOp 5 EVENT_READABLE RecvProc 2]"

theorem event_masks_follow_kernel_witness:
  "\<exists>w'. run_ops reactor_op ops4 (quiet_world []) = Inr w'
     \<and> slot_mask w' = foldl op_spec (slot_mask (quiet_world [])) ops4
     \<and> in_sync (slot_mask w') (watched_by_kernel w')"
  by (rule event_masks_follow_kernel [OF quiet_world_sync])
     (simp add: ops4_def quiet_world_usable EVENT_READABLE_def EVENT_WRITABLE_def)

theorem event_range_check_off_by_one_witness:
  "EventAdd (quiet_world []) 1 (iFdEventArraySize (quiet_base (Timeval 100 0))) EVENT_READABLE RecvProc 1 = undef OutOfBounds
     \<and> EventDel (quiet_world []) 1 (iFdEventArraySize (quiet_base (Timeval 100 0))) EVENT_READABLE = undef OutOfBounds
     \<and> FdFileEventInit (quiet_world []) 1 (iFdEventArraySize (quiet_base (Timeval 100 0))) = undef OutOfBounds"
  by (rule event_range_check_off_by_one) (simp_all add: quiet_base_def)

theorem refused_event_is_remembered_witness:
  "\<exists>w'. EventAdd (quiet_world [False]) 1 4 EVENT_READABLE RecvProc 1 = Inr (RET_FAIL, w')
     \<and> watched_by_kernel w' 4 = None \<and> EventAdd w' 1 4 EVENT_READABLE RecvProc 1 = Inr (RET_SUCC, w')"
  by (rule refused_event_is_remembered [of _ "quiet_base (Timeval 100 0)" _ empty_slot])
     (simp_all add: get_slot_def quiet_base_def empty_slot_def EVENT_NONE_def EVENT_READABLE_def)

definition dirty_slots :: "nat \<Rightarrow> FdEvent" where
  "dirty_slots i = (if i = 3 then empty_slot\<lparr>iMask := 6, pFunEventCallbackRead := CbWild\<rparr> else empty_slot)"

theorem base_creation_depends_on_junk_witness:
  "\<exists>p w'. EventBaseCreate (quiet_world []) 3 8 2 dirty_slots = Inr (p, w')
     \<and> (let m = iMask (dirty_slots (nat 3)) in
        if m = 0 then p = 1 \<and> timers_ok w' [] \<and> watched_by_kernel w' 3 = Some EPOLLIN
           \<and> (\<exists>eb sl. w_base w' = Some eb \<and> iListenFd eb = 3 \<and> iEpType eb = EPOLL_LT_TYPE
                \<and> get_slot eb 3 = Inr sl \<and> iMask sl = EVENT_READABLE \<and> pFunEventCallbackRead sl = AcceptProc)
        else if m AND EVENT_READABLE \<noteq> 0 then p = 1 \<and> watched_by_kernel w' 3 = None
        else p = NULL)"
  by (rule base_creation_depends_on_junk) (simp_all add: sock_is_open_def quiet_world_def open_socks_def
      watched_by_kernel_def)

lemma quiet_can_set: "can_set (quiet_world []) [] 7 due"
  by (simp add: can_set_def timers15_def timer_def)

theorem register_timer_refines_witness:
  "\<exists>w' qs. RegisterTimerOutEvent (quiet_world []) 1 7 MAX_CONN_TIMEOUT = Inr (RET_SUCC, w') \<and> timers_ok w' qs
     \<and> due_times w' qs = (due_times (quiet_world []) [])
          (7 \<mapsto> minheap_timeradd (Timeval 100 0) (interval_of MAX_CONN_TIMEOUT))"
  by (rule register_timer_refines [OF quiet_world_ok quiet_world_simps(1,2,7) _ _ quiet_can_set]) simp_all

text \<open>The process with one timer, set at second 100.\<close>

lemma one_timer:
  "\<exists>w eb e. RegisterTimerOutEvent (quiet_world []) 1 7 MAX_CONN_TIMEOUT = Inr (RET_SUCC, w)
     \<and> timers_ok w [7] \<and> w_base w = Some eb \<and> pstTimeCache eb = Some (Timeval 100 0)
     \<and> w_tevs w 7 = Some e \<and> iHeapIndex e = 0 \<and> stTimeout e = Timeval 160 0"
proof -
  have "case RegisterTimerOutEvent (quiet_world []) 1 7 MAX_CONN_TIMEOUT of Inl _ \<Rightarrow> False
    | Inr (r, w) \<Rightarrow> r = RET_SUCC \<and> timers_ok w [7]
       \<and> map_option pstTimeCache (w_base w) = Some (Some (Timeval 100 0))
       \<and> map_option (\<lambda>e. (iHeapIndex e, stTimeout e)) (w_tevs w 7) = Some (0, Timeval 160 0)"
    by code_simp
  then show ?thesis by (auto split: sum.splits)
qed

theorem unregister_timer_refines_witness:
  "\<exists>w. RegisterTimerOutEvent (quiet_world []) 1 7 MAX_CONN_TIMEOUT = Inr (RET_SUCC, w) \<and>
     (\<exists>w' r qs. UnregisterTimerOutEvent w 1 7 = Inr (r, w') \<and> (r = RET_SUCC \<longleftrightarrow> 7 \<in> set [7 :: nat])
     \<and> timers_ok w' qs \<and> due_times w' qs = (due_times w [7])(7 := None))"
proof -
  obtain w e where w: "RegisterTimerOutEvent (quiet_world []) 1 7 MAX_CONN_TIMEOUT = Inr (RET_SUCC, w)"
    "timers_ok w [7]" "w_tevs w 7 = Some e" "iHeapIndex e = 0"
    using one_timer by blast
  have "can_remove w [7] 7" using w(3,4) by (simp add: can_remove_def erase_goes_up_def)
  then show ?thesis
    using w(1) by (intro exI [of _ w] conjI unregister_timer_refines [OF w(2)]) simp_all
qed

theorem interval_loses_milliseconds_witness:
  "to_usec (interval_of 1500) = 1500 * 1000 \<longleftrightarrow> (1500 :: int) mod 1000 = 0"
  by (rule interval_loses_milliseconds) simp

theorem wait_time_is_earliest_due_witness:
  "\<exists>w. RegisterTimerOutEvent (quiet_world []) 1 7 MAX_CONN_TIMEOUT = Inr (RET_SUCC, w) \<and>
     (\<exists>r saved. GetEPollwaitTimeoutValue w 1 False = Inr (r, saved, w)
     \<and> (if [7 :: nat] = [] then r = -1
        else r = 0 \<and> (\<exists>t. saved = Some t \<and> 0 \<le> to_usec t
          \<and> (\<forall>p \<in> set [7]. to_usec t \<le> max 0 (to_usec (key_of (w_tevs w) p) - to_usec (Timeval 100 0)))
          \<and> (\<exists>p \<in> set [7]. to_usec t = max 0 (to_usec (key_of (w_tevs w) p) - to_usec (Timeval 100 0))))))"
proof -
  obtain w eb e where w: "RegisterTimerOutEvent (quiet_world []) 1 7 MAX_CONN_TIMEOUT = Inr (RET_SUCC, w)"
    "timers_ok w [7]" "w_base w = Some eb" "pstTimeCache eb = Some (Timeval 100 0)"
    "w_tevs w 7 = Some e" "stTimeout e = Timeval 160 0"
    using one_timer by blast
  have "\<forall>p \<in> set [7]. tv_normal (key_of (w_tevs w) p)" using w(5,6) by (simp add: key_of_def tv_normal_def)
  then show ?thesis
    using w(1) by (intro exI [of _ w] conjI wait_time_is_earliest_due [OF w(2-4)]) (simp_all add: tv_normal_def)
qed

end
