(* ===== verification/Conn.thy ===== *)
theory Conn
  imports Reactor BinProto SocketApi
begin

text \<open>
  The connections of \<open>src/socket_util.c\<close>: creating and destroying a connection with its
  buffers, timer and event slot, the timeout callback, and the two buffer resize functions and the
  append to the send buffer.  The handlers that call these are in theory \<open>Handlers\<close>.
\<close>

section \<open>Life of a connection\<close>

definition IP_LEN :: int where "IP_LEN = 16"

text \<open>A new timer node: the fields the initialisation does not set hold what the memory held.\<close>

definition fresh_tev :: "(nat \<Rightarrow> byte) \<Rightarrow> TimeoutEvent" where
  "fresh_tev junk = \<lparr>te_iPid = sint (junk 0), te_iFd = sint (junk 1), iHeapIndex = sint (junk 2),
     stTimeout = Timeval (sint (junk 3)) (sint (junk 4)), stInterval = Timeval (sint (junk 5)) (sint (junk 6)),
     pFunTimeoutProcCallback = None, pstCallbackArg = NULL\<rparr>"

definition fresh_conn :: "nat \<Rightarrow> tptr \<Rightarrow> int \<Rightarrow> charp \<Rightarrow> charp \<Rightarrow> buf \<Rightarrow> int \<Rightarrow> ConnFd" where
  "fresh_conn ep tp fd rb sb ip port = \<lparr>pstEventBase = ep, pstTimeoutEvent = tp, iFd = fd, iPacketLen = 0,
     pszRecvBuf = rb, pszSendBuf = sb, iRecvTotalLen = MAX_TCP_BUF_SIZE, iRecvCurLen = 0,
     iSendTotalLen = MAX_TCP_BUF_SIZE, iSendCurLen = 0, iSendPacketLen = 0, szIpaddr = ip, iPort = port\<rparr>"

text \<open>\<open>t_pClientIp\<close> is the caller's array of \<open>IP_LEN\<close> bytes; \<open>None\<close> is \<open>NULL\<close>.\<close>

definition CreateNewConn ::
  "world \<Rightarrow> nat \<Rightarrow> int \<Rightarrow> buf option \<Rightarrow> int \<Rightarrow> (nat \<times> world) outcome" where
  "CreateNewConn w ep t_iClientfd t_pClientIp t_iClientPort = (case t_pClientIp of None \<Rightarrow> Inr (NULL, w)
     | Some ip \<Rightarrow>
       if ep = NULL then Inr (NULL, w)
       else let (p, w1) = alloc_addr w in
       if p = NULL then Inl (Exits (-1))
       else cbind (mem_slice ip 0 IP_LEN) (\<lambda>szIp.
       let (rb, w2) = malloc_bytes w1 MAX_TCP_BUF_SIZE in
       if rb = CNull then Inl (Exits (-1))
       else let (sb, w3) = malloc_bytes w2 MAX_TCP_BUF_SIZE in
       if sb = CNull then Inl (Exits (-1))
       else let (tp, w4) = alloc_addr w3 in
       if tp = NULL then Inl (Exits (-1))
       else let c = fresh_conn ep tp t_iClientfd rb sb szIp t_iClientPort;
                w5 = put_conn w4 p c in
         cbind (MinheapTimeoutEventInit ((w_tevs w5)(tp \<mapsto> fresh_tev (w_junk w))) tp None NULL (w_pid w) (iFd c))
           (\<lambda>(_, S). cbind (FdFileEventInit (w5\<lparr>w_tevs := S\<rparr>) ep (iFd c)) (\<lambda>(_, w6). Inr (p, w6)))))"

definition DestroyConn :: "world \<Rightarrow> nat \<Rightarrow> world outcome" where
  "DestroyConn w p = (if p = NULL then Inr w
     else cbind (get_conn w p) (\<lambda>c.
       let ep = pstEventBase c in
       if ep = NULL then Inr w
       else cbind (get_base w ep) (\<lambda>eb.
         let w1 = put_base w (eb\<lparr>iClientCount := iClientCount eb - 1\<rparr>) in
         cbind (EventDel w1 ep (iFd c) (EVENT_WRITABLE OR EVENT_READABLE)) (\<lambda>(r, w2).
           if r = RET_FAIL then Inl (Exits (-1))
           else let w3 = put_kern w2 (sys_close (w_kern w2) (iFd c)) in
             cbind (UnregisterTimerOutEvent w3 ep (pstTimeoutEvent c)) (\<lambda>(_, w4).
             cbind (FdFileEventInit w4 ep (iFd c)) (\<lambda>(_, w5).
             cbind (free_bytes w5 (pszRecvBuf c)) (\<lambda>w6.
             cbind (free_bytes w6 (pszSendBuf c)) (\<lambda>w7.
             cbind (free_tev w7 (pstTimeoutEvent c)) (\<lambda>w8.
               free_conn w8 p)))))))))"

text \<open>Both timeout callbacks read the connection for their log line and destroy it.\<close>

definition ConnectionTimeoutCallback_run :: "world \<Rightarrow> int \<Rightarrow> nat \<Rightarrow> world outcome" where
  "ConnectionTimeoutCallback_run w t_iPid p = (if p = NULL then Inr w
     else cbind (get_conn w p) (\<lambda>c. DestroyConn w p))"

definition ProcessConnTimeoutCallback :: "world \<Rightarrow> nat \<Rightarrow> world outcome" where
  "ProcessConnTimeoutCallback w p = (if p = NULL then Inr w else DestroyConn w p)"

section \<open>Buffers\<close>

text \<open>
  The doubling loop of the two resize functions.  A total of 0 is doubled to 0 for ever; otherwise
  the loop ends, at the latest when the multiplication leaves the range of \<open>int\<close>.
\<close>

function grow_total :: "int \<Rightarrow> int \<Rightarrow> int \<Rightarrow> int outcome" where
  "grow_total tot cur need =
     (if tot - cur < need then
        if tot = 0 then Inl Diverges
        else cbind (c_int (tot * 2)) (\<lambda>t. grow_total t cur need)
      else Inr tot)"
  by pat_completeness auto
termination
  by (relation "measure (\<lambda>(tot, cur, need). nat (INT_MAX + 1 - \<bar>tot\<bar>))")
     (auto simp: c_int_def INT_MAX_def split: if_splits)

declare grow_total.simps [simp del]

definition ResizeRecvBufferPtr :: "world \<Rightarrow> nat \<Rightarrow> int \<Rightarrow> (charp \<times> world) outcome" where
  "ResizeRecvBufferPtr w p t_iNeedRecvLen = (if p = NULL \<or> t_iNeedRecvLen \<le> 0 then Inr (CNull, w)
     else cbind (get_conn w p) (\<lambda>c.
       if iRecvTotalLen c - iRecvCurLen c \<ge> t_iNeedRecvLen
       then Inr (ptr_add (pszRecvBuf c) (iRecvCurLen c), w)
       else cbind (grow_total (iRecvTotalLen c) (iRecvCurLen c) t_iNeedRecvLen) (\<lambda>tot.
         let c1 = c\<lparr>iRecvTotalLen := tot\<rparr>;
             w1 = put_conn w p c1;
             (nb, w2) = malloc_bytes w1 tot in
         if nb = CNull then Inr (CNull, w2)
         else cbind (c_memmove (w_mem w2) nb (pszRecvBuf c1) (iRecvCurLen c1)) (\<lambda>m.
              cbind (free_bytes (put_mem w2 m) (pszRecvBuf c1)) (\<lambda>w3.
                Inr (ptr_add nb (iRecvCurLen c1), put_conn w3 p (c1\<lparr>pszRecvBuf := nb\<rparr>)))))))"

text \<open>The new send buffer has the size of the length field (an \<open>int\<close>), not the length.\<close>

definition sizeof_int :: int where "sizeof_int = 4"

definition ResizeSendBufferPtr :: "world \<Rightarrow> nat \<Rightarrow> int \<Rightarrow> (charp \<times> world) outcome" where
  "ResizeSendBufferPtr w p t_iNeedSendLen = (if p = NULL then Inr (CNull, w)
     else cbind (get_conn w p) (\<lambda>c.
       if iSendTotalLen c - iSendPacketLen c \<ge> t_iNeedSendLen
       then Inr (ptr_add (pszSendBuf c) (iSendPacketLen c), w)
       else if iSendTotalLen c - iSendPacketLen c + iSendCurLen c > t_iNeedSendLen
       then cbind (c_memmove (w_mem w) (pszSendBuf c) (ptr_add (pszSendBuf c) (iSendCurLen c))
                    (iSendPacketLen c - iSendCurLen c)) (\<lambda>m.
            let c1 = c\<lparr>iSendPacketLen := iSendPacketLen c - iSendCurLen c, iSendCurLen := 0\<rparr> in
            Inr (ptr_add (pszSendBuf c1) (iSendPacketLen c1), put_conn (put_mem w m) p c1))
       else cbind (grow_total (iSendTotalLen c) (iSendPacketLen c) t_iNeedSendLen) (\<lambda>tot.
            let (nb, w1) = malloc_bytes w sizeof_int in
            cbind (c_memmove (w_mem w1) nb (ptr_add (pszSendBuf c) (iSendCurLen c))
                    (iSendPacketLen c - iSendCurLen c)) (\<lambda>m.
            cbind (free_bytes (put_mem w1 m) (pszSendBuf c)) (\<lambda>w2.
            let c1 = c\<lparr>iSendTotalLen := tot, pszSendBuf := nb,
                       iSendPacketLen := iSendPacketLen c - iSendCurLen c, iSendCurLen := 0\<rparr> in
            Inr (ptr_add (pszSendBuf c1) (iSendPacketLen c1), put_conn w2 p c1))))))"

definition AppendPktToBuff :: "world \<Rightarrow> nat \<Rightarrow> charp \<Rightarrow> int \<Rightarrow> (int \<times> world) outcome" where
  "AppendPktToBuff w p t_pszBuff t_iLen = (if p = NULL then Inr (RET_FAIL, w)
     else cbind (get_conn w p) (\<lambda>c.
       cbind (c_memcpy (w_mem w) (ptr_add (pszSendBuf c) (iSendPacketLen c))
               (if t_pszBuff \<noteq> CNull then t_pszBuff else pszSendBuf c) t_iLen) (\<lambda>m.
       cbind (c_int (iSendPacketLen c + t_iLen)) (\<lambda>len.
       cbind (EventAdd (put_conn (put_mem w m) p (c\<lparr>iSendPacketLen := len\<rparr>)) (pstEventBase c) (iFd c)
               EVENT_WRITABLE SendProc p) (\<lambda>(r, w1).
         if r = RET_FAIL then Inl (Exits (-1)) else Inr (RET_SUCC, w1))))))"

end
