(* ===== verification/ConnLife.thy ===== *)
theory ConnLife
  imports Conn InterestSet TimerTable
begin

text \<open>
  What creating and destroying a connection does to the whole process, for a connection whose event
  slot and timer are in order.  These lemmas compose the registration results of \<open>InterestSet\<close>
  with the timer results of \<open>TimerTable\<close>.
\<close>

section \<open>Results of the registration calls, in full\<close>

text \<open>The world in which one slot and the kernel have been replaced.\<close>

abbreviation reslot :: "world \<Rightarrow> EventBase \<Rightarrow> int \<Rightarrow> FdEvent \<Rightarrow> kernel \<Rightarrow> world" where
  "reslot w eb fd sl k \<equiv> put_kern (put_base w (put_slot eb fd sl)) k"

text \<open>Only the interest of one descriptor differs between two kernels.\<close>

definition interest_upd :: "kernel \<Rightarrow> kernel \<Rightarrow> int \<Rightarrow> u32 \<Rightarrow> bool" where
  "interest_upd k k' fd m \<longleftrightarrow> k_socks k' = k_socks k \<and> k_ctl k' = k_ctl k
     \<and> k_interest k' = (k_interest k)(fd := if m = 0 then None else Some (epoll_events m))"

lemma reslot_same:
  assumes "w_base w = Some eb" "get_slot eb fd = Inr sl"
  shows "reslot w eb fd sl (w_kern w) = w"
proof -
  have "put_slot eb fd sl = eb"
    using assms(2) by (cases eb) (auto simp: put_slot_def get_slot_Inr_iff)
  then show ?thesis using assms(1) by (cases w) (simp add: put_base_def put_kern_def)
qed

lemma in_sync_at:
  "in_sync (slot_mask w) (watched_by_kernel w) \<Longrightarrow>
     k_interest (w_kern w) fd = (if slot_mask w fd = 0 then None else Some (epoll_events (slot_mask w fd)))"
  by (simp add: in_sync_def watched_by_kernel_def)

lemma usable_at:
  assumes "fd \<in> usable_fds w" "w_base w = Some eb" "get_slot eb fd = Inr sl"
  shows "fd \<le> iFdEventArraySize eb" "sock_is_open (w_kern w) fd" "k_ctl (w_kern w) = []" "slot_mask w fd = iMask sl"
  using assms by (simp_all add: usable_fds_def slot_mask_def get_slot_Inr_iff)

lemma can_remove_cong: "w_tevs w' = w_tevs w \<Longrightarrow> can_remove w' ps p = can_remove w ps p"
  by (simp only: can_remove_def)

lemma timers_ok_cong:
  "w_tevs w' = w_tevs w \<Longrightarrow> map_option pstHeapHeader (w_base w') = map_option pstHeapHeader (w_base w) \<Longrightarrow>
     timers_ok w' ps = timers_ok w ps"
  by (cases "w_base w"; cases "w_base w'") (simp_all add: timers_ok_def heap_of_def)

lemma EventAdd_form:
  assumes sync: "in_sync (slot_mask w) (watched_by_kernel w)" and us: "fd \<in> usable_fds w" and ep: "ep \<noteq> NULL"
    and m: "m \<noteq> 0" and eb: "w_base w = Some eb" and sl: "get_slot eb fd = Inr sl"
  shows "\<exists>k. EventAdd w ep fd m cb arg = Inr (RET_SUCC, reslot w eb fd
         (if iMask sl AND m = 0 then slot_with sl m cb arg else sl) k)
     \<and> interest_upd (w_kern w) k fd (add_bits (iMask sl) m)"
proof -
  note u = usable_at [OF us eb sl]
  show ?thesis
  proof (cases "iMask sl AND m = 0")
    case False
    then have "EventAdd w ep fd m cb arg = Inr (RET_SUCC, w)" using eb sl u ep by (simp add: EventAdd_def)
    moreover have "interest_upd (w_kern w) (w_kern w) fd (add_bits (iMask sl) m)"
      using in_sync_at [OF sync, of fd] u(4) False by (auto simp: interest_upd_def add_bits_def)
    ultimately show ?thesis using False reslot_same [OF eb sl] by (intro exI [of _ "w_kern w"]) simp
  next
    case True
    let ?op = "if iMask sl = EVENT_NONE then EPOLL_CTL_ADD else EPOLL_CTL_MOD" and ?m = "iMask sl OR m"
    let ?k = "(w_kern w)\<lparr>k_interest := (k_interest (w_kern w))(fd \<mapsto> epoll_events ?m)\<rparr>"
    have "k_interest (w_kern w) fd = None \<longleftrightarrow> ?op = EPOLL_CTL_ADD"
      using in_sync_at [OF sync, of fd] u(4) by (auto simp: EVENT_NONE_def)
    note ctl = epoll_ctl_granted [OF u(3,2) this, of "epoll_events ?m"]
    have "EventAdd w ep fd m cb arg = Inr (RET_SUCC, reslot w eb fd (slot_with sl m cb arg) ?k)"
      using eb sl u ep True ctl by (simp add: EventAdd_def slot_with_def Let_def)
    moreover have "?m \<noteq> 0" using m by (simp add: or_eq_0_iff)
    then have "interest_upd (w_kern w) ?k fd (add_bits (iMask sl) m)"
      using True by (simp add: interest_upd_def add_bits_def)
    ultimately show ?thesis using True by (intro exI [of _ ?k]) simp
  qed
qed

lemma EventDel_form:
  assumes sync: "in_sync (slot_mask w) (watched_by_kernel w)" and us: "fd \<in> usable_fds w" and ep: "ep \<noteq> NULL"
    and eb: "w_base w = Some eb" and sl: "get_slot eb fd = Inr sl"
  shows "\<exists>k. EventDel w ep fd m = Inr (RET_SUCC, reslot w eb fd (sl\<lparr>iMask := iMask sl AND NOT m\<rparr>) k)
     \<and> interest_upd (w_kern w) k fd (iMask sl AND NOT m)"
proof -
  note u = usable_at [OF us eb sl]
  show ?thesis
  proof (cases "iMask sl AND m = 0")
    case True
    then have "EventDel w ep fd m = Inr (RET_SUCC, w)" using eb sl u ep by (simp add: EventDel_def)
    moreover have same: "iMask sl AND NOT m = iMask sl" using True by (rule and_not_disjoint)
    then have "interest_upd (w_kern w) (w_kern w) fd (iMask sl AND NOT m)"
      using in_sync_at [OF sync, of fd] u(4) by (auto simp: interest_upd_def)
    ultimately show ?thesis using reslot_same [OF eb sl] same by (intro exI [of _ "w_kern w"]) simp
  next
    case False
    let ?m = "iMask sl AND NOT m"
    let ?op = "if ?m = EVENT_NONE then EPOLL_CTL_DEL else EPOLL_CTL_MOD"
    let ?k = "(w_kern w)\<lparr>k_interest := (k_interest (w_kern w))(fd := if ?m = 0 then None else Some (epoll_events ?m))\<rparr>"
    have ne: "iMask sl \<noteq> 0" using False by auto
    then have "k_interest (w_kern w) fd = None \<longleftrightarrow> ?op = EPOLL_CTL_ADD"
      using in_sync_at [OF sync, of fd] u(4) by auto
    note ctl = epoll_ctl_granted [OF u(3,2) this, of "epoll_events ?m"]
    have "EventDel w ep fd m = Inr (RET_SUCC, reslot w eb fd (sl\<lparr>iMask := ?m\<rparr>) ?k)"
      using eb sl u ep False ne ctl by (simp add: EventDel_def Let_def EVENT_NONE_def)
    moreover have "interest_upd (w_kern w) ?k fd ?m" by (simp add: interest_upd_def)
    ultimately show ?thesis by (intro exI [of _ ?k]) simp
  qed
qed

section \<open>A connection in order\<close>

text \<open>The two buffers of a connection are whole, different blocks of the recorded sizes.\<close>

definition bufs_ok :: "bmem \<Rightarrow> ConnFd \<Rightarrow> bool" where
  "bufs_ok m c \<longleftrightarrow> (case (pszRecvBuf c, pszSendBuf c) of
     (Ptr rb ro, Ptr sb so) \<Rightarrow> ro = 0 \<and> so = 0 \<and> rb \<noteq> sb
        \<and> map_option length (m rb) = Some (nat (iRecvTotalLen c)) \<and> 0 \<le> iRecvTotalLen c
        \<and> map_option length (m sb) = Some (nat (iSendTotalLen c)) \<and> 0 \<le> iSendTotalLen c
   | _ \<Rightarrow> False)"

lemma bufs_okE:
  assumes "bufs_ok m c"
  obtains rb sb rbs sbs where "pszRecvBuf c = Ptr rb 0" "pszSendBuf c = Ptr sb 0" "rb \<noteq> sb"
    "m rb = Some rbs" "m sb = Some sbs" "int (length rbs) = iRecvTotalLen c" "int (length sbs) = iSendTotalLen c"
  using assms by (auto simp: bufs_ok_def split: charp.splits prod.splits)

definition conn_at :: "world \<Rightarrow> nat \<Rightarrow> ConnFd \<Rightarrow> bool" where
  "conn_at w p c \<longleftrightarrow> p \<noteq> NULL \<and> w_conns w p = Some c \<and> pstEventBase c \<noteq> NULL \<and> bufs_ok (w_mem w) c
     \<and> iFd c \<in> usable_fds w \<and> in_sync (slot_mask w) (watched_by_kernel w)"

text \<open>The blocks of a connection.\<close>

fun block_of :: "charp \<Rightarrow> nat" where
  "block_of CNull = 0"
| "block_of (Ptr b off) = b"

definition freed_mem :: "bmem \<Rightarrow> ConnFd \<Rightarrow> bmem" where
  "freed_mem m c = m(block_of (pszRecvBuf c) := None, block_of (pszSendBuf c) := None)"

definition conn_blocks :: "ConnFd \<Rightarrow> nat set" where
  "conn_blocks c = {block_of (pszRecvBuf c), block_of (pszSendBuf c)}"

section \<open>What an operation on one connection leaves alone\<close>

definition slot_at :: "world \<Rightarrow> int \<Rightarrow> FdEvent option" where
  "slot_at w fd = (case w_base w of None \<Rightarrow> None | Some eb \<Rightarrow>
     (case get_slot eb fd of Inl _ \<Rightarrow> None | Inr sl \<Rightarrow> Some sl))"

text \<open>A timer node up to its place in the heap, and the capacity of the heap.\<close>

definition node_view :: "tev_store \<Rightarrow> tptr \<Rightarrow> TimeoutEvent option" where
  "node_view S t = map_option (iHeapIndex_update (\<lambda>_. 0)) (S t)"

definition heap_cap :: "world \<Rightarrow> nat" where
  "heap_cap w = (case w_base w of None \<Rightarrow> 0 | Some eb \<Rightarrow>
     (case pstHeapHeader eb of None \<Rightarrow> 0 | Some H \<Rightarrow> iNodeCapacity H))"

text \<open>The fields of the event base that are set once.\<close>

definition base_view :: "EventBase \<Rightarrow> int \<times> nat \<times> int \<times> int \<times> int \<times> timeval option" where
  "base_view eb = (iFdEventArraySize eb, length (pstFdEventsArray eb), iEpType eb, iListenFd eb, iStopSign eb, pstTimeCache eb)"

text \<open>
  Only the descriptor \<open>fd\<close>, the timer \<open>t\<close> and the blocks \<open>B\<close> are touched (and new blocks allocated).
\<close>

definition touches_only :: "world \<Rightarrow> world \<Rightarrow> int \<Rightarrow> tptr \<Rightarrow> nat set \<Rightarrow> bool" where
  "touches_only w w' fd t B \<longleftrightarrow>
     (\<forall>b. b \<notin> B \<longrightarrow> b < w_next w \<longrightarrow> w_mem w' b = w_mem w b)
     \<and> (\<forall>f. f \<noteq> fd \<longrightarrow> k_socks (w_kern w') f = k_socks (w_kern w) f \<and> slot_at w' f = slot_at w f)
     \<and> (\<forall>u. u \<noteq> t \<longrightarrow> node_view (w_tevs w') u = node_view (w_tevs w) u)
     \<and> w_next w \<le> w_next w' \<and> w_malloc w' = w_malloc w \<and> k_ctl (w_kern w') = k_ctl (w_kern w)
     \<and> map_option base_view (w_base w') = map_option base_view (w_base w)"

lemma touches_only_refl [simp]: "touches_only w w fd t B"
  by (simp add: touches_only_def)

lemma touches_only_trans:
  assumes "touches_only w1 w2 fd t B" "touches_only w2 w3 fd t B"
  shows "touches_only w1 w3 fd t B"
  using assms unfolding touches_only_def by (metis le_trans less_le_trans)

lemma same_nodes_view: "same_nodes S S' \<Longrightarrow> node_view S' t = node_view S t"
  by (simp add: same_nodes_def node_view_def)

lemma get_slot_put_other:
  "0 \<le> fd \<Longrightarrow> f \<noteq> fd \<Longrightarrow> get_slot (put_slot eb fd sl) f = get_slot eb f"
  by (auto simp: get_slot_def put_slot_def nth_list_update nat_eq_iff)

lemma get_slot_fields [simp]:
  "get_slot (eb\<lparr>iClientCount := n\<rparr>) f = get_slot eb f" "get_slot (eb\<lparr>pstHeapHeader := h\<rparr>) f = get_slot eb f"
  "get_slot (eb\<lparr>pstTimeCache := t\<rparr>) f = get_slot eb f"
  by (simp_all add: get_slot_def)

section \<open>Destroying a connection\<close>

text \<open>
  Everything the connection used is given back: its record, its buffers, its timer and timer node,
  its event slot, its place in the kernel's interest list, its socket and its place in the count of
  clients.
\<close>

definition conn_released :: "world \<Rightarrow> nat \<Rightarrow> ConnFd \<Rightarrow> tptr list \<Rightarrow> world \<Rightarrow> tptr list \<Rightarrow> bool" where
  "conn_released w p c ps w' qs \<longleftrightarrow>
     w_conns w' = (w_conns w)(p := None) \<and> w_mem w' = freed_mem (w_mem w) c
     \<and> same_nodes ((w_tevs w)(pstTimeoutEvent c := None)) (w_tevs w')
     \<and> timers_ok w' qs \<and> due_times w' qs = (due_times w ps)(pstTimeoutEvent c := None)
     \<and> slot_mask w' = (slot_mask w)(iFd c := 0) \<and> in_sync (slot_mask w') (watched_by_kernel w')
     \<and> k_socks (w_kern w') = (k_socks (w_kern w))(iFd c := None)
     \<and> usable_fds w' = usable_fds w - {iFd c}
     \<and> map_option iClientCount (w_base w') = map_option (\<lambda>eb. iClientCount eb - 1) (w_base w)
     \<and> touches_only w w' (iFd c) (pstTimeoutEvent c) (conn_blocks c) \<and> heap_cap w' = heap_cap w \<and> w_next w' = w_next w"

lemma conn_released_base:
  assumes "conn_released w p c ps w' qs" "w_base w = Some eb"
  obtains eb' where "w_base w' = Some eb'" "base_view eb' = base_view eb"
  using assms by (auto simp: conn_released_def touches_only_def)

lemma in_sync_cleared:
  assumes "in_sync M K"
  shows "in_sync (M(fd := 0)) (K(fd := None))"
  using assms by (auto simp: in_sync_def)

text \<open>The world after the calls of \<open>DestroyConn\<close>, from what the heap and the kernel became.\<close>

definition destroyed :: "world \<Rightarrow> nat \<Rightarrow> ConnFd \<Rightarrow> EventBase \<Rightarrow> kernel \<Rightarrow> MinHeapHeader \<Rightarrow> tev_store \<Rightarrow> world" where
  "destroyed w p c eb k H S = w\<lparr>w_base := Some (put_slot (eb\<lparr>iClientCount := iClientCount eb - 1,
       pstHeapHeader := Some H\<rparr>) (iFd c) empty_slot),
     w_kern := sys_close k (iFd c), w_mem := freed_mem (w_mem w) c,
     w_tevs := S(pstTimeoutEvent c := None), w_conns := (w_conns w)(p := None)\<rparr>"

text \<open>The way through \<open>DestroyConn\<close>, whatever the erase of its timer makes of the heap.\<close>

lemma DestroyConn_form:
  assumes c: "conn_at w p c" and eb: "w_base w = Some eb" and tp: "pstTimeoutEvent c \<noteq> NULL" "S' (pstTimeoutEvent c) \<noteq> None"
    and er: "MinheapErase (heap_of w eb) (pstTimeoutEvent c) = Inr (r, \<lparr>hs_hdr = Some H', hs_tevs = S'\<rparr>)"
  obtains k where "DestroyConn w p = Inr (destroyed w p c eb k H' S')"
    "k_socks k = k_socks (w_kern w)" "k_ctl k = k_ctl (w_kern w)"
    "k_interest k = (k_interest (w_kern w))(iFd c := k_interest k (iFd c))"
proof -
  let ?ep = "pstEventBase c" and ?fd = "iFd c" and ?tp = "pstTimeoutEvent c"
  have cw: "p \<noteq> NULL" "w_conns w p = Some c" "?ep \<noteq> NULL" "bufs_ok (w_mem w) c" "?fd \<in> usable_fds w"
    "in_sync (slot_mask w) (watched_by_kernel w)"
    using c by (simp_all add: conn_at_def)
  obtain sl where u: "get_slot eb ?fd = Inr sl" "0 \<le> ?fd" "?fd < int (length (pstFdEventsArray eb))"
    by (rule usableE [OF cw(5)]) (use eb in auto)
  obtain rb sb rbs sbs where b: "pszRecvBuf c = Ptr rb 0" "pszSendBuf c = Ptr sb 0" "rb \<noteq> sb"
    "w_mem w rb = Some rbs" "w_mem w sb = Some sbs"
    using cw(4) by (rule bufs_okE)
  let ?eb = "eb\<lparr>iClientCount := iClientCount eb - 1\<rparr>" and ?sl = "sl\<lparr>iMask := iMask sl AND NOT (EVENT_WRITABLE OR EVENT_READABLE)\<rparr>"
  let ?w1 = "put_base w ?eb"
  have w1: "slot_mask ?w1 = slot_mask w" "watched_by_kernel ?w1 = watched_by_kernel w" "usable_fds ?w1 = usable_fds w"
    "get_slot ?eb ?fd = Inr sl"
    using eb u by (simp_all add: slot_mask_def watched_by_kernel_def usable_fds_def get_slot_def fun_eq_iff)
  obtain k where del: "EventDel ?w1 ?ep ?fd (EVENT_WRITABLE OR EVENT_READABLE) = Inr (RET_SUCC, reslot ?w1 ?eb ?fd ?sl k)"
    and k: "k_socks k = k_socks (w_kern w)" "k_ctl k = k_ctl (w_kern w)"
      "k_interest k = (k_interest (w_kern w))(?fd := k_interest k ?fd)"
    using EventDel_form [of ?w1 ?fd ?ep ?eb sl "EVENT_WRITABLE OR EVENT_READABLE"] cw w1
    by (auto simp: interest_upd_def)
  let ?eb2 = "put_slot ?eb ?fd ?sl" and ?w3 = "put_kern (reslot ?w1 ?eb ?fd ?sl k) (sys_close k ?fd)"
  have b3: "w_base ?w3 = Some ?eb2" "heap_of ?w3 ?eb2 = heap_of w eb" by (simp_all add: heap_of_def put_slot_def)
  note un = Unregister_erases [OF b3(1) cw(3) tp(1) er [folded b3(2)]]
  let ?w4 = "put_heap ?w3 ?eb2 \<lparr>hs_hdr = Some H', hs_tevs = S'\<rparr>"
  have init: "FdFileEventInit ?w4 ?ep ?fd = Inr (RET_SUCC, put_base ?w4 (put_slot (?eb2\<lparr>pstHeapHeader := Some H'\<rparr>) ?fd empty_slot))"
    using cw(3) u(2,3) by (simp add: FdFileEventInit_def get_slot_def put_slot_def)
  have "DestroyConn w p = Inr (destroyed w p c eb k H' S')"
    using cw eb del un init b tp
    by (simp add: DestroyConn_def Let_def free_tev_def free_conn_def destroyed_def freed_mem_def put_slot_def)
  then show thesis by (rule that [OF _ k])
qed

text \<open>What every run of \<open>DestroyConn\<close> leaves of the descriptors.\<close>

lemma destroyed_fds:
  assumes c: "conn_at w p c" and eb: "w_base w = Some eb" and k: "k_socks k = k_socks (w_kern w)" "k_ctl k = k_ctl (w_kern w)"
    "k_interest k = (k_interest (w_kern w))(iFd c := k_interest k (iFd c))" and w': "w' = destroyed w p c eb k H S"
  shows "slot_mask w' = (slot_mask w)(iFd c := 0)" "in_sync (slot_mask w') (watched_by_kernel w')"
    "usable_fds w' = usable_fds w - {iFd c}"
proof -
  have cw: "iFd c \<in> usable_fds w" "in_sync (slot_mask w) (watched_by_kernel w)" using c by (simp_all add: conn_at_def)
  have u: "0 \<le> iFd c" "iFd c < int (length (pstFdEventsArray eb))" by (rule usableE [OF cw(1)]; use eb in auto)+
  show mask: "slot_mask w' = (slot_mask w)(iFd c := 0)"
    using u eb by (auto simp: w' slot_mask_def fun_eq_iff nth_list_update nat_eq_iff empty_slot_def destroyed_def)
  have "watched_by_kernel w' = (watched_by_kernel w)(iFd c := None)"
    unfolding watched_by_kernel_def w' using k(3) by (simp add: sys_close_def fun_eq_iff destroyed_def)
  then show "in_sync (slot_mask w') (watched_by_kernel w')" unfolding mask using in_sync_cleared [OF cw(2)] by simp
  show "usable_fds w' = usable_fds w - {iFd c}"
    using eb k(1,2) by (auto simp: w' usable_fds_def destroyed_def sys_close_def sock_is_open_def)
qed

lemma DestroyConn_releases:
  assumes c: "conn_at w p c" and tm: "timers_ok w ps" and rm: "can_remove w ps (pstTimeoutEvent c)"
  shows "\<exists>w' qs. DestroyConn w p = Inr w' \<and> conn_released w p c ps w' qs"
proof -
  let ?fd = "iFd c" and ?tp = "pstTimeoutEvent c"
  obtain eb where eb: "w_base w = Some eb" using tm by (rule timers_okE)
  obtain r H' S' qs where er: "MinheapErase (heap_of w eb) ?tp = Inr (r, \<lparr>hs_hdr = Some H', hs_tevs = S'\<rparr>)"
    "heap_rep H' S' qs" "set qs = set ps - {?tp}" "same_nodes (w_tevs w) S'"
    "map_option iNodeCapacity (pstHeapHeader eb) = Some (iNodeCapacity H')"
    by (rule Erase_removable [OF tm eb rm])
  have tp: "?tp \<noteq> NULL" "S' ?tp \<noteq> None"
    using rm same_nodes_None [OF er(4), of ?tp] by (auto simp: can_remove_def split: option.splits)
  obtain k where d: "DestroyConn w p = Inr (destroyed w p c eb k H' S')"
    "k_socks k = k_socks (w_kern w)" "k_ctl k = k_ctl (w_kern w)"
    "k_interest k = (k_interest (w_kern w))(?fd := k_interest k ?fd)"
    by (rule DestroyConn_form [OF c eb tp er(1)])
  have cw: "?fd \<in> usable_fds w" "in_sync (slot_mask w) (watched_by_kernel w)"
    using c by (simp_all add: conn_at_def)
  have u: "0 \<le> ?fd" "?fd < int (length (pstFdEventsArray eb))" by (rule usableE [OF cw(1)]; use eb in auto)+
  let ?w' = "destroyed w p c eb k H' S'"
  have ntp: "?tp \<notin> set qs" using er(3) by simp
  have heap: "heap_rep H' (S'(?tp := None)) qs"
    by (rule heap_rep_frame [OF er(2)]) (use ntp in auto)
  have key: "key_of (S'(?tp := None)) q = key_of (w_tevs w) q" if "q \<noteq> ?tp" for q
    using that same_nodes_key [OF er(4), of q] by (simp add: key_of_def)
  then have "timer_table qs (S'(?tp := None)) = (timer_table ps (w_tevs w))(?tp := None)"
    using er(3) by (auto simp: timer_table_def fun_eq_iff)
  then have due: "due_times ?w' qs = (due_times w ps)(?tp := None)" by (simp add: due_times_def destroyed_def)
  have nodes: "same_nodes ((w_tevs w)(?tp := None)) (w_tevs ?w')"
    using er(4) by (simp add: same_nodes_def destroyed_def)
  note fds = destroyed_fds [OF c eb d(2-4) refl, of H' S']
  have tmo: "timers_ok ?w' qs" using heap by (simp add: timers_ok_def heap_ok_def heap_of_def destroyed_def)
  have view: "node_view (w_tevs ?w') q = node_view (w_tevs w) q" if "q \<noteq> ?tp" for q
    using that same_nodes_view [OF er(4), of q] by (simp add: node_view_def destroyed_def)
  have slots: "slot_at ?w' f = slot_at w f" if "f \<noteq> ?fd" for f
    using that u(1) eb by (simp add: slot_at_def destroyed_def get_slot_put_other)
  have touch: "touches_only w ?w' ?fd ?tp (conn_blocks c)"
    using view slots eb d(2,3) unfolding touches_only_def
    by (simp add: destroyed_def sys_close_def freed_mem_def conn_blocks_def base_view_def)
  have cap: "heap_cap ?w' = heap_cap w"
    using er(5) eb by (auto simp: heap_cap_def destroyed_def)
  have "conn_released w p c ps ?w' qs"
    unfolding conn_released_def using due nodes fds tmo d(2) eb touch cap by (simp add: destroyed_def sys_close_def)
  then show ?thesis using d(1) by blast
qed

end
