(* ===== verification/PacketHandlers.thy ===== *)
theory PacketHandlers
  imports Conn
begin

text \<open>
  The operations of \<open>src/bin_proto.c\<close> on a connection that has received a whole packet: the
  dispatch on the command, the echo, and the test protocol that builds an answer in the send buffer.
\<close>

definition SendPacket2Client :: "world \<Rightarrow> nat \<Rightarrow> PacketPack option \<Rightarrow> (int \<times> world) outcome" where
  "SendPacket2Client w p t_pstPacketPack = (if t_pstPacketPack = None \<or> p = NULL then Inr (RET_FAIL, w)
     else cbind (PacketPack2String (w_mem w) t_pstPacketPack) (\<lambda>(s, m).
       if s = CNull then Inr (RET_FAIL, put_mem w m)
       else cbind (GetPacketLen t_pstPacketPack) (\<lambda>len.
            cbind (AppendPktToBuff (put_mem w m) p CNull (sint len)) (\<lambda>(r, w1).
              if r = RET_FAIL then Inr (RET_FAIL, w1) else Inr (RET_SUCC, w1)))))"

text \<open>The packet is copied to the start of the send buffer, whatever its size.\<close>

definition SendBackEcho :: "world \<Rightarrow> nat \<Rightarrow> (int \<times> world) outcome" where
  "SendBackEcho w p = (if p = NULL then Inr (RET_FAIL, w)
     else cbind (get_conn w p) (\<lambda>c.
       cbind (c_memcpy (w_mem w) (pszSendBuf c) (pszRecvBuf c) (iPacketLen c)) (\<lambda>m.
       cbind (EventAdd (put_conn (put_mem w m) p (c\<lparr>iSendPacketLen := iPacketLen c\<rparr>))
               (pstEventBase c) (iFd c) EVENT_WRITABLE SendProc p) (\<lambda>(r, w1).
         if r = RET_FAIL then Inl (Exits (-1)) else Inr (RET_SUCC, w1)))))"

definition ProcessTestBinProtocol :: "world \<Rightarrow> nat \<Rightarrow> PacketPack option \<Rightarrow> (int \<times> world) outcome" where
  "ProcessTestBinProtocol w p recv = (if p = NULL \<or> recv = None then Inr (RET_FAIL, w)
     else let pDataBufferRecv = GetDataPos recv in
       cbind (GetDataSize recv) (\<lambda>iDataLen.
       cbind (c_int (iDataLen + 128)) (\<lambda>iLength.
       cbind (ResizeSendBufferPtr w p iLength) (\<lambda>(pSendBuffer, w1).
       let (ok, w2) = ask_malloc w1 in
       cbind (CreatePackFromBuffer ok (w_mem w2) pSendBuffer iLength) (\<lambda>(send, m1).
       cbind (GetPacketCmd m1 recv) (\<lambda>cmd.
       cbind (SetPacketCmd send cmd) (\<lambda>_.
       cbind (GetPacketSeq m1 recv) (\<lambda>seqno.
       cbind (SetPacketSeq m1 send seqno) (\<lambda>m2.
       cbind (AddAllData2Packet m2 send pDataBufferRecv iLength) (\<lambda>(r, send', m3).
         if r = RET_FAIL then Inr (RET_FAIL, put_mem w2 m3)
         else cbind (SendPacket2Client (put_mem w2 m3) p send') (\<lambda>(_, w3).
                Inr (RET_SUCC, w3))))))))))))"

definition ProcessEntirePacket :: "world \<Rightarrow> nat \<Rightarrow> (int \<times> world) outcome" where
  "ProcessEntirePacket w p = (if p = NULL then Inr (RET_FAIL, w)
     else cbind (get_conn w p) (\<lambda>c.
       let (ok, w1) = ask_malloc w in
       cbind (String2PacketPack ok (w_mem w1) (pszRecvBuf c) (iRecvCurLen c)) (\<lambda>pk.
         if pk = None then Inr (RET_FAIL, w1)
         else cbind (GetPacketCmd (w_mem w1) pk) (\<lambda>uPacketCmdValue.
           if uPacketCmdValue = CMD_TEST_VALUE
           then cbind (ProcessTestBinProtocol w1 p pk) (\<lambda>(_, w2). Inr (RET_SUCC, w2))
           else if uPacketCmdValue = CMD_TEST_ECHO
           then cbind (SendBackEcho w1 p) (\<lambda>(_, w2). Inr (RET_SUCC, w2))
           else Inr (RET_FAIL, w1)))))"

end
