(* ===== verification/Handlers.thy ===== *)
theory Handlers
  imports PacketHandlers
begin

text \<open>
  The three event handlers of \<open>src/socket_util.c\<close>: accepting a connection, receiving a packet
  (first its head, then its body) and sending what is in the send buffer.
\<close>

section \<open>Accept\<close>

text \<open>The \<open>accept\<close> loop: a call that was interrupted is repeated.\<close>

fun accept_loop :: "net_conn list \<Rightarrow> net_conn \<times> net_conn list" where
  "accept_loop [] = (ConnErr EAGAIN, [])"
| "accept_loop (Incoming fd ip port i out # r) = (Incoming fd ip port i out, r)"
| "accept_loop (ConnErr e # r) = (if e = EINTR then accept_loop r else (ConnErr e, r))"

definition sys_accept :: "kernel \<Rightarrow> int \<Rightarrow> net_conn \<times> kernel" where
  "sys_accept k fd = (case k_socks k fd of None \<Rightarrow> (ConnErr EOTHER, k)
     | Some so \<Rightarrow> let (a, r) = accept_loop (s_conns so); k1 = k\<lparr>k_socks := (k_socks k)(fd \<mapsto> so\<lparr>s_conns := r\<rparr>)\<rparr>
        in (a, case a of ConnErr e \<Rightarrow> k1
              | Incoming nfd ip port i out \<Rightarrow>
                  k1\<lparr>k_socks := (k_socks k1)(nfd \<mapsto> new_sock\<lparr>s_in := i, s_out := out\<rparr>)\<rparr>))"

text \<open>\<open>strncpy\<close> into the zeroed array of \<open>IP_LEN\<close> bytes.\<close>

definition ip_array :: "buf \<Rightarrow> buf" where
  "ip_array ip = take (nat IP_LEN) (takeWhile (\<lambda>x. x \<noteq> 0) ip @ replicate (nat IP_LEN) 0)"

definition accept_conn :: "world \<Rightarrow> nat \<Rightarrow> int \<Rightarrow> buf \<Rightarrow> int \<Rightarrow> world outcome" where
  "accept_conn w ep iClientFd ip iClientPort = cbind (get_base w ep) (\<lambda>eb.
     let w1 = put_base w (eb\<lparr>iClientCount := iClientCount eb + 1\<rparr>);
         (r, k) = PynServerSetNonblock (w_kern w1) iClientFd;
         w2 = put_kern w1 k in
     if r = RET_FAIL then Inl (Exits 1)
     else cbind (CreateNewConn w2 ep iClientFd (Some (ip_array ip)) iClientPort) (\<lambda>(p, w3).
          cbind (get_conn w3 p) (\<lambda>c.
          cbind (MinheapTimeoutEventInit (w_tevs w3) (pstTimeoutEvent c) (Some ConnectionTimeoutCallback)
                  p (w_pid w3) iClientFd) (\<lambda>(_, S).
          cbind (RegisterTimerOutEvent (w3\<lparr>w_tevs := S\<rparr>) ep (pstTimeoutEvent c) MAX_CONN_TIMEOUT) (\<lambda>(_, w4).
          cbind (EventAdd w4 ep iClientFd EVENT_READABLE RecvProc p) (\<lambda>(r2, w5).
            if r2 = RET_FAIL then Inl (Exits (-1)) else Inr w5))))))"

definition ProcessAcceptCallback :: "world \<Rightarrow> nat \<Rightarrow> int \<Rightarrow> nat \<Rightarrow> world outcome" where
  "ProcessAcceptCallback w ep t_iFd t_pData = (if ep = NULL \<or> t_iFd < 0 then Inr w
     else cbind (get_base w ep) (\<lambda>eb.
       if iEpType eb = EPOLL_ET_TYPE then Inr w
       else if iEpType eb = EPOLL_LT_TYPE then
         (let (a, k) = sys_accept (w_kern w) t_iFd; w1 = put_kern w k in
          case a of ConnErr e \<Rightarrow> if e \<noteq> EAGAIN then Inl (Exits 1) else Inr w1
          | Incoming fd ip port i out \<Rightarrow> accept_conn w1 ep fd ip port)
       else Inl (Exits (-1))))"

section \<open>Receive\<close>

text \<open>The handler gives up a connection and returns: no further processing.\<close>

definition give_up :: "world \<Rightarrow> nat \<Rightarrow> (bool \<times> world) outcome" where
  "give_up w p = cbind (DestroyConn w p) (\<lambda>w1. Inr (False, w1))"

text \<open>
  The head of a packet: the result says whether the handler goes on to the body.  The test of the
  start mark reads the buffer; the length is the second field.
\<close>

definition check_head :: "world \<Rightarrow> nat \<Rightarrow> (bool \<times> world) outcome" where
  "check_head w p = cbind (get_conn w p) (\<lambda>c.
     cbind (load_bytes (w_mem w) (ptr_add (pszRecvBuf c) PACKET_LEN_POS) 4) (\<lambda>bs.
     let len = sint (ntohl_bytes bs);
         w1 = put_conn w p (c\<lparr>iPacketLen := len\<rparr>) in
     cbind (load_byte (w_mem w1) (pszRecvBuf c) 0) (\<lambda>soh.
       if soh \<noteq> PROTO_SOH \<or> len \<le> PACKET_BODY_POS then give_up w1 p
       else if len > PACKET_MAX_LEN then give_up w1 p
       else cbind (ResizeRecvBufferPtr w1 p (len - PACKET_HEAD_LEN)) (\<lambda>(q, w2).
              if q = CNull then give_up w2 p else Inr (True, w2)))))"

definition recv_head :: "world \<Rightarrow> nat \<Rightarrow> (bool \<times> world) outcome" where
  "recv_head w p = cbind (get_conn w p) (\<lambda>c.
     cbind (PynServerRecvData w (iFd c) (ptr_add (pszRecvBuf c) (iRecvCurLen c))
             (PACKET_HEAD_LEN - iRecvCurLen c)) (\<lambda>(iRet, w1).
       if iRet \<le> 0 then give_up w1 p
       else let cur = iRecvCurLen c + iRet; w2 = put_conn w1 p (c\<lparr>iRecvCurLen := cur\<rparr>) in
         if cur < PACKET_HEAD_LEN then Inr (False, w2) else check_head w2 p))"

text \<open>A whole packet has arrived: it is processed, the timer restarted, the buffer reused.\<close>

definition finish_packet :: "world \<Rightarrow> nat \<Rightarrow> nat \<Rightarrow> world outcome" where
  "finish_packet w ep p = cbind (ProcessEntirePacket w p) (\<lambda>(_, w1).
     cbind (get_conn w1 p) (\<lambda>c1.
     cbind (RegisterTimerOutEvent w1 ep (pstTimeoutEvent c1) MAX_CONN_TIMEOUT) (\<lambda>(_, w2).
     cbind (get_conn w2 p) (\<lambda>c2.
       Inr (put_conn w2 p (c2\<lparr>iRecvCurLen := 0, iPacketLen := 0\<rparr>))))))"

definition recv_body :: "world \<Rightarrow> nat \<Rightarrow> nat \<Rightarrow> world outcome" where
  "recv_body w ep p = cbind (get_conn w p) (\<lambda>c.
     if iPacketLen c \<le> 0 then DestroyConn w p
     else let iRemainLen = iPacketLen c - iRecvCurLen c;
              iNeedRecvLen = (if iRemainLen > 4096 then 4096 else iRemainLen) in
       cbind (PynServerRecvData w (iFd c) (ptr_add (pszRecvBuf c) (iRecvCurLen c)) iNeedRecvLen) (\<lambda>(iRet, w1).
         if iRet \<le> 0 then DestroyConn w1 p
         else let cur = iRecvCurLen c + iRet; w2 = put_conn w1 p (c\<lparr>iRecvCurLen := cur\<rparr>) in
           if cur < iPacketLen c then Inr w2 else finish_packet w2 ep p))"

definition ProcessRecvCallback :: "world \<Rightarrow> nat \<Rightarrow> int \<Rightarrow> nat \<Rightarrow> world outcome" where
  "ProcessRecvCallback w ep t_iFd p = (if ep = NULL \<or> t_iFd < 0 \<or> p = NULL then Inr w
     else cbind (get_conn w p) (\<lambda>c.
       cbind (if iRecvCurLen c < PACKET_HEAD_LEN then recv_head w p else Inr (True, w)) (\<lambda>(go, w1).
         if go then recv_body w1 ep p else Inr w1)))"

section \<open>Send\<close>

definition ProcessSendCallback :: "world \<Rightarrow> nat \<Rightarrow> int \<Rightarrow> nat \<Rightarrow> world outcome" where
  "ProcessSendCallback w ep t_iFd p = (if p = NULL \<or> ep = NULL \<or> t_iFd < 0 then Inr w
     else cbind (get_conn w p) (\<lambda>c.
       if 0 \<ge> iSendPacketLen c then Inr w
       else cbind (PynServerSendData w (iFd c) (ptr_add (pszSendBuf c) (iSendCurLen c))
                    (iSendPacketLen c - iSendCurLen c)) (\<lambda>(iRet, w1).
         if iRet < 0 then DestroyConn w1 p
         else let c1 = c\<lparr>iSendCurLen := iSendCurLen c + iRet\<rparr>; w2 = put_conn w1 p c1 in
           if iSendPacketLen c1 = iSendCurLen c1
           then cbind (EventDel w2 ep (iFd c1) EVENT_WRITABLE) (\<lambda>(r, w3).
                  if r = RET_FAIL then Inl (Exits (-1))
                  else Inr (put_conn w3 p (c1\<lparr>iSendPacketLen := 0, iSendCurLen := 0\<rparr>)))
           else Inr w2)))"

end
