(* ===== verification/PacketFlow.thy ===== *)
theory PacketFlow
  imports ConnLife Handlers BinProtoProperties SocketProperties
begin

text \<open>
  The way of a packet through a connection: received by the read handler, answered into the send
  buffer, sent by the write handler.  The lemmas follow the handlers call by call.
\<close>

section \<open>Reading a known amount\<close>

lemma recv_loop_full:
  assumes "0 < need" "need \<le> int (length bs)" "store_bytes m p (take (nat need) bs) = Inr m'"
  shows "recv_loop m p 0 need (Data bs # r) =
     Inr (need, m', if need = int (length bs) then r else Data (drop (nat need) bs) # r)"
proof -
  have ne: "take (nat need) bs \<noteq> []" using assms(1,2) by auto
  have len: "int (length (take (nat need) bs)) = need" using assms(1,2) by simp
  have rd: "sys_read (Data bs # r) (nat need) =
      (Got (take (nat need) bs), if need = int (length bs) then r else Data (drop (nat need) bs) # r)"
    using assms(1,2) by auto
  show ?thesis
    using assms(1,3) ne len rd by (subst recv_loop.simps) (simp add: recv_loop.simps [of m' p need need])
qed

text \<open>The world after a receive: the memory and the script of one socket.\<close>

definition received :: "world \<Rightarrow> int \<Rightarrow> sock \<Rightarrow> bmem \<Rightarrow> net_in list \<Rightarrow> world" where
  "received w fd so m s = w\<lparr>w_mem := m, w_kern := (w_kern w)\<lparr>k_socks :=
     (k_socks (w_kern w))(fd \<mapsto> so\<lparr>s_in := s\<rparr>)\<rparr>\<rparr>"

lemma received_simps [simp]:
  "w_base (received w fd so m s) = w_base w" "w_conns (received w fd so m s) = w_conns w"
  "w_tevs (received w fd so m s) = w_tevs w" "w_mem (received w fd so m s) = m"
  "w_malloc (received w fd so m s) = w_malloc w" "w_next (received w fd so m s) = w_next w"
  "k_socks (w_kern (received w fd so m s)) = (k_socks (w_kern w))(fd \<mapsto> so\<lparr>s_in := s\<rparr>)"
  "k_interest (w_kern (received w fd so m s)) = k_interest (w_kern w)"
  "k_ctl (w_kern (received w fd so m s)) = k_ctl (w_kern w)"
  by (simp_all add: received_def)

lemma RecvData_full:
  assumes "0 \<le> fd" "k_socks (w_kern w) fd = Some so" "s_in so = Data bs # r"
    and "0 < need" "need \<le> int (length bs)" "mem_room (w_mem w) b (off + need)" "0 \<le> off"
  obtains m where "PynServerRecvData w fd (Ptr b off) need = Inr (need, received w fd so m
        (if need = int (length bs) then r else Data (drop (nat need) bs) # r))"
    "mem_sized (w_mem w) m" "mem_at m b off (take (nat need) bs)"
    "kept_outside (w_mem w) m b off (off + need)"
proof -
  obtain m where m: "store_bytes (w_mem w) (Ptr b off) (take (nat need) bs) = Inr m"
    "mem_at m b off (take (nat need) bs)"
    "kept_outside (w_mem w) m b off (off + int (length (take (nat need) bs)))"
    by (rule store_kept [OF assms(6,7), of "take (nat need) bs"]) (use assms(4,5) in simp_all)
  show thesis
  proof (rule that [of m])
    show "PynServerRecvData w fd (Ptr b off) need = Inr (need, received w fd so m
        (if need = int (length bs) then r else Data (drop (nat need) bs) # r))"
      using assms(1,2,3) recv_loop_full [OF assms(4,5) m(1)] by (simp add: PynServerRecvData_def received_def)
    show "mem_sized (w_mem w) m" by (rule mem_sized_store [OF m(1)])
    show "mem_at m b off (take (nat need) bs)" by (rule m(2))
    show "kept_outside (w_mem w) m b off (off + need)" using m(3) assms(4,5) by (simp add: min_absorb2)
  qed
qed

section \<open>The head and the body of a packet\<close>

text \<open>A connection that waits for a packet, with one on its socket.\<close>

definition packet_waits :: "world \<Rightarrow> nat \<Rightarrow> ConnFd \<Rightarrow> nat \<Rightarrow> nat \<Rightarrow> sock \<Rightarrow> buf \<Rightarrow> bool" where
  "packet_waits w p c rb sb so pkt \<longleftrightarrow> p \<noteq> NULL \<and> w_conns w p = Some c \<and> pszRecvBuf c = Ptr rb 0
     \<and> pszSendBuf c = Ptr sb 0 \<and> iRecvCurLen c = 0 \<and> 0 \<le> iFd c
     \<and> mem_room (w_mem w) rb (iRecvTotalLen c) \<and> k_socks (w_kern w) (iFd c) = Some so \<and> s_in so = [Data pkt]
     \<and> int (length pkt) \<le> iRecvTotalLen c \<and> length pkt \<le> 4096"

lemma packet_bytes_head:
  "take 5 (packet_bytes cmd seqno body) = PROTO_SOH # htonl_bytes (of_nat (14 + length body))"
  by (simp add: packet_bytes_def htonl_bytes_def numeral_eq_Suc)

lemma sint_small: "n < 2 ^ 31 \<Longrightarrow> sint (of_nat n :: u32) = int n"
proof -
  assume n: "n < 2 ^ 31"
  have "sint (word_of_int (int n) :: u32) = int n" using n by (subst int_word_sint) simp
  then show "sint (of_nat n :: u32) = int n" by (simp only: of_int_of_nat_eq)
qed

text \<open>
  The head arrives, is accepted and leaves the buffer as it is; of the bytes \<open>bs\<close> that have
  arrived only the head is read.
\<close>

definition head_waits :: "world \<Rightarrow> nat \<Rightarrow> ConnFd \<Rightarrow> nat \<Rightarrow> sock \<Rightarrow> buf \<Rightarrow> bool" where
  "head_waits w p c rb so bs \<longleftrightarrow> p \<noteq> NULL \<and> w_conns w p = Some c \<and> pszRecvBuf c = Ptr rb 0 \<and> iRecvCurLen c = 0
     \<and> 0 \<le> iFd c \<and> mem_room (w_mem w) rb (iRecvTotalLen c) \<and> 5 \<le> iRecvTotalLen c
     \<and> k_socks (w_kern w) (iFd c) = Some so \<and> s_in so = [Data bs] \<and> 5 \<le> length bs"

definition head_read :: "world \<Rightarrow> nat \<Rightarrow> ConnFd \<Rightarrow> sock \<Rightarrow> buf \<Rightarrow> bmem \<Rightarrow> world" where
  "head_read w p c so bs m = put_conn (received w (iFd c) so m (if length bs = 5 then [] else [Data (drop 5 bs)]))
     p (c\<lparr>iRecvCurLen := 5\<rparr>)"

lemma head_arrives:
  assumes wt: "head_waits w p c rb so bs" and hd: "take 5 bs = soh # htonl_bytes len"
  obtains m where "recv_head w p = check_head (head_read w p c so bs m) p" "mem_sized (w_mem w) m"
    "mem_at m rb 0 (take 5 bs)" "load_byte m (Ptr rb 0) 0 = Inr soh" "load_bytes m (Ptr rb 1) 4 = Inr (htonl_bytes len)"
proof -
  have wt': "p \<noteq> NULL" "w_conns w p = Some c" "pszRecvBuf c = Ptr rb 0" "iRecvCurLen c = 0" "0 \<le> iFd c"
    "mem_room (w_mem w) rb (iRecvTotalLen c)" "5 \<le> iRecvTotalLen c" "k_socks (w_kern w) (iFd c) = Some so"
    "s_in so = [Data bs]" "5 \<le> length bs"
    using wt by (simp_all add: head_waits_def)
  have room: "mem_room (w_mem w) rb (0 + 5)" using wt'(6,7) by (auto simp: mem_room_def split: option.splits)
  obtain m where m: "PynServerRecvData w (iFd c) (Ptr rb 0) 5 = Inr (5, received w (iFd c) so m
        (if 5 = int (length bs) then [] else Data (drop (nat 5) bs) # []))"
    "mem_sized (w_mem w) m" "mem_at m rb 0 (take (nat 5) bs)"
    by (rule RecvData_full [OF wt'(5,8,9) _ _ room]) (use wt'(10) in simp_all)
  have "mem_at m rb 0 ([soh] @ htonl_bytes len)" using m(3) hd by simp
  then have at: "mem_at m rb 0 [soh]" "mem_at m rb 1 (htonl_bytes len)"
    by (simp_all only: mem_at_append) simp_all
  have l5: "5 = int (length bs) \<longleftrightarrow> length bs = 5" by auto
  show thesis
  proof (rule that [of m])
    show "recv_head w p = check_head (head_read w p c so bs m) p"
      using wt'(1-4) m(1) unfolding l5 by (simp add: recv_head_def head_read_def PACKET_HEAD_LEN_def Let_def)
    show "load_byte m (Ptr rb 0) 0 = Inr soh" using mem_at_load_byte [of m rb 0 0] at(1) by simp
    show "load_bytes m (Ptr rb 1) 4 = Inr (htonl_bytes len)" by (rule mem_at_load [OF at(2)]) simp
    show "mem_sized (w_mem w) m" by (rule m(2))
    show "mem_at m rb 0 (take 5 bs)" using m(3) by simp
  qed
qed

lemma recv_head_accepts:
  assumes wt: "head_waits w p c rb so bs" and hd: "take 5 bs = take 5 pkt" and pkt: "pkt = packet_bytes cmd seqno body"
    and len: "length pkt \<le> 4096" "int (length pkt) \<le> iRecvTotalLen c"
  obtains m where "recv_head w p = Inr (True, put_conn (head_read w p c so bs m) p
       (c\<lparr>iRecvCurLen := 5, iPacketLen := int (length pkt)\<rparr>))"
    "mem_sized (w_mem w) m" "mem_at m rb 0 (take 5 pkt)"
proof -
  have wt': "p \<noteq> NULL" "pszRecvBuf c = Ptr rb 0" using wt by (simp_all add: head_waits_def)
  have n: "length pkt = 14 + length body" by (simp add: pkt)
  obtain m where m: "recv_head w p = check_head (head_read w p c so bs m) p" "mem_sized (w_mem w) m"
    "mem_at m rb 0 (take 5 bs)" "load_byte m (Ptr rb 0) 0 = Inr PROTO_SOH"
    "load_bytes m (Ptr rb 1) 4 = Inr (htonl_bytes (of_nat (14 + length body)))"
    by (rule head_arrives [OF wt, of PROTO_SOH "of_nat (14 + length body)"]) (simp add: hd pkt packet_bytes_head)
  let ?c2 = "c\<lparr>iRecvCurLen := 5, iPacketLen := int (length pkt)\<rparr>" and ?w1 = "head_read w p c so bs m"
  have val: "sint (ntohl_bytes (htonl_bytes (of_nat (14 + length body)))) = int (length pkt)"
    using sint_small [of "14 + length body"] len(1) n by simp
  have rs: "ResizeRecvBufferPtr (put_conn ?w1 p ?c2) p (int (length pkt) - 5) = Inr (Ptr rb 5, put_conn ?w1 p ?c2)"
    using wt' len(2) n by (simp add: ResizeRecvBufferPtr_def)
  have w1: "w_conns ?w1 p = Some (c\<lparr>iRecvCurLen := 5\<rparr>)" "w_mem ?w1 = m" by (simp_all add: head_read_def)
  have "check_head ?w1 p = Inr (True, put_conn ?w1 p ?c2)"
    using wt' m(4,5) w1 val rs len(1) n
    by (simp add: check_head_def packet_pos PACKET_MAX_LEN_def PACKET_HEAD_LEN_def Let_def)
  then show thesis using that [of m] m(1-3) hd by simp
qed

text \<open>The last bytes of the body arrive; what follows is the processing of the packet.\<close>

definition packet_partly :: "world \<Rightarrow> nat \<Rightarrow> ConnFd \<Rightarrow> nat \<Rightarrow> sock \<Rightarrow> buf \<Rightarrow> bool" where
  "packet_partly w p c rb so pkt \<longleftrightarrow> p \<noteq> NULL \<and> w_conns w p = Some c \<and> pszRecvBuf c = Ptr rb 0 \<and> 0 \<le> iFd c
     \<and> iPacketLen c = int (length pkt) \<and> 5 \<le> iRecvCurLen c \<and> iRecvCurLen c < int (length pkt)
     \<and> mem_at (w_mem w) rb 0 (take (nat (iRecvCurLen c)) pkt) \<and> mem_room (w_mem w) rb (int (length pkt))
     \<and> k_socks (w_kern w) (iFd c) = Some so \<and> s_in so = [Data (drop (nat (iRecvCurLen c)) pkt)]
     \<and> length pkt - nat (iRecvCurLen c) \<le> 4096"

lemma recv_body_completes:
  assumes wt: "packet_partly w p c rb so pkt"
  obtains m where "recv_body w ep p = finish_packet (put_conn (received w (iFd c) so m []) p
       (c\<lparr>iRecvCurLen := int (length pkt)\<rparr>)) ep p"
    "mem_sized (w_mem w) m" "mem_at m rb 0 pkt"
proof -
  let ?n = "int (length pkt)" and ?cur = "iRecvCurLen c"
  let ?rest = "drop (nat ?cur) pkt"
  have wt': "p \<noteq> NULL" "w_conns w p = Some c" "pszRecvBuf c = Ptr rb 0" "0 \<le> iFd c" "iPacketLen c = ?n"
    "5 \<le> ?cur" "?cur < ?n" "mem_at (w_mem w) rb 0 (take (nat ?cur) pkt)" "mem_room (w_mem w) rb ?n"
    "k_socks (w_kern w) (iFd c) = Some so" "s_in so = [Data ?rest]" "length pkt - nat ?cur \<le> 4096"
    using wt by (simp_all add: packet_partly_def)
  have len: "int (length ?rest) = ?n - ?cur" using wt'(6,7) by simp
  have room: "mem_room (w_mem w) rb (?cur + (?n - ?cur))" using wt'(9) by simp
  obtain m where m: "PynServerRecvData w (iFd c) (Ptr rb ?cur) (?n - ?cur) = Inr (?n - ?cur, received w (iFd c) so m
        (if ?n - ?cur = int (length ?rest) then [] else Data (drop (nat (?n - ?cur)) ?rest) # []))"
    "mem_sized (w_mem w) m" "mem_at m rb ?cur (take (nat (?n - ?cur)) ?rest)"
    "kept_outside (w_mem w) m rb ?cur (?cur + (?n - ?cur))"
    by (rule RecvData_full [OF wt'(4,10,11) _ _ room]) (use wt'(6,7) len in simp_all)
  have tk: "take (nat (?n - ?cur)) ?rest = ?rest" using len by simp
  have "mem_at m rb 0 (take (nat ?cur) pkt)"
    by (rule kept_outsideD [OF m(4) wt'(8)]) (use wt'(6,7) in simp_all)
  then have "mem_at m rb 0 (take (nat ?cur) pkt @ ?rest)"
    using m(3) wt'(6,7) unfolding tk by (simp only: mem_at_append) (simp add: min_absorb2)
  then have at: "mem_at m rb 0 pkt" by simp
  have pos: "pkt \<noteq> []" using wt'(6,7) by auto
  have "\<not> 4096 < ?n - ?cur" using wt'(6,12) by linarith
  then have "recv_body w ep p = finish_packet (put_conn (received w (iFd c) so m []) p
       (c\<lparr>iRecvCurLen := ?n\<rparr>)) ep p"
    using wt'(1-3,5-7) pos len m(1) by (simp add: recv_body_def Let_def)
  then show thesis by (rule that [OF _ m(2) at])
qed

text \<open>A whole packet that arrives at once.\<close>

lemma recv_callback_whole_packet:
  assumes wt: "packet_waits w p c rb sb so pkt" and pkt: "pkt = packet_bytes cmd seqno body" and ep: "ep \<noteq> NULL"
  obtains m where "ProcessRecvCallback w ep (iFd c) p = finish_packet (put_conn (received w (iFd c) so m []) p
       (c\<lparr>iPacketLen := int (length pkt), iRecvCurLen := int (length pkt)\<rparr>)) ep p"
    "mem_sized (w_mem w) m" "mem_at m rb 0 pkt"
proof -
  have wt': "p \<noteq> NULL" "w_conns w p = Some c" "pszRecvBuf c = Ptr rb 0" "iRecvCurLen c = 0" "0 \<le> iFd c"
    "mem_room (w_mem w) rb (iRecvTotalLen c)" "int (length pkt) \<le> iRecvTotalLen c" "length pkt \<le> 4096"
    using wt by (simp_all add: packet_waits_def)
  have len: "14 \<le> length pkt" by (simp add: pkt)
  have hw: "head_waits w p c rb so pkt" using wt len by (simp add: packet_waits_def head_waits_def)
  obtain m1 where m1: "recv_head w p = Inr (True, put_conn (head_read w p c so pkt m1) p
       (c\<lparr>iRecvCurLen := 5, iPacketLen := int (length pkt)\<rparr>))"
    "mem_sized (w_mem w) m1" "mem_at m1 rb 0 (take 5 pkt)"
    by (rule recv_head_accepts [OF hw refl pkt wt'(8,7)])
  let ?n = "int (length pkt)" and ?so1 = "so\<lparr>s_in := [Data (drop 5 pkt)]\<rparr>"
  let ?c2 = "c\<lparr>iRecvCurLen := 5, iPacketLen := ?n\<rparr>"
  let ?w2 = "put_conn (head_read w p c so pkt m1) p ?c2"
  have "packet_partly ?w2 p ?c2 rb ?so1 pkt"
    using wt'(1,3,5,7,8) len m1(3) mem_room_sized [OF m1(2) wt'(6)]
    by (auto simp: packet_partly_def head_read_def mem_room_def split: option.splits)
  then obtain m where m: "recv_body ?w2 ep p = finish_packet (put_conn (received ?w2 (iFd ?c2) ?so1 m []) p
       (?c2\<lparr>iRecvCurLen := ?n\<rparr>)) ep p" "mem_sized (w_mem ?w2) m" "mem_at m rb 0 pkt"
    by (rule recv_body_completes [where ep = ep])
  have "put_conn (received ?w2 (iFd c) ?so1 m []) p (?c2\<lparr>iRecvCurLen := ?n\<rparr>) =
      put_conn (received w (iFd c) so m []) p (c\<lparr>iPacketLen := ?n, iRecvCurLen := ?n\<rparr>)"
    using len by (simp add: received_def put_conn_def head_read_def)
  then have "ProcessRecvCallback w ep (iFd c) p = finish_packet (put_conn (received w (iFd c) so m []) p
       (c\<lparr>iPacketLen := ?n, iRecvCurLen := ?n\<rparr>)) ep p"
    using wt'(1,2,4,5) ep m1(1) m(1) by (simp add: ProcessRecvCallback_def PACKET_HEAD_LEN_def)
  moreover have "mem_sized (w_mem w) m" using mem_sized_trans [OF m1(2)] m(2) by (simp add: head_read_def)
  ultimately show thesis by (rule that [OF _ _ m(3)])
qed

section \<open>The echo\<close>

lemma process_echo:
  assumes c: "w_conns w p = Some c" "p \<noteq> NULL" and rb: "pszRecvBuf c = Ptr rb 0" and n: "iRecvCurLen c = int (length pkt)"
    and at: "mem_at (w_mem w) rb 0 pkt" and pkt: "pkt = packet_bytes CMD_TEST_ECHO seqno body"
    and small: "int (length pkt) \<le> INT_MAX" and mal: "w_malloc w = []"
  shows "ProcessEntirePacket w p = cbind (SendBackEcho w p) (\<lambda>(_, w2). Inr (RET_SUCC, w2))"
proof -
  have at': "mem_at (w_mem w) rb 0 (packet_bytes CMD_TEST_ECHO seqno body)" using at by (simp only: pkt)
  have len: "int (length pkt) = 14 + int (length body)" by (simp add: pkt)
  obtain pk where "String2PacketPack True (w_mem w) (Ptr rb 0) (14 + int (length body)) = Inr (Some pk)"
    "GetPacketCmd (w_mem w) (Some pk) = Inr CMD_TEST_ECHO"
    using packet_decodes [OF at'] small len by auto
  then show ?thesis
    using c rb n len by (simp add: ProcessEntirePacket_def ask_malloc_granted [OF mal] CMD_TEST_ECHO_def CMD_TEST_VALUE_def)
qed

definition timer_restarts :: "world \<Rightarrow> tptr list \<Rightarrow> tptr \<Rightarrow> timeval \<Rightarrow> bool" where
  "timer_restarts w ps p now \<longleftrightarrow> w_malloc w = [] \<and> timers_ok w ps \<and> (case w_base w of None \<Rightarrow> False
     | Some eb \<Rightarrow> heap_can_grow eb \<and> pstTimeCache eb = Some now
         \<and> can_set w ps p (minheap_timeradd now (interval_of MAX_CONN_TIMEOUT)))"

lemma timer_restartsE:
  assumes "timer_restarts w ps p now"
  obtains eb where "w_base w = Some eb" "w_malloc w = []" "timers_ok w ps" "heap_can_grow eb"
    "pstTimeCache eb = Some now" "can_set w ps p (minheap_timeradd now (interval_of MAX_CONN_TIMEOUT))"
  using assms by (auto simp: timer_restarts_def split: option.splits)

lemma can_set_cong: "w_tevs w' = w_tevs w \<Longrightarrow> can_set w' ps p due = can_set w ps p due"
  by (simp only: can_set_def)

text \<open>The event slot of a connection belongs to it.\<close>

definition slot_belongs :: "world \<Rightarrow> int \<Rightarrow> nat \<Rightarrow> bool" where
  "slot_belongs w fd p \<longleftrightarrow> (case w_base w of None \<Rightarrow> False | Some eb \<Rightarrow>
     (case get_slot eb fd of Inl _ \<Rightarrow> False | Inr sl \<Rightarrow> pstArg sl = p
        \<and> (iMask sl AND EVENT_READABLE \<noteq> 0 \<longrightarrow> pFunEventCallbackRead sl = RecvProc)
        \<and> (iMask sl AND EVENT_WRITABLE \<noteq> 0 \<longrightarrow> pFunEventCallbackWrite sl = SendProc)))"

lemma rw_bits:
  "EVENT_READABLE AND EVENT_WRITABLE = 0" "EVENT_WRITABLE \<noteq> 0" "EVENT_READABLE \<noteq> 0"
  "(EVENT_READABLE OR EVENT_WRITABLE) AND NOT EVENT_WRITABLE = EVENT_READABLE"
  "(EVENT_READABLE OR EVENT_WRITABLE) AND EVENT_WRITABLE \<noteq> 0"
  "(EVENT_READABLE OR EVENT_WRITABLE) AND EVENT_READABLE \<noteq> 0"
  "EVENT_READABLE AND EVENT_READABLE \<noteq> 0" "EVENT_WRITABLE AND EVENT_READABLE = 0"
  by (simp_all add: EVENT_READABLE_def EVENT_WRITABLE_def)

text \<open>Copying the packet and asking for the write event.\<close>

lemma SendBackEcho_form:
  assumes c: "conn_at w p c" and rb: "pszRecvBuf c = Ptr rb 0" and sb: "pszSendBuf c = Ptr sb 0"
    and at: "mem_at (w_mem w) rb 0 pkt" and n: "iPacketLen c = int (length pkt)" "iPacketLen c \<le> iSendTotalLen c"
    and mask: "slot_mask w (iFd c) = EVENT_READABLE" and eb: "w_base w = Some eb" "get_slot eb (iFd c) = Inr sl"
  obtains m k where "SendBackEcho w p = Inr (RET_SUCC,
       reslot (put_conn (put_mem w m) p (c\<lparr>iSendPacketLen := iPacketLen c\<rparr>)) eb (iFd c)
         (slot_with sl EVENT_WRITABLE SendProc p) k)"
    "mem_sized (w_mem w) m" "mem_at m sb 0 pkt"
    "interest_upd (w_kern w) k (iFd c) (EVENT_READABLE OR EVENT_WRITABLE)"
proof -
  have c': "p \<noteq> NULL" "w_conns w p = Some c" "pstEventBase c \<noteq> NULL" "bufs_ok (w_mem w) c"
    "iFd c \<in> usable_fds w" "in_sync (slot_mask w) (watched_by_kernel w)"
    using c by (simp_all add: conn_at_def)
  obtain sbs where sbs: "w_mem w sb = Some sbs" "int (length sbs) = iSendTotalLen c" "rb \<noteq> sb"
    by (rule bufs_okE [OF c'(4)]) (use rb sb in auto)
  have room: "mem_room (w_mem w) sb (iSendTotalLen c)" using sbs by (simp add: mem_room_def)
  obtain m where m: "store_bytes (w_mem w) (Ptr sb 0) pkt = Inr m" "mem_at m sb 0 pkt"
    by (rule store_kept [OF room, of 0 pkt]) (use n in simp_all)
  have cpy: "c_memcpy (w_mem w) (Ptr sb 0) (Ptr rb 0) (int (length pkt)) = Inr m"
    using mem_at_load [OF at] m(1) by (simp add: c_memcpy_def c_memmove_def)
  let ?w1 = "put_conn (put_mem w m) p (c\<lparr>iSendPacketLen := iPacketLen c\<rparr>)"
  have w1: "slot_mask ?w1 = slot_mask w" "watched_by_kernel ?w1 = watched_by_kernel w" "usable_fds ?w1 = usable_fds w"
    by (rule view_cong; simp)+
  have sl: "iMask sl = EVENT_READABLE" using usable_at(4) [OF c'(5) eb] mask by simp
  obtain k where k: "EventAdd ?w1 (pstEventBase c) (iFd c) EVENT_WRITABLE SendProc p = Inr (RET_SUCC,
      reslot ?w1 eb (iFd c) (slot_with sl EVENT_WRITABLE SendProc p) k)"
    "interest_upd (w_kern w) k (iFd c) (EVENT_READABLE OR EVENT_WRITABLE)"
    using EventAdd_form [of ?w1 "iFd c" "pstEventBase c" EVENT_WRITABLE eb sl SendProc p] w1 c'(3,5,6) eb sl rw_bits(1,2)
    by (auto simp: add_bits_def)
  have "SendBackEcho w p = Inr (RET_SUCC, reslot ?w1 eb (iFd c) (slot_with sl EVENT_WRITABLE SendProc p) k)"
    using c'(1,2) rb sb n(1) cpy k(1) by (simp add: SendBackEcho_def)
  then show thesis by (rule that [OF _ mem_sized_store [OF m(1)] m(2) k(2)])
qed

text \<open>
  The whole way in: the packet is in the send buffer, the write event is asked for, the timer has
  been restarted, and the connection waits for the next packet.
\<close>

definition echo_pending :: "world \<Rightarrow> nat \<Rightarrow> ConnFd \<Rightarrow> sock \<Rightarrow> buf \<Rightarrow> tptr list \<Rightarrow> timeval \<Rightarrow> world \<Rightarrow> ConnFd \<Rightarrow> tptr list \<Rightarrow> bool" where
  "echo_pending w p c so pkt ps now w' c' qs \<longleftrightarrow>
     c' = c\<lparr>iSendPacketLen := int (length pkt), iRecvCurLen := 0, iPacketLen := 0\<rparr>
     \<and> w_conns w' = (w_conns w)(p \<mapsto> c') \<and> conn_at w' p c'
     \<and> mem_at (w_mem w') (block_of (pszSendBuf c)) 0 pkt
     \<and> slot_mask w' = (slot_mask w)(iFd c := EVENT_READABLE OR EVENT_WRITABLE) \<and> slot_belongs w' (iFd c) p
     \<and> k_socks (w_kern w') = (k_socks (w_kern w))(iFd c \<mapsto> so\<lparr>s_in := []\<rparr>)
     \<and> timers_ok w' qs
     \<and> due_times w' qs = (due_times w ps)(pstTimeoutEvent c \<mapsto> minheap_timeradd now (interval_of MAX_CONN_TIMEOUT))"

lemma bufs_ok_sized:
  assumes "bufs_ok m c" "mem_sized m m'" "pszRecvBuf c' = pszRecvBuf c" "pszSendBuf c' = pszSendBuf c"
    "iRecvTotalLen c' = iRecvTotalLen c" "iSendTotalLen c' = iSendTotalLen c"
  shows "bufs_ok m' c'"
proof -
  have "map_option length (m' b) = map_option length (m b)" for b using assms(2) by (simp add: mem_sized_def)
  then show ?thesis using assms(1,3-6) by (simp add: bufs_ok_def split: charp.splits)
qed

lemma bufs_ok_fields:
  assumes "bufs_ok m c" "pszRecvBuf c' = pszRecvBuf c" "pszSendBuf c' = pszSendBuf c"
    "iRecvTotalLen c' = iRecvTotalLen c" "iSendTotalLen c' = iSendTotalLen c"
  shows "bufs_ok m c'"
  by (rule bufs_ok_sized [OF assms(1) _ assms(2-)]) (simp add: mem_sized_def)

text \<open>The packet is recognised as an echo request, and its answer is queued.\<close>

lemma echo_queued:
  assumes c: "conn_at w p c" and rb: "pszRecvBuf c = Ptr rb 0" and sb: "pszSendBuf c = Ptr sb 0"
    and at: "mem_at (w_mem w) rb 0 pkt" and pkt: "pkt = packet_bytes CMD_TEST_ECHO seqno body"
    and n: "iPacketLen c = int (length pkt)" "iRecvCurLen c = int (length pkt)" "iPacketLen c \<le> iSendTotalLen c"
      "length pkt \<le> 4096"
    and mal: "w_malloc w = []" and mask: "slot_mask w (iFd c) = EVENT_READABLE"
    and eb: "w_base w = Some eb" "get_slot eb (iFd c) = Inr sl"
  obtains m k where "ProcessEntirePacket w p = Inr (RET_SUCC,
       reslot (put_conn (put_mem w m) p (c\<lparr>iSendPacketLen := iPacketLen c\<rparr>)) eb (iFd c)
         (slot_with sl EVENT_WRITABLE SendProc p) k)"
    "mem_sized (w_mem w) m" "mem_at m sb 0 pkt"
    "interest_upd (w_kern w) k (iFd c) (EVENT_READABLE OR EVENT_WRITABLE)"
proof -
  have c': "p \<noteq> NULL" "w_conns w p = Some c" using c by (simp_all add: conn_at_def)
  have "ProcessEntirePacket w p = cbind (SendBackEcho w p) (\<lambda>(_, w2). Inr (RET_SUCC, w2))"
    by (rule process_echo [OF c'(2,1) rb n(2) at pkt _ mal]) (use n(4) in \<open>simp add: INT_MAX_def\<close>)
  then show thesis
    using SendBackEcho_form [OF c rb sb at n(1,3) mask eb] that by (metis (no_types, lifting) cbind_simps(2) case_prod_conv)
qed

text \<open>The state after the answer has been queued and the timer restarted.\<close>

lemma echo_settled:
  assumes c: "conn_at w p c" "k_socks (w_kern w) (iFd c) = Some so" "pszSendBuf c = Ptr sb 0"
    and mask: "slot_mask w (iFd c) = EVENT_READABLE" "slot_belongs w (iFd c) p"
    and eb: "w_base w = Some eb" "get_slot eb (iFd c) = Inr sl"
    and m: "mem_sized (w_mem w) m" "mem_at m sb 0 pkt"
    and k: "interest_upd (w_kern (received w (iFd c) so m1 [])) k (iFd c) (EVENT_READABLE OR EVENT_WRITABLE)"
    and sl': "sl' = slot_with sl EVENT_WRITABLE SendProc p"
    and w': "w_base w' = Some ((put_slot eb (iFd c) sl')\<lparr>pstHeapHeader := hh\<rparr>)" "w_kern w' = k" "w_mem w' = m"
      "w_conns w' = (w_conns w)(p \<mapsto> c\<lparr>iSendPacketLen := n, iRecvCurLen := 0, iPacketLen := 0\<rparr>)"
  shows "conn_at w' p (c\<lparr>iSendPacketLen := n, iRecvCurLen := 0, iPacketLen := 0\<rparr>)"
    "slot_mask w' = (slot_mask w)(iFd c := EVENT_READABLE OR EVENT_WRITABLE)" "slot_belongs w' (iFd c) p"
    "k_socks (w_kern w') = (k_socks (w_kern w))(iFd c \<mapsto> so\<lparr>s_in := []\<rparr>)"
proof -
  let ?fd = "iFd c" and ?rw = "EVENT_READABLE OR EVENT_WRITABLE"
  have c': "p \<noteq> NULL" "w_conns w p = Some c" "pstEventBase c \<noteq> NULL" "bufs_ok (w_mem w) c"
    "?fd \<in> usable_fds w" "in_sync (slot_mask w) (watched_by_kernel w)"
    using c by (simp_all add: conn_at_def)
  have mine: "iMask sl = EVENT_READABLE" "pstArg sl = p" "pFunEventCallbackRead sl = RecvProc"
    using eb mask usable_at(4) [OF c'(5) eb] rw_bits(3,7) by (simp_all add: slot_belongs_def)
  have sl: "0 \<le> ?fd" "nat ?fd < length (pstFdEventsArray eb)" "?fd < int (length (pstFdEventsArray eb))"
    "sl = pstFdEventsArray eb ! nat ?fd"
    using eb(2) by (auto simp: get_slot_Inr_iff)
  have k': "k_socks k = (k_socks (w_kern w))(?fd \<mapsto> so\<lparr>s_in := []\<rparr>)" "k_ctl k = k_ctl (w_kern w)"
    "k_interest k = (k_interest (w_kern w))(?fd := Some (epoll_events ?rw))"
    using k by (simp_all add: interest_upd_def or_eq_0_iff rw_bits(2,3))
  then show "k_socks (w_kern w') = (k_socks (w_kern w))(?fd \<mapsto> so\<lparr>s_in := []\<rparr>)" using w'(2) by simp
  have base: "slot_mask w' = slot_mask (put_kern (put_base w (put_slot eb ?fd sl')) k)"
    using w'(1) by (simp add: slot_mask_def fun_eq_iff)
  then show mask': "slot_mask w' = (slot_mask w)(?fd := ?rw)"
    using slot_mask_put [of w eb ?fd sl' k] eb(1) sl(1,3) mine(1) sl' by (simp add: slot_with_def)
  have sync': "in_sync (slot_mask w') (watched_by_kernel w')"
    unfolding mask' using in_sync_upd [OF c'(6), of _ ?fd ?rw] k'(3) w'(2)
    by (simp add: watched_by_kernel_def or_eq_0_iff rw_bits(2,3))
  have us': "?fd \<in> usable_fds w'"
    using k'(1,2) w'(1,2) sl(1,2) usable_at [OF c'(5) eb] by (simp add: usable_fds_def sock_is_open_def)
  show "conn_at w' p (c\<lparr>iSendPacketLen := n, iRecvCurLen := 0, iPacketLen := 0\<rparr>)"
    using c' sync' us' w'(3,4) bufs_ok_sized [OF c'(4) m(1)] by (simp add: conn_at_def)
  show "slot_belongs w' ?fd p"
    using sl mine sl' w'(1) rw_bits by (simp add: slot_belongs_def get_slot_def put_slot_def slot_with_def)
qed

lemma echo_received:
  assumes c: "conn_at w p c" and wt: "packet_waits w p c rb sb so pkt"
    and pkt: "pkt = packet_bytes CMD_TEST_ECHO seqno body" and fit: "int (length pkt) \<le> iSendTotalLen c"
    and mask: "slot_mask w (iFd c) = EVENT_READABLE" "slot_belongs w (iFd c) p"
    and tm: "timer_restarts w ps (pstTimeoutEvent c) now" and ep: "ep \<noteq> NULL"
  shows "\<exists>w' c' qs. ProcessRecvCallback w ep (iFd c) p = Inr w' \<and> echo_pending w p c so pkt ps now w' c' qs"
proof -
  let ?n = "int (length pkt)" and ?tp = "pstTimeoutEvent c" and ?fd = "iFd c"
  have wt': "pszRecvBuf c = Ptr rb 0" "pszSendBuf c = Ptr sb 0" "k_socks (w_kern w) ?fd = Some so" "length pkt \<le> 4096"
    using wt by (simp_all add: packet_waits_def)
  have c': "p \<noteq> NULL" "bufs_ok (w_mem w) c" "?fd \<in> usable_fds w" using c by (simp_all add: conn_at_def)
  obtain eb where eb: "w_base w = Some eb" "w_malloc w = []" "timers_ok w ps" "heap_can_grow eb"
    "pstTimeCache eb = Some now" "can_set w ps ?tp (minheap_timeradd now (interval_of MAX_CONN_TIMEOUT))"
    using tm by (rule timer_restartsE)
  obtain sl where sl: "get_slot eb ?fd = Inr sl" by (rule usableE [OF c'(3)]) (use eb(1) in auto)
  obtain m where cb: "ProcessRecvCallback w ep ?fd p = finish_packet (put_conn (received w ?fd so m []) p
       (c\<lparr>iPacketLen := ?n, iRecvCurLen := ?n\<rparr>)) ep p"
    and sz: "mem_sized (w_mem w) m" and at: "mem_at m rb 0 pkt"
    by (rule recv_callback_whole_packet [OF wt pkt ep])
  let ?c1 = "c\<lparr>iPacketLen := ?n, iRecvCurLen := ?n\<rparr>"
  let ?w1 = "put_conn (received w ?fd so m []) p ?c1"
  have v1: "slot_mask ?w1 = slot_mask w" "watched_by_kernel ?w1 = watched_by_kernel w" "usable_fds ?w1 = usable_fds w"
    by (rule view_cong_socks; use wt'(3) in simp)+
  have c1: "conn_at ?w1 p ?c1" using c v1 bufs_ok_sized [OF c'(2) sz, of ?c1] by (simp add: conn_at_def)
  let ?c2 = "?c1\<lparr>iSendPacketLen := iPacketLen ?c1\<rparr>" and ?sl = "slot_with sl EVENT_WRITABLE SendProc p"
  obtain m2 k where pr: "ProcessEntirePacket ?w1 p = Inr (RET_SUCC,
       reslot (put_conn (put_mem ?w1 m2) p ?c2) eb ?fd ?sl k)"
    "mem_sized (w_mem ?w1) m2" "mem_at m2 sb 0 pkt"
    "interest_upd (w_kern ?w1) k ?fd (EVENT_READABLE OR EVENT_WRITABLE)"
    by (rule echo_queued [OF c1, of rb sb pkt seqno body eb sl])
       (use wt'(1,2,4) at pkt fit mask(1) v1(1) eb(1,2) sl in simp_all)
  let ?w2 = "reslot (put_conn (put_mem ?w1 m2) p ?c2) eb ?fd ?sl k" and ?eb2 = "put_slot eb ?fd ?sl"
  have t2: "timers_ok ?w2 ps" "can_set ?w2 ps ?tp (minheap_timeradd now (interval_of MAX_CONN_TIMEOUT))"
    "w_malloc ?w2 = []" "heap_can_grow ?eb2" "pstTimeCache ?eb2 = Some now" "w_base ?w2 = Some ?eb2"
    "due_times ?w2 ps = due_times w ps"
    using eb timers_ok_cong [of ?w2 w ps] can_set_cong [of ?w2 w] by (simp_all add: heap_can_grow_def due_times_def)
  obtain H' S' qs where rg: "RegisterTimerOutEvent ?w2 ep ?tp MAX_CONN_TIMEOUT =
      Inr (RET_SUCC, put_heap ?w2 ?eb2 \<lparr>hs_hdr = Some H', hs_tevs = S'\<rparr>)"
    "timers_ok (put_heap ?w2 ?eb2 \<lparr>hs_hdr = Some H', hs_tevs = S'\<rparr>) qs"
    "due_times (put_heap ?w2 ?eb2 \<lparr>hs_hdr = Some H', hs_tevs = S'\<rparr>) qs =
       (due_times ?w2 ps)(?tp \<mapsto> minheap_timeradd now (interval_of MAX_CONN_TIMEOUT))"
    by (rule Register_table [OF t2(1,6,5,4,3) ep t2(2)])
  let ?w3 = "put_heap ?w2 ?eb2 \<lparr>hs_hdr = Some H', hs_tevs = S'\<rparr>"
  let ?c3 = "c\<lparr>iSendPacketLen := ?n, iRecvCurLen := 0, iPacketLen := 0\<rparr>"
  let ?w' = "put_conn ?w3 p ?c3"
  have res: "ProcessRecvCallback w ep ?fd p = Inr ?w'"
    using cb pr(1) rg(1) c'(1) by (simp add: finish_packet_def)
  have sz2: "mem_sized (w_mem w) m2" using mem_sized_trans [OF sz, of m2] pr(2) by simp
  have "conn_at ?w' p ?c3" "slot_mask ?w' = (slot_mask w)(?fd := EVENT_READABLE OR EVENT_WRITABLE)"
    "slot_belongs ?w' ?fd p" "k_socks (w_kern ?w') = (k_socks (w_kern w))(?fd \<mapsto> so\<lparr>s_in := []\<rparr>)"
    by (rule echo_settled [OF c wt'(3,2) mask eb(1) sl sz2 pr(3) _ refl, of m k ?w' "Some H'"];
        use pr(4) in \<open>simp add: put_heap_def\<close>)+
  moreover have "timers_ok ?w' qs" "due_times ?w' qs = (due_times w ps)(?tp \<mapsto> minheap_timeradd now (interval_of MAX_CONN_TIMEOUT))"
    using rg(2,3) t2(7) timers_ok_cong [of ?w' ?w3] by (simp_all add: due_times_def)
  ultimately have "echo_pending w p c so pkt ps now ?w' ?c3 qs"
    using pr(3) wt'(2) by (simp add: echo_pending_def)
  then show ?thesis using res by blast
qed

end
