(* ===== verification/SendFlow.thy ===== *)
theory SendFlow
  imports PacketFlow
begin

text \<open>
  The write handler: whatever the socket takes, the bytes handed to it continue the packet where the
  last write stopped, and the handler ends in one of three states.
\<close>

section \<open>Handing bytes to the socket\<close>

definition sent_to :: "world \<Rightarrow> int \<Rightarrow> sock \<Rightarrow> net_out list \<Rightarrow> buf \<Rightarrow> world" where
  "sent_to w fd so s bs = w\<lparr>w_kern := (w_kern w)\<lparr>k_socks :=
     (k_socks (w_kern w))(fd \<mapsto> so\<lparr>s_out := s, s_sent := s_sent so @ bs\<rparr>)\<rparr>\<rparr>"

lemma sent_to_simps [simp]:
  "w_base (sent_to w fd so s bs) = w_base w" "w_conns (sent_to w fd so s bs) = w_conns w"
  "w_tevs (sent_to w fd so s bs) = w_tevs w" "w_mem (sent_to w fd so s bs) = w_mem w"
  "w_malloc (sent_to w fd so s bs) = w_malloc w" "w_next (sent_to w fd so s bs) = w_next w"
  "k_socks (w_kern (sent_to w fd so s bs)) =
     (k_socks (w_kern w))(fd \<mapsto> so\<lparr>s_out := s, s_sent := s_sent so @ bs\<rparr>)"
  "k_interest (w_kern (sent_to w fd so s bs)) = k_interest (w_kern w)"
  "k_ctl (w_kern (sent_to w fd so s bs)) = k_ctl (w_kern w)"
  by (simp_all add: sent_to_def)

lemma SendData_result:
  assumes "0 < fd" "k_socks (w_kern w) fd = Some so" "mem_at (w_mem w) b off bs"
  obtains r s n where "PynServerSendData w fd (Ptr b off) (int (length bs)) = Inr (r, sent_to w fd so s (take n bs))"
    "n \<le> length bs" "r = int n \<or> r = -1"
proof -
  obtain r s' sent' where r: "send_loop (w_mem w) (Ptr b off) 0 (int (length bs)) (s_out so) (s_sent so)
      = Inr (r, s', sent')" "send_result bs 0 (s_sent so) r sent'"
    using send_loop_result [of "w_mem w" b off 0 bs "int (length bs)" "s_out so" "s_sent so"] assms(3)
    by fastforce
  obtain n where n: "n \<le> length bs" "sent' = s_sent so @ take n bs" "r = 0 + int n \<or> r = -1"
    using r(2) unfolding send_result_def by blast
  show thesis
    by (rule that [of r s' n]) (use assms(1,2) r(1) n in \<open>simp_all add: PynServerSendData_def sent_to_def\<close>)
qed

section \<open>The write handler\<close>

text \<open>A connection with a packet in its send buffer of which \<open>iSendCurLen\<close> bytes have gone out.\<close>

definition sending :: "world \<Rightarrow> nat \<Rightarrow> ConnFd \<Rightarrow> sock \<Rightarrow> buf \<Rightarrow> bool" where
  "sending w p c so pkt \<longleftrightarrow> conn_at w p c \<and> 0 < iFd c \<and> k_socks (w_kern w) (iFd c) = Some so
     \<and> mem_at (w_mem w) (block_of (pszSendBuf c)) 0 pkt \<and> iSendPacketLen c = int (length pkt)
     \<and> 0 \<le> iSendCurLen c \<and> iSendCurLen c < iSendPacketLen c"

lemma sending_rest:
  assumes "sending w p c so pkt"
  shows "mem_at (w_mem w) (block_of (pszSendBuf c)) (iSendCurLen c) (drop (nat (iSendCurLen c)) pkt)"
proof -
  have c: "mem_at (w_mem w) (block_of (pszSendBuf c)) 0 (take (nat (iSendCurLen c)) pkt @ drop (nat (iSendCurLen c)) pkt)"
    "iSendPacketLen c = int (length pkt)" "0 \<le> iSendCurLen c" "iSendCurLen c < iSendPacketLen c"
    using assms by (simp_all add: sending_def)
  then show ?thesis unfolding mem_at_append by (simp add: min_absorb2)
qed

text \<open>Its timer can be taken out of the heap when the connection is given up.\<close>

definition can_give_up :: "world \<Rightarrow> ConnFd \<Rightarrow> tptr list \<Rightarrow> bool" where
  "can_give_up w c ps \<longleftrightarrow> timers_ok w ps \<and> can_remove w ps (pstTimeoutEvent c)"

text \<open>
  The bytes \<open>bs\<close> have gone out and the connection has become \<open>c'\<close>, its descriptor watched
  for \<open>msk\<close>; nothing else has changed.
\<close>

definition sent_state :: "world \<Rightarrow> nat \<Rightarrow> ConnFd \<Rightarrow> sock \<Rightarrow> buf \<Rightarrow> net_out list \<Rightarrow> ConnFd \<Rightarrow> u32 \<Rightarrow> world \<Rightarrow> bool" where
  "sent_state w p c so bs s c' msk w' \<longleftrightarrow>
     k_socks (w_kern w') = (k_socks (w_kern w))(iFd c \<mapsto> so\<lparr>s_out := s, s_sent := s_sent so @ bs\<rparr>)
     \<and> w_conns w' = (w_conns w)(p \<mapsto> c') \<and> conn_at w' p c' \<and> w_mem w' = w_mem w \<and> w_tevs w' = w_tevs w
     \<and> slot_mask w' = (slot_mask w)(iFd c := msk)"

text \<open>The whole rest of the packet has gone out, and the write event is gone.\<close>

definition send_finished :: "world \<Rightarrow> nat \<Rightarrow> ConnFd \<Rightarrow> sock \<Rightarrow> buf \<Rightarrow> net_out list \<Rightarrow> world \<Rightarrow> bool" where
  "send_finished w p c so pkt s w' \<longleftrightarrow> sent_state w p c so (drop (nat (iSendCurLen c)) pkt) s
     (c\<lparr>iSendPacketLen := 0, iSendCurLen := 0\<rparr>) (slot_mask w (iFd c) AND NOT EVENT_WRITABLE) w'"

text \<open>
  The next bytes of the packet have gone out; either the connection waits for more room with the
  position moved on, or the packet is complete.
\<close>

definition send_progressed :: "world \<Rightarrow> nat \<Rightarrow> ConnFd \<Rightarrow> sock \<Rightarrow> buf \<Rightarrow> world \<Rightarrow> bool" where
  "send_progressed w p c so pkt w' \<longleftrightarrow> (\<exists>s. send_finished w p c so pkt s w' \<or>
     (\<exists>n < length pkt - nat (iSendCurLen c). sent_state w p c so (take n (drop (nat (iSendCurLen c)) pkt)) s
        (c\<lparr>iSendCurLen := iSendCurLen c + int n\<rparr>) (slot_mask w (iFd c)) w'))"

definition send_gave_up :: "world \<Rightarrow> nat \<Rightarrow> ConnFd \<Rightarrow> tptr list \<Rightarrow> world \<Rightarrow> bool" where
  "send_gave_up w p c ps w' \<longleftrightarrow> (\<exists>so' w1 qs. w1 = w\<lparr>w_kern := (w_kern w)\<lparr>k_socks := (k_socks (w_kern w))(iFd c \<mapsto> so')\<rparr>\<rparr>
     \<and> conn_released w1 p c ps w' qs)"

lemma send_stays:
  assumes c: "sending w p c so pkt" and lt: "n < length pkt - nat (iSendCurLen c)"
  shows "send_progressed w p c so pkt (put_conn (sent_to w (iFd c) so s (take n (drop (nat (iSendCurLen c)) pkt))) p
       (c\<lparr>iSendCurLen := iSendCurLen c + int n\<rparr>))" (is "send_progressed _ _ _ _ _ ?w'")
proof -
  have so: "k_socks (w_kern w) (iFd c) = Some so" using c by (simp add: sending_def)
  have v: "slot_mask ?w' = slot_mask w" "watched_by_kernel ?w' = watched_by_kernel w" "usable_fds ?w' = usable_fds w"
    by (rule view_cong_socks; use so in simp)+
  then have "conn_at ?w' p (c\<lparr>iSendCurLen := iSendCurLen c + int n\<rparr>)"
    using c bufs_ok_fields [of "w_mem w" c "c\<lparr>iSendCurLen := iSendCurLen c + int n\<rparr>"]
    by (simp add: conn_at_def sending_def)
  then show ?thesis
    unfolding send_progressed_def using lt v(1)
    by (intro exI [of _ s] disjI2 exI [of _ n]) (simp add: sent_state_def)
qed

lemma send_completes:
  assumes c: "sending w p c so pkt" and ep: "ep \<noteq> NULL"
    and w2: "w2 = put_conn (sent_to w (iFd c) so s (drop (nat (iSendCurLen c)) pkt)) p c1"
    and c1: "c1 = c\<lparr>iSendCurLen := iSendPacketLen c\<rparr>"
  obtains w3 where "EventDel w2 ep (iFd c) EVENT_WRITABLE = Inr (RET_SUCC, w3)"
    "send_finished w p c so pkt s (put_conn w3 p (c1\<lparr>iSendPacketLen := 0, iSendCurLen := 0\<rparr>))"
proof -
  let ?fd = "iFd c" and ?c' = "c\<lparr>iSendPacketLen := 0, iSendCurLen := 0\<rparr>"
  have c': "p \<noteq> NULL" "w_conns w p = Some c" "pstEventBase c \<noteq> NULL" "bufs_ok (w_mem w) c"
    "?fd \<in> usable_fds w" "in_sync (slot_mask w) (watched_by_kernel w)" "k_socks (w_kern w) ?fd = Some so"
    using c by (simp_all add: sending_def conn_at_def)
  have v: "slot_mask w2 = slot_mask w" "watched_by_kernel w2 = watched_by_kernel w" "usable_fds w2 = usable_fds w"
    by (rule view_cong_socks; use c'(7) in \<open>simp add: w2\<close>)+
  obtain eb sl where eb: "w_base w = Some eb" "get_slot eb ?fd = Inr sl" "0 \<le> ?fd"
    "?fd < int (length (pstFdEventsArray eb))" "slot_mask w ?fd = iMask sl" "?fd \<le> iFdEventArraySize eb"
    by (rule usableE [OF c'(5)])
  have sync2: "in_sync (slot_mask w2) (watched_by_kernel w2)" "?fd \<in> usable_fds w2" using c' v by simp_all
  let ?sl = "sl\<lparr>iMask := iMask sl AND NOT EVENT_WRITABLE\<rparr>"
  obtain k where k: "EventDel w2 ep ?fd EVENT_WRITABLE = Inr (RET_SUCC, reslot w2 eb ?fd ?sl k)"
    "interest_upd (w_kern w2) k ?fd (iMask sl AND NOT EVENT_WRITABLE)"
    using EventDel_form [OF sync2 ep, of eb sl EVENT_WRITABLE] eb(1,2) by (auto simp: w2)
  let ?w' = "put_conn (reslot w2 eb ?fd ?sl k) p ?c'"
  have mask: "slot_mask ?w' = (slot_mask w)(?fd := slot_mask w ?fd AND NOT EVENT_WRITABLE)"
    using slot_mask_put [OF eb(1,3,4), of ?sl k] eb(5) by (simp add: slot_mask_def fun_eq_iff)
  have "in_sync (slot_mask ?w') (watched_by_kernel ?w')"
    unfolding mask by (rule in_sync_upd [OF c'(6)])
      (use k(2) eb(5) w2 in \<open>simp add: watched_by_kernel_def interest_upd_def\<close>)
  moreover have "?fd \<in> usable_fds ?w'"
    using k(2) eb usable_at [OF c'(5) eb(1,2)] w2 by (simp add: usable_fds_def sock_is_open_def interest_upd_def)
  ultimately have at: "conn_at ?w' p ?c'"
    using c' w2 bufs_ok_fields [OF c'(4), of ?c'] by (simp add: conn_at_def)
  have "send_finished w p c so pkt s ?w'"
    unfolding send_finished_def sent_state_def using k(2) mask at w2 by (simp add: interest_upd_def)
  then show thesis by (intro that [OF k(1)]) (simp add: c1)
qed

lemma send_callback:
  assumes c: "sending w p c so pkt" and tm: "can_give_up w c ps" and ep: "ep \<noteq> NULL"
  shows "\<exists>w'. ProcessSendCallback w ep (iFd c) p = Inr w' \<and> (send_progressed w p c so pkt w' \<or> send_gave_up w p c ps w')"
proof -
  let ?fd = "iFd c" and ?cur = "nat (iSendCurLen c)"
  let ?rest = "drop ?cur pkt"
  have c': "p \<noteq> NULL" "w_conns w p = Some c" "conn_at w p c" "bufs_ok (w_mem w) c" "0 < ?fd" "k_socks (w_kern w) ?fd = Some so"
    "mem_at (w_mem w) (block_of (pszSendBuf c)) 0 pkt" "iSendPacketLen c = int (length pkt)"
    "0 \<le> iSendCurLen c" "iSendCurLen c < iSendPacketLen c"
    using c by (simp_all add: sending_def conn_at_def)
  obtain sb where sb: "pszSendBuf c = Ptr sb 0" by (rule bufs_okE [OF c'(4)])
  have at: "mem_at (w_mem w) sb (iSendCurLen c) ?rest" using sending_rest [OF c] sb by simp
  have len: "int (length ?rest) = iSendPacketLen c - iSendCurLen c" using c'(8-10) by simp
  obtain r s n where sd: "PynServerSendData w ?fd (Ptr sb (iSendCurLen c)) (int (length ?rest)) =
      Inr (r, sent_to w ?fd so s (take n ?rest))" "n \<le> length ?rest" "r = int n \<or> r = -1"
    by (rule SendData_result [OF c'(5,6) at])
  let ?w1 = "sent_to w ?fd so s (take n ?rest)"
  have pos: "\<not> iSendPacketLen c \<le> 0" using c'(9,10) by linarith
  have pre: "ProcessSendCallback w ep ?fd p = cbind (Inr (r, ?w1)) (\<lambda>(iRet, w1).
         if iRet < 0 then DestroyConn w1 p
         else let c1 = c\<lparr>iSendCurLen := iSendCurLen c + iRet\<rparr>; w2 = put_conn w1 p c1 in
           if iSendPacketLen c1 = iSendCurLen c1
           then cbind (EventDel w2 ep (iFd c1) EVENT_WRITABLE) (\<lambda>(r, w3).
                  if r = RET_FAIL then Inl (Exits (-1))
                  else Inr (put_conn w3 p (c1\<lparr>iSendPacketLen := 0, iSendCurLen := 0\<rparr>)))
           else Inr w2)"
    using c'(1,2,5) pos ep sb sd(1) unfolding len by (simp add: ProcessSendCallback_def)
  consider "r = -1" | "r = int n" "n < length ?rest" | "r = int n" "n = length ?rest" using sd(2,3) by linarith
  then show ?thesis
  proof cases
    case 1
    have v: "slot_mask ?w1 = slot_mask w" "watched_by_kernel ?w1 = watched_by_kernel w" "usable_fds ?w1 = usable_fds w"
      by (rule view_cong_socks; use c'(6) in simp)+
    have "conn_at ?w1 p c" using c'(3) v by (simp add: conn_at_def)
    then obtain w' qs where "DestroyConn ?w1 p = Inr w'" "conn_released ?w1 p c ps w' qs"
      using DestroyConn_releases [of ?w1 p c ps] tm timers_ok_cong [of ?w1 w ps] can_remove_cong [of ?w1 w ps]
      by (auto simp: can_give_up_def)
    then show ?thesis using pre 1 unfolding send_gave_up_def
      by (auto simp: sent_to_def)
  next
    case 2
    then have "iSendPacketLen c \<noteq> iSendCurLen c + r" using len by linarith
    then have "ProcessSendCallback w ep ?fd p = Inr (put_conn ?w1 p (c\<lparr>iSendCurLen := iSendCurLen c + int n\<rparr>))"
      using pre 2(1) by (simp add: Let_def)
    then show ?thesis using send_stays [OF c, of n s] 2 by auto
  next
    case 3
    let ?c1 = "c\<lparr>iSendCurLen := iSendPacketLen c\<rparr>"
    have cur: "iSendCurLen c + r = iSendPacketLen c" using 3 len by simp
    obtain w3 where w3: "EventDel (put_conn ?w1 p ?c1) ep ?fd EVENT_WRITABLE = Inr (RET_SUCC, w3)"
      "send_finished w p c so pkt s (put_conn w3 p (?c1\<lparr>iSendPacketLen := 0, iSendCurLen := 0\<rparr>))"
      by (rule send_completes [OF c ep, of "put_conn ?w1 p ?c1" s ?c1]) (use 3 in simp_all)
    have "ProcessSendCallback w ep ?fd p = Inr (put_conn w3 p (?c1\<lparr>iSendPacketLen := 0, iSendCurLen := 0\<rparr>))"
      using pre cur 3 w3(1) by (simp add: Let_def)
    then show ?thesis using w3(2) by (auto simp: send_progressed_def)
  qed
qed

section \<open>A socket that takes everything\<close>

lemma SendData_full:
  assumes "0 < fd" "k_socks (w_kern w) fd = Some so" "mem_at (w_mem w) b off bs"
    and "s_out so = Room r # rest" "bs \<noteq> []" "length bs \<le> r"
  shows "PynServerSendData w fd (Ptr b off) (int (length bs)) = Inr (int (length bs), sent_to w fd so rest bs)"
proof -
  have "sys_write (Room r # rest) (length bs) = (Got (length bs), rest)" using assms(6) by simp
  then have "send_loop (w_mem w) (Ptr b off) 0 (int (length bs)) (Room r # rest) (s_sent so)
      = Inr (int (length bs), rest, s_sent so @ bs)"
    using assms(5) mem_at_load [OF assms(3) refl]
    by (subst send_loop.simps) (simp add: send_loop.simps [of _ _ "int (length bs)"])
  then show ?thesis using assms(1,2,4) by (simp add: PynServerSendData_def sent_to_def)
qed

lemma send_callback_full:
  assumes c: "sending w p c so pkt" and ep: "ep \<noteq> NULL" and room: "s_out so = Room r # rest" "length pkt \<le> r"
  shows "\<exists>w'. ProcessSendCallback w ep (iFd c) p = Inr w' \<and> send_finished w p c so pkt rest w'"
proof -
  let ?fd = "iFd c" and ?cur = "nat (iSendCurLen c)" and ?c1 = "c\<lparr>iSendCurLen := iSendPacketLen c\<rparr>"
  let ?rest = "drop ?cur pkt"
  have c': "p \<noteq> NULL" "w_conns w p = Some c" "bufs_ok (w_mem w) c" "0 < ?fd" "k_socks (w_kern w) ?fd = Some so"
    "mem_at (w_mem w) (block_of (pszSendBuf c)) 0 pkt" "iSendPacketLen c = int (length pkt)"
    "0 \<le> iSendCurLen c" "iSendCurLen c < iSendPacketLen c"
    using c by (simp_all add: sending_def conn_at_def)
  obtain sb where sb: "pszSendBuf c = Ptr sb 0" by (rule bufs_okE [OF c'(3)])
  have at: "mem_at (w_mem w) sb (iSendCurLen c) ?rest" using sending_rest [OF c] sb by simp
  have len: "int (length ?rest) = iSendPacketLen c - iSendCurLen c" using c'(7-9) by simp
  have sd: "PynServerSendData w ?fd (Ptr sb (iSendCurLen c)) (int (length ?rest)) =
      Inr (int (length ?rest), sent_to w ?fd so rest ?rest)"
    by (rule SendData_full [OF c'(4,5) at room(1)]) (use c'(7-9) room(2) in auto)
  obtain w3 where w3: "EventDel (put_conn (sent_to w ?fd so rest ?rest) p ?c1) ep ?fd EVENT_WRITABLE = Inr (RET_SUCC, w3)"
    "send_finished w p c so pkt rest (put_conn w3 p (?c1\<lparr>iSendPacketLen := 0, iSendCurLen := 0\<rparr>))"
    by (rule send_completes [OF c ep refl refl])
  have pos: "\<not> iSendPacketLen c \<le> 0" using c'(8,9) by linarith
  have "ProcessSendCallback w ep ?fd p = Inr (put_conn w3 p (?c1\<lparr>iSendPacketLen := 0, iSendCurLen := 0\<rparr>))"
    using c'(1,2,4,9) pos ep sb sd w3(1) unfolding len by (simp add: ProcessSendCallback_def Let_def)
  then show ?thesis using w3(2) by blast
qed

end
