(* ===== verification/RecvErrors.thy ===== *)
theory RecvErrors
  imports PacketFlow
begin

text \<open>
  The ways a connection ends in the read handler, and the echo that does not fit the send buffer.
  In each case the connection is destroyed with everything it used.
\<close>

section \<open>Giving up a connection\<close>

text \<open>The state a connection is in when only its receive position and its bytes have changed.\<close>

definition received_some :: "world \<Rightarrow> nat \<Rightarrow> ConnFd \<Rightarrow> sock \<Rightarrow> bmem \<Rightarrow> net_in list \<Rightarrow> int \<Rightarrow> int \<Rightarrow> world" where
  "received_some w p c so m s cur len =
     put_conn (received w (iFd c) so m s) p (c\<lparr>iRecvCurLen := cur, iPacketLen := len\<rparr>)"

lemma received_some_view:
  assumes "k_socks (w_kern w) (iFd c) = Some so"
  shows "slot_mask (received_some w p c so m s cur len) = slot_mask w"
    "watched_by_kernel (received_some w p c so m s cur len) = watched_by_kernel w"
    "usable_fds (received_some w p c so m s cur len) = usable_fds w"
  by (rule view_cong_socks; use assms in \<open>simp add: received_some_def\<close>)+

lemma received_some_conn:
  assumes "conn_at w p c" "k_socks (w_kern w) (iFd c) = Some so" "mem_sized (w_mem w) m"
  shows "conn_at (received_some w p c so m s cur len) p (c\<lparr>iRecvCurLen := cur, iPacketLen := len\<rparr>)"
  using assms(1) received_some_view [OF assms(2), of p m s cur len]
    bufs_ok_sized [OF _ assms(3), of c "c\<lparr>iRecvCurLen := cur, iPacketLen := len\<rparr>"]
  by (simp add: conn_at_def) (simp add: received_some_def)

lemma received_some_gives_up:
  assumes c: "conn_at w p c" "k_socks (w_kern w) (iFd c) = Some so" "mem_sized (w_mem w) m"
    and tm: "timers_ok w ps" "can_remove w ps (pstTimeoutEvent c)"
  obtains w' qs where "DestroyConn (received_some w p c so m s cur len) p = Inr w'"
    "conn_released (received_some w p c so m s cur len) p (c\<lparr>iRecvCurLen := cur, iPacketLen := len\<rparr>) ps w' qs"
proof -
  let ?w = "received_some w p c so m s cur len"
  have tm': "timers_ok ?w ps" "can_remove ?w ps (pstTimeoutEvent (c\<lparr>iRecvCurLen := cur, iPacketLen := len\<rparr>))"
    using tm timers_ok_cong [of ?w w ps] can_remove_cong [of ?w w ps] by (simp_all add: received_some_def)
  show thesis
    using DestroyConn_releases [OF received_some_conn [OF c] tm'] that by blast
qed

section \<open>Rejected heads\<close>

text \<open>The heads the read handler does not accept, as the four bytes of the length arrived.\<close>

definition head_rejected :: "byte \<Rightarrow> u32 \<Rightarrow> bool" where
  "head_rejected soh len \<longleftrightarrow> soh \<noteq> PROTO_SOH \<or> sint len \<le> 13 \<or> 1024 * 1024 < sint len"

lemma recv_rejects_head:
  assumes c: "conn_at w p c" and wt: "head_waits w p c rb so bs" and hd: "take 5 bs = soh # htonl_bytes len"
    and bad: "head_rejected soh len" and tm: "timers_ok w ps" "can_remove w ps (pstTimeoutEvent c)" and ep: "ep \<noteq> NULL"
  obtains m s w' qs where "ProcessRecvCallback w ep (iFd c) p = Inr w'"
    "conn_released (received_some w p c so m s 5 (sint len)) p (c\<lparr>iRecvCurLen := 5, iPacketLen := sint len\<rparr>) ps w' qs"
proof -
  have wt': "p \<noteq> NULL" "w_conns w p = Some c" "pszRecvBuf c = Ptr rb 0" "iRecvCurLen c = 0" "0 \<le> iFd c"
    "k_socks (w_kern w) (iFd c) = Some so"
    using wt by (simp_all add: head_waits_def)
  obtain m where m: "recv_head w p = check_head (head_read w p c so bs m) p" "mem_sized (w_mem w) m"
    "mem_at m rb 0 (take 5 bs)" "load_byte m (Ptr rb 0) 0 = Inr soh" "load_bytes m (Ptr rb 1) 4 = Inr (htonl_bytes len)"
    by (rule head_arrives [OF wt hd])
  let ?s = "if length bs = 5 then [] else [Data (drop 5 bs)]"
  let ?w1 = "head_read w p c so bs m" and ?w2 = "received_some w p c so m ?s 5 (sint len)"
  have w2: "put_conn ?w1 p (c\<lparr>iRecvCurLen := 5, iPacketLen := sint len\<rparr>) = ?w2"
    by (simp add: head_read_def received_some_def)
  have w1: "w_conns ?w1 p = Some (c\<lparr>iRecvCurLen := 5\<rparr>)" "w_mem ?w1 = m" "w_mem ?w2 = m"
    by (simp_all add: head_read_def received_some_def)
  have "check_head ?w1 p = give_up ?w2 p"
    using wt'(1,3) m(4,5) w1 w2 bad
    by (auto simp: check_head_def packet_pos PACKET_MAX_LEN_def head_rejected_def Let_def)
  moreover obtain w' qs where d: "DestroyConn ?w2 p = Inr w'"
    "conn_released ?w2 p (c\<lparr>iRecvCurLen := 5, iPacketLen := sint len\<rparr>) ps w' qs"
    by (rule received_some_gives_up [OF c wt'(6) m(2) tm])
  ultimately have "ProcessRecvCallback w ep (iFd c) p = Inr w'"
    using wt'(1,2,4,5) ep m(1) by (simp add: ProcessRecvCallback_def PACKET_HEAD_LEN_def give_up_def)
  then show thesis by (rule that [OF _ d(2)])
qed

section \<open>A head that arrives alone\<close>

text \<open>
  The handler goes on to the body at once; the read finds nothing, its result 0 is taken for the end
  of the stream, and the connection is destroyed although the client has done nothing wrong.
\<close>

lemma recv_nothing:
  assumes "0 \<le> fd" "k_socks (w_kern w) fd = Some so" "s_in so = []" "0 < need"
  shows "PynServerRecvData w fd (Ptr b off) need = Inr (0, received w fd so (w_mem w) [])"
  using assms by (simp add: PynServerRecvData_def received_def recv_loop.simps)

lemma head_alone_destroys:
  assumes c: "conn_at w p c" and wt: "head_waits w p c rb so bs" and len: "length bs = 5"
    and hd: "bs = take 5 pkt" and pkt: "pkt = packet_bytes cmd seqno body"
    and small: "length pkt \<le> 4096" "int (length pkt) \<le> iRecvTotalLen c"
    and tm: "timers_ok w ps" "can_remove w ps (pstTimeoutEvent c)" and ep: "ep \<noteq> NULL"
  obtains m w' qs where "ProcessRecvCallback w ep (iFd c) p = Inr w'"
    "conn_released (received_some w p c so m [] 5 (int (length pkt))) p
       (c\<lparr>iRecvCurLen := 5, iPacketLen := int (length pkt)\<rparr>) ps w' qs"
proof -
  let ?n = "int (length pkt)" and ?c2 = "c\<lparr>iRecvCurLen := 5, iPacketLen := int (length pkt)\<rparr>"
  have wt': "p \<noteq> NULL" "w_conns w p = Some c" "pszRecvBuf c = Ptr rb 0" "iRecvCurLen c = 0" "0 \<le> iFd c"
    "k_socks (w_kern w) (iFd c) = Some so"
    using wt by (simp_all add: head_waits_def)
  obtain m where m: "recv_head w p = Inr (True, put_conn (head_read w p c so bs m) p ?c2)" "mem_sized (w_mem w) m"
    by (rule recv_head_accepts [OF wt _ pkt small]) (use hd len in simp_all)
  let ?w2 = "received_some w p c so m [] 5 ?n"
  have w2: "put_conn (head_read w p c so bs m) p ?c2 = ?w2"
    using len by (simp add: head_read_def received_some_def)
  have n: "14 \<le> ?n" by (simp add: pkt)
  have same: "received ?w2 (iFd c) (so\<lparr>s_in := []\<rparr>) (w_mem ?w2) [] = ?w2"
    by (simp add: received_some_def received_def put_conn_def)
  have no_data: "PynServerRecvData ?w2 (iFd c) (Ptr rb 5) need = Inr (0, ?w2)" if "0 < need" for need
    using recv_nothing [of "iFd c" ?w2 "so\<lparr>s_in := []\<rparr>" need rb 5] wt'(5) same that by (simp add: received_some_def)
  have conn: "w_conns ?w2 p = Some ?c2" by (simp add: received_some_def)
  have body: "recv_body ?w2 ep p = DestroyConn ?w2 p"
  proof -
    have pos: "0 < ?n - 5" "\<not> ?n \<le> 0" "\<not> 4096 < ?n - 5" using n small(1) by linarith+
    show ?thesis using wt'(1,3) conn pos(2,3) no_data [OF pos(1)] by (simp add: recv_body_def del: of_nat_le_0_iff)
  qed
  obtain w' qs where d: "DestroyConn ?w2 p = Inr w'" "conn_released ?w2 p ?c2 ps w' qs"
    by (rule received_some_gives_up [OF c wt'(6) m(2) tm])
  have "ProcessRecvCallback w ep (iFd c) p = Inr w'"
    using wt'(1,2,4,5) ep m(1) w2 body d(1) by (simp add: ProcessRecvCallback_def PACKET_HEAD_LEN_def)
  then show thesis by (rule that [OF _ d(2)])
qed

section \<open>An echo that does not fit\<close>

lemma SendBackEcho_overflows:
  assumes "p \<noteq> NULL" "w_conns w p = Some c" "pszRecvBuf c = Ptr rb 0" "pszSendBuf c = Ptr sb 0"
    and "mem_at (w_mem w) rb 0 pkt" "iPacketLen c = int (length pkt)"
    and "w_mem w sb = Some sbs" "length sbs < length pkt" "rb \<noteq> sb"
  shows "SendBackEcho w p = undef OutOfBounds"
proof -
  have "c_memcpy (w_mem w) (Ptr sb 0) (Ptr rb 0) (int (length pkt)) = undef OutOfBounds"
    using assms(7-9) mem_at_load [OF assms(5)] by (simp add: c_memcpy_def c_memmove_def store_bytes_def mem_copy_def)
  then show ?thesis using assms(1-4,6) by (simp add: SendBackEcho_def)
qed

lemma echo_overflows:
  assumes wt: "packet_partly w p c rb so pkt" and pkt: "pkt = packet_bytes CMD_TEST_ECHO seqno body"
    and sb: "pszSendBuf c = Ptr sb 0" "w_mem w sb = Some sbs" "length sbs < length pkt" "rb \<noteq> sb"
    and small: "int (length pkt) \<le> INT_MAX" and mal: "w_malloc w = []" and ep: "ep \<noteq> NULL"
  shows "ProcessRecvCallback w ep (iFd c) p = undef OutOfBounds"
proof -
  have wt': "p \<noteq> NULL" "w_conns w p = Some c" "pszRecvBuf c = Ptr rb 0" "0 \<le> iFd c"
    "iPacketLen c = int (length pkt)" "5 \<le> iRecvCurLen c"
    using wt by (simp_all add: packet_partly_def)
  obtain m where m: "recv_body w ep p = finish_packet (put_conn (received w (iFd c) so m []) p
       (c\<lparr>iRecvCurLen := int (length pkt)\<rparr>)) ep p" "mem_sized (w_mem w) m" "mem_at m rb 0 pkt"
    by (rule recv_body_completes [OF wt])
  let ?c1 = "c\<lparr>iRecvCurLen := int (length pkt)\<rparr>"
  let ?w1 = "put_conn (received w (iFd c) so m []) p ?c1"
  have "map_option length (m sb) = Some (length sbs)" using m(2) sb(2) by (simp add: mem_sized_def)
  then obtain sbs' where sbs': "m sb = Some sbs'" "length sbs' < length pkt" using sb(3) by auto
  have "ProcessEntirePacket ?w1 p = cbind (SendBackEcho ?w1 p) (\<lambda>(_, w2). Inr (RET_SUCC, w2))"
    by (rule process_echo [of ?w1 p ?c1 rb pkt seqno body]) (use wt'(1,3) m(3) pkt small mal in simp_all)
  moreover have "SendBackEcho ?w1 p = undef OutOfBounds"
    by (rule SendBackEcho_overflows [of p ?w1 ?c1 rb sb pkt sbs']) (use wt'(1,3,5) sb(1,4) m(3) sbs' in simp_all)
  ultimately have "finish_packet ?w1 ep p = undef OutOfBounds" by (simp add: finish_packet_def)
  then show ?thesis
    using wt'(1,2,4,6) ep m(1) by (simp add: ProcessRecvCallback_def PACKET_HEAD_LEN_def)
qed

end
