(* ===== verification/Dispatch.thy ===== *)
theory Dispatch
  imports Handlers
begin

text \<open>
  The event loop of \<open>src/reactor.c\<close>: firing the timers that are due, delivering one event to the
  handlers of its slot, one turn of the loop, and the loop over the answers of \<open>epoll_wait\<close>.
\<close>

definition run_timeout_callback :: "world \<Rightarrow> TimeoutProcCallback \<Rightarrow> int \<Rightarrow> nat \<Rightarrow> world outcome" where
  "run_timeout_callback w cb pid arg = (case cb of ConnectionTimeoutCallback \<Rightarrow>
     ConnectionTimeoutCallback_run w pid arg)"

text \<open>The loop of \<open>ReactorProcessTimeoutEvent\<close>, with fuel for its turns.\<close>

fun timeout_loop :: "nat \<Rightarrow> world \<Rightarrow> nat \<Rightarrow> (int \<times> world) outcome" where
  "timeout_loop 0 w ep = Inl Diverges"
| "timeout_loop (Suc n) w ep = cbind (get_base w ep) (\<lambda>eb.
     cbind (time_cache eb) (\<lambda>cur.
     cbind (MinheapGetTopElement (pstHeapHeader eb)) (\<lambda>top.
       if top = NULL then Inr (RET_SUCC, w)
       else cbind (tev_get (w_tevs w) top) (\<lambda>e.
         if minheap_timercmp (stTimeout e) cur (>) then Inr (RET_SUCC, w)
         else cbind (MinheapPop (heap_of w eb)) (\<lambda>(_, h).
           let w1 = put_heap w eb h in
           cbind (tev_get (w_tevs w1) top) (\<lambda>e1.
           cbind (case pFunTimeoutProcCallback e1 of None \<Rightarrow> Inr w1
                  | Some cb \<Rightarrow> run_timeout_callback w1 cb (te_iPid e1) (pstCallbackArg e1)) (\<lambda>w2.
             timeout_loop n w2 ep)))))))"

text \<open>Every turn takes a node out of the heap; one more turn finds nothing that is due.\<close>

definition ReactorProcessTimeoutEvent :: "world \<Rightarrow> nat \<Rightarrow> (int \<times> world) outcome" where
  "ReactorProcessTimeoutEvent w ep = (if ep = NULL then Inr (RET_FAIL, w)
     else cbind (get_base w ep) (\<lambda>eb. case pstTimeCache eb of None \<Rightarrow> Inr (RET_FAIL, w)
       | Some t \<Rightarrow> timeout_loop (nat (MinheapGetCurSize (pstHeapHeader eb)) + 1) w ep))"

definition run_event_callback :: "world \<Rightarrow> EventCallbackProc \<Rightarrow> nat \<Rightarrow> int \<Rightarrow> nat \<Rightarrow> world outcome" where
  "run_event_callback w cb ep fd arg = (case cb of
       CbNull \<Rightarrow> undef NullDeref
     | CbWild \<Rightarrow> undef Indeterminate
     | AcceptProc \<Rightarrow> ProcessAcceptCallback w ep fd arg
     | RecvProc \<Rightarrow> ProcessRecvCallback w ep fd arg
     | SendProc \<Rightarrow> ProcessSendCallback w ep fd arg)"

text \<open>
  One event of \<open>epoll_wait\<close>: the slot is read again before the write handler is called, because
  the read handler may have changed it.
\<close>

definition triggered :: "u32 \<Rightarrow> u32" where
  "triggered events =
     (if events AND EPOLLIN \<noteq> 0 then EVENT_READABLE else 0) OR
     (if events AND EPOLLOUT \<noteq> 0 \<or> events AND EPOLLHUP \<noteq> 0 \<or> events AND EPOLLERR \<noteq> 0
      then EVENT_WRITABLE else 0)"

definition deliver_event :: "world \<Rightarrow> nat \<Rightarrow> int \<times> u32 \<Rightarrow> world outcome" where
  "deliver_event w ep ev = (case ev of (fd, events) \<Rightarrow>
     cbind (get_base w ep) (\<lambda>eb. cbind (get_slot eb fd) (\<lambda>sl.
     cbind (if iMask sl AND triggered events AND EVENT_READABLE \<noteq> 0
            then run_event_callback w (pFunEventCallbackRead sl) ep fd (pstArg sl) else Inr w) (\<lambda>w1.
     cbind (get_base w1 ep) (\<lambda>eb1. cbind (get_slot eb1 fd) (\<lambda>sl1.
       if iMask sl1 AND triggered events AND EVENT_WRITABLE \<noteq> 0
       then run_event_callback w1 (pFunEventCallbackWrite sl1) ep fd (pstArg sl1) else Inr w1))))))"

fun deliver_events :: "world \<Rightarrow> nat \<Rightarrow> (int \<times> u32) list \<Rightarrow> world outcome" where
  "deliver_events w ep [] = Inr w"
| "deliver_events w ep (ev # evs) = cbind (deliver_event w ep ev) (\<lambda>w1. deliver_events w1 ep evs)"

text \<open>An answer of \<open>epoll_wait\<close> (the events, or an error) and the time of the clock after it.\<close>

record epoll_reply =
  er_events :: "(int \<times> u32) list option"
  er_now :: timeval

text \<open>The milliseconds passed to \<open>epoll_wait\<close>: a \<open>long\<close> assigned to an \<open>int\<close>.\<close>

definition wait_msec :: "int \<Rightarrow> timeval option \<Rightarrow> int" where
  "wait_msec r saved = (if r < 0 then -1 else case saved of None \<Rightarrow> -1
     | Some t \<Rightarrow> sint (word_of_int (tv_sec t * 1000 + (tv_usec t + 999) sdiv 1000) :: u32))"

definition loop_turn :: "world \<Rightarrow> nat \<Rightarrow> epoll_reply \<Rightarrow> (int \<times> world) outcome" where
  "loop_turn w ep reply = cbind (GetEPollwaitTimeoutValue w ep False) (\<lambda>(r, saved, w1).
     let wait = wait_msec r saved; w2 = w1\<lparr>w_now := er_now reply\<rparr> in
     cbind (get_base w2 ep) (\<lambda>eb.
     let w3 = put_base w2 (eb\<lparr>pstTimeCache := Some (er_now reply)\<rparr>) in
     case er_events reply of None \<Rightarrow> Inr (wait, w3)
     | Some evs \<Rightarrow> cbind (deliver_events w3 ep evs) (\<lambda>w4.
         cbind (ReactorProcessTimeoutEvent w4 ep) (\<lambda>(_, w5). Inr (wait, w5)))))"

text \<open>
  The loop, over the answers it will get: it returns \<open>True\<close> when the stop sign ends it, and
  \<open>False\<close> when it still runs after the last answer.
\<close>

fun ReactorEventDispatchLoop :: "world \<Rightarrow> nat \<Rightarrow> epoll_reply list \<Rightarrow> (bool \<times> world) outcome" where
  "ReactorEventDispatchLoop w ep replies = (if ep = NULL then Inr (True, w)
     else cbind (get_base w ep) (\<lambda>eb.
       if iStopSign eb \<noteq> 0 then Inr (True, w)
       else case replies of [] \<Rightarrow> Inr (False, w)
         | reply # rest \<Rightarrow> cbind (loop_turn w ep reply) (\<lambda>(_, w1). ReactorEventDispatchLoop w1 ep rest)))"

declare ReactorEventDispatchLoop.simps [simp del]

end
