(* ===== verification/TimeoutService.thy ===== *)
theory TimeoutService
  imports ConnLife Dispatch
begin

text \<open>
  The server in order: every connection is whole, its timer is in the heap and points back to it, and
  no two connections share a descriptor, a timer or a buffer.  The timeout service of
  \<open>src/reactor.c\<close> keeps the server in order and destroys exactly the connections that are due.
\<close>

section \<open>The server in order\<close>

definition conns_apart :: "ConnFd \<Rightarrow> ConnFd \<Rightarrow> bool" where
  "conns_apart c d \<longleftrightarrow> iFd c \<noteq> iFd d \<and> pstTimeoutEvent c \<noteq> pstTimeoutEvent d \<and> conn_blocks c \<inter> conn_blocks d = {}"

text \<open>A timer node that runs the timeout callback on the connection \<open>p\<close>.\<close>

definition times_out :: "tev_store \<Rightarrow> tptr \<Rightarrow> nat \<Rightarrow> bool" where
  "times_out S t p \<longleftrightarrow> (case S t of None \<Rightarrow> False
     | Some e \<Rightarrow> pstCallbackArg e = p \<and> pFunTimeoutProcCallback e = Some ConnectionTimeoutCallback)"

definition conn_ok :: "world \<Rightarrow> nat \<Rightarrow> bool" where
  "conn_ok w p \<longleftrightarrow> (case w_conns w p of None \<Rightarrow> False | Some c \<Rightarrow>
     p \<noteq> NULL \<and> pstEventBase c \<noteq> NULL \<and> bufs_ok (w_mem w) c \<and> iFd c \<in> usable_fds w
     \<and> pstTimeoutEvent c \<noteq> NULL \<and> times_out (w_tevs w) (pstTimeoutEvent c) p)"

definition timer_of :: "world \<Rightarrow> nat \<Rightarrow> tptr" where
  "timer_of w p = (case w_conns w p of None \<Rightarrow> NULL | Some c \<Rightarrow> pstTimeoutEvent c)"

definition server_ok :: "world \<Rightarrow> tptr list \<Rightarrow> nat set \<Rightarrow> bool" where
  "server_ok w ps ids \<longleftrightarrow> timers_ok w ps \<and> in_sync (slot_mask w) (watched_by_kernel w)
     \<and> (\<forall>p \<in> ids. conn_ok w p)
     \<and> (\<forall>p \<in> ids. \<forall>q \<in> ids. p \<noteq> q \<longrightarrow> conns_apart (the (w_conns w p)) (the (w_conns w q)))
     \<and> set ps = timer_of w ` ids"

text \<open>When the connection at an address times out.\<close>

definition due_of :: "world \<Rightarrow> nat \<Rightarrow> timeval" where
  "due_of w p = key_of (w_tevs w) (timer_of w p)"

lemma conn_okE:
  assumes "conn_ok w p"
  obtains c where "w_conns w p = Some c" "p \<noteq> NULL" "pstEventBase c \<noteq> NULL" "bufs_ok (w_mem w) c"
    "iFd c \<in> usable_fds w" "pstTimeoutEvent c \<noteq> NULL" "times_out (w_tevs w) (pstTimeoutEvent c) p"
    "timer_of w p = pstTimeoutEvent c"
  using assms by (auto simp: conn_ok_def timer_of_def split: option.splits)

lemma times_out_same:
  assumes "same_nodes S S'" shows "times_out S' t p = times_out S t p"
proof (cases "S t")
  case None
  then show ?thesis using same_nodes_None [OF assms, of t] by (simp add: times_out_def)
next
  case (Some e)
  then obtain i where "S' t = Some (e\<lparr>iHeapIndex := i\<rparr>)" by (rule same_nodes_Some [OF assms])
  then show ?thesis using Some by (simp add: times_out_def)
qed

lemma server_ok_finite:
  assumes "server_ok w ps ids"
  shows "finite ids" "length ps = card ids"
proof -
  have "inj_on (timer_of w) ids"
  proof (rule inj_onI, rule ccontr)
    fix p q assume pq: "p \<in> ids" "q \<in> ids" "timer_of w p = timer_of w q" "p \<noteq> q"
    obtain c d where "w_conns w p = Some c" "w_conns w q = Some d"
      using assms pq(1,2) conn_okE by (metis server_ok_def)
    moreover have "conns_apart (the (w_conns w p)) (the (w_conns w q))" using assms pq by (simp add: server_ok_def)
    ultimately show False using pq(3) by (simp add: conns_apart_def timer_of_def)
  qed
  moreover have s: "timer_of w ` ids = set ps" using assms by (simp add: server_ok_def)
  ultimately show "finite ids" by (metis List.finite_set finite_imageD)
  obtain H S where "heap_rep H S ps" using assms by (auto simp: server_ok_def elim: timers_okE)
  then have "length ps = card (set ps)" using heap_repD(4) distinct_card by metis
  then show "length ps = card ids" using card_image [OF \<open>inj_on (timer_of w) ids\<close>] s by simp
qed

section \<open>Taking the earliest timer\<close>

text \<open>A heap operation changes nothing of a connection.\<close>

lemma put_heap_view:
  assumes "w_base w = Some eb"
  shows "slot_mask (put_heap w eb st) = slot_mask w" "watched_by_kernel (put_heap w eb st) = watched_by_kernel w"
    "usable_fds (put_heap w eb st) = usable_fds w"
  using assms by (simp_all add: slot_mask_def watched_by_kernel_def usable_fds_def fun_eq_iff)

lemma pop_due:
  assumes s: "server_ok w ps ids" and eb: "w_base w = Some eb" "pstTimeCache eb = Some now" and ne: "ps \<noteq> []"
  obtains p c H' S' qs e where "p \<in> ids" "w_conns w p = Some c" "ps ! 0 = pstTimeoutEvent c"
    "MinheapGetTopElement (pstHeapHeader eb) = Inr (ps ! 0)" "w_tevs w (ps ! 0) = Some e" "stTimeout e = due_of w p"
    "\<forall>q \<in> ids. due_of w p \<le> due_of w q"
    "MinheapPop (heap_of w eb) = Inr (ps ! 0, \<lparr>hs_hdr = Some H', hs_tevs = S'\<rparr>)"
    "heap_rep H' S' qs" "set qs = set ps - {ps ! 0}" "same_nodes (w_tevs w) S'"
    "can_remove (put_heap w eb \<lparr>hs_hdr = Some H', hs_tevs = S'\<rparr>) qs (ps ! 0)"
    "heap_cap (put_heap w eb \<lparr>hs_hdr = Some H', hs_tevs = S'\<rparr>) = heap_cap w"
proof -
  obtain H where H: "pstHeapHeader eb = Some H" "heap_rep H (w_tevs w) ps"
    using s eb(1) by (auto simp: server_ok_def elim: timers_okE)
  have top: "ps ! 0 \<in> set ps" using ne by simp
  then obtain p where p: "p \<in> ids" "ps ! 0 = timer_of w p" using s by (auto simp: server_ok_def)
  obtain c where c: "w_conns w p = Some c" "timer_of w p = pstTimeoutEvent c"
    by (rule conn_okE [of w p]) (use s p(1) in \<open>simp_all add: server_ok_def\<close>)
  obtain e where e: "w_tevs w (ps ! 0) = Some e" using heap_rep_node(2) [OF H(2) top] by blast
  obtain H' S' qs e' where q: "MinheapPop (heap_of w eb) = Inr (ps ! 0, \<lparr>hs_hdr = Some H', hs_tevs = S'\<rparr>)"
    "heap_rep H' S' qs" "mset qs = mset ps - {#ps ! 0#}" "same_nodes (w_tevs w) S'"
    "S' (ps ! 0) = Some e'" "iHeapIndex e' = -1" "iNodeCapacity H' = iNodeCapacity H"
    using Pop_rep [of "heap_of w eb" H ps] H ne by auto
  have sq: "set qs = set ps - {ps ! 0}" by (rule set_mset_diff [OF q(3) heap_repD(4) [OF H(2)]])
  have least: "\<forall>q \<in> ids. due_of w p \<le> due_of w q"
  proof
    fix q assume "q \<in> ids"
    then have "timer_of w q \<in> set ps" using s by (simp add: server_ok_def)
    then show "due_of w p \<le> due_of w q" using top_le [OF H(2)] p(2) by (simp add: due_of_def)
  qed
  have "can_remove (put_heap w eb \<lparr>hs_hdr = Some H', hs_tevs = S'\<rparr>) qs (ps ! 0)"
    using q(5,6) sq heap_rep_node(1) [OF H(2) top] by (simp add: can_remove_def)
  moreover have "heap_cap (put_heap w eb \<lparr>hs_hdr = Some H', hs_tevs = S'\<rparr>) = heap_cap w"
    using q(7) H(1) eb(1) by (simp add: heap_cap_def)
  ultimately show thesis
    by (intro that [OF p(1) c(1) _ _ e _ least q(1,2) sq q(4)])
       (use p(2) c(2) e GetTop_rep [OF H(2)] H(1) ne in \<open>simp_all add: due_of_def key_of_def\<close>)
qed

section \<open>One expired connection\<close>

text \<open>The server without one connection.\<close>

lemma conn_ok_kept:
  assumes rel: "conn_released w p c ps w' qs" and ok: "conn_ok w q" "q \<noteq> p"
    and ap: "conns_apart c (the (w_conns w q))"
  shows "conn_ok w' q" "w_conns w' q = w_conns w q" "due_of w' q = due_of w q"
proof -
  obtain d where d: "w_conns w q = Some d" "q \<noteq> NULL" "pstEventBase d \<noteq> NULL" "bufs_ok (w_mem w) d"
    "iFd d \<in> usable_fds w" "pstTimeoutEvent d \<noteq> NULL" "times_out (w_tevs w) (pstTimeoutEvent d) q"
    by (rule conn_okE [OF ok(1)])
  have r: "w_conns w' = (w_conns w)(p := None)" "w_mem w' = freed_mem (w_mem w) c"
    "same_nodes ((w_tevs w)(pstTimeoutEvent c := None)) (w_tevs w')" "usable_fds w' = usable_fds w - {iFd c}"
    using rel by (simp_all add: conn_released_def)
  have ap': "iFd c \<noteq> iFd d" "pstTimeoutEvent c \<noteq> pstTimeoutEvent d" "conn_blocks c \<inter> conn_blocks d = {}"
    using ap d(1) by (simp_all add: conns_apart_def)
  show w': "w_conns w' q = w_conns w q" using r(1) ok(2) by simp
  obtain rb sb rbs sbs where b: "pszRecvBuf d = Ptr rb 0" "pszSendBuf d = Ptr sb 0" "rb \<noteq> sb"
    by (rule bufs_okE [OF d(4)])
  have "w_mem w' rb = w_mem w rb" "w_mem w' sb = w_mem w sb"
    using ap'(3) b by (auto simp: r(2) freed_mem_def conn_blocks_def)
  then have "bufs_ok (w_mem w') d" using d(4) b by (simp add: bufs_ok_def)
  moreover have "times_out (w_tevs w') (pstTimeoutEvent d) q"
    using times_out_same [OF r(3), of "pstTimeoutEvent d" q] d(7) ap'(2) by (simp add: times_out_def)
  ultimately show "conn_ok w' q" using d r(4) ap'(1) w' by (simp add: conn_ok_def)
  show "due_of w' q = due_of w q"
    using same_nodes_key [OF r(3), of "pstTimeoutEvent d"] ap'(2) w' d(1) by (simp add: due_of_def timer_of_def key_of_def)
qed

lemma server_ok_released:
  assumes s: "server_ok w ps ids" and p: "p \<in> ids" "w_conns w p = Some c"
    and w1: "w_conns w1 = w_conns w" "\<forall>q \<in> ids. conn_ok w1 q" and rel: "conn_released w1 p c ps1 w' qs"
    and qs: "set qs = set ps - {pstTimeoutEvent c}"
  shows "server_ok w' qs (ids - {p})" "\<forall>q \<in> ids - {p}. w_conns w' q = w_conns w q"
    "\<forall>q \<in> ids - {p}. due_of w' q = due_of w1 q"
proof -
  have apart: "conns_apart c (the (w_conns w1 q))" if "q \<in> ids - {p}" for q
    using s p that w1(1) by (auto simp: server_ok_def)
  have kept: "conn_ok w' q" "w_conns w' q = w_conns w q" "due_of w' q = due_of w1 q" if "q \<in> ids - {p}" for q
    using conn_ok_kept [OF rel _ _ apart [OF that]] w1 that by auto
  then show "\<forall>q \<in> ids - {p}. w_conns w' q = w_conns w q" "\<forall>q \<in> ids - {p}. due_of w' q = due_of w1 q" by auto
  have tm: "timer_of w' q = timer_of w q" if "q \<in> ids - {p}" for q using kept(2) [OF that] by (simp add: timer_of_def)
  have "timer_of w q \<noteq> pstTimeoutEvent c" if q: "q \<in> ids - {p}" for q
  proof -
    obtain d where "w_conns w1 q = Some d" by (rule conn_okE [of w1 q]) (use w1 q in auto)
    then show ?thesis using apart [OF q] w1(1) by (simp add: timer_of_def conns_apart_def)
  qed
  then have "timer_of w ` (ids - {p}) = timer_of w ` ids - {pstTimeoutEvent c}"
    using p by (auto simp: timer_of_def)
  moreover have "timer_of w' ` (ids - {p}) = timer_of w ` (ids - {p})" using tm by (rule image_cong [OF refl])
  ultimately have set: "set qs = timer_of w' ` (ids - {p})" using s qs by (simp add: server_ok_def)
  then show "server_ok w' qs (ids - {p})"
    using s rel kept by (auto simp: server_ok_def conn_released_def)
qed

section \<open>The loop\<close>

lemma set_due_times:
  assumes "due_times w' qs = (due_times w ps)(t := None)"
  shows "set qs = set ps - {t}"
proof -
  have "q \<in> set qs \<longleftrightarrow> q \<in> set ps - {t}" for q
    using fun_cong [OF assms, of q] by (auto simp: due_times_def timer_table_def split: if_splits)
  then show ?thesis by blast
qed

text \<open>One turn: the earliest timer is due, and its connection is destroyed.\<close>

lemma expire_one:
  assumes s: "server_ok w ps ids" and eb: "w_base w = Some eb" "pstTimeCache eb = Some now" and ep: "ep \<noteq> NULL"
    and some: "\<exists>p \<in> ids. due_of w p \<le> now"
  obtains p w' qs where "p \<in> ids" "due_of w p \<le> now" "\<forall>n. timeout_loop (Suc n) w ep = timeout_loop n w' ep"
    "server_ok w' qs (ids - {p})" "map_option pstTimeCache (w_base w') = Some (Some now)"
    "w_conns w' = (w_conns w)(p := None)" "\<forall>q \<in> ids - {p}. due_of w' q = due_of w q" "card (set qs) < card (set ps)"
    "\<exists>c st ps1. w_conns w p = Some c \<and> conn_released (put_heap w eb st) p c ps1 w' qs
       \<and> heap_cap (put_heap w eb st) = heap_cap w \<and> same_nodes (w_tevs w) (hs_tevs st)
       \<and> set ps1 = set ps - {pstTimeoutEvent c}"
proof -
  have ne: "ps \<noteq> []" using s some by (auto simp: server_ok_def)
  obtain p c H' S' qs e where p: "p \<in> ids" "w_conns w p = Some c" "ps ! 0 = pstTimeoutEvent c"
    "MinheapGetTopElement (pstHeapHeader eb) = Inr (ps ! 0)" "w_tevs w (ps ! 0) = Some e" "stTimeout e = due_of w p"
    "\<forall>q \<in> ids. due_of w p \<le> due_of w q"
    "MinheapPop (heap_of w eb) = Inr (ps ! 0, \<lparr>hs_hdr = Some H', hs_tevs = S'\<rparr>)"
    "heap_rep H' S' qs" "set qs = set ps - {ps ! 0}" "same_nodes (w_tevs w) S'"
    "can_remove (put_heap w eb \<lparr>hs_hdr = Some H', hs_tevs = S'\<rparr>) qs (ps ! 0)"
    "heap_cap (put_heap w eb \<lparr>hs_hdr = Some H', hs_tevs = S'\<rparr>) = heap_cap w"
    by (rule pop_due [OF s eb ne])
  let ?t = "ps ! 0" and ?w1 = "put_heap w eb \<lparr>hs_hdr = Some H', hs_tevs = S'\<rparr>"
  have due: "due_of w p \<le> now" using some p(7) by auto
  note v = put_heap_view [OF eb(1), of "\<lparr>hs_hdr = Some H', hs_tevs = S'\<rparr>"]
  have ok1: "\<forall>q \<in> ids. conn_ok ?w1 q"
    using s v(3) times_out_same [OF p(11)] by (simp add: server_ok_def conn_ok_def split: option.splits)
  have okp: "p \<noteq> NULL" "conn_at w p c" "times_out (w_tevs w) ?t p" "?t \<noteq> NULL"
    using s p(1,2,3) by (simp_all add: server_ok_def conn_at_def) (auto elim!: conn_okE dest!: bspec [of ids])
  have c1: "conn_at ?w1 p c" using okp(2) v by (simp add: conn_at_def)
  obtain e1 where e1: "S' ?t = Some e1" "pstCallbackArg e1 = p" "pFunTimeoutProcCallback e1 = Some ConnectionTimeoutCallback"
    using times_out_same [OF p(11), of ?t p] okp(3) by (auto simp: times_out_def split: option.splits)
  obtain w' qs' where d: "DestroyConn ?w1 p = Inr w'" "conn_released ?w1 p c qs w' qs'"
    using DestroyConn_releases [OF c1 timers_ok_put_heap [OF p(9)]] p(3,12) by auto
  have "\<not> now < due_of w p" using due by simp
  then have step: "\<forall>n. timeout_loop (Suc n) w ep = timeout_loop n w' ep"
    using eb ep p(2,4,5,6,8) okp(1,4) e1 d(1)
    by (simp add: time_cache_def run_timeout_callback_def ConnectionTimeoutCallback_run_def get_base_def tev_get_def get_conn_def)
  have "due_times w' qs' = (due_times ?w1 qs)(pstTimeoutEvent c := None)" using d(2) by (simp add: conn_released_def)
  then have qs': "set qs' = set ps - {pstTimeoutEvent c}" using set_due_times p(3,10) by simp
  note rel = server_ok_released [OF s p(1,2) _ ok1 d(2) qs']
  have keys: "due_of ?w1 q = due_of w q" for q
    using same_nodes_key [OF p(11)] by (simp add: due_of_def timer_of_def)
  have card: "card (set qs') < card (set ps)"
    unfolding qs' by (rule card_Diff1_less) (use p(3) ne nth_mem [of 0 ps] in simp_all)
  have cache: "map_option pstTimeCache (w_base w') = Some (Some now)"
    by (rule conn_released_base [OF d(2)]) (use eb in \<open>auto simp: base_view_def\<close>)
  have how: "\<exists>c st ps1. w_conns w p = Some c \<and> conn_released (put_heap w eb st) p c ps1 w' qs'
       \<and> heap_cap (put_heap w eb st) = heap_cap w \<and> same_nodes (w_tevs w) (hs_tevs st)
       \<and> set ps1 = set ps - {pstTimeoutEvent c}"
    using p(2,3,10,11,13) d(2) by (metis heap_state.select_convs(2))
  show thesis
    by (rule that [OF p(1) due step rel(1) cache _ _ card how])
       (use rel(3) keys d(2) in \<open>simp_all add: conn_released_def\<close>)
qed

lemma expire_none:
  assumes s: "server_ok w ps ids" and eb: "w_base w = Some eb" "pstTimeCache eb = Some now" and ep: "ep \<noteq> NULL"
    and none: "\<forall>p \<in> ids. now < due_of w p"
  shows "timeout_loop (Suc n) w ep = Inr (RET_SUCC, w)"
proof (cases "ps = []")
  case True
  obtain H where H: "pstHeapHeader eb = Some H" "heap_rep H (w_tevs w) ps"
    using s eb(1) by (auto simp: server_ok_def elim: timers_okE)
  then show ?thesis using True eb ep GetTop_rep [OF H(2)] by (simp add: get_base_def time_cache_def)
next
  case False
  obtain p c H' S' qs e where p: "p \<in> ids" "w_conns w p = Some c" "ps ! 0 = pstTimeoutEvent c"
    "MinheapGetTopElement (pstHeapHeader eb) = Inr (ps ! 0)" "w_tevs w (ps ! 0) = Some e" "stTimeout e = due_of w p"
    "can_remove (put_heap w eb \<lparr>hs_hdr = Some H', hs_tevs = S'\<rparr>) qs (ps ! 0)"
    by (rule pop_due [OF s eb False])
  have "ps ! 0 \<noteq> NULL" using p(7) by (simp add: can_remove_def)
  then show ?thesis using p none eb ep by (simp add: get_base_def time_cache_def tev_get_def)
qed

lemma timeout_loop_expires:
  assumes "server_ok w ps ids" "map_option pstTimeCache (w_base w) = Some (Some now)" "ep \<noteq> NULL" "card (set ps) < n"
  shows "\<exists>w' qs. timeout_loop n w ep = Inr (RET_SUCC, w') \<and> server_ok w' qs {p \<in> ids. now < due_of w p}
     \<and> w_conns w' = (\<lambda>p. if p \<in> ids \<and> due_of w p \<le> now then None else w_conns w p)
     \<and> (\<forall>p \<in> ids. now < due_of w p \<longrightarrow> due_of w' p = due_of w p)"
  using assms
proof (induction n arbitrary: w ps ids)
  case (Suc n)
  obtain eb where eb: "w_base w = Some eb" "pstTimeCache eb = Some now" using Suc.prems(2) by auto
  show ?case
  proof (cases "\<exists>p \<in> ids. due_of w p \<le> now")
    case False
    then have none: "\<forall>p \<in> ids. now < due_of w p" by (auto simp: not_le)
    then have "{p \<in> ids. now < due_of w p} = ids" by auto
    moreover have "(\<lambda>p. if p \<in> ids \<and> due_of w p \<le> now then None else w_conns w p) = w_conns w"
      using none by (auto simp: fun_eq_iff not_le)
    ultimately show ?thesis using expire_none [OF Suc.prems(1) eb Suc.prems(3) none] Suc.prems(1) by auto
  next
    case True
    obtain p w1 qs where p: "p \<in> ids" "due_of w p \<le> now" "\<forall>n. timeout_loop (Suc n) w ep = timeout_loop n w1 ep"
      "server_ok w1 qs (ids - {p})" "map_option pstTimeCache (w_base w1) = Some (Some now)"
      "w_conns w1 = (w_conns w)(p := None)" "\<forall>q \<in> ids - {p}. due_of w1 q = due_of w q" "card (set qs) < card (set ps)"
      by (rule expire_one [OF Suc.prems(1) eb Suc.prems(3) True])
    obtain w' qs' where ih: "timeout_loop n w1 ep = Inr (RET_SUCC, w')"
      "server_ok w' qs' {q \<in> ids - {p}. now < due_of w1 q}"
      "w_conns w' = (\<lambda>q. if q \<in> ids - {p} \<and> due_of w1 q \<le> now then None else w_conns w1 q)"
      "\<forall>q \<in> ids - {p}. now < due_of w1 q \<longrightarrow> due_of w' q = due_of w1 q"
      using Suc.IH [OF p(4,5) Suc.prems(3)] p(8) Suc.prems(4) by auto
    have late: "q \<in> ids - {p} \<and> now < due_of w1 q \<longleftrightarrow> q \<in> ids \<and> now < due_of w q" for q
      using p(2,7) by (cases "q = p") auto
    have due: "q \<in> ids - {p} \<and> due_of w1 q \<le> now \<longleftrightarrow> q \<in> ids - {p} \<and> due_of w q \<le> now" for q
      using p(7) by auto
    have "{q \<in> ids - {p}. now < due_of w1 q} = {q \<in> ids. now < due_of w q}" using late by auto
    moreover have "w_conns w' = (\<lambda>q. if q \<in> ids \<and> due_of w q \<le> now then None else w_conns w q)"
      unfolding ih(3) due using p(1,2,6) by (auto simp: fun_eq_iff)
    moreover have "\<forall>q \<in> ids. now < due_of w q \<longrightarrow> due_of w' q = due_of w q"
      using ih(4) late p(7) by (metis DiffI DiffD1)
    ultimately show ?thesis using p(3) ih(1,2) by auto
  qed
qed simp

text \<open>The loop turns once for every connection that is due, and then stops.\<close>

lemma timeout_turns:
  assumes "server_ok w ps ids" "map_option pstTimeCache (w_base w) = Some (Some now)" "ep \<noteq> NULL"
    and "card {p \<in> ids. due_of w p \<le> now} = k"
  shows "(\<forall>n \<le> k. timeout_loop n w ep = Inl Diverges) \<and> (\<exists>w'. \<forall>n > k. timeout_loop n w ep = Inr (RET_SUCC, w'))"
  using assms
proof (induction k arbitrary: w ps ids)
  case 0
  obtain eb where eb: "w_base w = Some eb" "pstTimeCache eb = Some now" using 0(2) by auto
  have "\<forall>p \<in> ids. now < due_of w p" using 0(4) server_ok_finite(1) [OF 0(1)] by (auto simp: not_le)
  then have "timeout_loop (Suc n) w ep = Inr (RET_SUCC, w)" for n by (rule expire_none [OF 0(1) eb 0(3)])
  then have "timeout_loop n w ep = Inr (RET_SUCC, w)" if "n > 0" for n using that by (metis Suc_pred)
  then show ?case by auto
next
  case (Suc k)
  obtain eb where eb: "w_base w = Some eb" "pstTimeCache eb = Some now" using Suc(3) by auto
  have fin: "finite ids" using server_ok_finite(1) [OF Suc(2)] .
  have "{p \<in> ids. due_of w p \<le> now} \<noteq> {}" using Suc(5) by (metis card.empty nat.distinct(1))
  then have some: "\<exists>p \<in> ids. due_of w p \<le> now" by auto
  obtain p w1 qs where p: "p \<in> ids" "due_of w p \<le> now" "\<forall>n. timeout_loop (Suc n) w ep = timeout_loop n w1 ep"
    "server_ok w1 qs (ids - {p})" "map_option pstTimeCache (w_base w1) = Some (Some now)"
    "\<forall>q \<in> ids - {p}. due_of w1 q = due_of w q"
    by (rule expire_one [OF Suc(2) eb Suc(4) some])
  have "{q \<in> ids - {p}. due_of w1 q \<le> now} = {q \<in> ids. due_of w q \<le> now} - {p}" using p(6) by auto
  then have "card {q \<in> ids - {p}. due_of w1 q \<le> now} = k" using Suc(5) p(1,2) fin by simp
  note ih = Suc.IH [OF p(4,5) Suc(4) this]
  have "timeout_loop n w ep = Inl Diverges" if "n \<le> Suc k" for n using that ih p(3) by (cases n) simp_all
  moreover obtain w' where "\<forall>n > k. timeout_loop n w1 ep = Inr (RET_SUCC, w')" using ih by blast
  then have "timeout_loop n w ep = Inr (RET_SUCC, w')" if "n > Suc k" for n using that p(3) by (cases n) simp_all
  ultimately show ?case by blast
qed

end
