(* ===== verification/ServedClient.thy ===== *)
theory ServedClient
  imports SendFlow RecvErrors TimeoutService ReactorProperties
begin

text \<open>
  A concrete server with one client, on which the properties of the connections are applied: the
  client's connection is at address 1 with descriptor 4, its buffers are the blocks 2 and 3 and its
  timer is node 4, due 60 seconds after second 100.
\<close>

definition client1 :: ConnFd where
  "client1 = fresh_conn 1 4 4 (Ptr 2 0) (Ptr 3 0) (replicate 16 0) 80"

definition timer1 :: TimeoutEvent where
  "timer1 = \<lparr>te_iPid = 1, te_iFd = 4, iHeapIndex = 0, stTimeout = Timeval 160 0, stInterval = Timeval 60 0,
     pFunTimeoutProcCallback = Some ConnectionTimeoutCallback, pstCallbackArg = 1\<rparr>"

definition slot1 :: "u32 \<Rightarrow> FdEvent" where
  "slot1 msk = \<lparr>iMask = msk, pFunEventCallbackWrite = SendProc, pFunEventCallbackRead = RecvProc, pstArg = 1\<rparr>"

definition base1 :: "u32 \<Rightarrow> timeval \<Rightarrow> EventBase" where
  "base1 msk now = \<lparr>iSize = 8, iFdEventArraySize = 8, iStopSign = 0, iEpType = EPOLL_LT_TYPE, iEpfd = 2,
     iListenFd = 3, iClientCount = 1, pstTimeCache = Some now,
     pstHeapHeader = Some \<lparr>ppstTimeoutEventHeader = [Some 4], iNodeCapacity = 1, iNodeUsed = 1, iCurPid = 1\<rparr>,
     pstFdEventsArray = (replicate 8 empty_slot)[4 := slot1 msk]\<rparr>"

text \<open>The socket of the client, with what arrives and the room for what is sent.\<close>

definition sock1 :: "net_in list \<Rightarrow> net_out list \<Rightarrow> sock" where
  "sock1 i out = \<lparr>s_flags = O_NONBLOCK, s_reuseaddr = False, s_keepalive = False, s_sndbuf = None, s_port = None,
     s_listening = False, s_in = i, s_out = out, s_sent = [], s_conns = []\<rparr>"

definition serving :: "ConnFd \<Rightarrow> buf \<Rightarrow> buf \<Rightarrow> u32 \<Rightarrow> sock \<Rightarrow> timeval \<Rightarrow> world" where
  "serving c rbuf sbuf msk so now = \<lparr>w_base = Some (base1 msk now), w_conns = [1 \<mapsto> c], w_tevs = [4 \<mapsto> timer1],
     w_mem = [2 \<mapsto> rbuf, 3 \<mapsto> sbuf], w_next = 5, w_malloc = [], w_junk = (\<lambda>_. 0), w_pid = 1, w_now = now,
     w_kern = \<lparr>k_socks = [4 \<mapsto> so], k_interest = [4 \<mapsto> epoll_events msk], k_ctl = []\<rparr>\<rparr>"

lemma serving_simps [simp]:
  "w_base (serving c rbuf sbuf msk so now) = Some (base1 msk now)" "w_conns (serving c rbuf sbuf msk so now) = [1 \<mapsto> c]"
  "w_tevs (serving c rbuf sbuf msk so now) = [4 \<mapsto> timer1]" "w_mem (serving c rbuf sbuf msk so now) = [2 \<mapsto> rbuf, 3 \<mapsto> sbuf]"
  "w_malloc (serving c rbuf sbuf msk so now) = []" "k_socks (w_kern (serving c rbuf sbuf msk so now)) = [4 \<mapsto> so]"
  "k_interest (w_kern (serving c rbuf sbuf msk so now)) = [4 \<mapsto> epoll_events msk]"
  "k_ctl (w_kern (serving c rbuf sbuf msk so now)) = []" "pstTimeCache (base1 msk now) = Some now"
  "iStopSign (base1 msk now) = 0"
  by (simp_all add: serving_def base1_def)

lemma client1_simps [simp]:
  "pstEventBase client1 = 1" "pstTimeoutEvent client1 = 4" "iFd client1 = 4" "pszRecvBuf client1 = Ptr 2 0"
  "pszSendBuf client1 = Ptr 3 0" "iRecvTotalLen client1 = 4096" "iSendTotalLen client1 = 4096"
  "iRecvCurLen client1 = 0" "iPacketLen client1 = 0" "iSendCurLen client1 = 0" "iSendPacketLen client1 = 0"
  by (simp_all add: client1_def fresh_conn_def MAX_TCP_BUF_SIZE_def)

lemma serving_mask: "slot_mask (serving c rbuf sbuf msk so now) = (\<lambda>_. 0)(4 := msk)"
proof
  fix fd :: int
  consider "fd = 4" | "fd < 0 \<or> 8 \<le> fd" | "0 \<le> fd" "fd < 8" "fd \<noteq> 4" by linarith
  then show "slot_mask (serving c rbuf sbuf msk so now) fd = ((\<lambda>_. 0)(4 := msk)) fd"
    by cases (auto simp: slot_mask_def base1_def slot1_def empty_slot_def nth_list_update nat_eq_iff)
qed

lemma serving_usable: "4 \<in> usable_fds (serving c rbuf sbuf msk so now)"
  by (simp add: usable_fds_def sock_is_open_def base1_def)

lemma serving_sync:
  "msk \<noteq> 0 \<Longrightarrow> in_sync (slot_mask (serving c rbuf sbuf msk so now)) (watched_by_kernel (serving c rbuf sbuf msk so now))"
  by (simp add: in_sync_def serving_mask watched_by_kernel_def)

lemma serving_timers: "timers_ok (serving c rbuf sbuf msk so now) [4]"
  by (simp add: timers_ok_def heap_ok_def heap_rep_def heap_shape_def base1_def timer1_def heap_of_def INT_MAX_def
      heap_ordered_def)

lemma serving_can_remove: "can_remove (serving c rbuf sbuf msk so now) [4] 4"
  by (simp add: can_remove_def timer1_def erase_goes_up_def)

lemma serving_conn_at:
  assumes "iFd c = 4" "pszRecvBuf c = Ptr 2 0" "pszSendBuf c = Ptr 3 0" "pstEventBase c \<noteq> NULL" "msk \<noteq> 0"
    "int (length rbuf) = iRecvTotalLen c" "int (length sbuf) = iSendTotalLen c"
  shows "conn_at (serving c rbuf sbuf msk so now) 1 c"
  using assms serving_sync [of msk c rbuf sbuf so now] serving_usable [of c rbuf sbuf msk so now]
  by (auto simp: conn_at_def bufs_ok_def)

lemma serving_belongs: "slot_belongs (serving c rbuf sbuf msk so now) 4 1"
  by (simp add: slot_belongs_def base1_def get_slot_def slot1_def)

lemma serving_restarts: "timer_restarts (serving c rbuf sbuf msk so (Timeval 100 0)) [4] 4 (Timeval 100 0)"
  by (simp add: timer_restarts_def serving_timers heap_can_grow_def base1_def can_set_def timer1_def erase_goes_up_def
      INT_MAX_def interval_of_def MAX_CONN_TIMEOUT_def minheap_timeradd_def Let_def)

lemma serving_ok:
  "server_ok (serving client1 (replicate 4096 0) (replicate 4096 0) EVENT_READABLE so now) [4] {1}"
  using serving_sync [of EVENT_READABLE] serving_timers serving_usable
  by (simp add: server_ok_def conn_ok_def bufs_ok_def times_out_def timer_of_def timer1_def EVENT_READABLE_def)

end
