(* ===== verification/EventDelivery.thy ===== *)
theory EventDelivery
  imports SendFlow RecvErrors Dispatch
begin

text \<open>
  Events of \<open>epoll_wait\<close> delivered to a connection: which handler runs, on what it ends, and the
  whole way of an echo request from the readable to the writable event.
\<close>

lemma triggered_in: "triggered EPOLLIN = EVENT_READABLE"
  by (simp add: triggered_def EPOLLIN_def EPOLLOUT_def EPOLLHUP_def EPOLLERR_def)

lemma triggered_out: "triggered EPOLLOUT = EVENT_WRITABLE"
  by (simp add: triggered_def EPOLLIN_def EPOLLOUT_def EPOLLHUP_def EPOLLERR_def)

lemma triggered_readable:
  assumes "ev AND EPOLLIN \<noteq> 0"
  shows "m AND triggered ev AND EVENT_READABLE = m AND EVENT_READABLE"
proof -
  have "triggered ev AND EVENT_READABLE = EVENT_READABLE"
    using assms by (simp add: triggered_def EVENT_READABLE_def EVENT_WRITABLE_def)
  then show ?thesis by (simp only: and.assoc)
qed

lemma slot_belongsE:
  assumes "slot_belongs w fd p"
  obtains eb sl where "w_base w = Some eb" "get_slot eb fd = Inr sl" "slot_mask w fd = iMask sl" "pstArg sl = p"
    "iMask sl AND EVENT_READABLE \<noteq> 0 \<longrightarrow> pFunEventCallbackRead sl = RecvProc"
    "iMask sl AND EVENT_WRITABLE \<noteq> 0 \<longrightarrow> pFunEventCallbackWrite sl = SendProc"
  using assms by (auto simp: slot_belongs_def slot_mask_def get_slot_def split: option.splits if_splits)

text \<open>A readable event runs the read handler; the write handler only runs on what the mask says then.\<close>

lemma deliver_readable:
  assumes b: "slot_belongs w fd p" and r: "slot_mask w fd AND EVENT_READABLE \<noteq> 0" and ep: "ep \<noteq> NULL"
    and ev: "ev AND EPOLLIN \<noteq> 0" and run: "ProcessRecvCallback w ep fd p = Inr w1"
    and b1: "w_base w1 = Some eb1" "get_slot eb1 fd = Inr sl1" "iMask sl1 AND triggered ev AND EVENT_WRITABLE = 0"
  shows "deliver_event w ep (fd, ev) = Inr w1"
proof -
  obtain eb sl where s: "w_base w = Some eb" "get_slot eb fd = Inr sl" "slot_mask w fd = iMask sl" "pstArg sl = p"
    "iMask sl AND EVENT_READABLE \<noteq> 0 \<longrightarrow> pFunEventCallbackRead sl = RecvProc"
    by (rule slot_belongsE [OF b])
  then show ?thesis
    using r ep run b1 triggered_readable [OF ev, of "iMask sl"]
    by (simp add: deliver_event_def get_base_def run_event_callback_def)
qed

text \<open>After the connection has been destroyed nothing is called on it.\<close>

lemma deliver_destroys:
  assumes b: "slot_belongs w fd p" and r: "slot_mask w fd AND EVENT_READABLE \<noteq> 0" and ep: "ep \<noteq> NULL"
    and ev: "ev AND EPOLLIN \<noteq> 0" and run: "ProcessRecvCallback w ep fd p = Inr w1"
    and rel: "conn_released w0 p c ps w1 qs" "iFd c = fd" "w_base w0 = w_base w"
  shows "deliver_event w ep (fd, ev) = Inr w1"
proof -
  obtain eb sl where s: "w_base w = Some eb" "get_slot eb fd = Inr sl" by (rule slot_belongsE [OF b])
  obtain eb1 where eb1: "w_base w1 = Some eb1" "length (pstFdEventsArray eb1) = length (pstFdEventsArray eb)"
    by (rule conn_released_base [OF rel(1)]) (use rel(3) s(1) in \<open>auto simp: base_view_def\<close>)
  let ?sl = "pstFdEventsArray eb1 ! nat fd"
  have sl1: "get_slot eb1 fd = Inr ?sl" using s(2) eb1(2) by (auto simp: get_slot_Inr_iff)
  have "slot_mask w1 fd = 0" using rel by (simp add: conn_released_def)
  then have "iMask ?sl = 0" using sl1 eb1(1) by (auto simp: slot_mask_def get_slot_Inr_iff)
  then show ?thesis using deliver_readable [OF b r ep ev run eb1(1) sl1] by simp
qed

text \<open>An event on a slot without the event's bit is dropped.\<close>

lemma deliver_writable:
  assumes b: "slot_belongs w fd p" and m: "slot_mask w fd AND EVENT_WRITABLE \<noteq> 0" and ep: "ep \<noteq> NULL"
    and run: "ProcessSendCallback w ep fd p = Inr w1"
  shows "deliver_event w ep (fd, EPOLLOUT) = Inr w1"
proof -
  obtain eb sl where s: "w_base w = Some eb" "get_slot eb fd = Inr sl" "slot_mask w fd = iMask sl" "pstArg sl = p"
    "iMask sl AND EVENT_WRITABLE \<noteq> 0 \<longrightarrow> pFunEventCallbackWrite sl = SendProc"
    by (rule slot_belongsE [OF b])
  have "iMask sl AND EVENT_WRITABLE AND EVENT_READABLE = 0" by (simp only: and.assoc rw_bits and_zero_eq)
  then show ?thesis
    using s m ep run by (simp add: deliver_event_def get_base_def run_event_callback_def triggered_out and.assoc)
qed

section \<open>The way of an echo\<close>

definition echo_answered :: "world \<Rightarrow> nat \<Rightarrow> ConnFd \<Rightarrow> sock \<Rightarrow> buf \<Rightarrow> world \<Rightarrow> bool" where
  "echo_answered w p c so pkt w' \<longleftrightarrow>
     (\<exists>so'. k_socks (w_kern w') (iFd c) = Some so' \<and> s_sent so' = s_sent so @ pkt \<and> s_in so' = [])
     \<and> (case w_base w of None \<Rightarrow> False | Some eb \<Rightarrow>
          Some (key_of (w_tevs w') (pstTimeoutEvent c)) = map_option (\<lambda>t. minheap_timeradd t (interval_of MAX_CONN_TIMEOUT)) (pstTimeCache eb))
     \<and> slot_mask w' = slot_mask w
     \<and> (let c' = c\<lparr>iRecvCurLen := 0, iPacketLen := 0, iSendPacketLen := 0, iSendCurLen := 0\<rparr> in
          w_conns w' = (w_conns w)(p \<mapsto> c') \<and> conn_at w' p c')"

lemma echo_answers:
  assumes c: "conn_at w p c" and wt: "packet_waits w p c rb sb so pkt"
    and pkt: "pkt = packet_bytes CMD_TEST_ECHO seqno body" and fit: "int (length pkt) \<le> iSendTotalLen c"
    and mask: "slot_mask w (iFd c) = EVENT_READABLE" "slot_belongs w (iFd c) p"
    and tm: "timer_restarts w ps (pstTimeoutEvent c) now" and ep: "ep \<noteq> NULL"
    and out: "0 < iFd c" "iSendCurLen c = 0" "s_out so = Room r # rest" "length pkt \<le> r"
  shows "\<exists>w'. deliver_events w ep [(iFd c, EPOLLIN), (iFd c, EPOLLOUT)] = Inr w' \<and> echo_answered w p c so pkt w'"
proof -
  let ?fd = "iFd c" and ?so1 = "so\<lparr>s_in := []\<rparr>"
  obtain w1 c1 qs where e: "ProcessRecvCallback w ep ?fd p = Inr w1" "echo_pending w p c so pkt ps now w1 c1 qs"
    using echo_received [OF c wt pkt fit mask tm ep] by blast
  have e': "c1 = c\<lparr>iSendPacketLen := int (length pkt), iRecvCurLen := 0, iPacketLen := 0\<rparr>" "conn_at w1 p c1"
    "mem_at (w_mem w1) (block_of (pszSendBuf c)) 0 pkt" "slot_mask w1 = (slot_mask w)(?fd := EVENT_READABLE OR EVENT_WRITABLE)"
    "slot_belongs w1 ?fd p" "k_socks (w_kern w1) ?fd = Some ?so1" "w_conns w1 = (w_conns w)(p \<mapsto> c1)"
    using e(2) unfolding echo_pending_def by auto
  have "due_times w1 qs (pstTimeoutEvent c) = Some (minheap_timeradd now (interval_of MAX_CONN_TIMEOUT))"
    using e(2) by (simp add: echo_pending_def)
  then have due: "key_of (w_tevs w1) (pstTimeoutEvent c) = minheap_timeradd now (interval_of MAX_CONN_TIMEOUT)"
    by (simp add: due_times_def timer_table_def split: if_splits)
  obtain eb where now: "w_base w = Some eb" "pstTimeCache eb = Some now" by (rule timer_restartsE [OF tm])
  obtain eb1 sl1 where s1: "w_base w1 = Some eb1" "get_slot eb1 ?fd = Inr sl1" by (rule slot_belongsE [OF e'(5)])
  have not_yet: "iMask sl1 AND triggered EPOLLIN AND EVENT_WRITABLE = 0"
    by (simp only: triggered_in and.assoc rw_bits and_zero_eq)
  have first: "deliver_event w ep (?fd, EPOLLIN) = Inr w1"
    by (rule deliver_readable [OF mask(2) _ ep _ e(1) s1 not_yet])
       (use mask(1) in \<open>simp_all add: rw_bits EPOLLIN_def\<close>)
  have "0 < length pkt" by (simp add: pkt)
  then have snd: "sending w1 p c1 ?so1 pkt" using e' out(1,2) by (simp add: sending_def)
  obtain w2 where w2: "ProcessSendCallback w1 ep ?fd p = Inr w2" "send_finished w1 p c1 ?so1 pkt rest w2"
    using send_callback_full [OF snd ep, of r rest] out(3,4) e'(1) by auto
  have second: "deliver_event w1 ep (?fd, EPOLLOUT) = Inr w2"
    by (rule deliver_writable [OF e'(5) _ ep w2(1)]) (use e'(4) rw_bits(5) in simp)
  have "slot_mask w2 = slot_mask w"
    using w2(2) e'(1,4) mask(1) by (auto simp: send_finished_def sent_state_def rw_bits(4))
  moreover have "(slot_mask w)(?fd := EVENT_READABLE) = slot_mask w" using mask(1) by auto
  ultimately have "echo_answered w p c so pkt w2"
    using w2(2) e'(1,7) out(2) due now by (simp add: echo_answered_def send_finished_def sent_state_def Let_def)
  then show ?thesis using first second by simp
qed

section \<open>Stopping\<close>

lemma stop_changes_nothing:
  assumes "ep \<noteq> NULL" "w_base w = Some eb" "iStopSign eb = 0"
  shows "EventBaseStop w ep = Inr w"
proof -
  have "w\<lparr>w_base := Some (eb\<lparr>iStopSign := 0\<rparr>)\<rparr> = w" using assms(2,3) by (cases w; cases eb) simp
  then show ?thesis
    using assms by (simp add: EventBaseStop_def get_base_def put_base_def EPOLL_EVENT_BASE_STOP_def)
qed

end
