(* ===== verification/AcceptConn.thy ===== *)
theory AcceptConn
  imports ConnLife Handlers
begin

text \<open>
  What accepting a connection builds: the connection with its two buffers, its timer, its event
  slot and its registration with the kernel, when the allocator and the kernel refuse nothing.
\<close>

section \<open>Calls that are granted\<close>

lemma alloc_addr_granted:
  "w_malloc w = [] \<Longrightarrow> alloc_addr w = (w_next w, w\<lparr>w_next := w_next w + 1\<rparr>)"
  by (simp add: alloc_addr_def ask_malloc_granted)

lemma malloc_bytes_granted:
  "w_malloc w = [] \<Longrightarrow> 0 \<le> n \<Longrightarrow> malloc_bytes w n =
     (Ptr (w_next w) 0, w\<lparr>w_next := w_next w + 1, w_mem := (w_mem w)(w_next w \<mapsto> map (w_junk w) [0..<nat n])\<rparr>)"
  by (simp add: malloc_bytes_def ask_malloc_granted)

lemma SetNonblock_granted:
  assumes "k_ctl k = []" "k_socks k fd = Some so" "0 \<le> fd"
  shows "PynServerSetNonblock k fd =
    (RET_SUCC, k\<lparr>k_socks := (k_socks k)(fd \<mapsto> so\<lparr>s_flags := s_flags so OR O_NONBLOCK\<rparr>)\<rparr>)"
  using assms by (simp add: PynServerSetNonblock_def sys_control_def)

lemma length_ip_array [simp]: "length (ip_array ip) = 16"
  by (simp add: ip_array_def IP_LEN_def)

section \<open>Creating a connection\<close>

text \<open>The addresses a new connection gets, and the connection.\<close>

definition new_conn :: "world \<Rightarrow> nat \<Rightarrow> int \<Rightarrow> buf \<Rightarrow> int \<Rightarrow> ConnFd" where
  "new_conn w ep fd ip port = fresh_conn ep (w_next w + 3) fd (Ptr (w_next w + 1) 0) (Ptr (w_next w + 2) 0) ip port"

definition new_tev :: "world \<Rightarrow> int \<Rightarrow> TimeoutEvent" where
  "new_tev w fd = (fresh_tev (w_junk w))\<lparr>iHeapIndex := -1, pFunTimeoutProcCallback := None,
     pstCallbackArg := NULL, te_iFd := fd, te_iPid := w_pid w\<rparr>"

definition with_new_conn :: "world \<Rightarrow> EventBase \<Rightarrow> nat \<Rightarrow> int \<Rightarrow> buf \<Rightarrow> int \<Rightarrow> world" where
  "with_new_conn w eb ep fd ip port = w\<lparr>w_next := w_next w + 4,
     w_conns := (w_conns w)(w_next w \<mapsto> new_conn w ep fd ip port),
     w_mem := (w_mem w)(w_next w + 1 \<mapsto> map (w_junk w) [0..<4096], w_next w + 2 \<mapsto> map (w_junk w) [0..<4096]),
     w_tevs := (w_tevs w)(w_next w + 3 \<mapsto> new_tev w fd),
     w_base := Some (put_slot eb fd empty_slot)\<rparr>"

lemma four_Suc: "(4 :: nat) = Suc (Suc (Suc (Suc 0)))"
  by simp

lemma CreateNewConn_granted:
  assumes "w_malloc w = []" "w_next w \<noteq> NULL" "w_base w = Some eb" "get_slot eb fd = Inr sl" "ep \<noteq> NULL"
    and "length ip = 16"
  shows "CreateNewConn w ep fd (Some ip) port = Inr (w_next w, with_new_conn w eb ep fd ip port)"
proof -
  have ip: "mem_slice ip 0 IP_LEN = Inr ip" using assms(6) by (simp add: mem_slice_def IP_LEN_def)
  show ?thesis
    using assms(1-5) ip
    by (simp add: CreateNewConn_def alloc_addr_granted malloc_bytes_granted MAX_TCP_BUF_SIZE_def Let_def
        MinheapTimeoutEventInit_def tev_get_def FdFileEventInit_def fresh_conn_def put_conn_def put_base_def
        with_new_conn_def new_conn_def new_tev_def numeral_2_eq_2 numeral_3_eq_3 four_Suc del: upt_Suc)
qed

section \<open>Accepting\<close>

text \<open>The client of the connection is known to the program in every place that has to know it.\<close>

definition conn_accepted ::
  "world \<Rightarrow> nat \<Rightarrow> int \<Rightarrow> buf \<Rightarrow> int \<Rightarrow> timeval \<Rightarrow> tptr list \<Rightarrow> world \<Rightarrow> tptr list \<Rightarrow> bool" where
  "conn_accepted w ep fd ip port now ps w' qs \<longleftrightarrow> (let p = w_next w; c = new_conn w ep fd ip port in
     w_conns w' = (w_conns w)(p \<mapsto> c) \<and> conn_at w' p c \<and> iRecvCurLen c = 0 \<and> iSendPacketLen c = 0
     \<and> timers_ok w' qs
     \<and> due_times w' qs = (due_times w ps)(pstTimeoutEvent c \<mapsto> minheap_timeradd now (interval_of MAX_CONN_TIMEOUT))
     \<and> (\<exists>e. w_tevs w' (pstTimeoutEvent c) = Some e \<and> pstCallbackArg e = p
            \<and> pFunTimeoutProcCallback e = Some ConnectionTimeoutCallback \<and> te_iFd e = fd)
     \<and> slot_mask w' = (slot_mask w)(fd := EVENT_READABLE)
     \<and> (\<exists>eb sl. w_base w' = Some eb \<and> get_slot eb fd = Inr sl \<and> pFunEventCallbackRead sl = RecvProc \<and> pstArg sl = p)
     \<and> map_option iClientCount (w_base w') = map_option (\<lambda>eb. iClientCount eb + 1) (w_base w)
     \<and> (\<exists>so so'. k_socks (w_kern w) fd = Some so \<and> k_socks (w_kern w') fd = Some so' \<and> s_flags so' AND O_NONBLOCK \<noteq> 0
            \<and> s_in so' = s_in so \<and> s_out so' = s_out so \<and> s_sent so' = s_sent so)
     \<and> touches_only w w' fd (pstTimeoutEvent c) {} \<and> w_next w' = w_next w + 4
     \<and> heap_cap w' \<le> grown_capacity (heap_cap w) (length ps)
     \<and> dom (w_mem w') = dom (w_mem w) \<union> conn_blocks c)"

text \<open>The nodes the allocator will hand out next are not in use.\<close>

definition fresh_addrs :: "world \<Rightarrow> tptr list \<Rightarrow> bool" where
  "fresh_addrs w ps \<longleftrightarrow> w_next w \<noteq> NULL \<and> (\<forall>q \<in> set ps. q < w_next w)"

lemma bufs_ok_new:
  "bufs_ok (w_mem (with_new_conn w eb ep fd ip port)) (new_conn w ep fd ip port)"
  by (simp add: bufs_ok_def with_new_conn_def new_conn_def fresh_conn_def MAX_TCP_BUF_SIZE_def)

lemma nonblock_set: "(x OR O_NONBLOCK) AND O_NONBLOCK \<noteq> 0"
proof -
  have "(x OR O_NONBLOCK) AND O_NONBLOCK = O_NONBLOCK"
    by (rule bit_word_eqI) (auto simp: bit_simps)
  then show ?thesis by (simp add: O_NONBLOCK_def)
qed

lemma accept_conn_accepts:
  assumes base: "w_base w = Some eb" "pstTimeCache eb = Some now" "heap_can_grow eb" and tm: "timers_ok w ps"
    and mem: "w_malloc w = []" "fresh_addrs w ps" and ep: "ep \<noteq> NULL"
    and us: "fd \<in> usable_fds w" and sync: "in_sync (slot_mask w) (watched_by_kernel w)" and m0: "slot_mask w fd = 0"
  shows "\<exists>w' qs. accept_conn w ep fd ip port = Inr w' \<and> conn_accepted w ep fd (ip_array ip) port now ps w' qs"
proof -
  let ?p = "w_next w" and ?tp = "w_next w + 3" and ?due = "minheap_timeradd now (interval_of MAX_CONN_TIMEOUT)"
  let ?c = "new_conn w ep fd (ip_array ip) port"
  obtain sl where sl: "get_slot eb fd = Inr sl" "0 \<le> fd" "fd < int (length (pstFdEventsArray eb))"
    "k_ctl (w_kern w) = []" "fd \<le> iFdEventArraySize eb"
    by (rule usableE [OF us]) (use base(1) in auto)
  obtain so where so: "k_socks (w_kern w) fd = Some so"
    using usable_at(2) [OF us base(1) sl(1)] by (auto simp: sock_is_open_def)
  let ?eb1 = "eb\<lparr>iClientCount := iClientCount eb + 1\<rparr>"
  let ?k = "(w_kern w)\<lparr>k_socks := (k_socks (w_kern w))(fd \<mapsto> so\<lparr>s_flags := s_flags so OR O_NONBLOCK\<rparr>)\<rparr>"
  let ?w2 = "put_kern (put_base w ?eb1) ?k"
  note nb = SetNonblock_granted [OF sl(4) so sl(2)]
  have sl1: "get_slot ?eb1 fd = Inr sl" using sl by (simp add: get_slot_def)
  let ?w3 = "with_new_conn ?w2 ?eb1 ep fd (ip_array ip) port"
  have cr: "CreateNewConn ?w2 ep fd (Some (ip_array ip)) port = Inr (?p, ?w3)"
    using CreateNewConn_granted [of ?w2 ?eb1 fd sl ep "ip_array ip" port] mem ep sl1
    by (simp add: fresh_addrs_def)
  let ?e = "(new_tev w fd)\<lparr>pFunTimeoutProcCallback := Some ConnectionTimeoutCallback, pstCallbackArg := ?p\<rparr>"
  let ?S = "(w_tevs w)(?tp \<mapsto> ?e)"
  have ini: "MinheapTimeoutEventInit (w_tevs ?w3) ?tp (Some ConnectionTimeoutCallback) ?p (w_pid ?w3) fd
      = Inr (None, ?S)"
    by (simp add: MinheapTimeoutEventInit_def tev_get_def with_new_conn_def new_tev_def fresh_tev_def)
  let ?w4 = "?w3\<lparr>w_tevs := ?S\<rparr>" and ?eb3 = "put_slot ?eb1 fd empty_slot"
  have tp: "?tp \<notin> set ps" using mem(2) by (auto simp: fresh_addrs_def)
  have b4: "w_base ?w4 = Some ?eb3" "pstTimeCache ?eb3 = Some now" "heap_can_grow ?eb3" "w_malloc ?w4 = []"
    "w_tevs ?w4 ?tp = Some ?e"
    using base mem(1) by (simp_all add: with_new_conn_def heap_can_grow_def)
  have t4: "timers_ok ?w4 ps"
  proof -
    obtain H where H: "pstHeapHeader eb = Some H" "heap_rep H (w_tevs w) ps"
      using tm base(1) by (auto elim: timers_okE)
    have "heap_rep H ?S ps" by (rule heap_rep_frame [OF H(2)]) (use tp in auto)
    then show ?thesis using H(1) by (simp add: timers_ok_def heap_ok_def heap_of_def with_new_conn_def)
  qed
  have can: "can_set ?w4 ps ?tp ?due" using tp by (simp add: can_set_def new_tev_def)
  obtain H' S' qs where rg: "RegisterTimerOutEvent ?w4 ep ?tp MAX_CONN_TIMEOUT =
      Inr (RET_SUCC, put_heap ?w4 ?eb3 \<lparr>hs_hdr = Some H', hs_tevs = S'\<rparr>)" "heap_rep H' S' qs"
    "set qs = insert ?tp (set ps)"
    "same_nodes (?S(?tp \<mapsto> ?e\<lparr>stInterval := interval_of MAX_CONN_TIMEOUT, stTimeout := ?due\<rparr>)) S'"
    "\<exists>H. pstHeapHeader ?eb3 = Some H \<and> iNodeCapacity H' \<le> grown_capacity (iNodeCapacity H) (length ps)"
    using Register_form [OF t4 b4(1-4) ep b4(5) can] by (simp add: with_new_conn_def) metis
  let ?eb5 = "?eb3\<lparr>pstHeapHeader := Some H'\<rparr>" and ?w5 = "put_heap ?w4 ?eb3 \<lparr>hs_hdr = Some H', hs_tevs = S'\<rparr>"
  have w5: "w_base ?w5 = Some ?eb5" "get_slot ?eb5 fd = Inr empty_slot" "slot_mask ?w5 = slot_mask w"
    "watched_by_kernel ?w5 = watched_by_kernel w" "fd \<in> usable_fds ?w5"
    using sl base(1) m0 us
    by (auto simp: get_slot_def put_slot_def slot_mask_def fun_eq_iff nth_list_update nat_eq_iff empty_slot_def
        watched_by_kernel_def with_new_conn_def usable_fds_def sock_is_open_def split: if_splits)
  obtain k where add: "EventAdd ?w5 ep fd EVENT_READABLE RecvProc ?p = Inr (RET_SUCC,
       reslot ?w5 ?eb5 fd (slot_with empty_slot EVENT_READABLE RecvProc ?p) k)"
    "interest_upd (w_kern ?w5) k fd (add_bits 0 EVENT_READABLE)"
    using EventAdd_form [of ?w5 fd ep EVENT_READABLE ?eb5 empty_slot RecvProc ?p] w5 sync ep
    by (auto simp: empty_slot_def EVENT_READABLE_def)
  let ?sl = "slot_with empty_slot EVENT_READABLE RecvProc ?p"
  let ?w' = "reslot ?w5 ?eb5 fd ?sl k"
  have fin: "accept_conn w ep fd ip port = Inr ?w'"
    using base(1) ep nb cr ini rg(1) add(1) mem(2)
    by (simp add: accept_conn_def Let_def with_new_conn_def new_conn_def fresh_conn_def fresh_addrs_def)
  have bits: "add_bits 0 EVENT_READABLE = EVENT_READABLE" "EVENT_READABLE \<noteq> 0" "iMask ?sl = EVENT_READABLE"
    by (simp_all add: add_bits_def EVENT_READABLE_def slot_with_def empty_slot_def)
  have k: "k_socks k = (k_socks (w_kern w))(fd \<mapsto> so\<lparr>s_flags := s_flags so OR O_NONBLOCK\<rparr>)" "k_ctl k = []"
    "k_interest k = (k_interest (w_kern w))(fd \<mapsto> epoll_events EVENT_READABLE)"
    using add(2) sl(4) bits(2) by (simp_all add: interest_upd_def bits(1) with_new_conn_def)
  have mask: "slot_mask ?w' = (slot_mask w)(fd := EVENT_READABLE)"
    using slot_mask_put [OF w5(1), of fd ?sl k] w5(2,3) bits(3) by (simp add: get_slot_Inr_iff)
  have sync': "in_sync (slot_mask ?w') (watched_by_kernel ?w')"
    unfolding mask using in_sync_upd [OF sync, of _ fd EVENT_READABLE] k(3) bits(2)
    by (simp add: watched_by_kernel_def)
  have us': "fd \<in> usable_fds ?w'"
    using k(1,2) sl w5(2) by (simp add: usable_fds_def sock_is_open_def get_slot_def put_slot_def)
  have at: "conn_at ?w' ?p ?c"
    using mem(2) ep sync' us' bufs_ok_new [of ?w2 ?eb1 ep fd "ip_array ip" port]
    by (simp add: conn_at_def fresh_addrs_def with_new_conn_def new_conn_def fresh_conn_def)
  have tmo: "timers_ok ?w' qs"
    using rg(2) by (simp add: timers_ok_def heap_ok_def heap_of_def)
  have keys: "key_of S' q = (if q = ?tp then ?due else key_of (w_tevs w) q)" for q
    using same_nodes_key [OF rg(4), of q] by (simp add: key_of_def)
  have due: "due_times ?w' qs = (due_times w ps)(?tp \<mapsto> ?due)"
    using timer_table_insert [OF rg(3), of S' "w_tevs w"] keys by (simp add: due_times_def)
  obtain i where node: "S' ?tp = Some (?e\<lparr>stInterval := interval_of MAX_CONN_TIMEOUT, stTimeout := ?due, iHeapIndex := i\<rparr>)"
    using same_nodes_Some [OF rg(4), of ?tp] by auto
  have slot: "get_slot (put_slot ?eb5 fd ?sl) fd = Inr ?sl"
    using sl by (simp add: get_slot_def put_slot_def)
  have view: "node_view S' u = node_view (w_tevs w) u" if "u \<noteq> ?tp" for u
    using that same_nodes_view [OF rg(4), of u] by (simp add: node_view_def)
  have slots: "slot_at ?w' f = slot_at w f" if "f \<noteq> fd" for f
    using that sl(2) base(1) by (simp add: slot_at_def get_slot_put_other)
  have touch: "touches_only w ?w' fd (pstTimeoutEvent ?c) {}"
    using view slots k(1,2) sl(4) base(1) mem(1) unfolding touches_only_def
    by (simp add: base_view_def with_new_conn_def new_conn_def fresh_conn_def)
  have cap: "heap_cap ?w' \<le> grown_capacity (heap_cap w) (length ps)"
    using rg(5) base(1) by (auto simp: heap_cap_def)
  have blocks: "dom (w_mem ?w') = dom (w_mem w) \<union> conn_blocks ?c"
    by (auto simp: with_new_conn_def new_conn_def fresh_conn_def conn_blocks_def)
  have "conn_accepted w ep fd (ip_array ip) port now ps ?w' qs"
    unfolding conn_accepted_def Let_def
    using at tmo due node slot mask base(1) k(1) so touch cap blocks nonblock_set [of "s_flags so"] bits(2)
    by (simp add: with_new_conn_def new_conn_def fresh_conn_def slot_with_def new_tev_def)
  then show ?thesis using fin by blast
qed

end
