(* ===== verification/ConnProperties.thy ===== *)
theory ConnProperties
  imports ServedClient EventDelivery AcceptConn
begin

text \<open>
  The properties of the connections: what accepting builds and destroying gives back, the way of an
  echo request through the event loop, the progress of a write, the inputs on which a connection
  ends, and the service of the timers.
\<close>

section \<open>Life of a connection\<close>

text \<open>C10: accepting a client on an open descriptor inside the array makes it known everywhere it
  has to be known: a connection with two buffers and nothing received or to send, a timer due 60
  seconds from the cached time whose callback names the connection, a slot and a kernel registration
  for reading, the count of clients, and a non-blocking socket.\<close>

theorem accept_registers_client:
  assumes "w_base w = Some eb" "pstTimeCache eb = Some now" "heap_can_grow eb" "timers_ok w ps"
    and "w_malloc w = []" "fresh_addrs w ps" "ep \<noteq> NULL"
    and "fd \<in> usable_fds w" "in_sync (slot_mask w) (watched_by_kernel w)" "slot_mask w fd = 0"
  shows "\<exists>w' qs. accept_conn w ep fd ip port = Inr w' \<and> conn_accepted w ep fd (ip_array ip) port now ps w' qs"
  using assms by (rule accept_conn_accepts)

theorem accept_registers_client_witness:
  "\<exists>w' qs. accept_conn (quiet_world []) 1 5 [49, 46, 49] 80 = Inr w'
     \<and> conn_accepted (quiet_world []) 1 5 (ip_array [49, 46, 49]) 80 (Timeval 100 0) [] w' qs"
proof (rule accept_registers_client [OF _ _ _ quiet_world_ok _ _ _ quiet_world_usable quiet_world_sync,
      where eb = "quiet_base (Timeval 100 0)"])
  show "slot_mask (quiet_world []) 5 = 0" by (simp add: slot_mask_def quiet_base_def empty_slot_def)
  show "fresh_addrs (quiet_world []) []" by (simp add: fresh_addrs_def quiet_world_def)
qed simp_all

text \<open>C9: destroying a connection in order gives back everything it used: the connection, both
  buffers, the timer with its node, the slot, the kernel's registration, the socket and its place in
  the count of clients; the timers and slots of the others stay as they are.\<close>

theorem destroy_releases_everything:
  assumes "conn_at w p c" and "timers_ok w ps" and "can_remove w ps (pstTimeoutEvent c)"
  shows "\<exists>w' qs. DestroyConn w p = Inr w' \<and> conn_released w p c ps w' qs"
  using assms by (rule DestroyConn_releases)

text \<open>The connected client of the witnesses, with nothing received and nothing to send.\<close>

abbreviation idle :: "net_in list \<Rightarrow> net_out list \<Rightarrow> world" where
  "idle i out \<equiv> serving client1 (replicate 4096 0) (replicate 4096 0) EVENT_READABLE (sock1 i out) (Timeval 100 0)"

abbreviation idle_at :: "timeval \<Rightarrow> world" where
  "idle_at now \<equiv> serving client1 (replicate 4096 0) (replicate 4096 0) EVENT_READABLE (sock1 [] []) now"

lemma idle_conn_at: "conn_at (idle i out) 1 client1"
  by (rule serving_conn_at) (simp_all add: EVENT_READABLE_def)

theorem destroy_releases_everything_witness:
  "\<exists>w' qs. DestroyConn (idle [] []) 1 = Inr w' \<and> conn_released (idle [] []) 1 client1 [4] w' qs"
  by (rule destroy_releases_everything [OF idle_conn_at serving_timers]) (simp add: serving_can_remove)

section \<open>The way of a packet\<close>

text \<open>C7: an echo request that arrives at a waiting connection is sent back byte for byte: after
  its readable event and the writable event that follows, the socket has been handed exactly the
  packet, and the connection waits for the next packet with the same registrations as before.\<close>

theorem echo_round_trip:
  assumes "conn_at w p c" and "packet_waits w p c rb sb so pkt"
    and "pkt = packet_bytes CMD_TEST_ECHO seqno body" and "int (length pkt) \<le> iSendTotalLen c"
    and "slot_mask w (iFd c) = EVENT_READABLE" "slot_belongs w (iFd c) p"
    and "timer_restarts w ps (pstTimeoutEvent c) now" and "ep \<noteq> NULL"
    and "0 < iFd c" "iSendCurLen c = 0" "s_out so = Room r # rest" "length pkt \<le> r"
  shows "\<exists>w'. deliver_events w ep [(iFd c, EPOLLIN), (iFd c, EPOLLOUT)] = Inr w' \<and> echo_answered w p c so pkt w'"
  using assms by (rule echo_answers)

abbreviation echo17 :: buf where "echo17 \<equiv> packet_bytes CMD_TEST_ECHO 7 [1, 2, 3]"

lemma idle_waits:
  assumes "length pkt \<le> 4096"
  shows "packet_waits (idle [Data pkt] out) 1 client1 2 3 (sock1 [Data pkt] out) pkt"
  using assms by (simp add: packet_waits_def mem_room_def sock1_def)

theorem echo_round_trip_witness:
  "\<exists>w'. deliver_events (idle [Data echo17] [Room 100]) 1 [(iFd client1, EPOLLIN), (iFd client1, EPOLLOUT)] = Inr w'
     \<and> echo_answered (idle [Data echo17] [Room 100]) 1 client1 (sock1 [Data echo17] [Room 100]) echo17 w'"
  by (rule echo_round_trip [OF idle_conn_at idle_waits refl _ _ _ _ _ _ _ _ _, where ps = "[4]" and now = "Timeval 100 0" and r = 100 and rest = "[]"])
     (simp_all add: serving_mask serving_belongs serving_restarts sock1_def del: One_nat_def)

text \<open>
  With the echo request received, its answer waits in the send buffer, the descriptor is
  watched for writing too, and the connection's timer has been moved to 60 seconds from the cached
  time.\<close>

theorem echo_request_is_queued:
  assumes "conn_at w p c" and "packet_waits w p c rb sb so pkt"
    and "pkt = packet_bytes CMD_TEST_ECHO seqno body" and "int (length pkt) \<le> iSendTotalLen c"
    and "slot_mask w (iFd c) = EVENT_READABLE" "slot_belongs w (iFd c) p"
    and "timer_restarts w ps (pstTimeoutEvent c) now" and "ep \<noteq> NULL"
  shows "\<exists>w' c' qs. ProcessRecvCallback w ep (iFd c) p = Inr w' \<and> echo_pending w p c so pkt ps now w' c' qs"
  using assms by (rule echo_received)

theorem echo_request_is_queued_witness:
  "\<exists>w' c' qs. ProcessRecvCallback (idle [Data echo17] []) 1 (iFd client1) 1 = Inr w'
     \<and> echo_pending (idle [Data echo17] []) 1 client1 (sock1 [Data echo17] []) echo17 [4] (Timeval 100 0) w' c' qs"
  by (rule echo_request_is_queued [OF idle_conn_at idle_waits refl])
     (simp_all add: serving_mask serving_belongs serving_restarts del: One_nat_def)


text \<open>The client with a packet of which five bytes have gone out.\<close>

definition client1_sending :: ConnFd where
  "client1_sending = client1\<lparr>iSendPacketLen := 17, iSendCurLen := 5\<rparr>"

definition half_sent :: "net_out list \<Rightarrow> world" where
  "half_sent out = serving client1_sending (replicate 4096 0) (echo17 @ replicate 4079 0)
     (EVENT_READABLE OR EVENT_WRITABLE) (sock1 [] out) (Timeval 100 0)"


section \<open>How a connection ends\<close>

text \<open>C37: a head with a wrong start mark, or whose length is below 14 or above one megabyte
  (a negative length included), ends the connection: the event is handled without a fault, everything
  the connection used is released, and its write handler is not called in the same event.\<close>

theorem bad_head_destroys:
  assumes "conn_at w p c" and "head_waits w p c rb so bs" and "take 5 bs = soh # htonl_bytes len"
    and "head_rejected soh len" and "timers_ok w ps" "can_remove w ps (pstTimeoutEvent c)" and "ep \<noteq> NULL"
    and "slot_belongs w (iFd c) p" "slot_mask w (iFd c) AND EVENT_READABLE \<noteq> 0" "ev AND EPOLLIN \<noteq> 0"
  shows "\<exists>m s w' qs. deliver_event w ep (iFd c, ev) = Inr w'
     \<and> conn_released (received_some w p c so m s 5 (sint len)) p (c\<lparr>iRecvCurLen := 5, iPacketLen := sint len\<rparr>) ps w' qs"
proof -
  obtain m s w' qs where r: "ProcessRecvCallback w ep (iFd c) p = Inr w'"
    "conn_released (received_some w p c so m s 5 (sint len)) p (c\<lparr>iRecvCurLen := 5, iPacketLen := sint len\<rparr>) ps w' qs"
    by (rule recv_rejects_head [OF assms(1-7)])
  have "deliver_event w ep (iFd c, ev) = Inr w'"
    by (rule deliver_destroys [OF assms(8,9,7,10) r]) (simp_all add: received_some_def)
  then show ?thesis using r(2) by blast
qed

abbreviation bad_bytes :: buf where "bad_bytes \<equiv> PROTO_SOH # htonl_bytes (- 1)"

lemma idle_head_waits:
  assumes "5 \<le> length bs"
  shows "head_waits (idle [Data bs] out) 1 client1 2 (sock1 [Data bs] out) bs"
  using assms by (simp add: head_waits_def mem_room_def sock1_def)

theorem bad_head_destroys_witness:
  "\<exists>m s w' qs. deliver_event (idle [Data bad_bytes] []) 1 (iFd client1, 5) = Inr w'
     \<and> conn_released (received_some (idle [Data bad_bytes] []) 1 client1 (sock1 [Data bad_bytes] []) m s 5 (sint (- 1 :: u32)))
         1 (client1\<lparr>iRecvCurLen := 5, iPacketLen := sint (- 1 :: u32)\<rparr>) [4] w' qs"
  by (rule bad_head_destroys [OF idle_conn_at idle_head_waits, where soh = PROTO_SOH])
     (simp_all add: head_rejected_def serving_timers serving_can_remove serving_belongs serving_mask
        EVENT_READABLE_def EPOLLIN_def del: One_nat_def)

text \<open>C39: when exactly the five bytes of a valid packet's head have arrived, the read handler
  goes on to the body at once, takes the empty socket for the end of the stream and destroys the
  connection: a client whose first segment ends after the head is disconnected.\<close>

theorem head_alone_disconnects:
  assumes "conn_at w p c" and "head_waits w p c rb so (take 5 pkt)"
    and "pkt = packet_bytes cmd seqno body" "length pkt \<le> 4096" "int (length pkt) \<le> iRecvTotalLen c"
    and "timers_ok w ps" "can_remove w ps (pstTimeoutEvent c)" and "ep \<noteq> NULL"
  shows "\<exists>m w' qs. ProcessRecvCallback w ep (iFd c) p = Inr w'
     \<and> conn_released (received_some w p c so m [] 5 (int (length pkt))) p
         (c\<lparr>iRecvCurLen := 5, iPacketLen := int (length pkt)\<rparr>) ps w' qs"
proof -
  have "length (take 5 pkt) = 5" using assms(3) by simp
  then show ?thesis
    by (rule head_alone_destroys [OF assms(1,2) _ refl assms(3-8)]) blast
qed

theorem head_alone_disconnects_witness:
  "\<exists>m w' qs. ProcessRecvCallback (idle [Data (take 5 echo17)] []) 1 (iFd client1) 1 = Inr w'
     \<and> conn_released (received_some (idle [Data (take 5 echo17)] []) 1 client1 (sock1 [Data (take 5 echo17)] []) m [] 5
         (int (length echo17))) 1 (client1\<lparr>iRecvCurLen := 5, iPacketLen := int (length echo17)\<rparr>) [4] w' qs"
  by (rule head_alone_disconnects [OF idle_conn_at idle_head_waits refl])
     (simp_all add: serving_timers serving_can_remove)

text \<open>C38: an echo request that is longer than the send buffer makes the server write behind the
  buffer: the copy has no length check, and packets of up to one megabyte are accepted.\<close>

theorem long_echo_overruns:
  assumes "packet_partly w p c rb so pkt" and "pkt = packet_bytes CMD_TEST_ECHO seqno body"
    and "pszSendBuf c = Ptr sb 0" "w_mem w sb = Some sbs" "length sbs < length pkt" "rb \<noteq> sb"
    and "int (length pkt) \<le> INT_MAX" "w_malloc w = []" "ep \<noteq> NULL"
  shows "ProcessRecvCallback w ep (iFd c) p = undef OutOfBounds"
  using assms by (rule echo_overflows)

text \<open>An echo request of 5014 bytes of which 4000 have been received into a grown buffer.\<close>

abbreviation echo5014 :: buf where "echo5014 \<equiv> packet_bytes CMD_TEST_ECHO 7 (replicate 5000 1)"

definition client1_growing :: ConnFd where
  "client1_growing = client1\<lparr>iPacketLen := 5014, iRecvCurLen := 4000, iRecvTotalLen := 8192\<rparr>"

definition half_received :: world where
  "half_received = serving client1_growing (take 4000 echo5014 @ replicate 4192 0) (replicate 4096 0)
     EVENT_READABLE (sock1 [Data (drop 4000 echo5014)] []) (Timeval 100 0)"

theorem long_echo_overruns_witness:
  "ProcessRecvCallback half_received 1 (iFd client1_growing) 1 = undef OutOfBounds"
proof (rule long_echo_overruns [OF _ refl, where rb = 2 and sb = 3 and sbs = "replicate 4096 0"])
  have "length echo5014 = 5014" by simp
  moreover have "length (take 4000 echo5014) = 4000" by simp
  then have "take 4000 (take 4000 echo5014 @ replicate 4192 0) = take 4000 echo5014"
    by simp
  ultimately show "packet_partly half_received 1 client1_growing 2 (sock1 [Data (drop 4000 echo5014)] []) echo5014"
    unfolding packet_partly_def half_received_def
    by (simp add: client1_growing_def mem_at_def mem_room_def load_bytes_def mem_slice_def sock1_def del: take_append
        drop_append packet_bytes_def)
qed (simp_all add: half_received_def client1_growing_def INT_MAX_def)

section \<open>The event loop\<close>

text \<open>C8: on a server in order, the timeout service terminates and destroys exactly the
  connections whose time has come; the others keep their timers, and the server is in order again.
  (The fuel of the loop, one more than the size of the heap, always suffices.)\<close>

theorem timeouts_destroy_exactly_the_due:
  assumes "server_ok w ps ids" and "w_base w = Some eb" "pstTimeCache eb = Some now" and "ep \<noteq> NULL"
  shows "\<exists>w' qs. ReactorProcessTimeoutEvent w ep = Inr (RET_SUCC, w') \<and> server_ok w' qs {p \<in> ids. now < due_of w p}
     \<and> w_conns w' = (\<lambda>p. if p \<in> ids \<and> due_of w p \<le> now then None else w_conns w p)
     \<and> (\<forall>p \<in> ids. now < due_of w p \<longrightarrow> due_of w' p = due_of w p)"
proof -
  have "timers_ok w ps" using assms(1) by (simp add: server_ok_def)
  then obtain H where H: "pstHeapHeader eb = Some H" "heap_rep H (w_tevs w) ps"
    using assms(2) by (auto elim: timers_okE)
  have "card (set ps) < nat (MinheapGetCurSize (pstHeapHeader eb)) + 1"
    using H heap_repD(1) [OF H(2)] card_length [of ps] by (simp add: MinheapGetCurSize_def)
  moreover have "map_option pstTimeCache (w_base w) = Some (Some now)" using assms(2,3) by simp
  ultimately show ?thesis
    using timeout_loop_expires [OF assms(1) _ assms(4)] assms(2-4)
    by (simp add: ReactorProcessTimeoutEvent_def get_base_def del: timeout_loop.simps)
qed

theorem timeouts_destroy_exactly_the_due_witness:
  "\<exists>w' qs. ReactorProcessTimeoutEvent (idle_at (Timeval 160 0)) 1 = Inr (RET_SUCC, w')
     \<and> server_ok w' qs {p \<in> {1}. Timeval 160 0 < due_of (idle_at (Timeval 160 0)) p}
     \<and> w_conns w' = (\<lambda>p. if p \<in> {1} \<and> due_of (idle_at (Timeval 160 0)) p \<le> Timeval 160 0 then None
          else w_conns (idle_at (Timeval 160 0)) p)
     \<and> (\<forall>p \<in> {1}. Timeval 160 0 < due_of (idle_at (Timeval 160 0)) p \<longrightarrow> due_of w' p = due_of (idle_at (Timeval 160 0)) p)"
  by (rule timeouts_destroy_exactly_the_due [OF serving_ok, where eb = "base1 EVENT_READABLE (Timeval 160 0)"]) simp_all



end
