(* ===== verification/BenchClient.thy ===== *)
theory BenchClient
  imports SocketApi "HOL-Library.Char_ord"
begin

text \<open>
  The benchmark client of \<open>client/http/worker.c\<close>: its data, its clock, the request it sends, and
  the operations of its reactor on one client.  A \<open>ClientFD *\<close> is an index into the array of
  clients; the process has one configuration, which is both \<open>config\<close> and the
  \<open>pst_config\<close> of every client.  \<open>printf\<close> is left out.
\<close>

section \<open>Constants and records of worker.h\<close>

definition FDARRAY_INDEX_INIT :: int where "FDARRAY_INDEX_INIT = -1"
definition MAX_RECV_BUF_LEN :: int where "MAX_RECV_BUF_LEN = 4096"
definition MAX_SEND_BUF_LEN :: int where "MAX_SEND_BUF_LEN = 4096"
definition MAX_FAIL_COUNT :: int where "MAX_FAIL_COUNT = 1000"
definition CONNECT_TIMEOUT :: u64 where "CONNECT_TIMEOUT = 3"
definition TIMEOUT_USEC_TIMEVAL :: u64 where "TIMEOUT_USEC_TIMEVAL = 200000"
definition ENONE :: u32 where "ENONE = 0"
definition READABLE :: u32 where "READABLE = 1"
definition WRITEABLE :: u32 where "WRITEABLE = 2"
definition PROTOCOL_TCP :: "16 word" where "PROTOCOL_TCP = 1"
definition PROTOCOL_UDP :: "16 word" where "PROTOCOL_UDP = 2"

datatype funcProcCallback = SendToServer | RecvFromServer

record EpollLoop =
  stop :: int
  epfd :: int

record ClientFD =
  cl_fd :: int
  cl_mask :: u32
  pep_loop :: nat
  pst_config :: nat
  cl_latency :: u64
  cl_startTime :: u64
  cl_endTime :: u64
  touchTime :: u64
  recvBufLen :: u32
  sendedLen :: u32
  sendBufLen :: u32
  recvBuf :: buf
  sendBuf :: buf
  rFuncProc :: "funcProcCallback option"
  wFuncProc :: "funcProcCallback option"

record StatisticsStruct =
  resetClientNum :: u32
  timeoutClientNum :: u32
  totalRequests :: u32
  needRequestNum :: u32
  doneRequests :: u32
  startTime :: u64
  endTime :: u64
  keepalive :: int
  liveClientNum :: u32
  createClientNum :: u32
  needClientNum :: u32
  randomFlag :: int
  port :: "16 word"
  protocol :: "16 word"
  szhost :: buf
  latency :: "u64 list option"
  epoll_loop :: "EpollLoop option"
  clients_ptr :: "ClientFD list option"

section \<open>The process\<close>

text \<open>
  What \<open>socket()\<close> and the calls on a new socket will do: the descriptor, how \<open>connect\<close> ends,
  what \<open>SO_ERROR\<close> says (\<open>None\<close>: \<open>getsockopt\<close> fails), and what the network brings to it.  An
  exhausted list gives no socket.  A descriptor that is negative, too large or open is one the
  kernel never returns; such an answer counts as a failure.
\<close>

datatype connect_res = Connected | InProgress | ConnectFails
datatype sock_answer = NoSocket | Socket int connect_res "int option" "net_in list" "net_out list"

record bench =
  b_conf :: StatisticsStruct
  b_tv :: timeval              \<comment> \<open>the static \<open>_tv\<close>\<close>
  b_clock :: timeval           \<comment> \<open>what \<open>gettimeofday\<close> says\<close>
  b_errno :: errno
  b_kern :: kernel
  b_sockets :: "sock_answer list"
  b_malloc :: "bool list"

definition get_client :: "bench \<Rightarrow> nat \<Rightarrow> ClientFD outcome" where
  "get_client b i = (case clients_ptr (b_conf b) of None \<Rightarrow> undef NullDeref
     | Some cs \<Rightarrow> if i < length cs then Inr (cs ! i) else undef OutOfBounds)"

definition put_conf :: "bench \<Rightarrow> StatisticsStruct \<Rightarrow> bench" where
  "put_conf b s = b\<lparr>b_conf := s\<rparr>"

definition put_client :: "bench \<Rightarrow> nat \<Rightarrow> ClientFD \<Rightarrow> bench" where
  "put_client b i c = put_conf b ((b_conf b)\<lparr>clients_ptr := map_option (\<lambda>cs. cs[i := c]) (clients_ptr (b_conf b))\<rparr>)"

definition put_bkern :: "bench \<Rightarrow> kernel \<Rightarrow> bench" where
  "put_bkern b k = b\<lparr>b_kern := k\<rparr>"

text \<open>A failed \<open>assert\<close>.\<close>

definition c_assert :: "bool \<Rightarrow> unit outcome" where
  "c_assert P = (if P then Inr () else Inl Aborts)"

section \<open>Time\<close>

definition read_tv :: "bench \<Rightarrow> bench" where
  "read_tv b = (if tv_sec (b_tv b) = 0 then b\<lparr>b_tv := b_clock b\<rparr> else b)"

definition GetmsecTime :: "bench \<Rightarrow> u64 \<times> bench" where
  "GetmsecTime b = (let b1 = read_tv b in
     (word_of_int (tv_sec (b_tv b1) * 1000) + word_of_int (tv_usec (b_tv b1) div 1000), b1))"

definition GetusecTime :: "bench \<Rightarrow> u64 \<times> bench" where
  "GetusecTime b = (let b1 = read_tv b in
     (word_of_int (tv_sec (b_tv b1)) * 1000000 + word_of_int (tv_usec (b_tv b1)), b1))"

definition TouchTime :: "bench \<Rightarrow> bench" where
  "TouchTime b = b\<lparr>b_tv := b_clock b\<rparr>"

text \<open>The 64-bit difference is returned as an \<open>int\<close>.\<close>

definition CompareLatency :: "u64 \<Rightarrow> u64 \<Rightarrow> int" where
  "CompareLatency a b = sint (ucast (a - b) :: u32)"

section \<open>The request\<close>

definition crlf :: string where "crlf = [char_of (13 :: nat), char_of (10 :: nat)]"

definition request_text :: string where
  "request_text = concat (map (\<lambda>l. l @ crlf)
     [''GET / HTTP/1.1'',
      ''Host: xx.com'',
      ''Connection: keep-alive'',
      ''User-Agent: Mozilla/5.0 (Windows NT 5.1) AppleWebKit/535.11 (KHTML, like Gecko) Chrome/17.0.963.56 Safari/535.11'',
      ''Referer: http://sbdji.com/'',
      ''Accept: */*'',
      ''Accept-Encoding: gzip,deflate,sdch'',
      ''Accept-Language: zh-CN,zh;q=0.8,en;q=0.6'',
      ''Accept-Charset: gb18030,utf-8;q=0.7,*;q=0.3'',
      ''''])"

definition request_bytes :: buf where
  "request_bytes = map (\<lambda>c. of_nat (of_char c)) request_text"

text \<open>The static buffer is filled once with the text and its \<open>strlen\<close> is the text's length.\<close>

definition EncodeRequest :: "buf \<Rightarrow> int \<Rightarrow> (int \<times> buf) outcome" where
  "EncodeRequest data maxLen = (let len = int (length request_bytes) in
     if len > maxLen then Inr (-1, data)
     else cbind (mem_copy data 0 request_bytes) (\<lambda>data'. Inr (len, data')))"

definition DecodeResponse :: "buf \<Rightarrow> u32 \<Rightarrow> int" where
  "DecodeResponse data len = 0"

section \<open>Sockets\<close>

definition SetNonBlock :: "kernel \<Rightarrow> int \<Rightarrow> int \<times> kernel" where
  "SetNonBlock k fd = (let (got, k1) = sys_control k fd id in
     if \<not> got then (-1, k1)
     else let (ok, k2) = sys_control k1 fd (\<lambda>so. so\<lparr>s_flags := s_flags so OR O_NONBLOCK\<rparr>) in
     if \<not> ok then (-1, k2) else (0, k2))"

definition SetTcpNoDelay :: "kernel \<Rightarrow> int \<Rightarrow> int \<times> kernel" where
  "SetTcpNoDelay k fd = (let (ok, k1) = sys_control k fd id in (if ok then 0 else -1, k1))"

text \<open>The next answer for \<open>socket()\<close>, with the socket entered in the kernel.\<close>

definition next_socket :: "bench \<Rightarrow> sock_answer \<times> bench" where
  "next_socket b = (case b_sockets b of [] \<Rightarrow> (NoSocket, b)
     | NoSocket # r \<Rightarrow> (NoSocket, b\<lparr>b_sockets := r\<rparr>)
     | Socket fd con err i out # r \<Rightarrow>
         if fd < 0 \<or> fd > INT_MAX \<or> sock_is_open (b_kern b) fd then (NoSocket, b\<lparr>b_sockets := r\<rparr>)
         else (Socket fd con err i out, b\<lparr>b_sockets := r, b_kern := (b_kern b)\<lparr>k_socks :=
            (k_socks (b_kern b))(fd \<mapsto> new_sock\<lparr>s_in := i, s_out := out\<rparr>)\<rparr>\<rparr>))"

text \<open>
  \<open>TestConnect\<close>: the socket is closed when it cannot be set up or connected, and is left open in
  both other cases.
\<close>

definition TestConnect :: "bench \<Rightarrow> int \<times> bench" where
  "TestConnect b = (case next_socket b of (NoSocket, b1) \<Rightarrow> (-1, b1)
     | (Socket fd con err i out, b1) \<Rightarrow>
       (let (r, k) = SetNonBlock (b_kern b1) fd in
        if r < 0 then (-1, put_bkern b1 (sys_close k fd))
        else if con = ConnectFails then (-1, put_bkern b1 (sys_close k fd))
        else (if (case err of None \<Rightarrow> 1 | Some e \<Rightarrow> e) \<noteq> (0 :: int) then -1 else 0, put_bkern b1 k)))"

end
