(* ===== verification/BenchReactor.thy ===== *)
theory BenchReactor
  imports BenchClient
begin

text \<open>
  The reactor of the benchmark client (\<open>client/http/worker.c\<close>): registering events of one client,
  opening, closing and resetting clients, and the callbacks that send the request and receive the
  response.
\<close>

section \<open>Events\<close>

definition client_events :: "u32 \<Rightarrow> u32" where
  "client_events m = (if m AND READABLE \<noteq> 0 then EPOLLIN else 0) OR (if m AND WRITEABLE \<noteq> 0 then EPOLLOUT else 0)"

text \<open>The mask is merged before the event is checked; an unknown event is reported without a call.\<close>

definition ReactorAddEvent :: "bench \<Rightarrow> nat \<Rightarrow> u32 \<Rightarrow> funcProcCallback \<Rightarrow> (int \<times> bench) outcome" where
  "ReactorAddEvent b i t_imask func = cbind (get_client b i) (\<lambda>c.
     cbind (c_assert (pep_loop c \<noteq> NULL)) (\<lambda>_.
     let op = (if cl_mask c = ENONE then EPOLL_CTL_ADD else EPOLL_CTL_MOD);
         c1 = c\<lparr>cl_mask := cl_mask c OR t_imask\<rparr> in
     if t_imask AND (WRITEABLE OR READABLE) = 0 then Inr (-1, put_client b i c1)
     else let c2 = (if t_imask AND WRITEABLE \<noteq> 0 then c1\<lparr>wFuncProc := Some func\<rparr> else c1\<lparr>rFuncProc := Some func\<rparr>);
              (r, k) = epoll_ctl (b_kern b) op (cl_fd c) (client_events (cl_mask c1))
          in Inr (r, put_bkern (put_client b i c2) k)))"

definition ReactorDelEvent :: "bench \<Rightarrow> nat \<Rightarrow> u32 \<Rightarrow> (int \<times> bench) outcome" where
  "ReactorDelEvent b i t_imask = cbind (get_client b i) (\<lambda>c.
     let c1 = c\<lparr>cl_mask := cl_mask c AND NOT t_imask\<rparr>;
         op = (if cl_mask c1 = ENONE then EPOLL_CTL_DEL else EPOLL_CTL_MOD) in
     if pep_loop c = NULL then undef NullDeref
     else let (r, k) = epoll_ctl (b_kern b) op (cl_fd c) (client_events (cl_mask c1))
          in Inr (r, put_bkern (put_client b i c1) k))"

section \<open>Closing and opening a client\<close>

text \<open>The result of \<open>epoll_ctl\<close> is ignored; the mask is left as it is.\<close>

definition ReactorCloseConnection :: "bench \<Rightarrow> nat \<Rightarrow> bench outcome" where
  "ReactorCloseConnection b i = cbind (get_client b i) (\<lambda>c.
     cbind (c_assert (pep_loop c \<noteq> NULL)) (\<lambda>_.
     let (r, k) = epoll_ctl (b_kern b) EPOLL_CTL_DEL (cl_fd c) 0;
         b1 = put_client (put_bkern b (sys_close k (cl_fd c))) i (c\<lparr>cl_fd := FDARRAY_INDEX_INIT\<rparr>) in
     if pst_config c = NULL then undef NullDeref
     else Inr (put_conf b1 ((b_conf b1)\<lparr>liveClientNum := liveClientNum (b_conf b1) - 1\<rparr>))))"

text \<open>The slot of a descriptor: the descriptor, converted to \<open>unsigned\<close>, modulo the number of clients.\<close>

definition client_index :: "StatisticsStruct \<Rightarrow> int \<Rightarrow> nat outcome" where
  "client_index s fd = (if needClientNum s = 0 then undef DivByZero
     else Inr (unat (word_of_int fd mod needClientNum s)))"

definition client_socket :: "bench \<Rightarrow> int option \<times> bench" where
  "client_socket b = (case next_socket b of (NoSocket, b1) \<Rightarrow> (None, b1)
     | (Socket fd con err i out, b1) \<Rightarrow>
       (let (r, k) = SetNonBlock (b_kern b1) fd in
        if r < 0 then (None, put_bkern b1 (sys_close k fd))
        else if con = ConnectFails then (None, put_bkern b1 (sys_close k fd))
        else if protocol (b_conf b1) = PROTOCOL_TCP
        then (let (r2, k2) = SetTcpNoDelay k fd in
              if r2 < 0 then (None, put_bkern b1 (sys_close k2 fd)) else (Some fd, put_bkern b1 k2))
        else (Some fd, put_bkern b1 k)))"

text \<open>
  The slot is taken before the event is added; when adding fails the socket is closed and the slot
  keeps the descriptor.  The test of \<open>sendBufLen < 0\<close> is one of an \<open>unsigned\<close> and never true.
  The index parameter is overwritten by the function.
\<close>

definition fresh_client :: "ClientFD \<Rightarrow> int \<Rightarrow> int \<Rightarrow> buf \<Rightarrow> ClientFD" where
  "fresh_client c fd len data = c\<lparr>cl_fd := fd, cl_mask := ENONE, pep_loop := 1, pst_config := 1,
     sendBufLen := word_of_int len, sendBuf := data, sendedLen := 0, recvBufLen := 0\<rparr>"

definition ReactorClientInit :: "bench \<Rightarrow> (int \<times> bench) outcome" where
  "ReactorClientInit b = (case client_socket b of (None, b1) \<Rightarrow> Inr (-1, b1)
     | (Some fd, b1) \<Rightarrow>
       cbind (client_index (b_conf b1) fd) (\<lambda>i. cbind (get_client b1 i) (\<lambda>c.
         if cl_fd c \<noteq> FDARRAY_INDEX_INIT then Inr (-1, put_bkern b1 (sys_close (b_kern b1) fd))
         else cbind (EncodeRequest (sendBuf c) (MAX_SEND_BUF_LEN + 1)) (\<lambda>(len, data).
              cbind (ReactorAddEvent (put_client b1 i (fresh_client c fd len data)) i WRITEABLE SendToServer) (\<lambda>(r, b2).
                if r < 0 then Inr (-1, put_bkern b2 (sys_close (b_kern b2) fd))
                else Inr (0, put_conf b2 ((b_conf b2)\<lparr>liveClientNum := liveClientNum (b_conf b2) + 1,
                       createClientNum := createClientNum (b_conf b2) + 1\<rparr>)))))))"

text \<open>The results of the two event calls are ignored.\<close>

definition ReactorResetClient :: "bench \<Rightarrow> nat \<Rightarrow> bench outcome" where
  "ReactorResetClient b i =
     cbind (ReactorDelEvent b i READABLE) (\<lambda>(_, b1).
     cbind (ReactorAddEvent b1 i WRITEABLE SendToServer) (\<lambda>(_, b2).
     cbind (get_client b2 i) (\<lambda>c.
       let c1 = c\<lparr>recvBufLen := 0, sendedLen := 0\<rparr> in
       if pst_config c = NULL then undef NullDeref
       else cbind (if randomFlag (b_conf b2) = 1
              then cbind (EncodeRequest (sendBuf c1) (MAX_SEND_BUF_LEN + 1)) (\<lambda>(len, data).
                     Inr (c1\<lparr>sendBufLen := word_of_int len, sendBuf := data\<rparr>))
              else Inr c1) (\<lambda>c2.
            let b3 = put_client b2 i c2 in
            Inr (put_conf b3 ((b_conf b3)\<lparr>resetClientNum := resetClientNum (b_conf b3) + 1\<rparr>))))))"

definition reopen :: "bench \<Rightarrow> nat \<Rightarrow> bench outcome" where
  "reopen b i = cbind (ReactorCloseConnection b i) (\<lambda>b1. cbind (ReactorClientInit b1) (\<lambda>(_, b2). Inr b2))"

definition stop_loop :: "bench \<Rightarrow> bench" where
  "stop_loop b = put_conf b ((b_conf b)\<lparr>epoll_loop := map_option (stop_update (\<lambda>_. 0)) (epoll_loop (b_conf b))\<rparr>)"

definition ReactorCloseConnectionNormal :: "bench \<Rightarrow> nat \<Rightarrow> bench outcome" where
  "ReactorCloseConnectionNormal b i = cbind (get_client b i) (\<lambda>c.
     if pst_config c = NULL then undef NullDeref
     else if doneRequests (b_conf b) \<ge> needRequestNum (b_conf b)
     then (if pep_loop c = NULL \<or> epoll_loop (b_conf b) = None then undef NullDeref else Inr (stop_loop b))
     else if keepalive (b_conf b) \<noteq> 0 \<or> protocol (b_conf b) = PROTOCOL_UDP then ReactorResetClient b i
     else reopen b i)"

section \<open>Sending\<close>

text \<open>
  The write loop: a result of 0 or below is judged by \<open>errno\<close>, which a successful call leaves as it
  was.  The result is the count or the \<open>errno\<close> that ended the loop.
\<close>

function write_loop :: "net_out list \<Rightarrow> nat \<Rightarrow> errno \<Rightarrow> nat sys_result \<times> net_out list \<times> errno" where
  "write_loop s n err = (case sys_write s n of
       (Got k, s') \<Rightarrow> if 0 < k then (Got k, s', err)
          else if err = EINTR then write_loop s' n err
          else (Failed err, s', err)
     | (Failed e, s') \<Rightarrow> if e = EINTR then write_loop s' n e else (Failed e, s', e))"
  by pat_completeness auto
termination
  by (relation "measure (\<lambda>(s, n, err). length s)") (auto dest!: sys_write_consumes [OF sym])

declare write_loop.simps [simp del]

definition set_sock :: "bench \<Rightarrow> int \<Rightarrow> sock \<Rightarrow> errno \<Rightarrow> bench" where
  "set_sock b fd so err = b\<lparr>b_errno := err, b_kern := (b_kern b)\<lparr>k_socks := (k_socks (b_kern b))(fd \<mapsto> so)\<rparr>\<rparr>"

text \<open>\<open>write\<close> on the client's socket: a closed descriptor fails with an error of its own.\<close>

definition client_write :: "bench \<Rightarrow> ClientFD \<Rightarrow> (nat sys_result \<times> bench) outcome" where
  "client_write b c = (case k_socks (b_kern b) (cl_fd c) of None \<Rightarrow> Inr (Failed EOTHER, b\<lparr>b_errno := EOTHER\<rparr>)
     | Some so \<Rightarrow> (case write_loop (s_out so) (unat (sendBufLen c - sendedLen c)) (b_errno b) of
         (Got k, s', err) \<Rightarrow> cbind (mem_slice (sendBuf c) (uint (sendedLen c)) (int k)) (\<lambda>bs.
             Inr (Got k, set_sock b (cl_fd c) (so\<lparr>s_out := s', s_sent := s_sent so @ bs\<rparr>) err))
       | (Failed e, s', err) \<Rightarrow> Inr (Failed e, set_sock b (cl_fd c) (so\<lparr>s_out := s'\<rparr>) err)))"

text \<open>The times a callback notes before it writes: the start, on the first write of a request.\<close>

definition note_send :: "bench \<Rightarrow> nat \<Rightarrow> ClientFD \<Rightarrow> bench" where
  "note_send b i c = (let (c1, b1) = (if sendedLen c = 0
       then let (t, b1) = GetusecTime b in (c\<lparr>cl_startTime := t, cl_latency := -1\<rparr>, b1) else (c, b));
       (t2, b2) = GetusecTime b1
     in put_client b2 i (c1\<lparr>touchTime := t2\<rparr>))"

definition SendToServerCallback :: "bench \<Rightarrow> nat \<Rightarrow> (int \<times> bench) outcome" where
  "SendToServerCallback b i = cbind (get_client b i) (\<lambda>c0.
     let b1 = note_send b i c0 in
     cbind (get_client b1 i) (\<lambda>c.
     cbind (client_write b1 c) (\<lambda>(res, b2). case res of
         Failed e \<Rightarrow> if e = EAGAIN then Inr (1, b2) else cbind (reopen b2 i) (\<lambda>b3. Inr (-1, b3))
       | Got k \<Rightarrow>
           if pst_config c = NULL then undef NullDeref
           else let c1 = c\<lparr>sendedLen := sendedLen c + of_nat k\<rparr>;
                    b3 = put_conf b2 ((b_conf b2)\<lparr>totalRequests := totalRequests (b_conf b2) + 1\<rparr>);
                    b4 = put_client b3 i c1 in
             if sendedLen c1 = sendBufLen c1
             then cbind (ReactorDelEvent b4 i WRITEABLE) (\<lambda>(_, b5).
                  cbind (ReactorAddEvent b5 i READABLE RecvFromServer) (\<lambda>(_, b6). Inr (0, b6)))
             else Inr (0, b4))))"

section \<open>Receiving\<close>

function read_loop :: "net_in list \<Rightarrow> nat \<Rightarrow> errno \<Rightarrow> buf sys_result \<times> net_in list \<times> errno" where
  "read_loop s n err = (case sys_read s n of
       (Got bs, s') \<Rightarrow> (Got bs, s', err)
     | (Failed e, s') \<Rightarrow> if e = EINTR then read_loop s' n e else (Failed e, s', e))"
  by pat_completeness auto
termination
  by (relation "measure (\<lambda>(s, n, err). length s)") (auto dest: sys_read_Failed [OF sym])

declare read_loop.simps [simp del]

text \<open>The room left in the buffer of \<open>MAX_RECV_BUF_LEN + 1\<close> bytes.\<close>

definition client_read :: "bench \<Rightarrow> ClientFD \<Rightarrow> ((buf sys_result \<times> buf) \<times> bench) outcome" where
  "client_read b c = (case k_socks (b_kern b) (cl_fd c) of
       None \<Rightarrow> Inr ((Failed EOTHER, recvBuf c), b\<lparr>b_errno := EOTHER\<rparr>)
     | Some so \<Rightarrow> (case read_loop (s_in so) (nat ((MAX_RECV_BUF_LEN + 1 - uint (recvBufLen c)) mod 2 ^ 64)) (b_errno b) of
         (Got bs, s', err) \<Rightarrow> cbind (mem_copy (recvBuf c) (uint (recvBufLen c)) bs) (\<lambda>data.
             Inr ((Got bs, data), set_sock b (cl_fd c) (so\<lparr>s_in := s'\<rparr>) err))
       | (Failed e, s', err) \<Rightarrow> Inr ((Failed e, recvBuf c), set_sock b (cl_fd c) (so\<lparr>s_in := s'\<rparr>) err)))"

definition note_recv :: "bench \<Rightarrow> nat \<Rightarrow> ClientFD \<Rightarrow> bench" where
  "note_recv b i c = (let (t, b1) = GetusecTime b; c1 = c\<lparr>touchTime := t\<rparr> in
     if sint (cl_latency c1) < 0
     then let (t2, b2) = GetusecTime b1 in put_client b2 i (c1\<lparr>cl_latency := t2 - cl_startTime c1\<rparr>)
     else put_client b1 i c1)"

text \<open>A whole response: its latency is recorded while requests are still needed.\<close>

definition record_latency :: "bench \<Rightarrow> ClientFD \<Rightarrow> bench outcome" where
  "record_latency b c = (let s = b_conf b in
     if doneRequests s < needRequestNum s
     then (case latency s of None \<Rightarrow> undef NullDeref
        | Some xs \<Rightarrow> if unat (doneRequests s) < length xs
            then Inr (put_conf b (s\<lparr>latency := Some (xs[unat (doneRequests s) := cl_latency c]),
                                    doneRequests := doneRequests s + 1\<rparr>))
            else undef OutOfBounds)
     else Inr b)"

definition RecvFromServerCallback :: "bench \<Rightarrow> nat \<Rightarrow> (int \<times> bench) outcome" where
  "RecvFromServerCallback b i = cbind (get_client b i) (\<lambda>c0.
     let b1 = note_recv b i c0 in
     cbind (get_client b1 i) (\<lambda>c.
     cbind (client_read b1 c) (\<lambda>((res, data), b2). case res of
         Failed e \<Rightarrow> if e = EAGAIN then Inr (1, b2) else cbind (reopen b2 i) (\<lambda>b3. Inr (-1, b3))
       | Got bs \<Rightarrow>
           if bs = [] then cbind (reopen b2 i) (\<lambda>b3. Inr (-1, b3))
           else let c1 = c\<lparr>recvBuf := data, recvBufLen := recvBufLen c + of_nat (length bs)\<rparr>;
                    b3 = put_client b2 i c1; ret = DecodeResponse data (recvBufLen c1) in
             if uint (recvBufLen c1) > MAX_RECV_BUF_LEN then Inl (Exits (-1))
             else if ret < 0 then cbind (reopen b3 i) (\<lambda>b4. Inr (-1, b4))
             else if ret = 1 then Inr (0, b3)
             else if pst_config c1 = NULL then undef NullDeref
             else cbind (record_latency b3 c1) (\<lambda>b4.
                  cbind (ReactorCloseConnectionNormal b4 i) (\<lambda>b5. Inr (0, b5))))))"

end
