(* ===== verification/BenchLoop.thy ===== *)
theory BenchLoop
  imports BenchReactor
begin

text \<open>
  The life of the benchmark client (\<open>client/http/worker.c\<close> and \<open>benchmark.c\<close>): configuration and
  options, the initial clients, the event loop with its timeout check, and the integer part of the
  report.
\<close>

section \<open>Configuration\<close>

definition ascii :: "string \<Rightarrow> buf" where
  "ascii s = map (\<lambda>c. of_nat (of_char c)) s"

text \<open>\<open>strncpy\<close> of \<open>IP_LEN\<close> bytes: padded with zeros, and not terminated when the text is longer.\<close>

definition strncpy16 :: "buf \<Rightarrow> buf" where
  "strncpy16 s = take 16 (takeWhile (\<lambda>x. x \<noteq> 0) s @ replicate 16 0)"

definition InitConfig :: "StatisticsStruct \<Rightarrow> StatisticsStruct" where
  "InitConfig s = s\<lparr>createClientNum := 0, timeoutClientNum := 0, totalRequests := 0, needRequestNum := 50,
     doneRequests := 0, resetClientNum := 0, port := 5113, szhost := strncpy16 (ascii ''127.0.0.1''),
     protocol := PROTOCOL_TCP, startTime := 0, endTime := 0, keepalive := 0, liveClientNum := 0,
     needClientNum := 5, randomFlag := 0, latency := None, epoll_loop := None, clients_ptr := None\<rparr>"

text \<open>
  One option as \<open>getopt_long\<close> returns it; \<open>atoi\<close> has been applied to the argument of the numeric
  ones.  The results of \<open>atoi\<close> are converted to the types of the fields.
\<close>

datatype bench_opt = OptC int | OptN int | OptH buf | OptP int | OptK | OptU | OptR | OptOther

fun apply_opt :: "StatisticsStruct \<Rightarrow> bench_opt \<Rightarrow> StatisticsStruct outcome" where
  "apply_opt s (OptC n) = Inr (s\<lparr>needClientNum := word_of_int n\<rparr>)"
| "apply_opt s (OptN n) = Inr (s\<lparr>needRequestNum := word_of_int n\<rparr>)"
| "apply_opt s (OptH h) = Inr (s\<lparr>szhost := strncpy16 h\<rparr>)"
| "apply_opt s (OptP n) = Inr (s\<lparr>port := word_of_int n\<rparr>)"
| "apply_opt s OptK = Inr (s\<lparr>keepalive := 1\<rparr>)"
| "apply_opt s OptU = Inr (s\<lparr>protocol := PROTOCOL_UDP\<rparr>)"
| "apply_opt s OptR = Inr (s\<lparr>randomFlag := 1\<rparr>)"
| "apply_opt s OptOther = Inl (Exits 1)"

fun apply_opts :: "StatisticsStruct \<Rightarrow> bench_opt list \<Rightarrow> StatisticsStruct outcome" where
  "apply_opts s [] = Inr s"
| "apply_opts s (x # xs) = cbind (apply_opt s x) (\<lambda>s1. apply_opts s1 xs)"

text \<open>\<open>host_ok\<close> is what \<open>inet_addr\<close> says of the host, which it reads up to its zero byte; the connect test is made twice.\<close>

definition ParseOptions :: "(buf \<Rightarrow> bool) \<Rightarrow> bench \<Rightarrow> bench_opt list \<Rightarrow> bench outcome" where
  "ParseOptions host_ok b opts = cbind (apply_opts (b_conf b) opts) (\<lambda>s.
     if 0 \<notin> set (szhost s) then undef OutOfBounds
     else if \<not> host_ok (szhost s) then Inl (Exits 1)
     else if uint (port s) \<le> 0 \<or> uint (port s) > 65535 then Inl (Exits 1)
     else let (r1, b1) = TestConnect (put_conf b s); (r2, b2) = TestConnect b1 in
       if r2 < 0 then Inl (Exits 1) else Inr b2)"

section \<open>The initial clients\<close>

definition CreateSingleEpollLoop :: "bench \<Rightarrow> int \<Rightarrow> int \<Rightarrow> EpollLoop option \<times> bench" where
  "CreateSingleEpollLoop b t_iMaxClients ep =
     (if t_iMaxClients \<le> 0 then (None, b)
      else let (ok1, r1) = next_answer (b_malloc b); b1 = b\<lparr>b_malloc := r1\<rparr> in
      if \<not> ok1 then (None, b1)
      else if ep < 0 then (None, b1)
      else let (ok2, r2) = next_answer (b_malloc b1); b2 = b1\<lparr>b_malloc := r2\<rparr> in
      if \<not> ok2 then (None, b2) else (Some \<lparr>stop = 1, epfd = ep\<rparr>, b2))"

text \<open>
  The loop that creates clients while fewer live than are needed.  A client that cannot be created
  ends the process, and one that can makes the count of live clients larger, so that the difference
  of the counts is enough fuel; theory \<open>BenchInvariant\<close> shows that it is.
\<close>

fun fill_clients :: "nat \<Rightarrow> bench \<Rightarrow> bench outcome" where
  "fill_clients n b = (if liveClientNum (b_conf b) < needClientNum (b_conf b)
     then (case n of 0 \<Rightarrow> Inl Diverges
       | Suc m \<Rightarrow> cbind (ReactorClientInit b) (\<lambda>(r, b1). if r < 0 then Inl (Exits 1) else fill_clients m b1))
     else Inr b)"

declare fill_clients.simps [simp del]

definition refill :: "bench \<Rightarrow> bench outcome" where
  "refill b = fill_clients (unat (needClientNum (b_conf b) - liveClientNum (b_conf b))) b"

definition zero_client :: ClientFD where
  "zero_client = \<lparr>cl_fd = 0, cl_mask = 0, pep_loop = NULL, pst_config = NULL, cl_latency = 0, cl_startTime = 0,
     cl_endTime = 0, touchTime = 0, recvBufLen = 0, sendedLen = 0, sendBufLen = 0,
     recvBuf = replicate (nat (MAX_RECV_BUF_LEN + 1)) 0, sendBuf = replicate (nat (MAX_SEND_BUF_LEN + 1)) 0,
     rFuncProc = None, wFuncProc = None\<rparr>"

definition InitSingleReactor :: "bench \<Rightarrow> int \<Rightarrow> (int \<times> bench) outcome" where
  "InitSingleReactor b ep = (let s = b_conf b; uClientNum = needClientNum s; uRequestNum = needRequestNum s;
       (ok1, r1) = next_answer (b_malloc b); b1 = b\<lparr>b_malloc := r1\<rparr> in
     if \<not> ok1 then Inr (-1, put_conf b1 (s\<lparr>clients_ptr := None\<rparr>))
     else let s1 = s\<lparr>clients_ptr := Some (replicate (unat uClientNum) (zero_client\<lparr>cl_fd := FDARRAY_INDEX_INIT\<rparr>))\<rparr>;
              (ok2, r2) = next_answer r1; b2 = b\<lparr>b_malloc := r2\<rparr> in
     if \<not> ok2 then Inr (-1, put_conf b2 (s1\<lparr>latency := None\<rparr>))
     else let s2 = s1\<lparr>latency := Some (replicate (unat uRequestNum) 0)\<rparr>;
              (lp, b3) = CreateSingleEpollLoop b2 (sint (uClientNum + 1)) ep;
              b4 = put_conf b3 (s2\<lparr>epoll_loop := lp\<rparr>) in
     if lp = None then Inr (-1, b4)
     else cbind (refill b4) (\<lambda>b5. Inr (0, b5)))"

section \<open>Timeouts\<close>

text \<open>One client of the timeout check.\<close>

definition clear_one :: "bench \<Rightarrow> u64 \<Rightarrow> nat \<Rightarrow> bench outcome" where
  "clear_one b curTime i = cbind (get_client b i) (\<lambda>c.
     if cl_fd c > 0 \<and> touchTime c + CONNECT_TIMEOUT * 1000000 \<le> curTime
     then ReactorResetClient (put_conf b ((b_conf b)\<lparr>timeoutClientNum := timeoutClientNum (b_conf b) + 1\<rparr>)) i
     else Inr b)"

fun clear_from :: "bench \<Rightarrow> u64 \<Rightarrow> nat list \<Rightarrow> bench outcome" where
  "clear_from b curTime [] = Inr b"
| "clear_from b curTime (i # is) = cbind (clear_one b curTime i) (\<lambda>b1. clear_from b1 curTime is)"

definition ClearTimeoutConnection :: "bench \<Rightarrow> u64 \<Rightarrow> bench outcome" where
  "ClearTimeoutConnection b curTime = clear_from b curTime [0..<unat (needClientNum (b_conf b))]"

section \<open>The event loop\<close>

definition run_client_callback :: "bench \<Rightarrow> nat \<Rightarrow> funcProcCallback option \<Rightarrow> bench outcome" where
  "run_client_callback b i f = (case f of None \<Rightarrow> undef NullDeref
     | Some SendToServer \<Rightarrow> cbind (SendToServerCallback b i) (\<lambda>(_, b1). Inr b1)
     | Some RecvFromServer \<Rightarrow> cbind (RecvFromServerCallback b i) (\<lambda>(_, b1). Inr b1))"

text \<open>
  One event, with the number of failures so far.  The slot is computed from the descriptor of the
  event; nothing checks that the slot still holds this descriptor.
\<close>

definition bench_event :: "bench \<Rightarrow> int \<Rightarrow> int \<times> u32 \<Rightarrow> (int \<times> bench) outcome" where
  "bench_event b fails ev = (case ev of (fd, events) \<Rightarrow>
     cbind (client_index (b_conf b) fd) (\<lambda>i.
       if events AND (EPOLLERR OR EPOLLHUP) \<noteq> 0
       then (if fails + 1 > MAX_FAIL_COUNT then Inl (Exits 0)
             else cbind (reopen b i) (\<lambda>b1. Inr (fails + 1, b1)))
       else cbind (if events AND EPOLLIN \<noteq> 0
              then cbind (get_client b i) (\<lambda>c. run_client_callback b i (rFuncProc c)) else Inr b) (\<lambda>b1.
            cbind (if events AND EPOLLOUT \<noteq> 0
              then cbind (get_client b1 i) (\<lambda>c. run_client_callback b1 i (wFuncProc c)) else Inr b1) (\<lambda>b2.
            Inr (fails, b2)))))"

fun bench_events :: "bench \<Rightarrow> int \<Rightarrow> (int \<times> u32) list \<Rightarrow> (int \<times> bench) outcome" where
  "bench_events b fails [] = Inr (fails, b)"
| "bench_events b fails (ev # evs) = cbind (bench_event b fails ev) (\<lambda>(n, b1). bench_events b1 n evs)"

text \<open>The part of a turn after the events, at most every 200 milliseconds.\<close>

definition check_timeouts :: "bench \<Rightarrow> u64 \<Rightarrow> (u64 \<times> bench) outcome" where
  "check_timeouts b last_check = (let (t, b1) = GetusecTime b in
     if t - last_check > TIMEOUT_USEC_TIMEVAL
     then (let (t1, b2) = GetusecTime b1 in
           cbind (ClearTimeoutConnection b2 t1) (\<lambda>b3. cbind (refill b3) (\<lambda>b4.
             let (t2, b5) = GetusecTime b4 in Inr (t2, b5))))
     else Inr (last_check, b1))"

text \<open>An answer of \<open>epoll_wait\<close> with the time of the clock after it; an error is an answer without events.\<close>

type_synonym bench_reply = "(int \<times> u32) list \<times> timeval"

definition bench_turn :: "bench \<Rightarrow> int \<Rightarrow> u64 \<Rightarrow> bench_reply \<Rightarrow> ((int \<times> u64) \<times> bench) outcome" where
  "bench_turn b fails last_check reply =
     cbind (bench_events (TouchTime (b\<lparr>b_clock := snd reply\<rparr>)) fails (fst reply)) (\<lambda>(n, b1).
     cbind (check_timeouts b1 last_check) (\<lambda>(t, b2). Inr ((n, t), b2)))"

text \<open>
  The loop over the answers it gets: \<open>True\<close> when the stop sign ended it, \<open>False\<close> when it still runs
  after the last answer.
\<close>

fun bench_loop :: "bench \<Rightarrow> int \<Rightarrow> u64 \<Rightarrow> bench_reply list \<Rightarrow> (bool \<times> bench) outcome" where
  "bench_loop b fails last_check replies = (case epoll_loop (b_conf b) of None \<Rightarrow> undef NullDeref
     | Some lp \<Rightarrow>
       if stop lp = 0 then Inr (True, b)
       else (case replies of [] \<Rightarrow> Inr (False, b)
         | reply # rest \<Rightarrow> cbind (bench_turn b fails last_check reply) (\<lambda>((n, t), b1). bench_loop b1 n t rest)))"

declare bench_loop.simps [simp del]

section \<open>The report\<close>

text \<open>
  The mean latency: a sum of 64-bit quotients divided by the number of requests, of the latencies
  as \<open>qsort\<close> leaves them.  \<open>qs\<close> is \<open>qsort\<close> with \<open>CompareLatency\<close>.
\<close>

definition average_latency :: "(u64 list \<Rightarrow> u64 list) \<Rightarrow> StatisticsStruct \<Rightarrow> u64 outcome" where
  "average_latency qs s = (case latency s of None \<Rightarrow> undef NullDeref
     | Some xs \<Rightarrow> (let n = unat (doneRequests s) in
        if length xs < n then undef OutOfBounds
        else let sorted_xs = qs (take n xs); total_lat = sum_list (map (\<lambda>x. x div 1000) sorted_xs) in
          if doneRequests s = 0 then undef DivByZero else Inr (total_lat div of_nat n)))"

record bench_report =
  rep_clients :: u32
  rep_completed :: u32
  rep_seconds :: u64
  rep_average :: u64
  rep_needed :: u32
  rep_sended :: u32
  rep_timeout :: u32
  rep_reset :: u32
  rep_created :: u32
  rep_msec :: u64

definition ShowReport :: "(u64 list \<Rightarrow> u64 list) \<Rightarrow> StatisticsStruct \<Rightarrow> bench_report outcome" where
  "ShowReport qs s = cbind (average_latency qs s) (\<lambda>avg.
     Inr \<lparr>rep_clients = needClientNum s, rep_completed = doneRequests s,
          rep_seconds = (endTime s - startTime s) div 1000, rep_average = avg, rep_needed = needRequestNum s,
          rep_sended = totalRequests s, rep_timeout = timeoutClientNum s, rep_reset = resetClientNum s,
          rep_created = createClientNum s, rep_msec = endTime s - startTime s\<rparr>)"

definition ReactorBenchmarkLoop ::
  "(u64 list \<Rightarrow> u64 list) \<Rightarrow> bench \<Rightarrow> bench_reply list \<Rightarrow> (bench_report option \<times> bench) outcome" where
  "ReactorBenchmarkLoop qs b replies = (let (t0, b1) = GetmsecTime b;
       b2 = put_conf b1 ((b_conf b1)\<lparr>startTime := t0\<rparr>); (t1, b3) = GetusecTime b2 in
     cbind (bench_loop b3 0 t1 replies) (\<lambda>(ended, b4).
       if \<not> ended then Inr (None, b4)
       else let (t2, b5) = GetmsecTime b4; b6 = put_conf b5 ((b_conf b5)\<lparr>endTime := t2\<rparr>) in
         cbind (ShowReport qs (b_conf b6)) (\<lambda>rep. Inr (Some rep, b6))))"

text \<open>
  The memory given back at the end: an object that is freed is gone, and the pointer to it, which
  the C code leaves as it is, leads nowhere.  The array \<open>events\<close> of the loop, which the model leaves
  out, is not freed.
\<close>

definition FreeResource :: "StatisticsStruct \<Rightarrow> StatisticsStruct" where
  "FreeResource s = s\<lparr>clients_ptr := None, epoll_loop := None, latency := None\<rparr>"

text \<open>
  \<open>main\<close> of \<open>benchmark.c\<close>; the result of \<open>InitSingleReactor\<close> is ignored.  Without a report the
  loop still runs after the last answer.
\<close>

definition bench_main ::
  "(u64 list \<Rightarrow> u64 list) \<Rightarrow> (buf \<Rightarrow> bool) \<Rightarrow> bench \<Rightarrow> bench_opt list \<Rightarrow> int \<Rightarrow> bench_reply list
     \<Rightarrow> (bench_report option \<times> bench) outcome" where
  "bench_main qs host_ok b opts ep replies =
     cbind (ParseOptions host_ok (put_conf b (InitConfig (b_conf b))) opts) (\<lambda>b1.
     cbind (InitSingleReactor b1 ep) (\<lambda>(_, b2).
     cbind (ReactorBenchmarkLoop qs b2 replies) (\<lambda>(rep, b3). case rep of
         None \<Rightarrow> Inr (None, b3)
       | Some r \<Rightarrow> Inr (Some r, put_conf b3 (FreeResource (b_conf b3))))))"

end
