(* ===== verification/BenchInvariant.thy ===== *)
theory BenchInvariant
  imports BenchLoop InterestSet
begin

text \<open>
  The invariant of the benchmark client: the slots, the count of live clients, the kernel's interest
  list and the results array are consistent.  It holds while the kernel refuses no
  \<open>epoll_ctl\<close>, \<open>fcntl\<close> and \<open>setsockopt\<close> (\<open>k_ctl = []\<close>).  Theory
  \<open>BenchSteps\<close> shows that every operation keeps it.
\<close>

section \<open>Calls that return or end the process\<close>

text \<open>
  \<open>runs P m\<close>: the call does nothing undefined, fails no assertion and does not loop for ever; it
  ends with a result that satisfies \<open>P\<close>, or with \<open>exit\<close>.
\<close>

fun runs :: "('a \<Rightarrow> bool) \<Rightarrow> 'a outcome \<Rightarrow> bool" where
  "runs P (Inr x) = P x"
| "runs P (Inl (Exits _)) = True"
| "runs P (Inl _) = False"

lemma runs_bind:
  assumes "runs P m" "\<And>x. P x \<Longrightarrow> runs Q (f x)"
  shows "runs Q (cbind m f)"
  using assms(1) by (cases "(P, m)" rule: runs.cases) (auto intro: assms(2))

lemma runs_mono: "runs P m \<Longrightarrow> (\<And>x. P x \<Longrightarrow> Q x) \<Longrightarrow> runs Q m"
  by (cases "(P, m)" rule: runs.cases) auto

section \<open>The invariant\<close>

definition clients :: "bench \<Rightarrow> ClientFD list" where
  "clients b = (case clients_ptr (b_conf b) of None \<Rightarrow> [] | Some cs \<Rightarrow> cs)"

lemma clients_eq: "clients_ptr (b_conf b) = Some cs \<Longrightarrow> clients b = cs"
  by (simp add: clients_def)

definition occupied :: "ClientFD \<Rightarrow> bool" where
  "occupied c \<longleftrightarrow> cl_fd c \<noteq> FDARRAY_INDEX_INIT"

definition slot_of :: "u32 \<Rightarrow> int \<Rightarrow> nat" where
  "slot_of need fd = unat (word_of_int fd mod need)"

text \<open>A client is sending or receiving, and the kernel watches its socket for just that.\<close>

definition watched_for :: "kernel \<Rightarrow> ClientFD \<Rightarrow> bool" where
  "watched_for k c \<longleftrightarrow>
     (cl_mask c = WRITEABLE \<and> wFuncProc c = Some SendToServer \<and> k_interest k (cl_fd c) = Some EPOLLOUT)
   \<or> (cl_mask c = READABLE \<and> rFuncProc c = Some RecvFromServer \<and> k_interest k (cl_fd c) = Some EPOLLIN)"

definition client_live :: "kernel \<Rightarrow> u32 \<Rightarrow> nat \<Rightarrow> ClientFD \<Rightarrow> bool" where
  "client_live k need i c \<longleftrightarrow> 0 \<le> cl_fd c \<and> pep_loop c \<noteq> NULL \<and> pst_config c \<noteq> NULL
     \<and> slot_of need (cl_fd c) = i \<and> sock_is_open k (cl_fd c)
     \<and> sendedLen c \<le> sendBufLen c \<and> uint (sendBufLen c) \<le> 4097 \<and> watched_for k c"

definition bufs_full :: "ClientFD \<Rightarrow> bool" where
  "bufs_full c \<longleftrightarrow> length (recvBuf c) = 4097 \<and> length (sendBuf c) = 4097 \<and> uint (recvBufLen c) \<le> 4096"

definition live_count :: "ClientFD list \<Rightarrow> nat" where
  "live_count cs = length (filter occupied cs)"

text \<open>The results have room for every request, and the stop sign is set only after the last one.\<close>

definition results_ok :: "StatisticsStruct \<Rightarrow> bool" where
  "results_ok s \<longleftrightarrow> map_option length (latency s) = Some (unat (needRequestNum s))
     \<and> doneRequests s \<le> needRequestNum s
     \<and> (\<forall>lp. epoll_loop s = Some lp \<longrightarrow> stop lp = 0 \<longrightarrow> doneRequests s = needRequestNum s)"

text \<open>What the slots and the kernel have to do with each other.\<close>

definition slots_ok :: "kernel \<Rightarrow> u32 \<Rightarrow> ClientFD list \<Rightarrow> bool" where
  "slots_ok k need cs \<longleftrightarrow> length cs = unat need
     \<and> (\<forall>i < unat need. bufs_full (cs ! i))
     \<and> (\<forall>i < unat need. occupied (cs ! i) \<longrightarrow> client_live k need i (cs ! i))
     \<and> (\<forall>fd. k_interest k fd \<noteq> None \<longrightarrow> (\<exists>i < unat need. occupied (cs ! i) \<and> cl_fd (cs ! i) = fd))"

definition bench_ok :: "bench \<Rightarrow> bool" where
  "bench_ok b \<longleftrightarrow> clients_ptr (b_conf b) = Some (clients b) \<and> epoll_loop (b_conf b) \<noteq> None
     \<and> unat (liveClientNum (b_conf b)) = live_count (clients b)
     \<and> k_ctl (b_kern b) = [] \<and> slots_ok (b_kern b) (needClientNum (b_conf b)) (clients b)
     \<and> results_ok (b_conf b)"

abbreviation need :: "bench \<Rightarrow> u32" where "need b \<equiv> needClientNum (b_conf b)"
abbreviation wanted :: "bench \<Rightarrow> u32" where "wanted b \<equiv> needRequestNum (b_conf b)"
abbreviation live :: "bench \<Rightarrow> u32" where "live b \<equiv> liveClientNum (b_conf b)"

abbreviation same_needs :: "bench \<Rightarrow> bench \<Rightarrow> bool" where
  "same_needs b b' \<equiv> need b' = need b \<and> wanted b' = wanted b"

lemma slots_okD:
  assumes "slots_ok k n cs"
  shows "length cs = unat n" "i < unat n \<Longrightarrow> bufs_full (cs ! i)"
    "i < unat n \<Longrightarrow> occupied (cs ! i) \<Longrightarrow> client_live k n i (cs ! i)"
    "k_interest k fd \<noteq> None \<Longrightarrow> \<exists>i < unat n. occupied (cs ! i) \<and> cl_fd (cs ! i) = fd"
  using assms unfolding slots_ok_def by blast+

lemma bench_okD:
  assumes "bench_ok b"
  shows "clients_ptr (b_conf b) = Some (clients b)" "epoll_loop (b_conf b) \<noteq> None"
    "unat (live b) = live_count (clients b)" "k_ctl (b_kern b) = []"
    "slots_ok (b_kern b) (need b) (clients b)" "results_ok (b_conf b)" "length (clients b) = unat (need b)"
  using assms by (simp_all add: bench_ok_def slots_ok_def)

lemmas bench_slotsD = slots_okD [OF bench_okD(5)]

text \<open>What an operation on the slots \<open>I\<close> leaves alone: the other live clients and their registrations.\<close>

definition keeps :: "nat set \<Rightarrow> bench \<Rightarrow> bench \<Rightarrow> bool" where
  "keeps I b b' \<longleftrightarrow> need b' = need b \<and> wanted b' = wanted b
     \<and> (\<forall>j < unat (need b). j \<notin> I \<longrightarrow> occupied (clients b ! j) \<longrightarrow>
          clients b' ! j = clients b ! j
          \<and> k_interest (b_kern b') (cl_fd (clients b ! j)) = k_interest (b_kern b) (cl_fd (clients b ! j)))"

lemma keeps_refl [simp]: "keeps I b b"
  by (simp add: keeps_def)

lemma keeps_trans: "keeps I a b \<Longrightarrow> keeps I b c \<Longrightarrow> keeps I a c"
  unfolding keeps_def by metis

lemma keeps_mono: "keeps {} a b \<Longrightarrow> keeps I a b"
  unfolding keeps_def by simp

lemma keeps_need: "keeps I a b \<Longrightarrow> need b = need a" and keeps_wanted: "keeps I a b \<Longrightarrow> wanted b = wanted a"
  by (simp_all add: keeps_def)

section \<open>Reading and writing the state\<close>

lemma get_client_ok: "bench_ok b \<Longrightarrow> i < unat (need b) \<Longrightarrow> get_client b i = Inr (clients b ! i)"
  by (simp add: get_client_def bench_okD)

lemma put_simps_bench [simp]:
  "b_conf (put_conf b s) = s" "b_kern (put_conf b s) = b_kern b" "b_kern (put_client b i c) = b_kern b"
  "b_kern (put_bkern b k) = k" "b_conf (put_bkern b k) = b_conf b"
  "clients (put_bkern b k) = clients b" "clients (put_client b i c) = (clients b)[i := c]"
  "clients_ptr (b_conf (put_client b i c)) = map_option (\<lambda>cs. cs[i := c]) (clients_ptr (b_conf b))"
  "liveClientNum (b_conf (put_client b i c)) = liveClientNum (b_conf b)"
  "needClientNum (b_conf (put_client b i c)) = needClientNum (b_conf b)"
  "epoll_loop (b_conf (put_client b i c)) = epoll_loop (b_conf b)"
  "latency (b_conf (put_client b i c)) = latency (b_conf b)"
  "needRequestNum (b_conf (put_client b i c)) = needRequestNum (b_conf b)"
  "doneRequests (b_conf (put_client b i c)) = doneRequests (b_conf b)"
  "totalRequests (b_conf (put_client b i c)) = totalRequests (b_conf b)"
  "timeoutClientNum (b_conf (put_client b i c)) = timeoutClientNum (b_conf b)"
  "resetClientNum (b_conf (put_client b i c)) = resetClientNum (b_conf b)"
  "createClientNum (b_conf (put_client b i c)) = createClientNum (b_conf b)"
  "protocol (b_conf (put_client b i c)) = protocol (b_conf b)"
  "keepalive (b_conf (put_client b i c)) = keepalive (b_conf b)"
  "randomFlag (b_conf (put_client b i c)) = randomFlag (b_conf b)"
  "b_errno (put_client b i c) = b_errno b" "b_errno (put_bkern b k) = b_errno b" "b_errno (put_conf b s) = b_errno b"
  by (simp_all add: put_conf_def put_client_def put_bkern_def clients_def split: option.splits)

lemma get_put_client [simp]: "get_client b i = Inr c \<Longrightarrow> get_client (put_client b i c') i = Inr c'"
  by (auto simp: get_client_def split: option.splits if_splits)

lemma get_put_bkern [simp]: "get_client (put_bkern b k) i = get_client b i"
  by (simp add: get_client_def)

lemma live_count_update:
  assumes "i < length cs"
  shows "live_count (cs[i := c]) + of_bool (occupied (cs ! i)) = live_count cs + of_bool (occupied c)"
  using assms
proof (induction cs arbitrary: i)
  case (Cons x xs)
  then show ?case by (cases i) (auto simp: live_count_def)
qed simp

lemma results_ok_cong:
  "results_ok s \<Longrightarrow> latency s' = latency s \<Longrightarrow> needRequestNum s' = needRequestNum s
     \<Longrightarrow> doneRequests s' = doneRequests s \<Longrightarrow> epoll_loop s' = epoll_loop s \<Longrightarrow> results_ok s'"
  by (simp add: results_ok_def)

section \<open>Replacing one client\<close>

text \<open>
  The slots after an operation on the slot \<open>i\<close>, from what became of the slot and of the kernel.
\<close>

lemma live_fd_differs:
  assumes ok: "slots_ok k n cs" and j: "j < unat n" "occupied (cs ! j)" and c: "slot_of n (cl_fd c) \<noteq> j"
  shows "cl_fd (cs ! j) \<noteq> cl_fd c"
  using slots_okD(3) [OF ok j] c by (auto simp: client_live_def)

lemma slots_ok_replace:
  assumes ok: "slots_ok k n cs" and i: "i < unat n"
    and c: "bufs_full c" "occupied c \<Longrightarrow> client_live k' n i c"
    and kk: "\<And>fd. fd \<noteq> cl_fd (cs ! i) \<Longrightarrow> \<not> (occupied c \<and> fd = cl_fd c) \<Longrightarrow>
        k_interest k' fd = k_interest k fd \<and> (sock_is_open k fd \<longrightarrow> sock_is_open k' fd)"
    and old: "k_interest k' (cl_fd (cs ! i)) \<noteq> None \<Longrightarrow> occupied c \<and> cl_fd c = cl_fd (cs ! i)"
  shows "slots_ok k' n (cs[i := c])"
    and "\<lbrakk>j < unat n; j \<noteq> i; occupied (cs ! j)\<rbrakk> \<Longrightarrow> k_interest k' (cl_fd (cs ! j)) = k_interest k (cl_fd (cs ! j))"
proof -
  have len: "length cs = unat n" by (rule slots_okD(1) [OF ok])
  have same: "k_interest k' (cl_fd (cs ! j)) = k_interest k (cl_fd (cs ! j))" "client_live k' n j (cs ! j)"
    if j: "j < unat n" "j \<noteq> i" "occupied (cs ! j)" for j
  proof -
    have l: "client_live k n j (cs ! j)" by (rule slots_okD(3) [OF ok j(1,3)])
    have 1: "cl_fd (cs ! j) \<noteq> cl_fd (cs ! i)"
    proof (cases "occupied (cs ! i)")
      case True
      then show ?thesis
        using slots_okD(3) [OF ok i] j(2) by (intro live_fd_differs [OF ok j(1,3)]) (simp add: client_live_def)
    next
      case False
      then show ?thesis using j(3) by (simp add: occupied_def)
    qed
    have 2: "\<not> (occupied c \<and> cl_fd (cs ! j) = cl_fd c)"
      using live_fd_differs [OF ok j(1,3), of c] c(2) j(2) by (auto simp: client_live_def)
    note same = kk [OF 1 2]
    show "k_interest k' (cl_fd (cs ! j)) = k_interest k (cl_fd (cs ! j))" using same by simp
    show "client_live k' n j (cs ! j)" using l same by (simp add: client_live_def watched_for_def)
  qed
  then show "\<lbrakk>j < unat n; j \<noteq> i; occupied (cs ! j)\<rbrakk> \<Longrightarrow> k_interest k' (cl_fd (cs ! j)) = k_interest k (cl_fd (cs ! j))"
    by blast
  have watched: "\<exists>j < unat n. occupied (cs[i := c] ! j) \<and> cl_fd (cs[i := c] ! j) = fd"
    if fd: "k_interest k' fd \<noteq> None" for fd
  proof (cases "occupied c \<and> fd = cl_fd c")
    case True
    then show ?thesis using i len by (intro exI [of _ i]) simp
  next
    case False
    then have ne: "fd \<noteq> cl_fd (cs ! i)" using fd old by auto
    then have "k_interest k fd \<noteq> None" using kk [OF ne False] fd by simp
    then obtain j where j: "j < unat n" "occupied (cs ! j)" "cl_fd (cs ! j) = fd"
      using slots_okD(4) [OF ok] by blast
    then have "j \<noteq> i" using ne by auto
    then show ?thesis using j by (intro exI [of _ j]) simp
  qed
  show "slots_ok k' n (cs[i := c])"
    unfolding slots_ok_def
  proof (intro conjI allI impI)
    show "length (cs[i := c]) = unat n" using len by simp
  next
    fix j assume "j < unat n"
    then show "bufs_full (cs[i := c] ! j)" using slots_okD(2) [OF ok] c(1) len by (cases "j = i") auto
  next
    fix j assume "j < unat n" "occupied (cs[i := c] ! j)"
    then show "client_live k' n j (cs[i := c] ! j)" using same(2) c(2) len by (cases "j = i") auto
  next
    fix fd assume "k_interest k' fd \<noteq> None"
    then show "\<exists>j < unat n. occupied (cs[i := c] ! j) \<and> cl_fd (cs[i := c] ! j) = fd" by (rule watched)
  qed
qed

lemma bench_ok_replace:
  assumes ok: "bench_ok b" and i: "i < unat (need b)"
    and s: "clients_ptr (b_conf b') = Some ((clients b)[i := c])" "epoll_loop (b_conf b') \<noteq> None" "need b' = need b"
      "unat (live b') + of_bool (occupied (clients b ! i)) = unat (live b) + of_bool (occupied c)"
      "results_ok (b_conf b')" "wanted b' = wanted b"
    and c: "bufs_full c" "occupied c \<Longrightarrow> client_live (b_kern b') (need b) i c"
    and k: "k_ctl (b_kern b') = []"
      "\<And>fd. fd \<noteq> cl_fd (clients b ! i) \<Longrightarrow> \<not> (occupied c \<and> fd = cl_fd c) \<Longrightarrow>
        k_interest (b_kern b') fd = k_interest (b_kern b) fd \<and> (sock_is_open (b_kern b) fd \<longrightarrow> sock_is_open (b_kern b') fd)"
      "k_interest (b_kern b') (cl_fd (clients b ! i)) \<noteq> None \<Longrightarrow> occupied c \<and> cl_fd c = cl_fd (clients b ! i)"
  shows "bench_ok b' \<and> keeps {i} b b'"
proof
  have cl: "clients b' = (clients b)[i := c]" using s(1) by (simp add: clients_def)
  note slots = slots_ok_replace [OF bench_okD(5) [OF ok] i c k(2,3)]
  have "unat (live b') = live_count ((clients b)[i := c])"
    using s(4) live_count_update [of i "clients b" c] bench_okD(3,7) [OF ok] i by simp
  then show "bench_ok b'"
    unfolding bench_ok_def using s(1-3,5,6) k(1) slots(1) by (simp add: cl)
  show "keeps {i} b b'"
    unfolding keeps_def cl using s(3,6) slots(2) by auto
qed

text \<open>An operation that changes no slot: the sockets it leaves open and the interest list matter.\<close>

lemma bench_ok_kern:
  assumes ok: "bench_ok b" and s: "clients_ptr (b_conf b') = clients_ptr (b_conf b)"
      "epoll_loop (b_conf b') \<noteq> None" "need b' = need b" "live b' = live b" "results_ok (b_conf b')" "wanted b' = wanted b"
    and k: "k_ctl (b_kern b') = []" "k_interest (b_kern b') = k_interest (b_kern b)"
      "\<And>fd. sock_is_open (b_kern b) fd \<Longrightarrow> sock_is_open (b_kern b') fd"
  shows "bench_ok b' \<and> keeps {} b b'"
proof
  have cl: "clients b' = clients b" using s(1) by (simp add: clients_def)
  have "client_live (b_kern b') (need b) i (clients b ! i)" if "i < unat (need b)" "occupied (clients b ! i)" for i
    using bench_slotsD(3) [OF ok that] k by (simp add: client_live_def watched_for_def)
  then have "slots_ok (b_kern b') (need b) (clients b)"
    unfolding slots_ok_def using bench_slotsD(1,2,4) [OF ok] k(2) by auto
  then show "bench_ok b'"
    unfolding bench_ok_def using s k(1) bench_okD(1,3) [OF ok] by (simp add: cl)
  show "keeps {} b b'" by (simp add: keeps_def cl s k)
qed

text \<open>A registered descriptor belongs to the live client of its slot.\<close>

lemma registered_client:
  assumes ok: "bench_ok b" and fd: "k_interest (b_kern b) fd \<noteq> None"
  shows "slot_of (need b) fd < unat (need b)" "occupied (clients b ! slot_of (need b) fd)"
    "cl_fd (clients b ! slot_of (need b) fd) = fd"
proof -
  obtain i where i: "i < unat (need b)" "occupied (clients b ! i)" "cl_fd (clients b ! i) = fd"
    using bench_slotsD(4) [OF ok fd] by blast
  then have "slot_of (need b) fd = i" using bench_slotsD(3) [OF ok i(1,2)] by (simp add: client_live_def)
  with i show "slot_of (need b) fd < unat (need b)" "occupied (clients b ! slot_of (need b) fd)"
    "cl_fd (clients b ! slot_of (need b) fd) = fd" by simp_all
qed

end
