(* ===== verification/BenchSteps.thy ===== *)
theory BenchSteps
  imports BenchInvariant
begin

text \<open>
  The operations of the benchmark client's reactor keep the invariant of \<open>BenchInvariant\<close>:
  registering, closing, opening and resetting a client, and with them the rest of the slots.
\<close>

abbreviation evolves :: "nat \<Rightarrow> bench \<Rightarrow> bench \<Rightarrow> bool" where
  "evolves i b b' \<equiv> bench_ok b' \<and> keeps {i} b b'"

lemma evolves_trans: "evolves i a b \<Longrightarrow> evolves i b c \<Longrightarrow> evolves i a c"
  using keeps_trans by blast

lemma put_collapse [simp]:
  "put_client (put_client b i c) i c' = put_client b i c'"
  "put_client (put_bkern b k) i c = put_bkern (put_client b i c) k"
  "put_bkern (put_bkern b k) k' = put_bkern b k'"
  "put_conf (put_conf b s) s' = put_conf b s'"
  by (simp_all add: put_client_def put_bkern_def put_conf_def option.map_comp comp_def)

lemma event_consts [simp]: "WRITEABLE \<noteq> 0" "READABLE \<noteq> 0" "WRITEABLE \<noteq> READABLE" "READABLE \<noteq> WRITEABLE"
  "client_events WRITEABLE = EPOLLOUT" "client_events READABLE = EPOLLIN" "client_events 0 = 0"
  "WRITEABLE AND WRITEABLE = WRITEABLE" "READABLE AND READABLE = READABLE" "READABLE AND WRITEABLE = 0" "WRITEABLE AND READABLE = 0"
  "WRITEABLE AND NOT WRITEABLE = 0" "READABLE AND NOT READABLE = 0" "WRITEABLE AND NOT READABLE = WRITEABLE"
  "ENONE OR m = m" "0 OR m = (m :: u32)" "ENONE = 0"
  by (simp_all add: client_events_def WRITEABLE_def READABLE_def EPOLLIN_def EPOLLOUT_def ENONE_def)

section \<open>Registering events\<close>

definition watch_fd :: "kernel \<Rightarrow> int \<Rightarrow> u32 option \<Rightarrow> kernel" where
  "watch_fd k fd ev = k\<lparr>k_interest := (k_interest k)(fd := ev)\<rparr>"

lemma watch_fd_simps [simp]:
  "k_interest (watch_fd k fd ev) = (k_interest k)(fd := ev)" "k_ctl (watch_fd k fd ev) = k_ctl k"
  "sock_is_open (watch_fd k fd ev) = sock_is_open k" "k_socks (watch_fd k fd ev) = k_socks k"
  "watch_fd (watch_fd k fd ev) fd ev' = watch_fd k fd ev'"
  by (simp_all add: watch_fd_def sock_is_open_def fun_eq_iff)

lemma AddEvent_form:
  assumes "get_client b i = Inr c" "pep_loop c \<noteq> NULL" "k_ctl (b_kern b) = []" "sock_is_open (b_kern b) (cl_fd c)"
    "k_interest (b_kern b) (cl_fd c) = None \<longleftrightarrow> cl_mask c = 0"
  shows "ReactorAddEvent b i WRITEABLE f = Inr (0, put_bkern
      (put_client b i (c\<lparr>cl_mask := cl_mask c OR WRITEABLE, wFuncProc := Some f\<rparr>))
      (watch_fd (b_kern b) (cl_fd c) (Some (client_events (cl_mask c OR WRITEABLE)))))"
    "ReactorAddEvent b i READABLE f = Inr (0, put_bkern
      (put_client b i (c\<lparr>cl_mask := cl_mask c OR READABLE, rFuncProc := Some f\<rparr>))
      (watch_fd (b_kern b) (cl_fd c) (Some (client_events (cl_mask c OR READABLE)))))"
  using assms epoll_ctl_granted [of "b_kern b" "cl_fd c"]
  by (simp_all add: ReactorAddEvent_def c_assert_def Let_def watch_fd_def bit.conj_disj_distrib)

lemma DelEvent_form:
  assumes "get_client b i = Inr c" "pep_loop c \<noteq> NULL" "k_ctl (b_kern b) = []" "sock_is_open (b_kern b) (cl_fd c)"
    "k_interest (b_kern b) (cl_fd c) \<noteq> None"
  shows "ReactorDelEvent b i m = (let m' = cl_mask c AND NOT m in Inr (0, put_bkern
      (put_client b i (c\<lparr>cl_mask := m'\<rparr>))
      (watch_fd (b_kern b) (cl_fd c) (if m' = 0 then None else Some (client_events m')))))"
  using assms epoll_ctl_granted [of "b_kern b" "cl_fd c"]
  by (simp add: ReactorDelEvent_def Let_def watch_fd_def)

text \<open>A client changes from sending to receiving, and from anything to sending.\<close>

definition set_reading :: "ClientFD \<Rightarrow> ClientFD" where
  "set_reading c = c\<lparr>cl_mask := READABLE, rFuncProc := Some RecvFromServer\<rparr>"

definition set_writing :: "ClientFD \<Rightarrow> ClientFD" where
  "set_writing c = c\<lparr>cl_mask := WRITEABLE, wFuncProc := Some SendToServer\<rparr>"

lemma switch_to_reading:
  assumes c: "get_client b i = Inr c" "client_live (b_kern b) n i c" "k_ctl (b_kern b) = []" "cl_mask c = WRITEABLE"
  shows "cbind (ReactorDelEvent b i WRITEABLE) (\<lambda>(_, b1). ReactorAddEvent b1 i READABLE RecvFromServer)
    = Inr (0, put_bkern (put_client b i (set_reading c)) (watch_fd (b_kern b) (cl_fd c) (Some EPOLLIN)))"
proof -
  have c2: "pep_loop c \<noteq> NULL" "sock_is_open (b_kern b) (cl_fd c)" "k_interest (b_kern b) (cl_fd c) \<noteq> None"
    using c(2) by (auto simp: client_live_def watched_for_def)
  let ?b = "put_bkern (put_client b i (c\<lparr>cl_mask := 0\<rparr>)) (watch_fd (b_kern b) (cl_fd c) None)"
  have "ReactorAddEvent ?b i READABLE RecvFromServer
    = Inr (0, put_bkern (put_client b i (set_reading c)) (watch_fd (b_kern b) (cl_fd c) (Some EPOLLIN)))"
    using c(1,3) c2 AddEvent_form(2) [of ?b i "c\<lparr>cl_mask := 0\<rparr>"] by (simp add: set_reading_def)
  then show ?thesis using DelEvent_form [OF c(1) c2(1) c(3) c2(2,3), of WRITEABLE] c(4) by (simp add: Let_def)
qed

lemma switch_to_writing:
  assumes c: "get_client b i = Inr c" "client_live (b_kern b) n i c" "k_ctl (b_kern b) = []"
  shows "cbind (ReactorDelEvent b i READABLE) (\<lambda>(_, b1). ReactorAddEvent b1 i WRITEABLE SendToServer)
    = Inr (0, put_bkern (put_client b i (set_writing c)) (watch_fd (b_kern b) (cl_fd c) (Some EPOLLOUT)))"
proof -
  have c2: "pep_loop c \<noteq> NULL" "sock_is_open (b_kern b) (cl_fd c)" "k_interest (b_kern b) (cl_fd c) \<noteq> None"
    and m: "cl_mask c = WRITEABLE \<or> cl_mask c = READABLE"
    using c(2) by (auto simp: client_live_def watched_for_def)
  define m' where "m' = cl_mask c AND NOT READABLE"
  define ev where "ev = (if m' = 0 then None else Some (client_events m'))"
  let ?b = "put_bkern (put_client b i (c\<lparr>cl_mask := m'\<rparr>)) (watch_fd (b_kern b) (cl_fd c) ev)"
  have m': "m' OR WRITEABLE = WRITEABLE" using m by (auto simp: m'_def)
  have ev: "ev = None \<longleftrightarrow> m' = 0" by (simp add: ev_def)
  have "ReactorAddEvent ?b i WRITEABLE SendToServer
    = Inr (0, put_bkern (put_client b i (set_writing c)) (watch_fd (b_kern b) (cl_fd c) (Some EPOLLOUT)))"
    using c(1,3) c2 m' ev AddEvent_form(1) [of ?b i "c\<lparr>cl_mask := m'\<rparr>"] by (simp add: set_writing_def)
  moreover have "ReactorDelEvent b i READABLE = Inr (0, ?b)"
    using DelEvent_form [OF c(1) c2(1) c(3) c2(2,3), of READABLE] by (simp add: Let_def m'_def ev_def)
  ultimately show ?thesis by simp
qed

section \<open>Closing a client\<close>

lemma live_client_counts:
  assumes ok: "bench_ok b" and i: "i < unat (need b)" "occupied (clients b ! i)"
  shows "0 < unat (live b)"
  using live_count_update [of i "clients b" "(clients b ! i)\<lparr>cl_fd := FDARRAY_INDEX_INIT\<rparr>"] i bench_okD(3,7) [OF ok]
  by (simp add: occupied_def)

lemma CloseConnection_ok:
  assumes ok: "bench_ok b" and i: "i < unat (need b)" "occupied (clients b ! i)"
  shows "\<exists>b'. ReactorCloseConnection b i = Inr b' \<and> evolves i b b' \<and> unat (live b') + 1 = unat (live b)"
proof -
  let ?c = "clients b ! i"
  have lv: "client_live (b_kern b) (need b) i ?c" by (rule bench_slotsD(3) [OF ok i])
  then have c: "pep_loop ?c \<noteq> NULL" "pst_config ?c \<noteq> NULL" "sock_is_open (b_kern b) (cl_fd ?c)"
      "k_interest (b_kern b) (cl_fd ?c) \<noteq> None"
    by (auto simp: client_live_def watched_for_def)
  let ?c' = "?c\<lparr>cl_fd := FDARRAY_INDEX_INIT\<rparr>"
  let ?k = "sys_close (watch_fd (b_kern b) (cl_fd ?c) None) (cl_fd ?c)"
  let ?b = "put_client (put_bkern b ?k) i ?c'"
  let ?b' = "put_conf ?b ((b_conf ?b)\<lparr>liveClientNum := live b - 1\<rparr>)"
  have "ReactorCloseConnection b i = Inr ?b'"
    using epoll_ctl_granted [OF bench_okD(4) [OF ok] c(3), of EPOLL_CTL_DEL 0] c get_client_ok [OF ok i(1)]
    by (simp add: ReactorCloseConnection_def c_assert_def Let_def watch_fd_def)
  moreover have cnt: "unat (live ?b') + 1 = unat (live b)"
    using live_client_counts [OF ok i] by (simp add: unat_sub_if' unat_minus_one word_neq_0_conv)
  moreover have "evolves i b ?b'"
  proof (rule bench_ok_replace [OF ok i(1), where c = ?c'])
    show "results_ok (b_conf ?b')" by (rule results_ok_cong [OF bench_okD(6) [OF ok]]) simp_all
    show "unat (live ?b') + of_bool (occupied ?c) = unat (live b) + of_bool (occupied ?c')"
      using cnt i(2) by (simp add: occupied_def)
    show "bufs_full ?c'" using bench_slotsD(2) [OF ok i(1)] by (simp add: bufs_full_def)
  qed (use bench_okD(1,2,4) [OF ok] in \<open>simp_all add: sys_close_def sock_is_open_def occupied_def\<close>)
  ultimately show ?thesis by blast
qed

section \<open>Opening a client\<close>

lemma length_request: "length request_bytes = 334"
  by (simp add: request_bytes_def request_text_def crlf_def)

lemma EncodeRequest_ok:
  assumes "length data = 4097"
  shows "\<exists>data'. EncodeRequest data (MAX_SEND_BUF_LEN + 1) = Inr (334, data') \<and> length data' = 4097
      \<and> take 334 data' = request_bytes"
  using assms length_request by (simp add: EncodeRequest_def mem_copy_def MAX_SEND_BUF_LEN_def)

text \<open>What \<open>socket()\<close> and the calls that set the new socket up may change: only that socket.\<close>

lemma client_socket_ok:
  assumes ok: "bench_ok b" and r: "client_socket b = (r, b1)"
  shows "b_conf b1 = b_conf b" "k_ctl (b_kern b1) = []" "k_interest (b_kern b1) = k_interest (b_kern b)"
    "\<And>fd. sock_is_open (b_kern b) fd \<Longrightarrow> sock_is_open (b_kern b1) fd"
    "\<And>fd. r = Some fd \<Longrightarrow> 0 \<le> fd \<and> \<not> sock_is_open (b_kern b) fd \<and> sock_is_open (b_kern b1) fd"
proof -
  have ctl: "k_ctl (b_kern b) = []" by (rule bench_okD(4) [OF ok])
  have int: "k_interest (b_kern b) fd = None" if "\<not> sock_is_open (b_kern b) fd" for fd
    using registered_client [OF ok, of fd] bench_slotsD(3) [OF ok, of "slot_of (need b) fd"] that
    unfolding client_live_def by metis
  show "b_conf b1 = b_conf b" "k_ctl (b_kern b1) = []" "k_interest (b_kern b1) = k_interest (b_kern b)"
    "\<And>fd. sock_is_open (b_kern b) fd \<Longrightarrow> sock_is_open (b_kern b1) fd"
    "\<And>fd. r = Some fd \<Longrightarrow> 0 \<le> fd \<and> \<not> sock_is_open (b_kern b) fd \<and> sock_is_open (b_kern b1) fd"
    using r ctl int
    by (auto simp: client_socket_def next_socket_def SetNonBlock_def SetTcpNoDelay_def sys_control_def sys_close_def
        sock_is_open_def Let_def fun_eq_iff split: list.splits sock_answer.splits prod.splits if_splits)
qed


definition init_client :: "bench \<Rightarrow> nat \<Rightarrow> int \<Rightarrow> buf \<Rightarrow> ClientFD" where
  "init_client b i fd data = set_writing (fresh_client (clients b ! i) fd 334 data)"

lemma init_client_live:
  assumes "0 \<le> fd" "sock_is_open k fd" "k_interest k fd = Some EPOLLOUT"
  shows "client_live k n (slot_of n fd) (init_client b i fd data)"
  using assms by (simp add: client_live_def watched_for_def init_client_def fresh_client_def set_writing_def)

lemma init_client_event:
  assumes b: "get_client b i = Inr c" "k_ctl (b_kern b) = []" "sock_is_open (b_kern b) fd" "k_interest (b_kern b) fd = None"
  shows "ReactorAddEvent (put_client b i (fresh_client c fd len data)) i WRITEABLE SendToServer
     = Inr (0, put_bkern (put_client b i (set_writing (fresh_client c fd len data)))
               (watch_fd (b_kern b) fd (Some EPOLLOUT)))"
  using AddEvent_form(1) [of "put_client b i (fresh_client c fd len data)" i "fresh_client c fd len data"] b
  by (simp add: fresh_client_def set_writing_def)

text \<open>Opening a client in a slot that is free: the client sends the request.\<close>

lemma unwatched_closed:
  assumes ok: "bench_ok b" and fd: "\<not> sock_is_open (b_kern b) fd"
  shows "k_interest (b_kern b) fd = None"
  using registered_client [OF ok, of fd] bench_slotsD(3) [OF ok, of "slot_of (need b) fd"] fd
  unfolding client_live_def by metis

lemma live_room:
  assumes ok: "bench_ok b" and i: "i < unat (need b)" "\<not> occupied (clients b ! i)"
  shows "unat (live b + 1) = unat (live b) + 1"
proof -
  let ?c = "(clients b ! i)\<lparr>cl_fd := 0\<rparr>"
  have "live_count ((clients b)[i := ?c]) \<le> length (clients b)"
    by (metis length_list_update live_count_def length_filter_le)
  then have "unat (live b) + 1 \<le> unat (need b)"
    using live_count_update [of i "clients b" ?c] bench_okD(3,7) [OF ok] i by (simp add: occupied_def FDARRAY_INDEX_INIT_def)
  then show ?thesis using unsigned_less [where 'a = nat, of "need b"] by (simp add: unat_word_ariths)
qed

lemma client_slot:
  assumes "need b \<noteq> 0" shows "client_index (b_conf b) fd = Inr (slot_of (need b) fd)" "slot_of (need b) fd < unat (need b)"
  using assms by (simp_all add: client_index_def slot_of_def unat_mod_distrib unat_gt_0)

lemma ClientInit_opens:
  assumes ok: "bench_ok b" and n: "need b \<noteq> 0" and cs: "client_socket b = (Some fd, b1)"
    and free: "\<not> occupied (clients b ! slot_of (need b) fd)"
  obtains data b' where "length data = 4097" "take 334 data = request_bytes" "ReactorClientInit b = Inr (0, b')"
    "bench_ok b'" "keeps {} b b'" "clients b' = (clients b)[slot_of (need b) fd := init_client b (slot_of (need b) fd) fd data]"
    "b_kern b' = watch_fd (b_kern b1) fd (Some EPOLLOUT)" "unat (live b') = unat (live b) + 1"
    "createClientNum (b_conf b') = createClientNum (b_conf b) + 1"
proof -
  note s = client_socket_ok [OF ok cs]
  note fd = s(5) [OF refl]
  define i where "i = slot_of (need b) fd"
  have i: "client_index (b_conf b1) fd = Inr i" "i < unat (need b)" using client_slot [OF n] s(1) by (simp_all add: i_def)
  let ?c = "clients b ! i"
  have g: "get_client b1 i = Inr ?c" using get_client_ok [OF ok i(2)] by (simp add: get_client_def s(1))
  have bc: "bufs_full ?c" by (rule bench_slotsD(2) [OF ok i(2)])
  then obtain data where enc: "EncodeRequest (sendBuf ?c) (MAX_SEND_BUF_LEN + 1) = Inr (334, data)" "length data = 4097"
      "take 334 data = request_bytes"
    using EncodeRequest_ok [of "sendBuf ?c"] by (auto simp: bufs_full_def)
  let ?c' = "init_client b i fd data"
  let ?b2 = "put_bkern (put_client b1 i ?c') (watch_fd (b_kern b1) fd (Some EPOLLOUT))"
  let ?b' = "put_conf ?b2 ((b_conf ?b2)\<lparr>liveClientNum := live b + 1, createClientNum := createClientNum (b_conf ?b2) + 1\<rparr>)"
  have "ReactorAddEvent (put_client b1 i (fresh_client ?c fd 334 data)) i WRITEABLE SendToServer = Inr (0, ?b2)"
    using init_client_event [OF g s(2)] fd unwatched_closed [OF ok, of fd] s(3) by (simp add: init_client_def)
  then have run: "ReactorClientInit b = Inr (0, ?b')"
    using cs i g free enc(1) s(1) by (simp add: ReactorClientInit_def Let_def occupied_def i_def)
  have free: "\<not> occupied ?c" "cl_fd ?c = -1" using free by (simp_all add: occupied_def i_def FDARRAY_INDEX_INIT_def)
  have live_c: "client_live (b_kern ?b') (need b) i ?c'" unfolding i_def by (rule init_client_live) (use fd in simp_all)
  then have oc: "occupied ?c'" by (simp add: occupied_def client_live_def FDARRAY_INDEX_INIT_def)
  note cnt = live_room [OF ok i(2) free(1)]
  have no_minus: "k_interest (b_kern b) (-1) = None"
    using registered_client(2,3) [OF ok, of "-1"] unfolding occupied_def FDARRAY_INDEX_INIT_def by metis
  have "bench_ok ?b' \<and> keeps {i} b ?b'"
  proof (rule bench_ok_replace [OF ok i(2), where c = ?c'])
    show "results_ok (b_conf ?b')" by (rule results_ok_cong [OF bench_okD(6) [OF ok]]) (simp_all add: s(1))
    show "unat (live ?b') + of_bool (occupied ?c) = unat (live b) + of_bool (occupied ?c')" using cnt free oc by simp
    show "bufs_full ?c'"
      using bc enc by (simp add: bufs_full_def init_client_def set_writing_def fresh_client_def)
    show "k_interest (b_kern ?b') (cl_fd ?c) \<noteq> None \<Longrightarrow> occupied ?c' \<and> cl_fd ?c' = cl_fd ?c"
      using no_minus free(2) fd s(3) by simp
  qed (use live_c s bench_okD(1,2) [OF ok] fd oc in \<open>simp_all add: init_client_def set_writing_def fresh_client_def\<close>)
  moreover then have "keeps {} b ?b'" using free(1) unfolding keeps_def by blast
  moreover have "clients ?b' = (clients b)[i := ?c']" by (rule clients_eq) (simp add: bench_okD(1) [OF ok] s(1))
  ultimately show thesis
    using that [OF enc(2,3) run] cnt s(1) by (simp add: i_def)
qed

text \<open>Opening a client fails without a trace, or fills a free slot.\<close>

lemma ClientInit_fails:
  assumes ok: "bench_ok b" and n: "need b \<noteq> 0" and cs: "client_socket b = (r, b1)"
    and r: "\<And>fd. r = Some fd \<Longrightarrow> occupied (clients b ! slot_of (need b) fd)"
  shows "\<exists>b'. ReactorClientInit b = Inr (-1, b') \<and> bench_ok b' \<and> keeps {} b b' \<and> b_conf b' = b_conf b
     \<and> (\<forall>fd. r = Some fd \<longrightarrow> \<not> sock_is_open (b_kern b') fd)"
proof -
  note s = client_socket_ok [OF ok cs]
  note b1 = bench_okD(2,6) [OF ok] s(1)
  show ?thesis
  proof (cases r)
    case None
    have "bench_ok b1 \<and> keeps {} b b1" by (rule bench_ok_kern [OF ok]) (use b1 s in simp_all)
    then show ?thesis using cs None s(1) by (simp add: ReactorClientInit_def)
  next
    case (Some fd)
    note fd = s(5) [OF Some]
    let ?i = "slot_of (need b) fd"
    have g: "get_client b1 ?i = Inr (clients b ! ?i)" "client_index (b_conf b1) fd = Inr ?i"
      using get_client_ok [OF ok client_slot(2) [OF n]] client_slot(1) [OF n] by (simp_all add: get_client_def s(1))
    let ?b = "put_bkern b1 (sys_close (b_kern b1) fd)"
    have "bench_ok ?b \<and> keeps {} b ?b"
      by (rule bench_ok_kern [OF ok])
         (use b1 s(2-4) unwatched_closed [OF ok, of fd] fd in \<open>auto simp: sys_close_def sock_is_open_def fun_eq_iff\<close>)
    then show ?thesis
      using cs Some g r [OF Some] s(1) by (simp add: ReactorClientInit_def occupied_def sys_close_def sock_is_open_def)
  qed
qed

lemma ClientInit_ok:
  assumes ok: "bench_ok b" and n: "need b \<noteq> 0"
  shows "\<exists>r b'. ReactorClientInit b = Inr (r, b') \<and> bench_ok b' \<and> keeps {} b b'
     \<and> (r < 0 \<longrightarrow> live b' = live b) \<and> (0 \<le> r \<longrightarrow> unat (live b') = unat (live b) + 1)"
proof -
  obtain r b1 where cs: "client_socket b = (r, b1)" by (cases "client_socket b")
  show ?thesis
  proof (cases "\<exists>fd. r = Some fd \<and> \<not> occupied (clients b ! slot_of (need b) fd)")
    case True
    then obtain fd where fd: "client_socket b = (Some fd, b1)" "\<not> occupied (clients b ! slot_of (need b) fd)" using cs by blast
    show ?thesis by (rule ClientInit_opens [OF ok n fd]) auto
  next
    case False
    then show ?thesis using ClientInit_fails [OF ok n cs] by fastforce
  qed
qed

lemma reopen_ok:
  assumes ok: "bench_ok b" and i: "i < unat (need b)" "occupied (clients b ! i)"
  shows "\<exists>b'. reopen b i = Inr b' \<and> evolves i b b'"
proof -
  obtain b1 where b1: "ReactorCloseConnection b i = Inr b1" "evolves i b b1"
    using CloseConnection_ok [OF ok i] by blast
  then have "need b1 \<noteq> 0" using i(1) keeps_need by fastforce
  then obtain r b' where "ReactorClientInit b1 = Inr (r, b')" "bench_ok b'" "keeps {} b1 b'"
    using ClientInit_ok b1(2) by blast
  then show ?thesis using b1 keeps_mono evolves_trans by (fastforce simp: reopen_def)
qed

end
