(* ===== verification/BenchCallbacks.thy ===== *)
theory BenchCallbacks
  imports BenchSteps
begin

text \<open>
  The callbacks of the benchmark client keep the invariant: a send hands over the next bytes of the
  request and turns to the response when all are sent; a receive records the latency of the response
  and starts the next request, or ends the loop.
\<close>

section \<open>Resetting a client\<close>

lemma cbind_pair_assoc:
  "cbind m (\<lambda>(x, b). cbind (f b) g) = cbind (cbind m (\<lambda>(x, b). f b)) g"
  by (cases m) auto

definition restart :: "ClientFD \<Rightarrow> ClientFD" where
  "restart c = (set_writing c)\<lparr>recvBufLen := 0, sendedLen := 0\<rparr>"

lemma restart_live:
  assumes "client_live k n i c"
  shows "client_live (watch_fd k (cl_fd c) (Some EPOLLOUT)) n i (restart c)"
  using assms by (simp add: restart_def set_writing_def client_live_def watched_for_def)

text \<open>A live client may be replaced by one with the same descriptor that is live as well.\<close>

lemma evolves_same_fd:
  assumes ok: "bench_ok b" and i: "i < unat (need b)" "occupied (clients b ! i)"
    and s: "clients_ptr (b_conf b') = Some ((clients b)[i := c])" "epoll_loop (b_conf b') \<noteq> None" "need b' = need b"
      "live b' = live b" "results_ok (b_conf b')" "wanted b' = wanted b"
    and c: "cl_fd c = cl_fd (clients b ! i)" "bufs_full c" "client_live (b_kern b') (need b) i c"
    and k: "k_ctl (b_kern b') = []"
      "\<And>fd. fd \<noteq> cl_fd (clients b ! i) \<Longrightarrow> k_interest (b_kern b') fd = k_interest (b_kern b) fd"
      "\<And>fd. sock_is_open (b_kern b) fd \<Longrightarrow> sock_is_open (b_kern b') fd"
  shows "evolves i b b'"
  by (rule bench_ok_replace [OF ok i(1), where c = c]) (use i(2) s c k in \<open>simp_all add: occupied_def\<close>)

text \<open>What a reset makes of a client; with the option \<open>-r\<close> the request is written again.\<close>

definition was_reset :: "bench \<Rightarrow> ClientFD \<Rightarrow> ClientFD \<Rightarrow> bool" where
  "was_reset b c c' \<longleftrightarrow> (if randomFlag (b_conf b) = 1
     then \<exists>data. take 334 data = request_bytes \<and> c' = (restart c)\<lparr>sendBufLen := 334, sendBuf := data\<rparr>
     else c' = restart c)"

lemma ResetClient_ok:
  assumes ok: "bench_ok b" and i: "i < unat (need b)" "occupied (clients b ! i)"
  shows "\<exists>b' c'. ReactorResetClient b i = Inr b' \<and> evolves i b b' \<and> was_reset b (clients b ! i) c'
     \<and> b_conf b' = (b_conf b)\<lparr>clients_ptr := Some ((clients b)[i := c']), resetClientNum := resetClientNum (b_conf b) + 1\<rparr>"
proof -
  let ?c = "clients b ! i"
  let ?k = "watch_fd (b_kern b) (cl_fd ?c) (Some EPOLLOUT)"
  let ?b2 = "put_bkern (put_client b i (set_writing ?c)) ?k"
  have lv: "client_live (b_kern b) (need b) i ?c" by (rule bench_slotsD(3) [OF ok i])
  have g: "get_client b i = Inr ?c" by (rule get_client_ok [OF ok i(1)])
  have bc: "bufs_full ?c" by (rule bench_slotsD(2) [OF ok i(1)])
  then obtain data where enc: "EncodeRequest (sendBuf ?c) (MAX_SEND_BUF_LEN + 1) = Inr (334, data)" "length data = 4097"
      "take 334 data = request_bytes"
    using EncodeRequest_ok [of "sendBuf ?c"] by (auto simp: bufs_full_def)
  define c' where "c' = (if randomFlag (b_conf b) = 1 then (restart ?c)\<lparr>sendBufLen := 334, sendBuf := data\<rparr> else restart ?c)"
  let ?b3 = "put_client ?b2 i c'"
  let ?b' = "put_conf ?b3 ((b_conf ?b3)\<lparr>resetClientNum := resetClientNum (b_conf ?b3) + 1\<rparr>)"
  have c': "cl_fd c' = cl_fd ?c" "bufs_full c'" "client_live ?k (need b) i c'"
    using bc enc restart_live [OF lv]
    by (auto simp: c'_def restart_def set_writing_def bufs_full_def client_live_def watched_for_def)
  have "ReactorResetClient b i = cbind (cbind (ReactorDelEvent b i READABLE) (\<lambda>(_, b1). ReactorAddEvent b1 i WRITEABLE SendToServer))
      (\<lambda>(_, b2). cbind (get_client b2 i) (\<lambda>c.
       let c1 = c\<lparr>recvBufLen := 0, sendedLen := 0\<rparr> in
       if pst_config c = NULL then undef NullDeref
       else cbind (if randomFlag (b_conf b2) = 1
              then cbind (EncodeRequest (sendBuf c1) (MAX_SEND_BUF_LEN + 1)) (\<lambda>(len, data).
                     Inr (c1\<lparr>sendBufLen := word_of_int len, sendBuf := data\<rparr>))
              else Inr c1) (\<lambda>c2.
            let b3 = put_client b2 i c2 in
            Inr (put_conf b3 ((b_conf b3)\<lparr>resetClientNum := resetClientNum (b_conf b3) + 1\<rparr>)))))"
    unfolding ReactorResetClient_def by (rule cbind_pair_assoc)
  moreover have "get_client ?b2 i = Inr (set_writing ?c)" using g by simp
  moreover have "pst_config (set_writing ?c) \<noteq> NULL" using lv by (simp add: client_live_def set_writing_def)
  ultimately have "ReactorResetClient b i = Inr ?b'"
    unfolding switch_to_writing [OF g lv bench_okD(4) [OF ok]]
    using enc by (simp add: c'_def restart_def set_writing_def Let_def)
  moreover have "evolves i b ?b'"
    by (rule evolves_same_fd [OF ok i, where c = c'])
       (use bench_okD(1,2,4) [OF ok] results_ok_cong [OF bench_okD(6) [OF ok]] c' in simp_all)
  moreover have "was_reset b ?c c'" using enc(3) by (auto simp: c'_def was_reset_def)
  moreover have "b_conf ?b' = (b_conf b)\<lparr>clients_ptr := Some ((clients b)[i := c']), resetClientNum := resetClientNum (b_conf b) + 1\<rparr>"
    using bench_okD(1) [OF ok] by (simp add: put_client_def put_conf_def put_bkern_def)
  ultimately show ?thesis by blast
qed

section \<open>The end of a response\<close>

lemma stop_loop_ok:
  assumes ok: "bench_ok b" and all_done: "wanted b \<le> doneRequests (b_conf b)"
  shows "bench_ok (stop_loop b) \<and> keeps {} b (stop_loop b)"
proof (rule bench_ok_kern [OF ok])
  show "results_ok (b_conf (stop_loop b))"
    using bench_okD(6) [OF ok] all_done by (simp add: stop_loop_def results_ok_def)
qed (use bench_okD(2,4) [OF ok] in \<open>simp_all add: stop_loop_def\<close>)

lemma CloseNormal_ok:
  assumes ok: "bench_ok b" and i: "i < unat (need b)" "occupied (clients b ! i)"
  shows "\<exists>b'. ReactorCloseConnectionNormal b i = Inr b' \<and> evolves i b b'"
proof -
  have "client_live (b_kern b) (need b) i (clients b ! i)" by (rule bench_slotsD(3) [OF ok i])
  then have p: "pep_loop (clients b ! i) \<noteq> NULL" "pst_config (clients b ! i) \<noteq> NULL" by (simp_all add: client_live_def)
  obtain lp where "epoll_loop (b_conf b) = Some lp" using bench_okD(2) [OF ok] by blast
  moreover have "\<exists>b'. ReactorResetClient b i = Inr b' \<and> evolves i b b'" using ResetClient_ok [OF ok i] by blast
  ultimately show ?thesis
    using get_client_ok [OF ok i(1)] p stop_loop_ok [OF ok] keeps_mono [of b "stop_loop b" "{i}"]
      reopen_ok [OF ok i]
    by (simp add: ReactorCloseConnectionNormal_def)
qed

lemma record_latency_ok:
  assumes ok: "bench_ok b"
  shows "\<exists>b'. record_latency b c = Inr b' \<and> bench_ok b' \<and> keeps {} b b' \<and> clients b' = clients b"
proof (cases "doneRequests (b_conf b) < needRequestNum (b_conf b)")
  case True
  obtain xs where xs: "latency (b_conf b) = Some xs" "length xs = unat (needRequestNum (b_conf b))"
    using bench_okD(6) [OF ok] by (auto simp: results_ok_def)
  let ?d = "doneRequests (b_conf b)"
  let ?b = "put_conf b ((b_conf b)\<lparr>latency := Some (xs[unat ?d := cl_latency c]), doneRequests := ?d + 1\<rparr>)"
  have "?d + 1 \<le> needRequestNum (b_conf b)" using True by (rule inc_le)
  moreover have running: "\<forall>lp. epoll_loop (b_conf b) = Some lp \<longrightarrow> stop lp \<noteq> 0"
    using True bench_okD(6) [OF ok] by (auto simp: results_ok_def)
  ultimately have "bench_ok ?b \<and> keeps {} b ?b"
    using bench_okD(2,4) [OF ok] xs running by (intro bench_ok_kern [OF ok]) (simp_all add: results_ok_def)
  moreover have "clients ?b = clients b" by (simp add: clients_def)
  ultimately show ?thesis
    using True xs by (simp add: record_latency_def Let_def word_less_nat_alt)
next
  case False
  then show ?thesis using ok by (simp add: record_latency_def Let_def)
qed

section \<open>The clock\<close>

lemma GetusecTime_frame:
  "GetusecTime b = (t, b') \<Longrightarrow> b_conf b' = b_conf b \<and> b_kern b' = b_kern b \<and> b_errno b' = b_errno b
     \<and> b_sockets b' = b_sockets b \<and> clients b' = clients b"
  by (auto simp: GetusecTime_def read_tv_def Let_def clients_def split: if_splits)

definition touched :: "ClientFD \<Rightarrow> ClientFD \<Rightarrow> bool" where
  "touched c c' \<longleftrightarrow> (\<exists>s l t. c' = c\<lparr>cl_startTime := s, cl_latency := l, touchTime := t\<rparr>)"

lemma evolves_touched:
  assumes ok: "bench_ok b" and i: "i < unat (need b)" "occupied (clients b ! i)"
    and b1: "b_conf b1 = b_conf b" "b_kern b1 = b_kern b" and c: "touched (clients b ! i) c'"
  shows "evolves i b (put_client b1 i c')" "occupied c'"
proof -
  show "occupied c'" using i(2) c by (auto simp: touched_def occupied_def)
  show "evolves i b (put_client b1 i c')"
    by (rule evolves_same_fd [OF ok i, where c = c'])
       (use bench_okD(1,2,4) [OF ok] results_ok_cong [OF bench_okD(6) [OF ok]] b1 c bench_slotsD(2) [OF ok i(1)]
          bench_slotsD(3) [OF ok i] in \<open>auto simp: touched_def bufs_full_def client_live_def watched_for_def\<close>)
qed

lemma touchedI:
  "touched c (c\<lparr>cl_startTime := s, cl_latency := l, touchTime := t\<rparr>)" "touched c (c\<lparr>touchTime := t\<rparr>)"
  "touched c (c\<lparr>cl_latency := l, touchTime := t\<rparr>)" "touched c (c\<lparr>touchTime := t, cl_latency := l\<rparr>)"
  unfolding touched_def by blast (cases c, simp)+

lemma touched_put_ok:
  assumes ok: "bench_ok b" and i: "i < unat (need b)" "occupied (clients b ! i)"
    and b1: "b_conf b1 = b_conf b" "b_kern b1 = b_kern b" and c: "touched (clients b ! i) c"
  shows "get_client (put_client b1 i c) i = Inr c \<and> evolves i b (put_client b1 i c) \<and> occupied c
     \<and> clients (put_client b1 i c) ! i = c"
  using evolves_touched [OF ok i b1 c] get_client_ok [OF ok i(1)] i(1) bench_okD(7) [OF ok] b1(1)
  by (auto simp: get_client_def put_client_def put_conf_def clients_def split: option.splits)

lemma note_send_ok:
  assumes ok: "bench_ok b" and i: "i < unat (need b)" "occupied (clients b ! i)"
  shows "\<exists>c. touched (clients b ! i) c \<and> get_client (note_send b i (clients b ! i)) i = Inr c
     \<and> evolves i b (note_send b i (clients b ! i)) \<and> occupied c \<and> clients (note_send b i (clients b ! i)) ! i = c"
proof -
  let ?c = "clients b ! i"
  obtain t1 b1 where 1: "GetusecTime b = (t1, b1)" by fastforce
  obtain t2 b2 where 2: "GetusecTime b1 = (t2, b2)" by fastforce
  note same = GetusecTime_frame [OF 1] GetusecTime_frame [OF 2]
  show ?thesis
  proof (cases "sendedLen ?c = 0")
    case True
    let ?c' = "?c\<lparr>cl_startTime := t1, cl_latency := -1, touchTime := t2\<rparr>"
    have "note_send b i ?c = put_client b2 i ?c'" using True 1 2 by (simp add: note_send_def)
    then show ?thesis using touched_put_ok [OF ok i, of b2 ?c'] same touchedI(1) by auto
  next
    case False
    let ?c' = "?c\<lparr>touchTime := t1\<rparr>"
    have "note_send b i ?c = put_client b1 i ?c'" using False 1 by (simp add: note_send_def)
    then show ?thesis using touched_put_ok [OF ok i, of b1 ?c'] same touchedI(2) by auto
  qed
qed

lemma note_recv_ok:
  assumes ok: "bench_ok b" and i: "i < unat (need b)" "occupied (clients b ! i)"
  shows "\<exists>c. touched (clients b ! i) c \<and> get_client (note_recv b i (clients b ! i)) i = Inr c
     \<and> evolves i b (note_recv b i (clients b ! i)) \<and> occupied c \<and> clients (note_recv b i (clients b ! i)) ! i = c"
proof -
  let ?c = "clients b ! i"
  obtain t1 b1 where 1: "GetusecTime b = (t1, b1)" by fastforce
  obtain t2 b2 where 2: "GetusecTime b1 = (t2, b2)" by fastforce
  note same = GetusecTime_frame [OF 1] GetusecTime_frame [OF 2]
  show ?thesis
  proof (cases "sint (cl_latency ?c) < 0")
    case True
    let ?c' = "?c\<lparr>touchTime := t1, cl_latency := t2 - cl_startTime ?c\<rparr>"
    have "note_recv b i ?c = put_client b2 i ?c'" using True 1 2 by (simp add: note_recv_def)
    then show ?thesis using touched_put_ok [OF ok i, of b2 ?c'] same touchedI(4) by auto
  next
    case False
    let ?c' = "?c\<lparr>touchTime := t1\<rparr>"
    have "note_recv b i ?c = put_client b1 i ?c'" using False 1 by (simp add: note_recv_def)
    then show ?thesis using touched_put_ok [OF ok i, of b1 ?c'] same touchedI(2) by auto
  qed
qed


section \<open>The socket calls of the callbacks\<close>

lemma write_loop_Got: "write_loop s n err = (Got k, s', err') \<Longrightarrow> 0 < k \<and> k \<le> n"
proof (induction s n err rule: write_loop.induct)
  case (1 s n err)
  have le: "k \<le> n" if "sys_write s n = (Got k, s')" for k s'
    using that by (cases "(s, n)" rule: sys_write.cases) auto
  show ?case
    using 1 le by (subst (asm) (3) write_loop.simps) (auto split: prod.splits sys_result.splits if_splits)
qed

lemma read_loop_Got: "read_loop s n err = (Got bs, s', err') \<Longrightarrow> length bs \<le> n"
proof (induction s n err rule: read_loop.induct)
  case (1 s n err)
  then show ?case
    by (subst (asm) (2) read_loop.simps) (auto split: prod.splits sys_result.splits if_splits dest: sys_read_Got)
qed

lemma set_sock_ok:
  assumes ok: "bench_ok b" and fd: "sock_is_open (b_kern b) fd"
  shows "bench_ok (set_sock b fd so err) \<and> keeps {} b (set_sock b fd so err)"
  using bench_okD(2,4,6) [OF ok] fd
  by (intro bench_ok_kern [OF ok]) (auto simp: set_sock_def sock_is_open_def)

lemma set_sock_simps [simp]:
  "b_conf (set_sock b fd so err) = b_conf b" "clients (set_sock b fd so err) = clients b"
  by (simp_all add: set_sock_def clients_def)

lemma client_write_ok:
  assumes ok: "bench_ok b" and i: "i < unat (need b)" "occupied (clients b ! i)"
  shows "\<exists>res b1. client_write b (clients b ! i) = Inr (res, b1) \<and> bench_ok b1 \<and> keeps {} b b1 \<and> b_conf b1 = b_conf b
     \<and> (\<forall>k. res = Got k \<longrightarrow> 0 < k \<and> unat (sendedLen (clients b ! i)) + k \<le> unat (sendBufLen (clients b ! i)))"
proof -
  let ?c = "clients b ! i"
  have lv: "client_live (b_kern b) (need b) i ?c" by (rule bench_slotsD(3) [OF ok i])
  then obtain so where so: "k_socks (b_kern b) (cl_fd ?c) = Some so" by (auto simp: client_live_def sock_is_open_def)
  have opn: "sock_is_open (b_kern b) (cl_fd ?c)" and le: "sendedLen ?c \<le> sendBufLen ?c" "uint (sendBufLen ?c) \<le> 4097"
    using lv by (simp_all add: client_live_def)
  have dif: "unat (sendBufLen ?c - sendedLen ?c) = unat (sendBufLen ?c) - unat (sendedLen ?c)"
    "unat (sendedLen ?c) \<le> unat (sendBufLen ?c)" "unat (sendBufLen ?c) \<le> 4097"
    using le by (simp_all add: unat_sub word_le_nat_alt uint_nat del: of_nat_unat)
  obtain r s' err where w: "write_loop (s_out so) (unat (sendBufLen ?c - sendedLen ?c)) (b_errno b) = (r, s', err)"
    by (cases "write_loop (s_out so) (unat (sendBufLen ?c - sendedLen ?c)) (b_errno b)")
  have room: "0 < k \<and> unat (sendedLen ?c) + k \<le> unat (sendBufLen ?c)" if "r = Got k" for k
    using write_loop_Got [of "s_out so"] w that dif by fastforce
  moreover have "length (sendBuf ?c) = 4097" using bench_slotsD(2) [OF ok i(1)] by (simp add: bufs_full_def)
  ultimately have sl: "\<exists>bs. mem_slice (sendBuf ?c) (uint (sendedLen ?c)) (int k) = Inr bs" if "r = Got k" for k
    using dif that room [OF that] by (simp add: mem_slice_def uint_nat del: of_nat_unat)
  show ?thesis
  proof (cases r)
    case (Got k)
    then show ?thesis
      using so w room [OF Got] sl [OF Got] set_sock_ok [OF ok opn] by (auto simp: client_write_def)
  next
    case (Failed e)
    then show ?thesis using so w set_sock_ok [OF ok opn] by (simp add: client_write_def)
  qed
qed

lemma client_read_ok:
  assumes ok: "bench_ok b" and i: "i < unat (need b)" "occupied (clients b ! i)"
  shows "\<exists>res data b1. client_read b (clients b ! i) = Inr ((res, data), b1) \<and> bench_ok b1 \<and> keeps {} b b1
     \<and> b_conf b1 = b_conf b \<and> length data = 4097
     \<and> (\<forall>bs. res = Got bs \<longrightarrow> unat (recvBufLen (clients b ! i)) + length bs \<le> 4097)"
proof -
  let ?c = "clients b ! i"
  have lv: "client_live (b_kern b) (need b) i ?c" by (rule bench_slotsD(3) [OF ok i])
  then obtain so where so: "k_socks (b_kern b) (cl_fd ?c) = Some so" by (auto simp: client_live_def sock_is_open_def)
  have opn: "sock_is_open (b_kern b) (cl_fd ?c)" using lv by (simp add: client_live_def)
  have bc: "length (recvBuf ?c) = 4097" "unat (recvBufLen ?c) \<le> 4096"
    using bench_slotsD(2) [OF ok i(1)] by (simp_all add: bufs_full_def uint_nat del: of_nat_unat)
  let ?n = "nat ((MAX_RECV_BUF_LEN + 1 - uint (recvBufLen ?c)) mod 2 ^ 64)"
  have n: "?n = 4097 - unat (recvBufLen ?c)" using bc by (simp add: MAX_RECV_BUF_LEN_def uint_nat nat_diff_distrib del: of_nat_unat)
  obtain r s' err where w: "read_loop (s_in so) ?n (b_errno b) = (r, s', err)" by (cases "read_loop (s_in so) ?n (b_errno b)")
  show ?thesis
  proof (cases r)
    case (Got bs)
    then have len: "unat (recvBufLen ?c) + length bs \<le> 4097" using read_loop_Got [of "s_in so" ?n] w n bc by fastforce
    then obtain data where d: "mem_copy (recvBuf ?c) (uint (recvBufLen ?c)) bs = Inr data"
      using bc by (simp add: mem_copy_def uint_nat del: of_nat_unat)
    then have "length data = 4097" using mem_copy_length bc by metis
    then show ?thesis
      using so w Got d len set_sock_ok [OF ok opn] by (simp add: client_read_def)
  next
    case (Failed e)
    then show ?thesis using so w bc set_sock_ok [OF ok opn] by (simp add: client_read_def)
  qed
qed

end
