(* ===== verification/BenchTurns.thy ===== *)
theory BenchTurns
  imports BenchCallbacks
begin

text \<open>
  A turn of the benchmark client's loop keeps the invariant: the two callbacks, the events of an
  answer of \<open>epoll_wait\<close> one after the other, the timeout check, and the refilling of the slots.
\<close>

section \<open>The callbacks\<close>

lemma evolves_mono: "bench_ok b' \<and> keeps {} b b' \<Longrightarrow> evolves i b b'"
  using keeps_mono by blast

lemma reopen_slot:
  assumes ev: "evolves i b b1" and i: "i < unat (need b)" "occupied (clients b1 ! i)"
  shows "\<exists>b'. reopen b1 i = Inr b' \<and> evolves i b b'"
proof -
  have "i < unat (need b1)" using ev i(1) keeps_need by metis
  then show ?thesis using reopen_ok [of b1 i] ev i(2) evolves_trans by blast
qed

lemma sent_more:
  fixes x y :: u32
  assumes "unat x + k \<le> unat y"
  shows "unat (x + of_nat k) = unat x + k" "x + of_nat k \<le> y"
proof -
  have "unat x + k < 2 ^ 32" using assms unsigned_less [where 'a = nat, of y] by simp
  then show "unat (x + of_nat k) = unat x + k" by (simp add: unat_word_ariths unat_of_nat)
  then show "x + of_nat k \<le> y" using assms by (simp add: word_le_nat_alt)
qed

text \<open>What a send leaves in the slot: the client still sends, or waits for the response.\<close>

definition after_send :: "ClientFD \<Rightarrow> nat \<Rightarrow> ClientFD" where
  "after_send c k = (let c1 = c\<lparr>sendedLen := sendedLen c + of_nat k\<rparr> in
     if sendedLen c1 = sendBufLen c1 then set_reading c1 else c1)"

lemma send_continues:
  assumes ok: "bench_ok b2" and i: "i < unat (need b2)" "occupied (clients b2 ! i)"
    and c: "clients b2 ! i = c" "get_client b2 i = Inr c" "cl_mask c = WRITEABLE"
    and k: "unat (sendedLen c) + k \<le> unat (sendBufLen c)"
  shows "\<exists>b'. (let c1 = c\<lparr>sendedLen := sendedLen c + of_nat k\<rparr>;
               b3 = put_conf b2 ((b_conf b2)\<lparr>totalRequests := totalRequests (b_conf b2) + 1\<rparr>);
               b4 = put_client b3 i c1 in
             if sendedLen c1 = sendBufLen c1
             then cbind (ReactorDelEvent b4 i WRITEABLE) (\<lambda>(_, b5).
                  cbind (ReactorAddEvent b5 i READABLE RecvFromServer) (\<lambda>(_, b6). Inr (0, b6)))
             else Inr (0, b4)) = Inr (0 :: int, b')
     \<and> evolves i b2 b' \<and> k_socks (b_kern b') = k_socks (b_kern b2) \<and> clients b' ! i = after_send c k
     \<and> totalRequests (b_conf b') = totalRequests (b_conf b2) + 1"
proof -
  let ?c1 = "c\<lparr>sendedLen := sendedLen c + of_nat k\<rparr>"
  let ?b3 = "put_conf b2 ((b_conf b2)\<lparr>totalRequests := totalRequests (b_conf b2) + 1\<rparr>)"
  let ?b4 = "put_client ?b3 i ?c1"
  have lv: "client_live (b_kern b2) (need b2) i c" using bench_slotsD(3) [OF ok i] c(1) by simp
  have le: "sendedLen ?c1 \<le> sendBufLen ?c1" using sent_more(2) [OF k] by simp
  have lv1: "client_live (b_kern b2) (need b2) i ?c1" using lv le by (simp add: client_live_def watched_for_def)
  have bc: "bufs_full c" using bench_slotsD(2) [OF ok i(1)] c(1) by simp
  have g4: "get_client ?b4 i = Inr ?c1"
    using c(2) by (auto simp: get_client_def put_client_def put_conf_def split: option.splits if_splits)
  have cl3: "clients ?b3 = clients b2" by (simp add: clients_def)
  have len: "i < length (clients b2)" using i(1) bench_okD(7) [OF ok] by simp
  note rest = bench_okD(1,2,4) [OF ok] results_ok_cong [OF bench_okD(6) [OF ok]]
  show ?thesis
  proof (cases "sendedLen ?c1 = sendBufLen ?c1")
    case False
    have "evolves i b2 ?b4"
      by (rule evolves_same_fd [OF ok i, where c = ?c1]) (use rest c(1) lv1 bc in \<open>simp_all add: bufs_full_def\<close>)
    then show ?thesis using False cl3 len by (simp add: Let_def after_send_def)
  next
    case True
    let ?b6 = "put_bkern (put_client ?b4 i (set_reading ?c1)) (watch_fd (b_kern ?b4) (cl_fd ?c1) (Some EPOLLIN))"
    have "cbind (ReactorDelEvent ?b4 i WRITEABLE) (\<lambda>(_, b1). ReactorAddEvent b1 i READABLE RecvFromServer) = Inr (0, ?b6)"
      by (rule switch_to_reading [OF g4, where n = "need b2"]) (use lv1 c(3) bench_okD(4) [OF ok] in simp_all)
    then have "cbind (ReactorDelEvent ?b4 i WRITEABLE) (\<lambda>(_, b5).
          cbind (ReactorAddEvent b5 i READABLE RecvFromServer) (\<lambda>(_, b6). Inr (0 :: int, b6))) = Inr (0, ?b6)"
      using cbind_pair_assoc [of "ReactorDelEvent ?b4 i WRITEABLE"
            "\<lambda>b1. ReactorAddEvent b1 i READABLE RecvFromServer" "\<lambda>(_, b6). Inr (0 :: int, b6)"] by simp
    moreover have "evolves i b2 ?b6"
      by (rule evolves_same_fd [OF ok i, where c = "set_reading ?c1"])
         (use rest c(1) lv1 bc in \<open>simp_all add: bufs_full_def set_reading_def client_live_def watched_for_def\<close>)
    ultimately show ?thesis using True cl3 len by (simp add: Let_def after_send_def)
  qed
qed

text \<open>The callback up to the call of \<open>write\<close>, and what it does with the result.\<close>

lemma SendToServer_cases:
  assumes ok: "bench_ok b" and i: "i < unat (need b)" "occupied (clients b ! i)" and m: "cl_mask (clients b ! i) = WRITEABLE"
  obtains c res b2 where "touched (clients b ! i) c" "clients (note_send b i (clients b ! i)) ! i = c"
    "client_write (note_send b i (clients b ! i)) c = Inr (res, b2)" "evolves i b b2" "clients b2 ! i = c"
    "b_conf b2 = b_conf (note_send b i (clients b ! i))"
    "\<And>k. res = Got k \<Longrightarrow> \<exists>b'. SendToServerCallback b i = Inr (0, b') \<and> evolves i b b' \<and> clients b' ! i = after_send c k
       \<and> k_socks (b_kern b') = k_socks (b_kern b2) \<and> totalRequests (b_conf b') = totalRequests (b_conf b2) + 1"
    "\<And>e. res = Failed e \<Longrightarrow> SendToServerCallback b i =
       (if e = EAGAIN then Inr (1, b2) else cbind (reopen b2 i) (\<lambda>b3. Inr (-1, b3)))"
proof -
  let ?b1 = "note_send b i (clients b ! i)"
  obtain c where c: "touched (clients b ! i) c" "get_client ?b1 i = Inr c" "evolves i b ?b1" "occupied c" "clients ?b1 ! i = c"
    using note_send_ok [OF ok i] by blast
  have i1: "i < unat (need ?b1)" using i(1) c(3) keeps_need by metis
  obtain res b2 where w: "client_write ?b1 c = Inr (res, b2)" "bench_ok b2" "keeps {} ?b1 b2" "b_conf b2 = b_conf ?b1"
      "\<And>k. res = Got k \<Longrightarrow> 0 < k \<and> unat (sendedLen c) + k \<le> unat (sendBufLen c)"
    using client_write_ok [of ?b1 i] c i1 by auto
  have ev2: "evolves i b b2" using evolves_trans [OF c(3)] w(2,3) keeps_mono by blast
  have cl2: "clients b2 ! i = c" "get_client b2 i = Inr c" "need b2 = need b"
    using c w(4) keeps_need [of "{i}" b ?b1] by (simp_all add: clients_def get_client_def)
  have i2: "i < unat (need b2)" "occupied (clients b2 ! i)" using i(1) cl2 c(4) by simp_all
  have p: "pst_config c \<noteq> NULL" using bench_slotsD(3) [OF w(2) i2] cl2(1) by (simp add: client_live_def)
  have mc: "cl_mask c = WRITEABLE" using c(1) m by (auto simp: touched_def)
  note run = get_client_ok [OF ok i(1)] c(2) w(1) p
  show thesis
  proof (rule that [OF c(1,5) w(1) ev2 cl2(1) w(4)])
    fix k assume k: "res = Got k"
    show "\<exists>b'. SendToServerCallback b i = Inr (0, b') \<and> evolves i b b' \<and> clients b' ! i = after_send c k
       \<and> k_socks (b_kern b') = k_socks (b_kern b2) \<and> totalRequests (b_conf b') = totalRequests (b_conf b2) + 1"
      using send_continues [OF w(2) i2 cl2(1,2) mc, of k] w(5) [OF k] run k evolves_trans [OF ev2]
      unfolding SendToServerCallback_def by (auto simp: Let_def)
  next
    fix e assume "res = Failed e"
    then show "SendToServerCallback b i = (if e = EAGAIN then Inr (1, b2) else cbind (reopen b2 i) (\<lambda>b3. Inr (-1, b3)))"
      using run by (simp add: SendToServerCallback_def Let_def)
  qed
qed

lemma touched_occupied: "touched c c' \<Longrightarrow> occupied c' \<longleftrightarrow> occupied c"
  by (auto simp: touched_def occupied_def)

lemma SendToServer_ok:
  assumes ok: "bench_ok b" and i: "i < unat (need b)" "occupied (clients b ! i)" and m: "cl_mask (clients b ! i) = WRITEABLE"
  shows "\<exists>r b'. SendToServerCallback b i = Inr (r, b') \<and> evolves i b b'"
proof (rule SendToServer_cases [OF assms])
  fix c res b2
  assume t: "touched (clients b ! i) c" "evolves i b b2" "clients b2 ! i = c"
    and got: "\<And>k. res = Got k \<Longrightarrow> \<exists>b'. SendToServerCallback b i = Inr (0, b') \<and> evolves i b b' \<and> clients b' ! i = after_send c k
       \<and> k_socks (b_kern b') = k_socks (b_kern b2) \<and> totalRequests (b_conf b') = totalRequests (b_conf b2) + 1"
    and failed: "\<And>e. res = Failed e \<Longrightarrow> SendToServerCallback b i =
       (if e = EAGAIN then Inr (1, b2) else cbind (reopen b2 i) (\<lambda>b3. Inr (-1, b3)))"
  show ?thesis
  proof (cases res)
    case (Got k)
    then show ?thesis using got by blast
  next
    case (Failed e)
    have "occupied (clients b2 ! i)" using t(1,3) i(2) touched_occupied by simp
    then show ?thesis using failed [OF Failed] t(2) reopen_slot [OF t(2) i(1)] by auto
  qed
qed

text \<open>The callback of a response up to the call of \<open>read\<close>, and what it does with the result.\<close>

definition after_read :: "ClientFD \<Rightarrow> buf \<Rightarrow> nat \<Rightarrow> ClientFD" where
  "after_read c data n = c\<lparr>recvBuf := data, recvBufLen := recvBufLen c + of_nat n\<rparr>"

lemma RecvFromServer_cases:
  assumes ok: "bench_ok b" and i: "i < unat (need b)" "occupied (clients b ! i)"
  obtains c res data b2 where "touched (clients b ! i) c" "clients (note_recv b i (clients b ! i)) ! i = c"
    "client_read (note_recv b i (clients b ! i)) c = Inr ((res, data), b2)" "evolves i b b2" "clients b2 ! i = c"
    "b_conf b2 = b_conf (note_recv b i (clients b ! i))"
    "length data = 4097" "\<And>bs. res = Got bs \<Longrightarrow> unat (recvBufLen c) + length bs \<le> 4097"
    "RecvFromServerCallback b i = (case res of
         Failed e \<Rightarrow> if e = EAGAIN then Inr (1, b2) else cbind (reopen b2 i) (\<lambda>b3. Inr (-1, b3))
       | Got bs \<Rightarrow> if bs = [] then cbind (reopen b2 i) (\<lambda>b3. Inr (-1, b3))
           else if uint (recvBufLen (after_read c data (length bs))) > MAX_RECV_BUF_LEN then Inl (Exits (-1))
           else cbind (record_latency (put_client b2 i (after_read c data (length bs))) (after_read c data (length bs)))
             (\<lambda>b4. cbind (ReactorCloseConnectionNormal b4 i) (\<lambda>b5. Inr (0, b5))))"
proof -
  let ?b1 = "note_recv b i (clients b ! i)"
  obtain c where c: "touched (clients b ! i) c" "get_client ?b1 i = Inr c" "evolves i b ?b1" "occupied c" "clients ?b1 ! i = c"
    using note_recv_ok [OF ok i] by blast
  have i1: "i < unat (need ?b1)" using i(1) c(3) keeps_need by metis
  obtain res data b2 where w: "client_read ?b1 c = Inr ((res, data), b2)" "bench_ok b2" "keeps {} ?b1 b2" "b_conf b2 = b_conf ?b1"
      "length data = 4097" "\<And>bs. res = Got bs \<Longrightarrow> unat (recvBufLen c) + length bs \<le> 4097"
    using client_read_ok [of ?b1 i] c i1 by blast
  have ev2: "evolves i b b2" using evolves_trans [OF c(3)] w(2,3) keeps_mono by blast
  have cl2: "clients b2 ! i = c" "need b2 = need b"
    using c w(4) keeps_need [of "{i}" b ?b1] by (simp_all add: clients_def)
  have i2: "i < unat (need b2)" "occupied (clients b2 ! i)" using i(1) cl2 c(4) by simp_all
  have p: "pst_config c \<noteq> NULL" using bench_slotsD(3) [OF w(2) i2] cl2(1) by (simp add: client_live_def)
  show thesis
    by (rule that [OF c(1,5) w(1) ev2 cl2(1) w(4,5,6)])
       (use get_client_ok [OF ok i(1)] c(2) w(1) p in
         \<open>simp_all add: RecvFromServerCallback_def after_read_def Let_def DecodeResponse_def split: sys_result.splits\<close>)
qed

lemma after_read_ok:
  assumes ev: "evolves i b b2" and i: "i < unat (need b)" "occupied (clients b ! i)"
    and c: "touched (clients b ! i) c" "clients b2 ! i = c"
    and d: "length data = 4097" "uint (recvBufLen (after_read c data n)) \<le> MAX_RECV_BUF_LEN"
  shows "evolves i b (put_client b2 i (after_read c data n))"
    "clients (put_client b2 i (after_read c data n)) ! i = after_read c data n" "occupied (after_read c data n)"
proof -
  have ok2: "bench_ok b2" using ev by simp
  have i2: "i < unat (need b2)" "occupied (clients b2 ! i)"
    using i keeps_need [of "{i}" b b2] ev c touched_occupied by simp_all
  have "client_live (b_kern b2) (need b2) i c" using bench_slotsD(3) [OF ok2 i2] c(2) by simp
  then have "client_live (b_kern b2) (need b2) i (after_read c data n)"
    by (simp add: client_live_def watched_for_def after_read_def)
  then have "evolves i b2 (put_client b2 i (after_read c data n))"
    using bench_okD(1,2,4) [OF ok2] results_ok_cong [OF bench_okD(6) [OF ok2]] c d bench_slotsD(2) [OF ok2 i2(1)]
    by (intro evolves_same_fd [OF ok2 i2, where c = "after_read c data n"])
       (simp_all add: bufs_full_def after_read_def MAX_RECV_BUF_LEN_def)
  then show "evolves i b (put_client b2 i (after_read c data n))" using evolves_trans [OF ev] by blast
  show "clients (put_client b2 i (after_read c data n)) ! i = after_read c data n"
    using i2(1) bench_okD(7) [OF ok2] by simp
  show "occupied (after_read c data n)" using i2(2) c(2) by (simp add: after_read_def occupied_def)
qed

lemma response_finishes:
  assumes ev: "evolves i b b3" and i: "i < unat (need b)" "occupied (clients b3 ! i)"
  obtains b4 b5 where "record_latency b3 c = Inr b4" "ReactorCloseConnectionNormal b4 i = Inr b5" "evolves i b b5"
    "bench_ok b4" "i < unat (need b4)" "occupied (clients b4 ! i)"
proof -
  obtain b4 where b4: "record_latency b3 c = Inr b4" "bench_ok b4" "keeps {} b3 b4" "clients b4 = clients b3"
    using record_latency_ok ev by blast
  have ev4: "evolves i b b4" using evolves_trans [OF ev] b4(2,3) keeps_mono by blast
  have i4: "i < unat (need b4)" "occupied (clients b4 ! i)" using ev4 keeps_need [of "{i}" b b4] i b4(4) by simp_all
  obtain b5 where b5: "ReactorCloseConnectionNormal b4 i = Inr b5" "evolves i b4 b5" using CloseNormal_ok [OF b4(2) i4] by blast
  have "evolves i b b5" using evolves_trans [OF ev4 b5(2)] .
  then show thesis using that b4(1,2) b5(1) i4 by blast
qed

lemma RecvFromServer_ok:
  assumes ok: "bench_ok b" and i: "i < unat (need b)" "occupied (clients b ! i)"
  shows "runs (\<lambda>(r, b'). evolves i b b') (RecvFromServerCallback b i)"
proof (rule RecvFromServer_cases [OF assms])
  fix c res data b2
  assume t: "touched (clients b ! i) c" and b2: "evolves i b b2" "clients b2 ! i = c" and d: "length data = 4097"
    and run: "RecvFromServerCallback b i = (case res of
         Failed e \<Rightarrow> if e = EAGAIN then Inr (1, b2) else cbind (reopen b2 i) (\<lambda>b3. Inr (-1, b3))
       | Got bs \<Rightarrow> if bs = [] then cbind (reopen b2 i) (\<lambda>b3. Inr (-1, b3))
           else if uint (recvBufLen (after_read c data (length bs))) > MAX_RECV_BUF_LEN then Inl (Exits (-1))
           else cbind (record_latency (put_client b2 i (after_read c data (length bs))) (after_read c data (length bs)))
             (\<lambda>b4. cbind (ReactorCloseConnectionNormal b4 i) (\<lambda>b5. Inr (0, b5))))"
  have "occupied (clients b2 ! i)" using t b2(2) i(2) touched_occupied by simp
  then have again: "runs (\<lambda>(r, b'). evolves i b b') (cbind (reopen b2 i) (\<lambda>b3. Inr (- 1 :: int, b3)))"
    using reopen_slot [OF b2(1) i(1)] by auto
  have whole: "runs (\<lambda>(r, b'). evolves i b b')
      (cbind (record_latency (put_client b2 i (after_read c data n)) (after_read c data n))
             (\<lambda>b4. cbind (ReactorCloseConnectionNormal b4 i) (\<lambda>b5. Inr (0 :: int, b5))))"
    if "uint (recvBufLen (after_read c data n)) \<le> MAX_RECV_BUF_LEN" for n
  proof -
    note r = after_read_ok [OF b2(1) i t b2(2) d that]
    have "occupied (clients (put_client b2 i (after_read c data n)) ! i)" using r(2,3) by simp
    then show ?thesis by (rule response_finishes [OF r(1) i(1), where c = "after_read c data n"]) simp
  qed
  show ?thesis unfolding run using again whole b2(1) by (auto split: sys_result.splits)
qed

section \<open>The events of one answer\<close>

text \<open>
  What \<open>epoll_wait\<close> may report: each registered descriptor at most once, with events it is
  registered for, or an error or a hang-up.
\<close>

definition may_report :: "kernel \<Rightarrow> int \<times> u32 \<Rightarrow> bool" where
  "may_report k ev \<longleftrightarrow> (case k_interest k (fst ev) of None \<Rightarrow> False
     | Some m \<Rightarrow> snd ev AND NOT (m OR EPOLLERR OR EPOLLHUP) = 0)"

definition epoll_reports :: "kernel \<Rightarrow> (int \<times> u32) list \<Rightarrow> bool" where
  "epoll_reports k evs \<longleftrightarrow> distinct (map fst evs) \<and> (\<forall>ev \<in> set evs. may_report k ev)"

lemma reported_bits:
  fixes ev :: u32
  shows "ev AND NOT (EPOLLOUT OR EPOLLERR OR EPOLLHUP) = 0 \<Longrightarrow> ev AND EPOLLIN = 0"
    "ev AND NOT (EPOLLIN OR EPOLLERR OR EPOLLHUP) = 0 \<Longrightarrow> ev AND EPOLLOUT = 0"
proof -
  have sub: "ev AND m = 0" if "ev AND NOT n = 0" "m AND NOT n = m" for m n :: u32
  proof -
    have "ev AND m = (ev AND NOT n) AND m" using that(2) by (metis and.assoc and.commute)
    then show ?thesis using that(1) by simp
  qed
  show "ev AND NOT (EPOLLOUT OR EPOLLERR OR EPOLLHUP) = 0 \<Longrightarrow> ev AND EPOLLIN = 0"
    by (erule sub) (simp add: EPOLLIN_def EPOLLOUT_def EPOLLERR_def EPOLLHUP_def)
  show "ev AND NOT (EPOLLIN OR EPOLLERR OR EPOLLHUP) = 0 \<Longrightarrow> ev AND EPOLLOUT = 0"
    by (erule sub) (simp add: EPOLLIN_def EPOLLOUT_def EPOLLERR_def EPOLLHUP_def)
qed

lemma bench_event_ok:
  assumes ok: "bench_ok b" and ev: "may_report (b_kern b) (fd, ev)"
  shows "runs (\<lambda>(n, b'). evolves (slot_of (need b) fd) b b') (bench_event b fails (fd, ev))"
proof -
  let ?i = "slot_of (need b) fd"
  obtain m where m: "k_interest (b_kern b) fd = Some m" "ev AND NOT (m OR EPOLLERR OR EPOLLHUP) = 0"
    using ev by (auto simp: may_report_def split: option.splits)
  have i: "?i < unat (need b)" "occupied (clients b ! ?i)" "cl_fd (clients b ! ?i) = fd"
    using registered_client [OF ok, of fd] m(1) by simp_all
  have idx: "client_index (b_conf b) fd = Inr ?i"
    using i(1) by (auto simp: client_index_def slot_of_def)
  have g: "get_client b ?i = Inr (clients b ! ?i)" by (rule get_client_ok [OF ok i(1)])
  have w: "watched_for (b_kern b) (clients b ! ?i)" using bench_slotsD(3) [OF ok i(1,2)] by (simp add: client_live_def)
  show ?thesis
  proof (cases "ev AND (EPOLLERR OR EPOLLHUP) = 0")
    case False
    then show ?thesis using idx reopen_ok [OF ok i(1,2)] by (auto simp: bench_event_def)
  next
    case True
    from w consider
        (out) "cl_mask (clients b ! ?i) = WRITEABLE" "wFuncProc (clients b ! ?i) = Some SendToServer" "m = EPOLLOUT"
      | (inp) "rFuncProc (clients b ! ?i) = Some RecvFromServer" "m = EPOLLIN"
      using m(1) i(3) by (auto simp: watched_for_def)
    then show ?thesis
    proof cases
      case out
      then have "ev AND EPOLLIN = 0" using m(2) reported_bits(1) by blast
      then show ?thesis
        using True idx g ok SendToServer_ok [OF ok i(1,2) out(1)] out(2)
        by (auto simp: bench_event_def run_client_callback_def)
    next
      case inp
      then have "ev AND EPOLLOUT = 0" using m(2) reported_bits(2) by blast
      then have "bench_event b fails (fd, ev) = cbind (if ev AND EPOLLIN \<noteq> 0
              then cbind (RecvFromServerCallback b ?i) (\<lambda>(_, b1). Inr b1) else Inr b) (\<lambda>b1. Inr (fails, b1))"
        using True idx g inp(1) by (simp add: bench_event_def run_client_callback_def)
      then show ?thesis
        using ok RecvFromServer_ok [OF ok i(1,2)]
        by (auto intro!: runs_bind [of "\<lambda>b1. evolves ?i b b1"] elim!: runs_bind)
    qed
  qed
qed

end
