(* ===== verification/BenchRun.thy ===== *)
theory BenchRun
  imports BenchTurns
begin

text \<open>
  The benchmark client from its configuration to the end of its loop: the invariant is established
  by \<open>InitSingleReactor\<close> and kept by every turn, and the states of the loop are those a step
  relation reaches.
\<close>

section \<open>All events of an answer\<close>

text \<open>Handling one event leaves the registrations of the other descriptors as they were.\<close>

lemma may_report_kept:
  assumes ok: "bench_ok b" and ne: "fd \<noteq> fst ev" and ev: "may_report (b_kern b) ev"
    and k: "keeps {slot_of (need b) fd} b b'" and fd: "k_interest (b_kern b) fd \<noteq> None"
  shows "may_report (b_kern b') ev"
proof -
  have int: "k_interest (b_kern b) (fst ev) \<noteq> None" using ev by (auto simp: may_report_def split: option.splits)
  let ?j = "slot_of (need b) (fst ev)"
  note j = registered_client [OF ok int]
  have "?j \<noteq> slot_of (need b) fd" using registered_client(3) [OF ok fd] j(3) ne by auto
  then have "k_interest (b_kern b') (fst ev) = k_interest (b_kern b) (fst ev)"
    using k j unfolding keeps_def by auto
  then show ?thesis using ev by (simp add: may_report_def)
qed

lemma bench_events_ok:
  assumes "bench_ok b" "epoll_reports (b_kern b) evs"
  shows "runs (\<lambda>(n, b'). bench_ok b' \<and> same_needs b b') (bench_events b fails evs)"
  using assms
proof (induction evs arbitrary: b fails)
  case (Cons ev evs)
  obtain fd e where ev: "ev = (fd, e)" by fastforce
  have rep: "may_report (b_kern b) (fd, e)" "epoll_reports (b_kern b) evs" "\<And>ev'. ev' \<in> set evs \<Longrightarrow> fd \<noteq> fst ev'"
    using Cons.prems(2) by (auto simp: epoll_reports_def ev image_iff)
  then have fd: "k_interest (b_kern b) fd \<noteq> None" by (auto simp: may_report_def split: option.splits)
  have later: "runs (\<lambda>(n, b'). bench_ok b' \<and> same_needs b b') (bench_events b1 n evs)"
    if b1: "evolves (slot_of (need b) fd) b b1" for n b1
  proof -
    have "epoll_reports (b_kern b1) evs"
      using rep(2,3) may_report_kept [OF Cons.prems(1) _ _ _ fd] b1 by (simp add: epoll_reports_def)
    then show ?thesis using Cons.IH [of b1] b1 keeps_need keeps_wanted by fastforce
  qed
  have "runs (\<lambda>(n, b'). bench_ok b' \<and> same_needs b b')
      (cbind (bench_event b fails (fd, e)) (\<lambda>(n, b1). bench_events b1 n evs))"
    by (rule runs_bind [OF bench_event_ok [OF Cons.prems(1) rep(1)]]) (use later in auto)
  then show ?case by (simp add: ev)
qed simp

section \<open>Refilling and timeouts\<close>

lemma live_le_need:
  assumes "bench_ok b" shows "live b \<le> need b"
proof -
  have "live_count (clients b) \<le> unat (need b)"
    by (metis assms bench_okD(7) live_count_def length_filter_le)
  then show ?thesis by (simp add: word_le_nat_alt bench_okD(3) [OF assms])
qed

lemma fill_clients_ok:
  assumes "bench_ok b" "unat (need b) - unat (live b) \<le> n"
  shows "runs (\<lambda>b'. bench_ok b' \<and> live b' = need b' \<and> same_needs b b') (fill_clients n b)"
  using assms
proof (induction n arbitrary: b)
  case 0
  then have "live b = need b" using live_le_need [OF 0(1)] by (simp add: word_le_nat_alt word_unat_eq_iff)
  then show ?case using 0 by (simp add: fill_clients.simps)
next
  case (Suc n)
  show ?case
  proof (cases "live b < need b")
    case True
    then have nz: "need b \<noteq> 0" by auto
    obtain r b1 where r: "ReactorClientInit b = Inr (r, b1)" "bench_ok b1" "keeps {} b b1"
        "0 \<le> r \<Longrightarrow> unat (live b1) = unat (live b) + 1"
      using ClientInit_ok [OF Suc.prems(1) nz] by blast
    show ?thesis
    proof (cases "r < 0")
      case True
      then show ?thesis using \<open>live b < need b\<close> r(1) by (simp add: fill_clients.simps)
    next
      case False
      have nd: "same_needs b b1" using keeps_need [OF r(3)] keeps_wanted [OF r(3)] by simp
      then have "unat (need b1) - unat (live b1) \<le> n" using r(4) False Suc.prems(2) by simp
      then show ?thesis using Suc.IH [OF r(2)] r(1) \<open>live b < need b\<close> False nd by (simp add: fill_clients.simps)
    qed
  next
    case False
    then have "live b = need b" using live_le_need [OF Suc.prems(1)] by auto
    then show ?thesis using Suc.prems(1) by (simp add: fill_clients.simps)
  qed
qed

lemma refill_ok:
  assumes ok: "bench_ok b"
  shows "runs (\<lambda>b'. bench_ok b' \<and> live b' = need b' \<and> same_needs b b') (refill b)"
  unfolding refill_def
  by (rule fill_clients_ok [OF ok]) (simp add: unat_sub [OF live_le_need [OF ok]])

lemma clear_one_ok:
  assumes ok: "bench_ok b" and i: "i < unat (need b)"
  shows "\<exists>b'. clear_one b t i = Inr b' \<and> bench_ok b' \<and> same_needs b b'"
proof -
  let ?b = "put_conf b ((b_conf b)\<lparr>timeoutClientNum := timeoutClientNum (b_conf b) + 1\<rparr>)"
  have b: "bench_ok ?b" "clients ?b = clients b"
    using bench_ok_kern [OF ok, of ?b] bench_okD(2,4,6) [OF ok] by (simp_all add: results_ok_cong clients_def)
  have "\<exists>b'. ReactorResetClient ?b i = Inr b' \<and> bench_ok b' \<and> same_needs b b'" if "cl_fd (clients b ! i) > 0"
  proof -
    have "occupied (clients ?b ! i)" using that b(2) by (simp add: occupied_def FDARRAY_INDEX_INIT_def)
    then obtain b' where "ReactorResetClient ?b i = Inr b'" "evolves i ?b b'" using ResetClient_ok [OF b(1)] i by auto
    then show ?thesis using keeps_need [of "{i}" ?b b'] keeps_wanted [of "{i}" ?b b'] by auto
  qed
  then show ?thesis using get_client_ok [OF ok i] ok by (simp add: clear_one_def)
qed

lemma clear_from_ok:
  assumes "bench_ok b" "\<forall>i \<in> set is. i < unat (need b)"
  shows "\<exists>b'. clear_from b t is = Inr b' \<and> bench_ok b' \<and> same_needs b b'"
  using assms
proof (induction "is" arbitrary: b)
  case (Cons i "is")
  obtain b1 where b1: "clear_one b t i = Inr b1" "bench_ok b1" "same_needs b b1"
    using clear_one_ok [OF Cons.prems(1), of i t] Cons.prems(2) by auto
  then show ?case using Cons.IH [OF b1(2)] Cons.prems(2) by simp
qed simp

lemma bench_ok_clock:
  assumes "bench_ok b" "b_conf b' = b_conf b" "b_kern b' = b_kern b"
  shows "bench_ok b'"
  using bench_ok_kern [OF assms(1), of b'] assms bench_okD(2,4,6) [OF assms(1)] by simp

lemma check_timeouts_ok:
  assumes ok: "bench_ok b"
  shows "runs (\<lambda>(t, b'). bench_ok b' \<and> same_needs b b') (check_timeouts b seen)"
proof -
  obtain t b1 where 1: "GetusecTime b = (t, b1)" by fastforce
  obtain t1 b2 where 2: "GetusecTime b1 = (t1, b2)" by fastforce
  note f = GetusecTime_frame [OF 1] GetusecTime_frame [OF 2]
  have ok1: "bench_ok b1" and ok2: "bench_ok b2" using bench_ok_clock [OF ok] f by simp_all
  have "\<exists>b3. clear_from b2 t1 [0..<unat (need b2)] = Inr b3 \<and> bench_ok b3 \<and> same_needs b2 b3"
    by (rule clear_from_ok [OF ok2]) simp
  then obtain b3 where b3: "ClearTimeoutConnection b2 t1 = Inr b3" "bench_ok b3" "same_needs b b3"
    using f unfolding ClearTimeoutConnection_def by auto
  have "runs (\<lambda>(t, b'). bench_ok b' \<and> same_needs b b')
      (cbind (refill b3) (\<lambda>b4. let (t2, b5) = GetusecTime b4 in Inr (t2, b5)))"
  proof (rule runs_bind [OF refill_ok [OF b3(2)]])
    fix b4 assume b4: "bench_ok b4 \<and> live b4 = need b4 \<and> same_needs b3 b4"
    obtain t2 b5 where 5: "GetusecTime b4 = (t2, b5)" by fastforce
    show "runs (\<lambda>(t, b'). bench_ok b' \<and> same_needs b b') (let (t2, b5) = GetusecTime b4 in Inr (t2, b5))"
      using GetusecTime_frame [OF 5] bench_ok_clock [of b4 b5] b4 b3(3) 5 by simp
  qed
  then show ?thesis using 1 2 b3(1) ok1 f by (simp add: check_timeouts_def)
qed

lemma bench_turn_ok:
  assumes ok: "bench_ok b" and ev: "epoll_reports (b_kern b) (fst reply)"
  shows "runs (\<lambda>(_, b'). bench_ok b' \<and> same_needs b b') (bench_turn b fails seen reply)"
proof -
  let ?b = "TouchTime (b\<lparr>b_clock := snd reply\<rparr>)"
  have b: "bench_ok ?b" "b_kern ?b = b_kern b" "same_needs b ?b"
    using bench_ok_clock [OF ok, of ?b] by (simp_all add: TouchTime_def)
  have "runs (\<lambda>(n, b'). bench_ok b' \<and> same_needs b b') (bench_events ?b fails (fst reply))"
    using bench_events_ok [OF b(1)] ev b(2,3) by simp
  then show ?thesis unfolding bench_turn_def
  proof (rule runs_bind, clarify)
    fix n b1 assume b1: "bench_ok b1" "need b1 = need b" "wanted b1 = wanted b"
    have "runs (\<lambda>(t, b'). bench_ok b' \<and> same_needs b b') (check_timeouts b1 seen)"
      using check_timeouts_ok [OF b1(1)] b1(2,3) by simp
    then show "runs (\<lambda>(_, b'). bench_ok b' \<and> same_needs b b')
        (cbind (check_timeouts b1 seen) (\<lambda>(t, b2). Inr ((n, t), b2)))"
      by (rule runs_bind) auto
  qed
qed

section \<open>The start\<close>

lemma init_slots:
  assumes k: "k_interest k = (\<lambda>_. None)" and n: "length cs = unat n" "\<forall>c \<in> set cs. c = zero_client\<lparr>cl_fd := FDARRAY_INDEX_INIT\<rparr>"
  shows "slots_ok k n cs" "live_count cs = 0"
proof -
  have c: "cs ! i = zero_client\<lparr>cl_fd := FDARRAY_INDEX_INIT\<rparr>" if "i < unat n" for i using n that by auto
  show "slots_ok k n cs"
    using n(1) k c by (simp add: slots_ok_def bufs_full_def occupied_def zero_client_def MAX_RECV_BUF_LEN_def MAX_SEND_BUF_LEN_def)
  have "filter occupied cs = []" using n(2) by (auto simp: occupied_def filter_empty_conv)
  then show "live_count cs = 0" by (simp add: live_count_def)
qed

text \<open>The state in which \<open>main\<close> calls \<open>InitSingleReactor\<close>.\<close>

definition bench_start :: "bench \<Rightarrow> bool" where
  "bench_start b \<longleftrightarrow> k_ctl (b_kern b) = [] \<and> k_interest (b_kern b) = (\<lambda>_. None)
     \<and> liveClientNum (b_conf b) = 0 \<and> doneRequests (b_conf b) = 0"

lemma InitSingleReactor_ok:
  assumes st: "bench_start b"
  shows "runs (\<lambda>(r, b'). r = 0 \<longrightarrow> bench_ok b' \<and> live b' = need b' \<and> same_needs b b') (InitSingleReactor b ep)"
proof -
  obtain ok1 r1 where 1: "next_answer (b_malloc b) = (ok1, r1)" by fastforce
  obtain ok2 r2 where 2: "next_answer r1 = (ok2, r2)" by fastforce
  let ?cs = "replicate (unat (need b)) (zero_client\<lparr>cl_fd := FDARRAY_INDEX_INIT\<rparr>)"
  let ?s = "(b_conf b)\<lparr>clients_ptr := Some ?cs, latency := Some (replicate (unat (needRequestNum (b_conf b))) 0)\<rparr>"
  obtain lp b3 where 3: "CreateSingleEpollLoop (b\<lparr>b_malloc := r2\<rparr>) (sint (need b + 1)) ep = (lp, b3)" by fastforce
  have kern: "b_kern b3 = b_kern b" "\<forall>l. lp = Some l \<longrightarrow> stop l \<noteq> 0"
    using 3 by (auto simp: CreateSingleEpollLoop_def Let_def split: if_splits prod.splits)
  let ?b4 = "put_conf b3 (?s\<lparr>epoll_loop := lp\<rparr>)"
  show ?thesis
  proof (cases "ok1 \<and> ok2 \<and> lp \<noteq> None")
    case False
    then show ?thesis using 1 2 3 by (auto simp: InitSingleReactor_def Let_def)
  next
    case True
    have cl: "clients ?b4 = ?cs" by (simp add: clients_def)
    have "bench_ok ?b4"
      unfolding bench_ok_def cl using st kern True init_slots [of "b_kern b" ?cs "need b"]
      by (simp add: bench_start_def results_ok_def)
    then have "runs (\<lambda>b'. bench_ok b' \<and> live b' = need b' \<and> same_needs b b') (refill ?b4)"
      using refill_ok [of ?b4] by simp
    then show ?thesis using 1 2 3 True by (auto simp: InitSingleReactor_def Let_def intro!: runs_bind)
  qed
qed

section \<open>The loop as a step relation\<close>

text \<open>
  The state of the loop: the process, the count of failures, the time of the last timeout check.  A
  turn happens while the stop sign is not set, with an answer \<open>epoll_wait\<close> may give.
\<close>

type_synonym loop_state = "bench \<times> int \<times> u64"

inductive bench_step :: "loop_state \<Rightarrow> loop_state \<Rightarrow> bool" where
  turn: "epoll_loop (b_conf b) = Some lp \<Longrightarrow> stop lp \<noteq> 0 \<Longrightarrow> epoll_reports (b_kern b) (fst reply)
    \<Longrightarrow> bench_turn b fails seen reply = Inr ((fails', seen'), b') \<Longrightarrow> bench_step (b, fails, seen) (b', fails', seen')"

inductive_cases bench_stepE: "bench_step (b, fails, seen) s'"

text \<open>A loop that has been told to stop makes no further turn.\<close>

lemma stopped_loop_stays: "epoll_loop (b_conf b) = Some lp \<Longrightarrow> stop lp = 0 \<Longrightarrow> \<not> bench_step (b, fails, seen) s'"
  by (auto elim: bench_stepE)

definition loop_ok :: "u32 \<Rightarrow> loop_state \<Rightarrow> bool" where
  "loop_ok n s \<longleftrightarrow> bench_ok (fst s) \<and> need (fst s) = n"

lemma bench_step_ok:
  assumes "loop_ok n s" "bench_step s s'"
  shows "loop_ok n s'"
  using assms(2)
proof cases
  case (turn b lp reply fails seen fails' seen' b')
  then show ?thesis using bench_turn_ok [of b reply fails seen] assms(1) by (simp add: loop_ok_def)
qed

interpretation client_loop: invariant_system bench_step "loop_ok n" for n
  by unfold_locales (rule bench_step_ok)

end
