(* ===== verification/BenchTraffic.thy ===== *)
theory BenchTraffic
  imports BenchRun
begin

text \<open>
  What the benchmark client does with its traffic: the bytes a send hands to the socket, the latency a
  response leaves, the clients a timeout check resets.
\<close>

section \<open>Sending\<close>

lemma note_send_frame:
  "b_kern (note_send b i c) = b_kern b" "b_errno (note_send b i c) = b_errno b"
  "totalRequests (b_conf (note_send b i c)) = totalRequests (b_conf b)"
  by (auto simp: note_send_def Let_def split: prod.splits if_splits dest!: GetusecTime_frame)

lemma note_recv_frame:
  "b_kern (note_recv b i c) = b_kern b" "b_errno (note_recv b i c) = b_errno b"
  "latency (b_conf (note_recv b i c)) = latency (b_conf b)" "doneRequests (b_conf (note_recv b i c)) = doneRequests (b_conf b)"
  "needRequestNum (b_conf (note_recv b i c)) = needRequestNum (b_conf b)"
  "epoll_loop (b_conf (note_recv b i c)) = epoll_loop (b_conf b)"
  by (auto simp: note_recv_def Let_def split: prod.splits if_splits dest!: GetusecTime_frame)

lemma write_room:
  "0 < r \<Longrightarrow> 0 < n \<Longrightarrow> write_loop (Room r # rest) n err = (Got (min r n), rest, err)"
  by (simp add: write_loop.simps)

lemma after_send_simps:
  assumes "unat (sendedLen c) + k \<le> unat (sendBufLen c)"
  shows "unat (sendedLen (after_send c k)) = unat (sendedLen c) + k"
    "cl_mask (after_send c k) = (if unat (sendedLen c) + k = unat (sendBufLen c) then READABLE else cl_mask c)"
    "cl_fd (after_send c k) = cl_fd c"
  using sent_more(1) [OF assms] by (auto simp: after_send_def set_reading_def Let_def word_unat_eq_iff)

lemma client_write_room:
  assumes so: "k_socks (b_kern b) (cl_fd c) = Some so" "s_out so = Room r # rest" "0 < r"
    and le: "sendedLen c < sendBufLen c" "unat (sendBufLen c) \<le> length (sendBuf c)"
    and k: "k = min r (unat (sendBufLen c) - unat (sendedLen c))"
  shows "client_write b c = Inr (Got k, set_sock b (cl_fd c)
     (so\<lparr>s_out := rest, s_sent := s_sent so @ take k (drop (unat (sendedLen c)) (sendBuf c))\<rparr>) (b_errno b))"
proof -
  have n: "unat (sendBufLen c - sendedLen c) = unat (sendBufLen c) - unat (sendedLen c)" "unat (sendedLen c) < unat (sendBufLen c)"
    using le(1) by (simp_all add: unat_sub word_less_nat_alt order_less_imp_le)
  then have "write_loop (s_out so) (unat (sendBufLen c - sendedLen c)) (b_errno b) = (Got k, rest, b_errno b)"
    using write_room [OF so(3), of "unat (sendBufLen c - sendedLen c)" rest] so(2) k by simp
  moreover have "mem_slice (sendBuf c) (uint (sendedLen c)) (int k) = Inr (take k (drop (unat (sendedLen c)) (sendBuf c)))"
    using n le(2) k by (simp add: mem_slice_def uint_nat del: of_nat_unat)
  ultimately show ?thesis using so(1) by (simp add: client_write_def)
qed

lemma watched_by_mask:
  assumes ok: "bench_ok b" and i: "i < unat (need b)" "occupied (clients b ! i)"
  shows "k_interest (b_kern b) (cl_fd (clients b ! i)) = Some (client_events (cl_mask (clients b ! i)))"
  using bench_slotsD(3) [OF ok i] by (auto simp: client_live_def watched_for_def)

section \<open>Receiving\<close>

text \<open>The results of the run, which opening and closing clients leaves alone.\<close>

definition same_results :: "bench \<Rightarrow> bench \<Rightarrow> bool" where
  "same_results b b' \<longleftrightarrow> latency (b_conf b') = latency (b_conf b) \<and> doneRequests (b_conf b') = doneRequests (b_conf b)
     \<and> needRequestNum (b_conf b') = needRequestNum (b_conf b) \<and> epoll_loop (b_conf b') = epoll_loop (b_conf b)"

lemma same_results_trans: "same_results a b \<Longrightarrow> same_results b c \<Longrightarrow> same_results a c"
  by (simp add: same_results_def)

lemma AddEvent_results: "ReactorAddEvent b i m f = Inr (r, b') \<Longrightarrow> same_results b b'"
  by (auto simp: ReactorAddEvent_def outcome_iff Let_def same_results_def split: prod.splits if_splits)

lemma client_socket_conf: "client_socket b = (r, b') \<Longrightarrow> b_conf b' = b_conf b"
  by (auto simp: client_socket_def next_socket_def Let_def split: list.splits sock_answer.splits prod.splits if_splits)

lemma ClientInit_results: "ReactorClientInit b = Inr (r, b') \<Longrightarrow> same_results b b'"
proof -
  assume r: "ReactorClientInit b = Inr (r, b')"
  obtain fd b1 where cs: "client_socket b = (fd, b1)" by (cases "client_socket b")
  have b1: "same_results b b1" using client_socket_conf [OF cs] by (simp add: same_results_def)
  have "same_results b1 b'"
    using r cs by (auto simp: ReactorClientInit_def outcome_iff same_results_def dest!: AddEvent_results
        split: prod.splits if_splits option.splits)
  then show ?thesis using same_results_trans [OF b1] by blast
qed

lemma CloseConnection_results: "ReactorCloseConnection b i = Inr b' \<Longrightarrow> same_results b b'"
  unfolding ReactorCloseConnection_def
  by (elim cbind_InrE) (auto simp: Let_def same_results_def split: prod.split_asm if_splits)

lemma reopen_results: "reopen b i = Inr b' \<Longrightarrow> same_results b b'"
  by (auto simp: reopen_def outcome_iff dest!: CloseConnection_results ClientInit_results intro: same_results_trans)

lemma CloseNormal_results:
  assumes ok: "bench_ok b" and i: "i < unat (need b)" "occupied (clients b ! i)"
    and r: "ReactorCloseConnectionNormal b i = Inr b'"
  shows "latency (b_conf b') = latency (b_conf b) \<and> doneRequests (b_conf b') = doneRequests (b_conf b)
     \<and> epoll_loop (b_conf b') = (if needRequestNum (b_conf b) \<le> doneRequests (b_conf b)
          then map_option (stop_update (\<lambda>_. 0)) (epoll_loop (b_conf b)) else epoll_loop (b_conf b))"
proof -
  have "same_results b b'" if "ReactorResetClient b i = Inr b'"
    using ResetClient_ok [OF ok i] that by (auto simp: same_results_def)
  then show ?thesis
    using r reopen_results [of b i b'] get_client_ok [OF ok i(1)]
    by (auto simp: ReactorCloseConnectionNormal_def stop_loop_def same_results_def split: if_splits)
qed

lemma read_data:
  "0 < n \<Longrightarrow> length bs \<le> n \<Longrightarrow> read_loop (Data bs # rest) n err = (Got bs, rest, err)"
  by (simp add: read_loop.simps)

text \<open>The latency the callback notes: of the first read after the request.\<close>

definition noted_latency :: "bench \<Rightarrow> ClientFD \<Rightarrow> u64" where
  "noted_latency b c = (if sint (cl_latency c) < 0 then fst (GetusecTime b) - cl_startTime c else cl_latency c)"

lemma GetusecTime_again: "GetusecTime b = (t, b') \<Longrightarrow> fst (GetusecTime b') = t"
  by (auto simp: GetusecTime_def read_tv_def Let_def split: if_splits)

lemma note_recv_latency:
  assumes "get_client b i = Inr c" "get_client (note_recv b i c) i = Inr c'"
  shows "cl_latency c' = noted_latency b c"
proof -
  obtain t1 b1 where 1: "GetusecTime b = (t1, b1)" by fastforce
  obtain t2 b2 where 2: "GetusecTime b1 = (t2, b2)" by fastforce
  have t: "t2 = t1" using GetusecTime_again [OF 1] 2 by simp
  have g: "get_client b1 i = Inr c" "get_client b2 i = Inr c"
    using assms(1) GetusecTime_frame [OF 1] GetusecTime_frame [OF 2] by (simp_all add: get_client_def)
  show ?thesis
    using assms(2) 1 2 g t by (auto simp: note_recv_def noted_latency_def split: if_splits)
qed


section \<open>Timeouts\<close>

definition timed_out :: "u64 \<Rightarrow> ClientFD \<Rightarrow> bool" where
  "timed_out t c \<longleftrightarrow> 0 < cl_fd c \<and> touchTime c + 3000000 \<le> t"

text \<open>What the timeout check makes of the client in a slot.\<close>

definition checked :: "u64 \<Rightarrow> bench \<Rightarrow> bench \<Rightarrow> nat \<Rightarrow> bool" where
  "checked t b b' i \<longleftrightarrow> (if timed_out t (clients b ! i) then was_reset b (clients b ! i) (clients b' ! i)
     else clients b' ! i = clients b ! i)"

lemma clear_one_form:
  assumes ok: "bench_ok b" and i: "i < unat (need b)"
  shows "\<exists>b'. clear_one b t i = Inr b' \<and> bench_ok b' \<and> need b' = need b \<and> randomFlag (b_conf b') = randomFlag (b_conf b)
     \<and> checked t b b' i \<and> (\<forall>j. j \<noteq> i \<longrightarrow> clients b' ! j = clients b ! j)
     \<and> timeoutClientNum (b_conf b') = timeoutClientNum (b_conf b) + of_bool (timed_out t (clients b ! i))"
proof (cases "timed_out t (clients b ! i)")
  case True
  let ?b = "put_conf b ((b_conf b)\<lparr>timeoutClientNum := timeoutClientNum (b_conf b) + 1\<rparr>)"
  have b: "bench_ok ?b" "clients ?b = clients b"
    using bench_ok_kern [OF ok, of ?b] bench_okD(2,4,6) [OF ok] by (simp_all add: results_ok_cong clients_def)
  have oc: "occupied (clients ?b ! i)" using True b(2) by (simp add: timed_out_def occupied_def FDARRAY_INDEX_INIT_def)
  obtain b' c' where r: "ReactorResetClient ?b i = Inr b'" "evolves i ?b b'" "was_reset ?b (clients ?b ! i) c'"
      "b_conf b' = (b_conf ?b)\<lparr>clients_ptr := Some ((clients ?b)[i := c']), resetClientNum := resetClientNum (b_conf ?b) + 1\<rparr>"
    using ResetClient_ok [OF b(1) _ oc] i by auto
  have cl: "clients b' = (clients b)[i := c']" using r(4) b(2) by (simp add: clients_def)
  have "clear_one b t i = Inr b'"
    using True get_client_ok [OF ok i] r(1) by (simp add: clear_one_def timed_out_def CONNECT_TIMEOUT_def)
  then show ?thesis
    using r(2-4) True i b(2) cl bench_okD(7) [OF ok] by (intro exI [of _ b']) (simp add: checked_def was_reset_def)
next
  case False
  then have "clear_one b t i = Inr b"
    using get_client_ok [OF ok i] by (auto simp: clear_one_def timed_out_def CONNECT_TIMEOUT_def)
  then show ?thesis using ok False by (simp add: checked_def)
qed

lemma clear_from_form:
  assumes "bench_ok b" "distinct is" "\<forall>i \<in> set is. i < unat (need b)"
  shows "\<exists>b'. clear_from b t is = Inr b' \<and> bench_ok b' \<and> need b' = need b \<and> randomFlag (b_conf b') = randomFlag (b_conf b)
     \<and> (\<forall>i \<in> set is. checked t b b' i) \<and> (\<forall>j. j \<notin> set is \<longrightarrow> clients b' ! j = clients b ! j)
     \<and> timeoutClientNum (b_conf b') = timeoutClientNum (b_conf b) + of_nat (length (filter (\<lambda>i. timed_out t (clients b ! i)) is))"
  using assms
proof (induction "is" arbitrary: b)
  case (Cons i "is")
  obtain b1 where b1: "clear_one b t i = Inr b1" "bench_ok b1" "need b1 = need b" "randomFlag (b_conf b1) = randomFlag (b_conf b)"
      "checked t b b1 i" "\<And>j. j \<noteq> i \<Longrightarrow> clients b1 ! j = clients b ! j"
      "timeoutClientNum (b_conf b1) = timeoutClientNum (b_conf b) + of_bool (timed_out t (clients b ! i))"
    using clear_one_form [OF Cons.prems(1), of i t] Cons.prems(3) by auto
  obtain b' where b': "clear_from b1 t is = Inr b'" "bench_ok b'" "need b' = need b1" "randomFlag (b_conf b') = randomFlag (b_conf b1)"
      "\<forall>i \<in> set is. checked t b1 b' i" "\<And>j. j \<notin> set is \<Longrightarrow> clients b' ! j = clients b1 ! j"
      "timeoutClientNum (b_conf b') = timeoutClientNum (b_conf b1) + of_nat (length (filter (\<lambda>i. timed_out t (clients b1 ! i)) is))"
    using Cons.IH [OF b1(2)] Cons.prems(2,3) b1(3) by auto
  have ne: "j \<noteq> i" if "j \<in> set is" for j using Cons.prems(2) that by auto
  have "filter (\<lambda>i. timed_out t (clients b1 ! i)) is = filter (\<lambda>i. timed_out t (clients b ! i)) is"
    using ne b1(6) by (intro filter_cong) simp_all
  moreover have "checked t b b' j" if "j \<in> set is" for j
    using b'(5) that b1(4) b1(6) [OF ne [OF that]] by (auto simp: checked_def was_reset_def)
  moreover have "checked t b b' i" using b1(5) b'(6) [of i] Cons.prems(2) by (simp add: checked_def)
  ultimately show ?case using b1 b' by simp
qed simp

lemma filter_nth_upt: "length (filter (\<lambda>i. P (xs ! i)) [0..<length xs]) = length (filter P xs)"
  using filter_map [of P "(!) xs" "[0..<length xs]"] by (simp add: map_nth comp_def)

section \<open>Sockets nobody uses\<close>

lemma next_socket_open:
  assumes "next_socket b = (a, b1)"
  shows "sock_is_open (b_kern b) x \<Longrightarrow> sock_is_open (b_kern b1) x"
    "a = Socket fd con err i out \<Longrightarrow> \<not> sock_is_open (b_kern b) fd \<and> sock_is_open (b_kern b1) fd"
  using assms by (auto simp: next_socket_def sock_is_open_def split: list.splits sock_answer.splits if_splits)

lemma SetNonBlock_open: "SetNonBlock k fd = (r, k') \<Longrightarrow> sock_is_open k' x = sock_is_open k x"
  by (auto simp: SetNonBlock_def sys_control_def sock_is_open_def Let_def split: prod.splits option.splits if_splits)

lemma TestConnect_open:
  assumes t: "TestConnect b = (r, b')"
  shows "sock_is_open (b_kern b) x \<Longrightarrow> sock_is_open (b_kern b') x"
    and "0 \<le> r \<Longrightarrow> \<exists>fd. \<not> sock_is_open (b_kern b) fd \<and> sock_is_open (b_kern b') fd"
proof -
  obtain a b1 where n: "next_socket b = (a, b1)" by fastforce
  note o = next_socket_open [OF n]
  have close: "sock_is_open (sys_close k fd) x \<longleftrightarrow> x \<noteq> fd \<and> sock_is_open k x" for k fd x
    by (simp add: sys_close_def sock_is_open_def)
  show "sock_is_open (b_kern b) x \<Longrightarrow> sock_is_open (b_kern b') x"
    using t n o by (auto simp: TestConnect_def Let_def close split: sock_answer.splits prod.splits if_splits dest!: SetNonBlock_open)
  show "0 \<le> r \<Longrightarrow> \<exists>fd. \<not> sock_is_open (b_kern b) fd \<and> sock_is_open (b_kern b') fd"
    using t n o(2) by (auto simp: TestConnect_def Let_def split: sock_answer.splits prod.splits if_splits dest!: SetNonBlock_open)
qed

end
