(* ===== verification/BenchProperties.thy ===== *)
theory BenchProperties
  imports BenchTraffic "HOL-Library.Multiset"
begin

text \<open>
  The properties of the benchmark client (\<open>client/http\<close>), each with a concrete instance.
\<close>

section \<open>Concrete states\<close>

text \<open>A process with the given slots, the sockets of its clients, and the answers to come.\<close>

definition demo_conf :: "ClientFD list \<Rightarrow> StatisticsStruct" where
  "demo_conf cs = \<lparr>resetClientNum = 0, timeoutClientNum = 0, totalRequests = 0, needRequestNum = 2, doneRequests = 0,
     startTime = 0, endTime = 0, keepalive = 1, liveClientNum = of_nat (live_count cs), createClientNum = 1,
     needClientNum = of_nat (length cs), randomFlag = 0, port = 5113, protocol = PROTOCOL_TCP,
     szhost = strncpy16 (ascii ''127.0.0.1''), latency = Some [0, 0], epoll_loop = Some \<lparr>stop = 1, epfd = 3\<rparr>,
     clients_ptr = Some cs\<rparr>"

definition demo_bench :: "ClientFD list \<Rightarrow> sock \<Rightarrow> bool list \<Rightarrow> sock_answer list \<Rightarrow> bench" where
  "demo_bench cs so ctl answers = \<lparr>b_conf = demo_conf cs, b_tv = Timeval 0 0,
     b_clock = Timeval 10 5, b_errno = EAGAIN,
     b_kern = \<lparr>k_socks = (\<lambda>fd. if \<exists>c \<in> set cs. occupied c \<and> cl_fd c = fd then Some so else None),
       k_interest = (\<lambda>fd. if \<exists>c \<in> set cs. occupied c \<and> cl_fd c = fd then
          map_option (\<lambda>c. client_events (cl_mask c)) (find (\<lambda>c. cl_fd c = fd) cs) else None), k_ctl = ctl\<rparr>,
     b_sockets = answers, b_malloc = []\<rparr>"

definition demo_client :: "int \<Rightarrow> u32 \<Rightarrow> ClientFD" where
  "demo_client fd m = \<lparr>cl_fd = fd, cl_mask = m, pep_loop = 1, pst_config = 1, cl_latency = -1, cl_startTime = 9000000,
     cl_endTime = 0, touchTime = 0, recvBufLen = 0, sendedLen = 0, sendBufLen = 334,
     recvBuf = replicate 4097 0, sendBuf = request_bytes @ replicate 3763 0,
     rFuncProc = Some RecvFromServer, wFuncProc = Some SendToServer\<rparr>"

definition free_slot :: ClientFD where "free_slot = demo_client FDARRAY_INDEX_INIT ENONE"

lemma demo_simps [simp]:
  "b_conf (demo_bench cs so ctl a) = demo_conf cs" "clients (demo_bench cs so ctl a) = cs"
  "k_ctl (b_kern (demo_bench cs so ctl a)) = ctl"
  "needClientNum (demo_conf cs) = of_nat (length cs)" "liveClientNum (demo_conf cs) = of_nat (live_count cs)"
  "clients_ptr (demo_conf cs) = Some cs" "epoll_loop (demo_conf cs) = Some \<lparr>stop = 1, epfd = 3\<rparr>"
  "results_ok (demo_conf cs)" "latency (demo_conf cs) = Some [0, 0]" "doneRequests (demo_conf cs) = 0"
  "needRequestNum (demo_conf cs) = 2" "protocol (demo_conf cs) = PROTOCOL_TCP"
  by (simp_all add: demo_bench_def demo_conf_def clients_def results_ok_def)

lemma demo_client_simps [simp]:
  "cl_fd (demo_client fd m) = fd" "cl_mask (demo_client fd m) = m" "occupied (demo_client fd m) \<longleftrightarrow> fd \<noteq> -1"
  "\<not> occupied free_slot" "cl_fd free_slot = -1" "bufs_full (demo_client fd m)" "bufs_full free_slot"
  "sendBufLen (demo_client fd m) = 334" "sendedLen (demo_client fd m) = 0" "recvBufLen (demo_client fd m) = 0"
  by (simp_all add: demo_client_def free_slot_def occupied_def bufs_full_def FDARRAY_INDEX_INIT_def length_request)

lemma demo_live:
  assumes "0 \<le> fd" "m = WRITEABLE \<or> m = READABLE" "k_interest k fd = Some (client_events m)" "sock_is_open k fd" "slot_of n fd = i"
  shows "client_live k n i (demo_client fd m)"
  using assms by (auto simp: client_live_def watched_for_def demo_client_def)

lemma lone_ok:
  assumes m: "m = WRITEABLE \<or> m = READABLE"
  shows "bench_ok (demo_bench [demo_client 7 m] so [] a)"
proof -
  let ?b = "demo_bench [demo_client 7 m] so [] a"
  have "client_live (b_kern ?b) 1 0 (demo_client 7 m)"
    by (rule demo_live) (use m in \<open>simp_all add: demo_bench_def sock_is_open_def slot_of_def\<close>)
  moreover have "k_interest (b_kern ?b) fd \<noteq> None \<Longrightarrow> fd = 7" for fd
    by (simp add: demo_bench_def split: if_splits)
  ultimately have "slots_ok (b_kern ?b) 1 [demo_client 7 m]" by (auto simp: slots_ok_def)
  then show ?thesis by (simp add: bench_ok_def live_count_def)
qed

text \<open>Two slots: the second holds the descriptor 7, the first is free.\<close>

lemma half_ok: "bench_ok (demo_bench [free_slot, demo_client 7 WRITEABLE] so [] a)"
proof -
  let ?b = "demo_bench [free_slot, demo_client 7 WRITEABLE] so [] a"
  have "client_live (b_kern ?b) 2 1 (demo_client 7 WRITEABLE)"
    by (rule demo_live) (simp_all add: demo_bench_def sock_is_open_def slot_of_def)
  moreover have "k_interest (b_kern ?b) fd \<noteq> None \<Longrightarrow> fd = 7" for fd
    by (simp add: demo_bench_def split: if_splits)
  ultimately have "slots_ok (b_kern ?b) 2 [free_slot, demo_client 7 WRITEABLE]"
    by (auto simp: slots_ok_def less_2_cases_iff)
  then show ?thesis by (simp add: bench_ok_def live_count_def)
qed

section \<open>Start and turns\<close>

lemma full_slots:
  assumes "bench_ok b" "live b = need b" "i < unat (need b)"
  shows "occupied (clients b ! i)"
proof -
  have "length (filter occupied (clients b)) = length (clients b)"
    using bench_okD(3,7) [OF assms(1)] assms(2) by (simp add: live_count_def)
  then have "filter occupied (clients b) = clients b" by (metis filter_True length_filter_less less_irrefl)
  then show ?thesis using assms(1,3) bench_okD(7) by (metis filter_eq_ConsD filter_id_conv nth_mem)
qed




text \<open>
  Whatever the network does, every turn of the client's loop that is reached from a consistent
  state, with any answer \<open>epoll_wait\<close> may give, ends with a consistent state or with
  \<open>exit\<close>: no null callback is called, no buffer overrun, no slot of another descriptor is
  touched, no assertion fails, and the refilling of the slots ends.
\<close>

theorem client_turns_are_safe:
  assumes "bench_ok (fst s0)" "bench_step\<^sup>*\<^sup>* s0 (b, fails, seen)" "epoll_reports (b_kern b) (fst reply)"
  shows "runs (\<lambda>(_, b'). bench_ok b' \<and> need b' = need (fst s0)) (bench_turn b fails seen reply)"
proof -
  have "loop_ok (need (fst s0)) (b, fails, seen)"
    using client_loop.reachable_inv [OF assms(2)] assms(1) by (simp add: loop_ok_def)
  then show ?thesis using assms(3) by (auto simp: loop_ok_def intro: runs_mono [OF bench_turn_ok [of b reply fails seen]])
qed

lemma client_turns_are_safe_witness:
  "\<exists>b. bench_ok b \<and> epoll_reports (b_kern b) [(7, EPOLLOUT)]
     \<and> runs (\<lambda>(_, b'). bench_ok b' \<and> need b' = 1) (bench_turn b 0 0 ([(7, EPOLLOUT)], Timeval 20 0))"
proof -
  let ?b = "demo_bench [demo_client 7 WRITEABLE] (new_sock\<lparr>s_out := [Room 100]\<rparr>) [] []"
  have ok: "bench_ok ?b" by (rule lone_ok) simp
  have ev: "epoll_reports (b_kern ?b) [(7, EPOLLOUT)]"
    by (simp add: epoll_reports_def may_report_def demo_bench_def)
       (simp add: EPOLLOUT_def EPOLLERR_def EPOLLHUP_def)
  have "runs (\<lambda>(_, b'). bench_ok b' \<and> need b' = need (fst (?b, 0 :: int, 0 :: u64)))
      (bench_turn ?b 0 0 ([(7, EPOLLOUT)], Timeval 20 0))"
    by (rule client_turns_are_safe [OF _ rtranclp.rtrancl_refl]) (use ok ev in simp_all)
  then show ?thesis using ok ev by (intro exI [of _ ?b]) simp
qed

section \<open>Traffic\<close>

text \<open>C30: when the socket of a sending client has room, its callback hands over exactly the next bytes
  of the request, counts the write, and turns to the response when these were the last bytes.
\<close>

theorem client_sends_next_bytes:
  assumes ok: "bench_ok b" and i: "i < unat (need b)" "occupied (clients b ! i)" "cl_mask (clients b ! i) = WRITEABLE"
    and so: "k_socks (b_kern b) (cl_fd (clients b ! i)) = Some so" "s_out so = Room r # rest" "0 < r"
    and more: "sendedLen (clients b ! i) < sendBufLen (clients b ! i)"
    and k: "k = min r (unat (sendBufLen (clients b ! i)) - unat (sendedLen (clients b ! i)))"
  shows "\<exists>b'. SendToServerCallback b i = Inr (0, b') \<and> bench_ok b'
     \<and> k_socks (b_kern b') (cl_fd (clients b ! i)) = Some (so\<lparr>s_out := rest,
          s_sent := s_sent so @ take k (drop (unat (sendedLen (clients b ! i))) (sendBuf (clients b ! i)))\<rparr>)
     \<and> unat (sendedLen (clients b' ! i)) = unat (sendedLen (clients b ! i)) + k
     \<and> totalRequests (b_conf b') = totalRequests (b_conf b) + 1
     \<and> k_interest (b_kern b') (cl_fd (clients b ! i)) =
         Some (if unat (sendedLen (clients b ! i)) + k = unat (sendBufLen (clients b ! i)) then EPOLLIN else EPOLLOUT)"
proof (rule SendToServer_cases [OF ok i])
  let ?c0 = "clients b ! i"
  fix c res b2
  assume t: "touched ?c0 c" and w: "client_write (note_send b i ?c0) c = Inr (res, b2)"
    and conf: "b_conf b2 = b_conf (note_send b i ?c0)"
    and got: "\<And>k. res = Got k \<Longrightarrow> \<exists>b'. SendToServerCallback b i = Inr (0, b') \<and> evolves i b b' \<and> clients b' ! i = after_send c k
       \<and> k_socks (b_kern b') = k_socks (b_kern b2) \<and> totalRequests (b_conf b') = totalRequests (b_conf b2) + 1"
  have c: "cl_fd c = cl_fd ?c0" "sendedLen c = sendedLen ?c0" "sendBufLen c = sendBufLen ?c0" "sendBuf c = sendBuf ?c0"
    "cl_mask c = WRITEABLE" using t i(3) by (auto simp: touched_def)
  have len: "unat (sendBufLen c) \<le> length (sendBuf c)"
    using bench_slotsD(3) [OF ok i(1,2)] bench_slotsD(2) [OF ok i(1)] c by (simp add: client_live_def bufs_full_def uint_nat del: of_nat_unat)
  have "client_write (note_send b i ?c0) c = Inr (Got k, set_sock (note_send b i ?c0) (cl_fd c)
     (so\<lparr>s_out := rest, s_sent := s_sent so @ take k (drop (unat (sendedLen c)) (sendBuf c))\<rparr>) (b_errno b))"
    using client_write_room [of "note_send b i ?c0" c so r rest k] so more k c len by (simp add: note_send_frame)
  then have r: "res = Got k" and socks: "k_socks (b_kern b2) (cl_fd ?c0) = Some (so\<lparr>s_out := rest,
      s_sent := s_sent so @ take k (drop (unat (sendedLen ?c0)) (sendBuf ?c0))\<rparr>)"
    using w c by (auto simp: set_sock_def)
  obtain b' where b': "SendToServerCallback b i = Inr (0, b')" "evolves i b b'" "clients b' ! i = after_send c k"
      "k_socks (b_kern b') = k_socks (b_kern b2)" "totalRequests (b_conf b') = totalRequests (b_conf b) + 1"
    using got [OF r] conf note_send_frame(3) by fastforce
  have "unat (sendedLen c) + k \<le> unat (sendBufLen c)" using k c more by (simp add: word_less_nat_alt)
  note a = after_send_simps [OF this]
  have i': "i < unat (need b')" "occupied (clients b' ! i)"
    using b'(2,3) keeps_need [of "{i}" b b'] i(1,2) a(3) c(1) by (simp_all add: occupied_def)
  have "k_interest (b_kern b') (cl_fd ?c0) = Some (client_events (cl_mask (after_send c k)))"
    using watched_by_mask [of b' i] b'(2,3) i' a(3) c(1) by simp
  then show ?thesis using b' socks a c by (intro exI [of _ b']) simp
qed

lemma client_sends_next_bytes_witness:
  "\<exists>b b'. SendToServerCallback b 0 = Inr (0, b') \<and> unat (sendedLen (clients b' ! 0)) = 100
     \<and> k_interest (b_kern b') 7 = Some EPOLLOUT"
proof -
  let ?b = "demo_bench [demo_client 7 WRITEABLE] (new_sock\<lparr>s_out := [Room 100]\<rparr>) [] []"
  have ok: "bench_ok ?b" by (rule lone_ok) simp
  have "\<exists>b'. SendToServerCallback ?b 0 = Inr (0, b') \<and> bench_ok b'
     \<and> k_socks (b_kern b') (cl_fd (clients ?b ! 0)) = Some ((new_sock\<lparr>s_out := [Room 100]\<rparr>)\<lparr>s_out := [],
          s_sent := s_sent (new_sock\<lparr>s_out := [Room 100]\<rparr>) @ take 100 (drop (unat (sendedLen (clients ?b ! 0))) (sendBuf (clients ?b ! 0)))\<rparr>)
     \<and> unat (sendedLen (clients b' ! 0)) = unat (sendedLen (clients ?b ! 0)) + 100
     \<and> totalRequests (b_conf b') = totalRequests (b_conf ?b) + 1
     \<and> k_interest (b_kern b') (cl_fd (clients ?b ! 0)) =
         Some (if unat (sendedLen (clients ?b ! 0)) + 100 = unat (sendBufLen (clients ?b ! 0)) then EPOLLIN else EPOLLOUT)"
    by (rule client_sends_next_bytes [OF ok, where r = 100]) (simp_all add: demo_bench_def, simp_all add: demo_conf_def clients_def)
  then show ?thesis by auto
qed


text \<open>C29: a response that fits the buffer is counted while requests are still needed: its latency, of the
  first read after the request, goes to the next place of the results, and the loop is told to stop
  exactly when this was the last response needed.
\<close>

theorem client_counts_response:
  assumes ok: "bench_ok b" and i: "i < unat (need b)" "occupied (clients b ! i)"
    and so: "k_socks (b_kern b) (cl_fd (clients b ! i)) = Some so" "s_in so = Data bs # rest" "bs \<noteq> []"
    and fits: "unat (recvBufLen (clients b ! i)) + length bs \<le> 4096"
    and xs: "latency (b_conf b) = Some xs" and more: "doneRequests (b_conf b) < needRequestNum (b_conf b)"
  shows "\<exists>b'. RecvFromServerCallback b i = Inr (0, b') \<and> bench_ok b'
     \<and> latency (b_conf b') = Some (xs[unat (doneRequests (b_conf b)) := noted_latency b (clients b ! i)])
     \<and> doneRequests (b_conf b') = doneRequests (b_conf b) + 1
     \<and> epoll_loop (b_conf b') = (if doneRequests (b_conf b) + 1 = needRequestNum (b_conf b)
          then map_option (stop_update (\<lambda>_. 0)) (epoll_loop (b_conf b)) else epoll_loop (b_conf b))"
proof (rule RecvFromServer_cases [OF ok i])
  let ?c0 = "clients b ! i"
  fix c res data b2
  assume t: "touched ?c0 c" "clients (note_recv b i ?c0) ! i = c" and w: "client_read (note_recv b i ?c0) c = Inr ((res, data), b2)"
    and b2: "evolves i b b2" "clients b2 ! i = c" "b_conf b2 = b_conf (note_recv b i ?c0)" and d: "length data = 4097"
    and run: "RecvFromServerCallback b i = (case res of
         Failed e \<Rightarrow> if e = EAGAIN then Inr (1, b2) else cbind (reopen b2 i) (\<lambda>b3. Inr (-1, b3))
       | Got bs \<Rightarrow> if bs = [] then cbind (reopen b2 i) (\<lambda>b3. Inr (-1, b3))
           else if uint (recvBufLen (after_read c data (length bs))) > MAX_RECV_BUF_LEN then Inl (Exits (-1))
           else cbind (record_latency (put_client b2 i (after_read c data (length bs))) (after_read c data (length bs)))
             (\<lambda>b4. cbind (ReactorCloseConnectionNormal b4 i) (\<lambda>b5. Inr (0, b5))))"
  have c: "cl_fd c = cl_fd ?c0" "recvBufLen c = recvBufLen ?c0" using t(1) by (auto simp: touched_def)
  have room: "nat ((MAX_RECV_BUF_LEN + 1 - uint (recvBufLen c)) mod 2 ^ 64) = 4097 - unat (recvBufLen c)"
    using fits c(2) by (simp add: MAX_RECV_BUF_LEN_def uint_nat nat_diff_distrib del: of_nat_unat)
  have "read_loop (s_in so) (4097 - unat (recvBufLen c)) (b_errno b) = (Got bs, rest, b_errno b)"
    using read_data [of "4097 - unat (recvBufLen c)" bs rest] fits c(2) so(2) by simp
  then have res: "res = Got bs"
    using w so(1) c(1) room by (auto simp: client_read_def note_recv_frame outcome_iff)
  let ?c1 = "after_read c data (length bs)"
  have "unat (recvBufLen ?c1) = unat (recvBufLen c) + length bs"
    using fits c(2) by (simp add: after_read_def unat_word_ariths unat_of_nat)
  then have small: "uint (recvBufLen ?c1) \<le> MAX_RECV_BUF_LEN"
    using fits c(2) by (simp add: MAX_RECV_BUF_LEN_def uint_nat del: of_nat_unat)
  note r = after_read_ok [OF b2(1) i t(1) b2(2) d small]
  let ?b3 = "put_client b2 i ?c1"
  have "occupied (clients ?b3 ! i)" using r(2,3) by simp
  then obtain b4 b5 where b4: "record_latency ?b3 ?c1 = Inr b4" "bench_ok b4"
      and i4: "i < unat (need b4)" "occupied (clients b4 ! i)"
      and b5: "ReactorCloseConnectionNormal b4 i = Inr b5" "evolves i b b5"
    by (rule response_finishes [OF r(1) i(1), where c = ?c1]) blast
  have "get_client (note_recv b i ?c0) i = Inr c" using note_recv_ok [OF ok i] t(2) by auto
  then have lat: "cl_latency ?c1 = noted_latency b ?c0"
    using note_recv_latency [OF get_client_ok [OF ok i(1)]] by (simp add: after_read_def)
  have b4_conf: "latency (b_conf b4) = Some (xs[unat (doneRequests (b_conf b)) := noted_latency b ?c0])"
    "doneRequests (b_conf b4) = doneRequests (b_conf b) + 1" "needRequestNum (b_conf b4) = needRequestNum (b_conf b)"
    "epoll_loop (b_conf b4) = epoll_loop (b_conf b)"
    using b4(1) more xs lat b2(3) bench_okD(6) [OF ok]
    by (auto simp: record_latency_def Let_def note_recv_frame results_ok_def word_less_nat_alt split: if_splits)
  have "needRequestNum (b_conf b) \<le> doneRequests (b_conf b) + 1 \<longleftrightarrow> doneRequests (b_conf b) + 1 = needRequestNum (b_conf b)"
    using inc_le [OF more] by auto
  then show ?thesis
    using run res so(3) small b4(1) b5 CloseNormal_results [OF b4(2) i4 b5(1)] b4_conf by simp
qed

lemma client_counts_response_witness:
  "\<exists>b b'. RecvFromServerCallback b 0 = Inr (0, b') \<and> doneRequests (b_conf b') = 1
     \<and> latency (b_conf b') = Some [1000005, 0] \<and> epoll_loop (b_conf b') = Some \<lparr>stop = 1, epfd = 3\<rparr>"
proof -
  let ?b = "demo_bench [demo_client 7 READABLE] (new_sock\<lparr>s_in := [Data [72]]\<rparr>) [] []"
  have ok: "bench_ok ?b" by (rule lone_ok) simp
  have lat: "noted_latency ?b (clients ?b ! 0) = 1000005"
    by (simp add: noted_latency_def GetusecTime_def read_tv_def Let_def demo_client_def) (simp add: demo_bench_def)
  have "\<exists>b'. RecvFromServerCallback ?b 0 = Inr (0, b') \<and> bench_ok b'
     \<and> latency (b_conf b') = Some ([0, 0][unat (doneRequests (b_conf ?b)) := noted_latency ?b (clients ?b ! 0)])
     \<and> doneRequests (b_conf b') = doneRequests (b_conf ?b) + 1
     \<and> epoll_loop (b_conf b') = (if doneRequests (b_conf ?b) + 1 = needRequestNum (b_conf ?b)
          then map_option (stop_update (\<lambda>_. 0)) (epoll_loop (b_conf ?b)) else epoll_loop (b_conf ?b))"
    by (rule client_counts_response [OF ok, where bs = "[72]" and rest = "[]" and so = "new_sock\<lparr>s_in := [Data [72]]\<rparr>"])
       (simp_all add: demo_bench_def, simp_all add: demo_conf_def clients_def)
  then show ?thesis using lat by auto
qed

text \<open>C34: the timeout check resets exactly the clients that have a positive descriptor and were not
  touched for three seconds, counts each of them once, and leaves every other slot as it is.
\<close>

theorem timeout_check_resets_exactly_the_idle:
  assumes ok: "bench_ok b"
  shows "\<exists>b'. ClearTimeoutConnection b t = Inr b' \<and> bench_ok b' \<and> (\<forall>i < unat (need b). checked t b b' i)
     \<and> timeoutClientNum (b_conf b') = timeoutClientNum (b_conf b) + of_nat (length (filter (timed_out t) (clients b)))"
  using clear_from_form [OF ok, of "[0..<unat (need b)]" t] bench_okD(7) [OF ok] filter_nth_upt [of "timed_out t" "clients b"]
  by (auto simp: ClearTimeoutConnection_def)

lemma timeout_check_resets_exactly_the_idle_witness:
  "\<exists>b b'. ClearTimeoutConnection b 10000000 = Inr b' \<and> timeoutClientNum (b_conf b') = 1 \<and> sendedLen (clients b' ! 0) = 0"
proof -
  let ?b = "demo_bench [demo_client 7 READABLE] new_sock [] []"
  have ok: "bench_ok ?b" by (rule lone_ok) simp
  have to: "timed_out 10000000 (demo_client 7 READABLE)" by (simp add: timed_out_def) (simp add: demo_client_def)
  obtain b' where "ClearTimeoutConnection ?b 10000000 = Inr b'" "\<forall>i < unat (need ?b). checked 10000000 ?b b' i"
      "timeoutClientNum (b_conf b') = timeoutClientNum (b_conf ?b) + of_nat (length (filter (timed_out 10000000) (clients ?b)))"
    using timeout_check_resets_exactly_the_idle [OF ok, of 10000000] by blast
  then show ?thesis
    using to by (intro exI [of _ ?b] exI [of _ b']) (simp add: checked_def was_reset_def restart_def demo_conf_def)
qed


section \<open>Failures\<close>

text \<open>
  A new socket whose slot is taken is closed again and the client gives up: refilling the slots
  ends the process with \<open>exit(1)\<close>, although another slot is free.
\<close>

theorem slot_collision_ends_client:
  assumes ok: "bench_ok b" and fewer: "live b < need b"
    and so: "client_socket b = (Some fd, b1)" "occupied (clients b ! slot_of (need b) fd)"
  shows "refill b = Inl (Exits 1) \<and> (\<exists>j < unat (need b). \<not> occupied (clients b ! j))"
proof
  have n: "need b \<noteq> 0" using fewer by auto
  obtain b' where "ReactorClientInit b = Inr (-1, b')" using ClientInit_fails [OF ok n so(1)] so(2) by blast
  moreover have "unat (need b - live b) \<noteq> 0" using fewer by (simp add: unat_sub word_less_nat_alt order_less_imp_le)
  ultimately show "refill b = Inl (Exits 1)"
    using fewer by (cases "unat (need b - live b)") (simp_all add: refill_def fill_clients.simps)
  show "\<exists>j < unat (need b). \<not> occupied (clients b ! j)"
  proof (rule ccontr)
    assume "\<not> ?thesis"
    then have "filter occupied (clients b) = clients b"
      using bench_okD(7) [OF ok] by (auto simp: filter_id_conv in_set_conv_nth)
    then show False using bench_okD(3,7) [OF ok] fewer by (simp add: live_count_def word_less_nat_alt)
  qed
qed

lemma slot_collision_ends_client_witness:
  "\<exists>b. bench_ok b \<and> \<not> occupied (clients b ! 0) \<and> refill b = Inl (Exits 1)"
proof -
  let ?b = "demo_bench [free_slot, demo_client 7 WRITEABLE] new_sock [] [Socket 9 Connected (Some 0) [] []]"
  have "\<exists>b1. client_socket ?b = (Some 9, b1)"
    by (simp add: client_socket_def next_socket_def SetNonBlock_def SetTcpNoDelay_def sys_control_def sock_is_open_def
        Let_def INT_MAX_def demo_bench_def put_bkern_def)
  then obtain b1 where "client_socket ?b = (Some 9, b1)" by blast
  moreover have "slot_of 2 9 = 1" by (simp add: slot_of_def)
  ultimately have "refill ?b = Inl (Exits 1) \<and> (\<exists>j < unat (need ?b). \<not> occupied (clients ?b ! j))"
    by (intro slot_collision_ends_client [where fd = 9] half_ok) (simp_all add: live_count_def)
  then show ?thesis using half_ok [of new_sock "[Socket 9 Connected (Some 0) [] []]"] by (intro exI [of _ ?b]) simp
qed

text \<open>
  When the kernel refuses to register a new client's socket, the socket is closed and -1 returned,
  but the slot keeps the closed descriptor and is not counted: a later socket that belongs into this
  slot is refused.
\<close>

theorem refused_registration_keeps_slot:
  assumes cs: "client_socket b = (Some fd, b1)" and i: "client_index (b_conf b1) fd = Inr i"
    and c: "get_client b1 i = Inr c" "cl_fd c = FDARRAY_INDEX_INIT" "length (sendBuf c) = 4097"
    and no: "k_ctl (b_kern b1) = False # ctl" and fd: "fd \<noteq> FDARRAY_INDEX_INIT"
  shows "\<exists>b'. ReactorClientInit b = Inr (-1, b') \<and> \<not> sock_is_open (b_kern b') fd \<and> live b' = live b1
     \<and> (\<forall>fd2 b2. client_socket b' = (Some fd2, b2) \<longrightarrow> client_index (b_conf b2) fd2 = Inr i \<longrightarrow>
          ReactorClientInit b' = Inr (-1, put_bkern b2 (sys_close (b_kern b2) fd2)))"
proof -
  obtain data where enc: "EncodeRequest (sendBuf c) (MAX_SEND_BUF_LEN + 1) = Inr (334, data)"
    using EncodeRequest_ok [OF c(3)] by blast
  let ?c = "fresh_client c fd 334 data"
  let ?c' = "?c\<lparr>cl_mask := WRITEABLE, wFuncProc := Some SendToServer\<rparr>"
  let ?k = "sys_close ((b_kern b1)\<lparr>k_ctl := ctl\<rparr>) fd"
  let ?b' = "put_bkern (put_client b1 i ?c') ?k"
  have "epoll_ctl (b_kern b1) EPOLL_CTL_ADD fd ev = (-1, (b_kern b1)\<lparr>k_ctl := ctl\<rparr>)" for ev
    using no by (simp add: epoll_ctl_def)
  then have "ReactorAddEvent (put_client b1 i ?c) i WRITEABLE SendToServer
      = Inr (-1, put_bkern (put_client b1 i ?c') ((b_kern b1)\<lparr>k_ctl := ctl\<rparr>))"
    using get_put_client [OF c(1), of ?c]
    by (simp add: ReactorAddEvent_def c_assert_def fresh_client_def Let_def bit.conj_disj_distrib)
  then have "ReactorClientInit b = Inr (-1, ?b')" using cs i c enc by (simp add: ReactorClientInit_def)
  moreover have "ReactorClientInit ?b' = Inr (-1, put_bkern b2 (sys_close (b_kern b2) fd2))"
    if "client_socket ?b' = (Some fd2, b2)" "client_index (b_conf b2) fd2 = Inr i" for fd2 b2
  proof -
    have "get_client b2 i = Inr ?c'"
      using client_socket_conf [OF that(1)] get_put_client [OF c(1), of ?c'] by (simp add: get_client_def)
    then show ?thesis using that fd by (simp add: ReactorClientInit_def fresh_client_def)
  qed
  moreover have "\<not> sock_is_open (b_kern ?b') fd" by (simp add: sys_close_def sock_is_open_def)
  ultimately show ?thesis by (intro exI [of _ ?b']) simp
qed

lemma refused_registration_keeps_slot_witness:
  "\<exists>b b'. ReactorClientInit b = Inr (-1, b') \<and> \<not> sock_is_open (b_kern b') 4 \<and> live b' = 0"
proof -
  let ?b = "demo_bench [free_slot] new_sock [True, True, True, False] [Socket 4 Connected (Some 0) [] []]"
  have "\<exists>b1. client_socket ?b = (Some 4, b1) \<and> b_conf b1 = demo_conf [free_slot] \<and> k_ctl (b_kern b1) = [False]"
    by (simp add: client_socket_def next_socket_def SetNonBlock_def SetTcpNoDelay_def sys_control_def sock_is_open_def
        Let_def INT_MAX_def demo_bench_def put_bkern_def)
  then obtain b1 where b1: "client_socket ?b = (Some 4, b1)" "b_conf b1 = demo_conf [free_slot]" "k_ctl (b_kern b1) = [False]"
    by blast
  have "length (sendBuf free_slot) = 4097" using demo_client_simps(7) by (simp add: bufs_full_def)
  then have "\<exists>b'. ReactorClientInit ?b = Inr (-1, b') \<and> \<not> sock_is_open (b_kern b') 4 \<and> live b' = live b1
     \<and> (\<forall>fd2 b2. client_socket b' = (Some fd2, b2) \<longrightarrow> client_index (b_conf b2) fd2 = Inr 0 \<longrightarrow>
          ReactorClientInit b' = Inr (-1, put_bkern b2 (sys_close (b_kern b2) fd2)))"
    using b1 by (intro refused_registration_keeps_slot [where c = free_slot and ctl = "[]"])
      (simp_all add: client_index_def get_client_def FDARRAY_INDEX_INIT_def)
  then show ?thesis using b1(2) by (auto simp: live_count_def)
qed

text \<open>
  Options that are accepted leave a socket open that no client will ever use or close.
\<close>

theorem accepted_options_leak_socket:
  assumes "ParseOptions host_ok b opts = Inr b'"
  shows "\<exists>fd. \<not> sock_is_open (b_kern b) fd \<and> sock_is_open (b_kern b') fd"
proof -
  obtain s where s: "apply_opts (b_conf b) opts = Inr s"
    using assms by (auto simp: ParseOptions_def outcome_iff)
  obtain r1 b1 where 1: "TestConnect (put_conf b s) = (r1, b1)" by fastforce
  obtain r2 b2 where 2: "TestConnect b1 = (r2, b2)" by fastforce
  have "b' = b2" "0 \<le> r2" using assms s 1 2 by (auto simp: ParseOptions_def split: if_splits)
  then show ?thesis using TestConnect_open(2) [OF 2] TestConnect_open(1) [OF 1] by auto
qed


lemma strncpy16_short:
  assumes "length h < 16" shows "0 \<in> set (strncpy16 h)"
proof -
  let ?n = "length (takeWhile (\<lambda>x. x \<noteq> 0) h)"
  have "?n < 16" using assms length_takeWhile_le [of "\<lambda>x. x \<noteq> 0" h] by linarith
  then have "strncpy16 h ! ?n = 0" "?n < length (strncpy16 h)" by (simp_all add: strncpy16_def nth_append)
  then show ?thesis by (metis nth_mem)
qed

lemma accepted_options_leak_socket_witness:
  "\<exists>b'. ParseOptions (\<lambda>_. True) (demo_bench [] new_sock [] [Socket 4 Connected (Some 0) [] [], Socket 5 InProgress (Some 0) [] []]) []
     = Inr b' \<and> (\<exists>fd. \<not> sock_is_open (b_kern (demo_bench [] new_sock [] [Socket 4 Connected (Some 0) [] [], Socket 5 InProgress (Some 0) [] []])) fd
        \<and> sock_is_open (b_kern b') fd)"
proof -
  let ?b = "demo_bench [] new_sock [] [Socket 4 Connected (Some 0) [] [], Socket 5 InProgress (Some 0) [] []]"
  have t: "TestConnect ?b = (0, b1) \<Longrightarrow> \<exists>b2. TestConnect b1 = (0, b2)"
    "\<exists>b1. TestConnect ?b = (0, b1)" for b1
    by (auto simp: TestConnect_def next_socket_def SetNonBlock_def sys_control_def sock_is_open_def
        Let_def INT_MAX_def demo_bench_def put_bkern_def)
  have "0 \<in> set (szhost (demo_conf []))"
    by (simp add: demo_conf_def strncpy16_short ascii_def)
  moreover have "port (demo_conf []) = 5113" by (simp add: demo_conf_def)
  moreover have "put_conf ?b (demo_conf []) = ?b" by (simp add: put_conf_def demo_bench_def)
  moreover obtain b1 b2 where "TestConnect ?b = (0, b1)" "TestConnect b1 = (0, b2)" using t by blast
  ultimately have p: "ParseOptions (\<lambda>_. True) ?b [] = Inr b2" by (simp add: ParseOptions_def)
  show ?thesis using p accepted_options_leak_socket [OF p] by blast
qed

text \<open>A host name of 16 or more characters fills the field, and the name is read beyond it.\<close>

lemma long_host_unterminated:
  assumes "16 \<le> length h" "0 \<notin> set h"
  shows "ParseOptions host_ok b [OptH h] = undef OutOfBounds"
proof -
  have "takeWhile (\<lambda>x. x \<noteq> 0) h = h" using assms(2) by (auto simp: takeWhile_eq_all_conv)
  then have "strncpy16 h = take 16 (h @ replicate 16 0)" unfolding strncpy16_def by (simp only:)
  then have "set (strncpy16 h) \<subseteq> set h"
    using assms(1) set_take_subset [of 16 h] by simp
  then show ?thesis using assms(2) by (auto simp: ParseOptions_def)
qed

section \<open>The report\<close>

text \<open>
  The comparison of latencies for \<open>qsort\<close> is exact while the latencies differ by less than
  $2^{31}$ microseconds (36 minutes); a latency larger by exactly that much compares as the smaller one.
\<close>

theorem compare_latency_range:
  assumes "- (2 ^ 31) \<le> uint a - uint b" "uint a - uint b < 2 ^ 31"
  shows "CompareLatency a b = uint a - uint b \<and> CompareLatency (b + 0x80000000) b < 0"
proof
  have "uint (ucast (a - b) :: u32) = take_bit 32 (uint a - uint b)"
    by (simp add: uint_word_ariths unsigned_ucast_eq take_bit_eq_mod mod_mod_cancel)
  then have "CompareLatency a b = signed_take_bit 31 (take_bit 32 (uint a - uint b))"
    by (simp add: CompareLatency_def sint_uint)
  also have "\<dots> = signed_take_bit 31 (uint a - uint b)"
    by (simp add: signed_take_bit_take_bit)
  also have "\<dots> = uint a - uint b" using assms by (simp add: signed_take_bit_int_eq_self)
  finally show "CompareLatency a b = uint a - uint b" .
  show "CompareLatency (b + 0x80000000) b < 0" by (simp add: CompareLatency_def)
qed

lemma compare_latency_range_witness: "CompareLatency 5 7 = -2 \<and> CompareLatency (7 + 0x80000000) 7 < 0"
  using compare_latency_range [of 5 7] by simp

text \<open>
  The average latency of the report does not depend on the order in which \<open>qsort\<close> leaves the
  latencies, and with no response at all the report divides by zero.
\<close>

theorem average_ignores_order:
  assumes "latency s = Some xs" "unat (doneRequests s) \<le> length xs"
    and "mset (qs (take (unat (doneRequests s)) xs)) = mset (take (unat (doneRequests s)) xs)"
  shows "average_latency qs s = (if doneRequests s = 0 then undef DivByZero
     else Inr (sum_list (map (\<lambda>x. x div 1000) (take (unat (doneRequests s)) xs)) div of_nat (unat (doneRequests s))))"
proof -
  have "sum_list (map (\<lambda>x. x div 1000) (qs (take (unat (doneRequests s)) xs)))
      = sum_list (map (\<lambda>x. x div 1000) (take (unat (doneRequests s)) xs))"
    by (metis (no_types) assms(3) mset_map sum_mset_sum_list)
  then show ?thesis using assms(1,2) by (simp add: average_latency_def Let_def)
qed


lemma average_ignores_order_witness:
  "average_latency rev ((demo_conf [])\<lparr>latency := Some [7000, 2000], doneRequests := 2\<rparr>) = Inr 4"
proof -
  let ?s = "(demo_conf [])\<lparr>latency := Some [7000, 2000], doneRequests := 2\<rparr>"
  have "average_latency rev ?s = (if doneRequests ?s = 0 then undef DivByZero
     else Inr (sum_list (map (\<lambda>x. x div 1000) (take (unat (doneRequests ?s)) [7000, 2000])) div of_nat (unat (doneRequests ?s))))"
    by (rule average_ignores_order) simp_all
  then show ?thesis by simp
qed

end
