(* ===== verification/ServerLog.thy ===== *)
theory ServerLog
  imports World "HOL-Library.Char_ord"
begin

text \<open>
  The log of a process, \<open>src/server_log.c\<close>: the handle, the roll-over of the log files, the line a
  message becomes, and the creation and destruction of the handle.  A \<open>ServerLogHandle *\<close> is an
  address; files are numbered objects that a directory names and descriptors refer to.
\<close>

section \<open>Constants and records of server_log.h\<close>

definition LOG_ERROR_LEVEL :: int where "LOG_ERROR_LEVEL = 0"
definition LOG_INFO_LEVEL :: int where "LOG_INFO_LEVEL = 2"
definition FD_STDOUT :: int where "FD_STDOUT = 1"
definition FD_STDERR :: int where "FD_STDERR = 2"
definition FD_DEVNULL :: int where "FD_DEVNULL = -2"
definition FD_FILE :: int where "FD_FILE = 3"
definition MIN_LOGFILE_SIZE :: int where "MIN_LOGFILE_SIZE = 1048576"
definition MAX_PATH_LEN :: nat where "MAX_PATH_LEN = 512"
definition MAX_LOGMSG_LEN :: nat where "MAX_LOGMSG_LEN = 8192"
definition LOG_PATH_LEN :: nat where "LOG_PATH_LEN = 80"

record ServerLogHandle =
  stLogMutex :: bool          \<comment> \<open>whether it is locked\<close>
  iLogFd :: int
  iLogSize :: int
  iLogMask :: int
  iLogLevel :: int
  iLogFileCount :: int
  iLogStd :: int
  szLogFilename :: string
  iLogDate :: int

text \<open>
  \<open>lg_opens\<close> are the descriptors \<open>open\<close> will return (a negative or an open one, or none left:
  it fails), \<open>lg_ctl\<close> answers \<open>pthread_mutex_init\<close>, \<open>access\<close>, \<open>rename\<close> and
  \<open>remove\<close> (exhausted: yes), \<open>lg_room\<close> says how much each \<open>write\<close> takes (exhausted: all).
  \<open>lg_leaked\<close> counts the blocks nobody points to any more.
\<close>

record log_state =
  lg_handles :: "nat \<Rightarrow> ServerLogHandle option"
  lg_global :: nat            \<comment> \<open>\<open>g_pstServerLogHandle\<close>\<close>
  lg_dir :: "string \<Rightarrow> nat option"
  lg_data :: "nat \<Rightarrow> string"
  lg_fds :: "int \<Rightarrow> nat option"
  lg_opens :: "int list"
  lg_ctl :: "bool list"
  lg_malloc :: "bool list"
  lg_room :: "nat list"
  lg_next :: nat
  lg_inode :: nat
  lg_leaked :: nat
  lg_stdout :: string

section \<open>Files\<close>

definition file_exists :: "log_state \<Rightarrow> string \<Rightarrow> bool" where
  "file_exists L path \<longleftrightarrow> lg_dir L path \<noteq> None"

definition log_ctl :: "log_state \<Rightarrow> bool \<times> log_state" where
  "log_ctl L = (let (ok, rest) = next_answer (lg_ctl L) in (ok, L\<lparr>lg_ctl := rest\<rparr>))"

definition file_remove :: "log_state \<Rightarrow> string \<Rightarrow> log_state" where
  "file_remove L path = (let (ok, L1) = log_ctl L in
     if ok then L1\<lparr>lg_dir := (lg_dir L)(path := None)\<rparr> else L1)"

definition file_rename :: "log_state \<Rightarrow> string \<Rightarrow> string \<Rightarrow> log_state" where
  "file_rename L old new = (let (ok, L1) = log_ctl L in
     if ok \<and> old \<noteq> new \<and> file_exists L old then L1\<lparr>lg_dir := (lg_dir L)(new := lg_dir L old, old := None)\<rparr> else L1)"

definition file_open :: "log_state \<Rightarrow> string \<Rightarrow> bool \<Rightarrow> int \<times> log_state" where
  "file_open L path creat = (case lg_opens L of [] \<Rightarrow> (-1, L)
     | fd # r \<Rightarrow> let L1 = L\<lparr>lg_opens := r\<rparr> in
       if fd < 0 \<or> lg_fds L fd \<noteq> None then (-1, L1)
       else case lg_dir L path of
           Some n \<Rightarrow> (fd, L1\<lparr>lg_fds := (lg_fds L)(fd \<mapsto> n)\<rparr>)
         | None \<Rightarrow> if creat then (fd, L1\<lparr>lg_fds := (lg_fds L)(fd \<mapsto> lg_inode L), lg_dir := (lg_dir L)(path \<mapsto> lg_inode L),
               lg_data := (lg_data L)(lg_inode L := []), lg_inode := lg_inode L + 1\<rparr>)
             else (-1, L1))"

definition file_close :: "log_state \<Rightarrow> int \<Rightarrow> log_state" where
  "file_close L fd = L\<lparr>lg_fds := (lg_fds L)(fd := None)\<rparr>"

text \<open>\<open>write\<close> with \<open>O_APPEND\<close>; on a descriptor that is not open it does nothing.\<close>

definition file_append :: "log_state \<Rightarrow> int \<Rightarrow> string \<Rightarrow> log_state" where
  "file_append L fd s = (case lg_fds L fd of None \<Rightarrow> L
     | Some n \<Rightarrow> (case lg_room L of
         [] \<Rightarrow> L\<lparr>lg_data := (lg_data L)(n := lg_data L n @ s)\<rparr>
       | k # r \<Rightarrow> L\<lparr>lg_room := r, lg_data := (lg_data L)(n := lg_data L n @ take k s)\<rparr>))"

definition get_handle :: "log_state \<Rightarrow> nat \<Rightarrow> ServerLogHandle outcome" where
  "get_handle L p = (if p = NULL then undef NullDeref
     else case lg_handles L p of None \<Rightarrow> undef UseAfterFree | Some h \<Rightarrow> Inr h)"

definition put_handle :: "log_state \<Rightarrow> nat \<Rightarrow> ServerLogHandle \<Rightarrow> log_state" where
  "put_handle L p h = L\<lparr>lg_handles := (lg_handles L)(p \<mapsto> h)\<rparr>"

text \<open>The four bytes that are allocated, set to 2 and forgotten.\<close>

definition leak_int :: "log_state \<Rightarrow> log_state outcome" where
  "leak_int L = (let (ok, rest) = next_answer (lg_malloc L) in
     if ok then Inr (L\<lparr>lg_malloc := rest, lg_leaked := lg_leaked L + 1\<rparr>) else undef NullDeref)"

section \<open>Formatting\<close>

text \<open>The decimal digits of \<open>%d\<close>, and \<open>snprintf\<close>, which keeps one byte for the end.\<close>

fun dec :: "nat \<Rightarrow> string" where
  "dec n = (if n < 10 then [char_of (48 + n)] else dec (n div 10) @ [char_of (48 + n mod 10)])"

declare dec.simps [simp del]

definition dec_int :: "int \<Rightarrow> string" where
  "dec_int n = (if n < 0 then ''-'' @ dec (nat (- n)) else dec (nat n))"

definition snprintf :: "nat \<Rightarrow> string \<Rightarrow> string" where
  "snprintf n s = take (n - 1) s"

definition newline :: string where "newline = [char_of (10 :: nat)]"

section \<open>Roll-over\<close>

text \<open>The test for \<open>NULL\<close> is the wrong way round.\<close>

definition CheckFileSize :: "log_state \<Rightarrow> nat \<Rightarrow> int outcome" where
  "CheckFileSize L p = (if p \<noteq> NULL then Inr 0
     else cbind (get_handle L p) (\<lambda>h. case lg_dir L (szLogFilename h) of None \<Rightarrow> Inr 0
       | Some n \<Rightarrow> Inr (if int (length (lg_data L n)) \<ge> iLogSize h then 1 else 0)))"

definition numbered :: "string \<Rightarrow> int \<Rightarrow> string" where
  "numbered f i = snprintf (MAX_PATH_LEN - 1) (f @ ''.'' @ dec_int i)"

fun roll_chain :: "log_state \<Rightarrow> string \<Rightarrow> nat \<Rightarrow> log_state" where
  "roll_chain L f 0 = L"
| "roll_chain L f (Suc i) = (let old = numbered f (int i + 1); new = numbered f (int i + 2) in
     roll_chain (if file_exists L old then file_rename L old new else L) f i)"

definition roll_oldfile2new :: "log_state \<Rightarrow> nat \<Rightarrow> log_state outcome" where
  "roll_oldfile2new L p = (if p = NULL then Inr L
     else cbind (get_handle L p) (\<lambda>h.
       let L1 = (if iLogFd h \<ge> 0 then file_close L (iLogFd h) else L);
           f = szLogFilename h; last_name = numbered f (iLogFileCount h);
           L2 = (if file_exists L1 last_name then file_remove L1 last_name else L1);
           L3 = roll_chain L2 f (nat (iLogFileCount h - 1));
           L4 = (if file_exists L3 f then file_rename L3 f (numbered f 1) else L3);
           (fd, L5) = file_open L4 f True
       in if fd = -1 then Inr (L5\<lparr>lg_handles := (lg_handles L5)(p := None), lg_global := NULL\<rparr>)
          else Inr (put_handle L5 p (h\<lparr>iLogFd := fd\<rparr>))))"

section \<open>Messages\<close>

definition szLogOut :: "string list" where "szLogOut = [''ERROR'', ''WARN'', ''INFO'', ''DEBUG'']"

text \<open>
  \<open>date\<close> is what \<open>strftime\<close> makes of the time.  The mutex is locked around the write; locking a
  locked mutex waits for ever.
\<close>

definition log_line :: "string \<Rightarrow> int \<Rightarrow> string \<Rightarrow> string outcome" where
  "log_line date t_iLogLevel msg = (if 0 \<le> t_iLogLevel \<and> t_iLogLevel < 4
     then Inr (snprintf MAX_LOGMSG_LEN (''['' @ szLogOut ! nat t_iLogLevel @ '']'' @ date @ '':'' @ msg @ newline))
     else undef OutOfBounds)"

definition log_write :: "log_state \<Rightarrow> nat \<Rightarrow> string \<Rightarrow> log_state outcome" where
  "log_write L p szMsg = cbind (get_handle L p) (\<lambda>h.
     if stLogMutex h then Inl Diverges
     else let L1 = put_handle L p (h\<lparr>stLogMutex := True\<rparr>) in
       cbind (CheckFileSize L1 p) (\<lambda>full.
       cbind (if full > 0 then roll_oldfile2new L1 p else Inr L1) (\<lambda>L2.
       cbind (get_handle L2 p) (\<lambda>h2.
         let L3 = file_append L2 (iLogFd h2) szMsg in Inr (put_handle L3 p (h2\<lparr>stLogMutex := False\<rparr>))))))"

definition print_log :: "log_state \<Rightarrow> nat \<Rightarrow> string \<Rightarrow> int \<Rightarrow> string \<Rightarrow> log_state outcome" where
  "print_log L p date t_iLogLevel t_pszMsg = (if p = NULL then Inr L
     else cbind (leak_int L) (\<lambda>L1.
       cbind (log_line date t_iLogLevel t_pszMsg) (\<lambda>szMsg.
       cbind (get_handle L1 p) (\<lambda>h.
         if iLogFd h > 0 \<and> iLogStd h = FD_FILE then log_write L1 p szMsg
         else if iLogStd h = FD_STDOUT \<or> iLogStd h = FD_STDERR
         then Inr (L1\<lparr>lg_stdout := lg_stdout L1 @ szMsg @ newline\<rparr>)
         else Inr L1))))"

text \<open>\<open>text\<close> is the message after \<open>vsnprintf\<close> has put the arguments in; no file name is \<open>NULL\<close>.\<close>

definition LogMsg ::
  "log_state \<Rightarrow> nat \<Rightarrow> string \<Rightarrow> string option \<Rightarrow> int \<Rightarrow> int \<Rightarrow> string \<Rightarrow> log_state outcome" where
  "LogMsg L p date t_pFilename t_iLinePos t_iLogLevel message = (if p = NULL then Inr L
     else case t_pFilename of None \<Rightarrow> Inr L
       | Some file \<Rightarrow> cbind (get_handle L p) (\<lambda>h.
           if iLogLevel h < t_iLogLevel then Inr L
           else let szMsg = snprintf MAX_LOGMSG_LEN message;
                    szMsg1 = snprintf (MAX_PATH_LEN - 1) (''<'' @ file @ '':'' @ dec_int t_iLinePos @ ''>:'' @ szMsg)
                in print_log L p date t_iLogLevel szMsg1))"

section \<open>Creating and destroying the handle\<close>

definition fresh_handle :: "string \<Rightarrow> int \<Rightarrow> int \<Rightarrow> int \<Rightarrow> int \<Rightarrow> ServerLogHandle" where
  "fresh_handle name level maxsize files now = \<lparr>stLogMutex = False, iLogFd = 0,
     iLogSize = (if maxsize < MIN_LOGFILE_SIZE then MIN_LOGFILE_SIZE else maxsize), iLogMask = 0,
     iLogLevel = (if level < 0 then 0 else level), iLogFileCount = (if files < 3 then 3 else files),
     iLogStd = FD_FILE, szLogFilename = name, iLogDate = now\<rparr>"

text \<open>
  The name is copied with its own length as the limit, so that a name of \<open>LOG_PATH_LEN\<close> bytes or
  more has no room for its end in the field.  The names that begin with \<open>/dev/null\<close> or
  \<open>stdout\<close> are not opened, and the descriptor stays 0.
\<close>

definition open_logfile :: "log_state \<Rightarrow> string \<Rightarrow> int \<times> log_state" where
  "open_logfile L name = (let (may, L1) = log_ctl L in
     if file_exists L1 name \<and> may then file_open L1 name False else file_open L1 name True)"

definition CreateLogfileHandle ::
  "log_state \<Rightarrow> string option \<Rightarrow> int \<Rightarrow> int \<Rightarrow> int \<Rightarrow> int \<Rightarrow> (nat \<times> log_state) outcome" where
  "CreateLogfileHandle L t_pFilename t_iLogLevel t_iLogSize t_iRollCount now = (case t_pFilename of None \<Rightarrow> Inr (NULL, L)
     | Some name \<Rightarrow>
       let (ok, rest) = next_answer (lg_malloc L); L1 = L\<lparr>lg_malloc := rest\<rparr> in
       if \<not> ok then Inr (NULL, L1\<lparr>lg_global := NULL\<rparr>)
       else let p = lg_next L1; h = fresh_handle name t_iLogLevel t_iLogSize t_iRollCount now;
                L2 = L1\<lparr>lg_next := p + 1, lg_global := p\<rparr> in
       cbind (leak_int L2) (\<lambda>L3.
       if LOG_PATH_LEN \<le> length name then undef OutOfBounds
       else let (init, L4) = log_ctl L3 in
       if \<not> init then Inr (NULL, put_handle L4 p h)
       else if take 9 name = ''/dev/null'' then Inr (p, put_handle L4 p (h\<lparr>iLogStd := FD_DEVNULL\<rparr>))
       else if take 6 name = ''stdout'' then Inr (p, put_handle L4 p (h\<lparr>iLogStd := FD_STDOUT\<rparr>))
       else let (fd, L5) = open_logfile L4 name in
         if fd = -1 then Inr (NULL, L5\<lparr>lg_global := NULL\<rparr>)
         else Inr (p, put_handle L5 p (h\<lparr>iLogFd := fd\<rparr>))))"

text \<open>The block that is freed is the global one, whatever the argument.\<close>

definition DestroyLogfileHandle :: "log_state \<Rightarrow> nat \<Rightarrow> log_state outcome" where
  "DestroyLogfileHandle L p = (if p = NULL then Inr L
     else cbind (get_handle L p) (\<lambda>h.
       let L1 = (if iLogFd h \<ge> 0 then file_close L (iLogFd h) else L); g = lg_global L in
       if g = NULL then Inr L1
       else if lg_handles L1 g = None then undef UseAfterFree
       else Inr (L1\<lparr>lg_handles := (lg_handles L1)(g := None), lg_global := NULL\<rparr>)))"

end
