(* ===== verification/LogProperties.thy ===== *)
theory LogProperties
  imports ServerLog
begin

text \<open>
  The properties of the log: what a roll-over does to the files, what a message appends, and what
  creating and destroying a handle leave behind.
\<close>

section \<open>Numbers in file names\<close>

definition undec :: "string \<Rightarrow> nat" where
  "undec s = foldl (\<lambda>a c. a * 10 + (of_char c - 48)) 0 s"

lemma undec_dec: "undec (dec n) = n"
proof (induction n rule: dec.induct)
  case (1 n)
  show ?case
  proof (cases "n < 10")
    case True
    then show ?thesis by (simp add: dec.simps [of n] undec_def)
  next
    case False
    have "undec (dec n) = undec (dec (n div 10)) * 10 + n mod 10"
      using False by (simp add: dec.simps [of n] undec_def)
    then show ?thesis using 1 False by simp
  qed
qed

lemma length_dec: "n < 10 ^ Suc k \<Longrightarrow> length (dec n) \<le> Suc k"
proof (induction k arbitrary: n)
  case 0
  then show ?case by (simp add: dec.simps [of n])
next
  case (Suc k)
  have "n div 10 < 10 ^ Suc k" using Suc.prems by (simp add: div_less_iff_less_mult mult.commute)
  then show ?case using Suc.IH [of "n div 10"] by (simp add: dec.simps [of n])
qed

text \<open>The names of the numbered files are not cut off, and differ.\<close>

lemma numbered_whole:
  assumes "length f < LOG_PATH_LEN" "0 \<le> i" "i \<le> INT_MAX + 1"
  shows "numbered f i = f @ ''.'' @ dec (nat i)"
proof -
  have "nat i < 10 ^ Suc 9" using assms(2,3) by (simp add: INT_MAX_def)
  then have "length (dec (nat i)) \<le> 10" using length_dec [of "nat i" 9] by simp
  then show ?thesis using assms by (simp add: numbered_def snprintf_def MAX_PATH_LEN_def LOG_PATH_LEN_def dec_int_def)
qed

lemma numbered_eq_iff:
  assumes "length f < LOG_PATH_LEN" "0 \<le> i" "i \<le> INT_MAX + 1" "0 \<le> j" "j \<le> INT_MAX + 1"
  shows "numbered f i = numbered f j \<longleftrightarrow> i = j"
proof
  assume "numbered f i = numbered f j"
  then have "dec (nat i) = dec (nat j)" using assms by (simp add: numbered_whole)
  then show "i = j" using undec_dec assms(2,4) by (metis eq_nat_nat_iff)
qed simp

lemma numbered_neq: "length f < LOG_PATH_LEN \<Longrightarrow> 0 \<le> i \<Longrightarrow> i \<le> INT_MAX + 1 \<Longrightarrow> numbered f i \<noteq> f"
  by (simp add: numbered_whole)

section \<open>Roll-over\<close>

lemma file_rename_granted:
  assumes "lg_ctl L = []" "file_exists L old" "old \<noteq> new"
  shows "file_rename L old new = L\<lparr>lg_dir := (lg_dir L)(new := lg_dir L old, old := None)\<rparr>"
  using assms by (cases L) (simp add: file_rename_def log_ctl_def file_exists_def)

lemma file_remove_granted: "lg_ctl L = [] \<Longrightarrow> file_remove L path = L\<lparr>lg_dir := (lg_dir L)(path := None)\<rparr>"
  by (cases L) (simp add: file_remove_def log_ctl_def)

text \<open>Only the directory changes; the top name has to be free.\<close>

lemma roll_chain_form:
  assumes "lg_ctl L = []" "length f < LOG_PATH_LEN" "int k \<le> INT_MAX" "lg_dir L (numbered f (int k + 1)) = None"
  shows "\<exists>D. roll_chain L f k = L\<lparr>lg_dir := D\<rparr> \<and> D (numbered f 1) = None
     \<and> (\<forall>i. 1 \<le> i \<longrightarrow> i \<le> int k \<longrightarrow> D (numbered f (i + 1)) = lg_dir L (numbered f i))
     \<and> (\<forall>path. (\<forall>i. 1 \<le> i \<longrightarrow> i \<le> int k + 1 \<longrightarrow> path \<noteq> numbered f i) \<longrightarrow> D path = lg_dir L path)"
  using assms
proof (induction k arbitrary: L)
  case 0
  then show ?case by (intro exI [of _ "lg_dir L"]) simp
next
  case (Suc k)
  let ?old = "numbered f (int k + 1)" and ?new = "numbered f (int k + 2)"
  let ?D = "(lg_dir L)(?new := lg_dir L ?old, ?old := None)"
  have ne: "numbered f i = numbered f j \<longleftrightarrow> i = j" if "0 \<le> i" "i \<le> int k + 2" "0 \<le> j" "j \<le> int k + 2" for i j
    using that Suc.prems(2,3) by (intro numbered_eq_iff) simp_all
  have "?old \<noteq> ?new" using ne by simp
  moreover have "lg_dir L ?new = None" using Suc.prems(4) by (simp add: add.commute)
  ultimately have step: "(if file_exists L ?old then file_rename L ?old ?new else L) = L\<lparr>lg_dir := ?D\<rparr>"
    using file_rename_granted [OF Suc.prems(1), of ?old ?new]
    by (cases L) (auto simp: file_exists_def fun_eq_iff)
  obtain D where D: "roll_chain (L\<lparr>lg_dir := ?D\<rparr>) f k = L\<lparr>lg_dir := D\<rparr>" "D (numbered f 1) = None"
      "\<And>i. 1 \<le> i \<Longrightarrow> i \<le> int k \<Longrightarrow> D (numbered f (i + 1)) = ?D (numbered f i)"
      "\<And>path. (\<forall>i. 1 \<le> i \<longrightarrow> i \<le> int k + 1 \<longrightarrow> path \<noteq> numbered f i) \<Longrightarrow> D path = ?D path"
    using Suc.IH [of "L\<lparr>lg_dir := ?D\<rparr>"] Suc.prems by auto
  show ?case
  proof (intro exI [of _ D] conjI allI impI)
    show "roll_chain L f (Suc k) = L\<lparr>lg_dir := D\<rparr>" using D(1) step by (simp add: Let_def)
    show "D (numbered f 1) = None" by (rule D(2))
  next
    fix i :: int assume i: "1 \<le> i" "i \<le> int (Suc k)"
    show "D (numbered f (i + 1)) = lg_dir L (numbered f i)"
    proof (cases "i \<le> int k")
      case True
      then show ?thesis using D(3) [OF i(1)] ne i(1) by simp
    next
      case False
      then have i': "i = int k + 1" using i(2) by simp
      have "D ?new = ?D ?new" using ne by (intro D(4)) auto
      also have "\<dots> = lg_dir L ?old" using ne by simp
      finally have "D ?new = lg_dir L ?old" .
      moreover have "i + 1 = int k + 2" using i' by simp
      ultimately show ?thesis using i' by metis
    qed
  next
    fix path assume p: "\<forall>i. 1 \<le> i \<longrightarrow> i \<le> int (Suc k) + 1 \<longrightarrow> path \<noteq> numbered f i"
    have "path \<noteq> ?old" "path \<noteq> ?new" using p by auto
    moreover have "D path = ?D path" using p by (intro D(4)) auto
    ultimately show "D path = lg_dir L path" by simp
  qed
qed

text \<open>The reference: every file moves up one place, the last is dropped, the current one becomes number 1.\<close>

definition rolled :: "(string \<Rightarrow> nat option) \<Rightarrow> string \<Rightarrow> int \<Rightarrow> (string \<Rightarrow> nat option) \<Rightarrow> bool" where
  "rolled D f n D' \<longleftrightarrow> D' (numbered f 1) = D f
     \<and> (\<forall>i. 1 \<le> i \<longrightarrow> i < n \<longrightarrow> D' (numbered f (i + 1)) = D (numbered f i))
     \<and> (\<forall>path. path \<noteq> f \<longrightarrow> (\<forall>i. 1 \<le> i \<longrightarrow> i \<le> n \<longrightarrow> path \<noteq> numbered f i) \<longrightarrow> D' path = D path)"

lemma roll_files:
  assumes L: "lg_ctl L = []" and f: "length f < LOG_PATH_LEN" and n: "1 \<le> n" "n \<le> INT_MAX"
  shows "\<exists>D. (let L2 = (if file_exists L (numbered f n) then file_remove L (numbered f n) else L);
               L3 = roll_chain L2 f (nat (n - 1)) in
             if file_exists L3 f then file_rename L3 f (numbered f 1) else L3) = L\<lparr>lg_dir := D\<rparr>
     \<and> rolled (lg_dir L) f n D \<and> D f = None"
proof -
  let ?D0 = "(lg_dir L)(numbered f n := None)"
  have L2: "(if file_exists L (numbered f n) then file_remove L (numbered f n) else L) = L\<lparr>lg_dir := ?D0\<rparr>"
    using file_remove_granted [OF L] by (cases L) (auto simp: file_exists_def fun_eq_iff)
  have ne: "numbered f i = numbered f j \<longleftrightarrow> i = j" if "0 \<le> i" "i \<le> n" "0 \<le> j" "j \<le> n" for i j
    using that n(2) by (intro numbered_eq_iff [OF f]) simp_all
  have nf: "numbered f i \<noteq> f" if "0 \<le> i" "i \<le> n" for i using that n(2) by (intro numbered_neq [OF f]) simp_all
  obtain D where D: "roll_chain (L\<lparr>lg_dir := ?D0\<rparr>) f (nat (n - 1)) = L\<lparr>lg_dir := D\<rparr>" "D (numbered f 1) = None"
      "\<And>i. 1 \<le> i \<Longrightarrow> i < n \<Longrightarrow> D (numbered f (i + 1)) = ?D0 (numbered f i)"
      "\<And>path. (\<forall>i. 1 \<le> i \<longrightarrow> i \<le> n \<longrightarrow> path \<noteq> numbered f i) \<Longrightarrow> D path = ?D0 path"
    using roll_chain_form [of "L\<lparr>lg_dir := ?D0\<rparr>" f "nat (n - 1)"] L f n by auto
  have Df: "D f = lg_dir L f" using D(4) [of f] nf n(1) by (metis fun_upd_apply order.refl order_trans zero_le_one)
  have n1: "numbered f 1 \<noteq> f" using nf [of 1] n(1) by simp
  let ?D = "D(numbered f 1 := lg_dir L f, f := None)"
  have r1: "(if file_exists (L\<lparr>lg_dir := D\<rparr>) f then file_rename (L\<lparr>lg_dir := D\<rparr>) f (numbered f 1) else L\<lparr>lg_dir := D\<rparr>)
      = L\<lparr>lg_dir := ?D\<rparr>"
    using file_rename_granted [of "L\<lparr>lg_dir := D\<rparr>" f "numbered f 1"] L Df D(2) n1
    by (auto simp: file_exists_def fun_eq_iff intro!: log_state.unfold_congs arg_cong [of D])
  have r2: "rolled (lg_dir L) f n ?D"
    unfolding rolled_def
  proof (intro conjI allI impI)
    show "?D (numbered f 1) = lg_dir L f" using n1 by simp
  next
    fix i :: int assume i: "1 \<le> i" "i < n"
    have "?D (numbered f (i + 1)) = D (numbered f (i + 1))" using ne [of "i + 1" 1] nf [of "i + 1"] i by simp
    also have "\<dots> = lg_dir L (numbered f i)" using D(3) [OF i] ne [of i n] i by simp
    finally show "?D (numbered f (i + 1)) = lg_dir L (numbered f i)" .
  next
    fix path assume p: "path \<noteq> f" "\<forall>i. 1 \<le> i \<longrightarrow> i \<le> n \<longrightarrow> path \<noteq> numbered f i"
    then have "path \<noteq> numbered f 1" "path \<noteq> numbered f n" using n(1) by auto
    then show "?D path = lg_dir L path" using p D(4) [OF p(2)] by simp
  qed
  show ?thesis unfolding Let_def L2 D(1) by (intro exI [of _ ?D] conjI r1 r2) simp
qed


text \<open>A log file on a descriptor: the handle is in order and its mutex free.\<close>

definition log_file :: "log_state \<Rightarrow> nat \<Rightarrow> ServerLogHandle \<Rightarrow> nat \<Rightarrow> bool" where
  "log_file L p h n \<longleftrightarrow> get_handle L p = Inr h \<and> 0 < iLogFd h \<and> iLogStd h = FD_FILE \<and> \<not> stLogMutex h
     \<and> lg_fds L (iLogFd h) = Some n"

text \<open>C28: a roll-over gives the current file the number 1, every numbered file the next number, drops the
  file with the last number, leaves every other name alone, and opens a new empty file.
\<close>

theorem roll_over_shifts_files:
  assumes h: "get_handle L p = Inr h" "lg_ctl L = []"
    and n: "1 \<le> iLogFileCount h" "iLogFileCount h \<le> INT_MAX" "length (szLogFilename h) < LOG_PATH_LEN"
    and fd: "lg_opens L = fd # opens" "0 \<le> fd" "lg_fds L fd = None" "0 \<le> iLogFd h"
  shows "\<exists>L'. roll_oldfile2new L p = Inr L' \<and> get_handle L' p = Inr (h\<lparr>iLogFd := fd\<rparr>)
     \<and> rolled (lg_dir L) (szLogFilename h) (iLogFileCount h) (lg_dir L') \<and> lg_dir L' (szLogFilename h) = Some (lg_inode L)
     \<and> lg_data L' = (lg_data L)(lg_inode L := []) \<and> lg_fds L' = (lg_fds L)(iLogFd h := None, fd \<mapsto> lg_inode L)"
proof -
  let ?f = "szLogFilename h" and ?n = "iLogFileCount h"
  let ?L1 = "file_close L (iLogFd h)"
  have c: "lg_ctl ?L1 = []" "lg_dir ?L1 = lg_dir L" using h(2) by (simp_all add: file_close_def)
  obtain D where D: "(let L2 = (if file_exists ?L1 (numbered ?f ?n) then file_remove ?L1 (numbered ?f ?n) else ?L1);
               L3 = roll_chain L2 ?f (nat (?n - 1)) in
             if file_exists L3 ?f then file_rename L3 ?f (numbered ?f 1) else L3) = ?L1\<lparr>lg_dir := D\<rparr>"
      "rolled (lg_dir L) ?f ?n D" "D ?f = None"
    using roll_files [OF c(1) n(3,1,2)] c(2) by auto
  let ?L5 = "?L1\<lparr>lg_dir := D(?f \<mapsto> lg_inode L), lg_opens := opens, lg_fds := (lg_fds L)(iLogFd h := None, fd \<mapsto> lg_inode L),
      lg_data := (lg_data L)(lg_inode L := []), lg_inode := lg_inode L + 1\<rparr>"
  have op: "file_open (?L1\<lparr>lg_dir := D\<rparr>) ?f True = (fd, ?L5)"
    using fd D(3) by (cases L) (auto simp: file_open_def file_close_def Let_def)
  have "roll_oldfile2new L p = Inr (put_handle ?L5 p (h\<lparr>iLogFd := fd\<rparr>))"
    using h(1) fd(2,4) D(1) op by (simp add: roll_oldfile2new_def Let_def get_handle_def split: if_splits)
  moreover have "rolled (lg_dir L) ?f ?n (D(?f \<mapsto> lg_inode L))"
    using D(2) numbered_neq [OF n(3)] n(2) by (simp add: rolled_def INT_MAX_def)
  ultimately show ?thesis
    using h(1) by (intro exI [of _ "put_handle ?L5 p (h\<lparr>iLogFd := fd\<rparr>)"]) (simp add: put_handle_def get_handle_def split: if_splits)
qed


text \<open>A process with the handle 1 on the file \<open>a\<close>, which has an older version \<open>a.1\<close>.\<close>

definition log_demo :: "ServerLogHandle \<Rightarrow> log_state" where
  "log_demo h = \<lparr>lg_handles = [1 \<mapsto> h], lg_global = 1, lg_dir = [''a'' \<mapsto> 10, ''a.1'' \<mapsto> 11],
     lg_data = (\<lambda>n. if n = 10 then ''new'' else ''old''), lg_fds = [3 \<mapsto> 10], lg_opens = [4], lg_ctl = [],
     lg_malloc = [], lg_room = [], lg_next = 2, lg_inode = 12, lg_leaked = 0, lg_stdout = []\<rparr>"

lemma roll_over_shifts_files_witness:
  "\<exists>L'. roll_oldfile2new (log_demo ((fresh_handle ''a'' 3 0 3 0)\<lparr>iLogFd := 3\<rparr>)) 1 = Inr L'
     \<and> lg_dir L' ''a.1'' = Some 10 \<and> lg_dir L' ''a.2'' = Some 11 \<and> lg_dir L' ''a'' = Some 12"
proof -
  let ?h = "(fresh_handle ''a'' 3 0 3 0)\<lparr>iLogFd := 3\<rparr>"
  let ?L = "log_demo ?h"
  have num: "numbered ''a'' 1 = ''a.1''" "numbered ''a'' (1 + 1) = ''a.2''"
    by (simp_all add: numbered_def snprintf_def MAX_PATH_LEN_def dec_int_def dec.simps char_of_def bit_Suc_0_iff)
  have "\<exists>L'. roll_oldfile2new ?L 1 = Inr L' \<and> get_handle L' 1 = Inr (?h\<lparr>iLogFd := 4\<rparr>)
     \<and> rolled (lg_dir ?L) (szLogFilename ?h) (iLogFileCount ?h) (lg_dir L') \<and> lg_dir L' (szLogFilename ?h) = Some (lg_inode ?L)
     \<and> lg_data L' = (lg_data ?L)(lg_inode ?L := []) \<and> lg_fds L' = (lg_fds ?L)(iLogFd ?h := None, 4 \<mapsto> lg_inode ?L)"
    by (rule roll_over_shifts_files) (simp_all add: log_demo_def get_handle_def fresh_handle_def INT_MAX_def LOG_PATH_LEN_def)
  then obtain L' where L': "roll_oldfile2new ?L 1 = Inr L'" "rolled (lg_dir ?L) ''a'' 3 (lg_dir L')" "lg_dir L' ''a'' = Some 12"
    by (auto simp: fresh_handle_def log_demo_def)
  have "lg_dir L' (numbered ''a'' 1) = lg_dir ?L ''a''" using L'(2) unfolding rolled_def by blast
  moreover have "lg_dir L' (numbered ''a'' (1 + 1)) = lg_dir ?L (numbered ''a'' 1)"
    using L'(2) unfolding rolled_def by (elim conjE allE [of _ 1]) simp
  ultimately show ?thesis using L'(1,3) unfolding num by (auto simp: log_demo_def)
qed

section \<open>Messages\<close>

lemma CheckFileSize_never: "p \<noteq> NULL \<Longrightarrow> CheckFileSize L p = Inr 0"
  by (simp add: CheckFileSize_def)

lemma log_write_file:
  assumes f: "log_file L p h n" and room: "lg_room L = []"
  shows "log_write L p s = Inr (put_handle (L\<lparr>lg_data := (lg_data L)(n := lg_data L n @ s)\<rparr>) p h)"
proof -
  have h: "lg_handles L p = Some h" "p \<noteq> NULL" using f by (auto simp: log_file_def get_handle_def split: if_splits option.splits)
  have e: "h\<lparr>stLogMutex := False\<rparr> = h" using f by (cases h) (simp add: log_file_def)
  show ?thesis
    using f room h
    by (cases L) (simp add: log_file_def log_write_def get_handle_def put_handle_def CheckFileSize_def file_append_def, simp only: e)
qed

text \<open>C36: a message of a level the handle records becomes one line at the end of the open file: level, date,
  and the first 510 characters of place and message.  No file is ever rolled over, however large it
  has grown, and each message leaves one block of memory behind.
\<close>

theorem message_appends_line_and_never_rolls:
  assumes f: "log_file L p h n" and room: "lg_room L = []" "lg_malloc L = []"
    and level: "0 \<le> level" "level \<le> iLogLevel h" "level < 4"
  shows "\<exists>L'. LogMsg L p date (Some file) line level message = Inr L' \<and> log_file L' p h n
     \<and> lg_data L' = (lg_data L)(n := lg_data L n @ snprintf MAX_LOGMSG_LEN (''['' @ szLogOut ! nat level @ '']'' @ date @ '':''
          @ take 510 (''<'' @ file @ '':'' @ dec_int line @ ''>:'' @ take 8191 message) @ newline))
     \<and> lg_dir L' = lg_dir L \<and> lg_leaked L' = lg_leaked L + 1"
proof -
  have h: "lg_handles L p = Some h" "p \<noteq> NULL" "get_handle L p = Inr h"
    using f by (auto simp: log_file_def get_handle_def split: if_splits option.splits)
  let ?L1 = "L\<lparr>lg_malloc := [], lg_leaked := lg_leaked L + 1\<rparr>"
  let ?m = "take 510 (''<'' @ file @ '':'' @ dec_int line @ ''>:'' @ take 8191 message)"
  let ?s = "snprintf MAX_LOGMSG_LEN (''['' @ szLogOut ! nat level @ '']'' @ date @ '':'' @ ?m @ newline)"
  let ?L' = "put_handle (?L1\<lparr>lg_data := (lg_data L)(n := lg_data L n @ ?s)\<rparr>) p h"
  have f1: "log_file ?L1 p h n" using f h(1,2) by (simp add: log_file_def get_handle_def)
  have "log_write ?L1 p ?s = Inr ?L'" using log_write_file [OF f1, of ?s] room by simp
  moreover have "leak_int L = Inr ?L1" using room(2) by (simp add: leak_int_def)
  moreover have "log_line date level ?m = Inr ?s" using level by (simp add: log_line_def)
  ultimately have "print_log L p date level ?m = Inr ?L'"
    using h f1 by (simp add: print_log_def log_file_def)
  moreover have "LogMsg L p date (Some file) line level message = print_log L p date level ?m"
    using h level by (simp add: LogMsg_def snprintf_def MAX_PATH_LEN_def MAX_LOGMSG_LEN_def)
  moreover have "log_file ?L' p h n" using f h(2) by (simp add: log_file_def get_handle_def put_handle_def)
  ultimately show ?thesis by (intro exI [of _ ?L']) (simp add: put_handle_def)
qed

lemma message_appends_line_and_never_rolls_witness:
  "\<exists>L'. LogMsg (log_demo ((fresh_handle ''a'' 3 0 3 0)\<lparr>iLogFd := 3\<rparr>)) 1 ''now'' (Some ''m.c'') 7 0 ''hi'' = Inr L'
     \<and> lg_data L' 10 = ''new[ERROR]now:<m.c:7>:hi'' @ newline \<and> lg_dir L' ''a'' = Some 10"
proof -
  let ?h = "(fresh_handle ''a'' 3 0 3 0)\<lparr>iLogFd := 3\<rparr>"
  have f: "log_file (log_demo ?h) 1 ?h 10" by (simp add: log_file_def log_demo_def get_handle_def fresh_handle_def)
  have d: "dec_int 7 = ''7''" by (simp add: dec_int_def dec.simps char_of_def bit_Suc_0_iff)
  show ?thesis
    using message_appends_line_and_never_rolls [OF f, of 0 "''now''" "''m.c''" 7 "''hi''"]
    by (auto simp: log_demo_def fresh_handle_def szLogOut_def snprintf_def MAX_LOGMSG_LEN_def d newline_def)
qed

text \<open>A message above the level of the handle changes nothing.\<close>

lemma message_above_level: "get_handle L p = Inr h \<Longrightarrow> iLogLevel h < level \<Longrightarrow> LogMsg L p date file line level m = Inr L"
  by (auto simp: LogMsg_def get_handle_def split: option.splits if_splits)

section \<open>The handle\<close>

text \<open>Creating a handle on a file, when nothing is refused.\<close>

lemma create_log_form:
  assumes name: "length name < LOG_PATH_LEN" "take 9 name \<noteq> ''/dev/null''" "take 6 name \<noteq> ''stdout''"
    and L: "lg_malloc L = []" "lg_ctl L = []" "lg_next L \<noteq> NULL"
    and fd: "lg_opens L = fd # opens" "0 < fd" "lg_fds L fd = None"
  obtains L1 h n where "CreateLogfileHandle L (Some name) level maxsize files now = Inr (lg_next L, L1)"
    "h = (fresh_handle name level maxsize files now)\<lparr>iLogFd := fd\<rparr>" "log_file L1 (lg_next L) h n" "lg_global L1 = lg_next L"
    "lg_dir L1 name = Some n" "lg_fds L1 = (lg_fds L)(fd \<mapsto> n)" "lg_handles L1 = (lg_handles L)(lg_next L \<mapsto> h)"
    "lg_leaked L1 = lg_leaked L + 1"
proof -
  let ?p = "lg_next L" and ?h = "(fresh_handle name level maxsize files now)\<lparr>iLogFd := fd\<rparr>"
  let ?L3 = "L\<lparr>lg_next := lg_next L + 1, lg_global := ?p, lg_malloc := [], lg_leaked := lg_leaked L + 1, lg_ctl := []\<rparr>"
  have "\<exists>n L5. open_logfile ?L3 name = (fd, L5) \<and> lg_fds L5 = (lg_fds L)(fd \<mapsto> n) \<and> lg_dir L5 name = Some n
      \<and> lg_handles L5 = lg_handles L \<and> lg_global L5 = ?p \<and> lg_leaked L5 = lg_leaked L + 1"
    using fd L by (cases "lg_dir L name") (simp_all add: open_logfile_def file_open_def log_ctl_def file_exists_def Let_def)
  then obtain n L5 where o: "open_logfile ?L3 name = (fd, L5)" "lg_fds L5 = (lg_fds L)(fd \<mapsto> n)" "lg_dir L5 name = Some n"
      "lg_handles L5 = lg_handles L" "lg_global L5 = ?p" "lg_leaked L5 = lg_leaked L + 1" by blast
  have "CreateLogfileHandle L (Some name) level maxsize files now = Inr (?p, put_handle L5 ?p ?h)"
    using name L fd o(1) by (simp add: CreateLogfileHandle_def leak_int_def log_ctl_def Let_def)
  moreover have "log_file (put_handle L5 ?p ?h) ?p ?h n"
    using L(3) fd(2) o(2) by (simp add: log_file_def get_handle_def put_handle_def fresh_handle_def)
  ultimately show thesis using that o by (simp add: put_handle_def)
qed

text \<open>Destroying the global handle.\<close>

lemma destroy_log_form:
  assumes "get_handle L (lg_global L) = Inr h"
  shows "DestroyLogfileHandle L (lg_global L) = Inr (L\<lparr>lg_fds := if 0 \<le> iLogFd h then (lg_fds L)(iLogFd h := None) else lg_fds L,
    lg_handles := (lg_handles L)(lg_global L := None), lg_global := NULL\<rparr>)"
  using assms by (cases L) (auto simp: DestroyLogfileHandle_def get_handle_def file_close_def Let_def split: if_splits option.splits)

text \<open>C35: a handle on a file can be created and destroyed again: the handle is in order while it lives, with
  the least size and number of files the log asks for, and afterwards the descriptors, the handles and
  the global pointer are as before, but for the four bytes that are lost.
\<close>

theorem create_destroy_log:
  assumes name: "length name < LOG_PATH_LEN" "take 9 name \<noteq> ''/dev/null''" "take 6 name \<noteq> ''stdout''"
    and L: "lg_malloc L = []" "lg_ctl L = []" "lg_next L \<noteq> NULL" "lg_handles L (lg_next L) = None"
    and fd: "lg_opens L = fd # opens" "0 < fd" "lg_fds L fd = None"
  shows "\<exists>p L1 L2 h n. CreateLogfileHandle L (Some name) level maxsize files now = Inr (p, L1) \<and> log_file L1 p h n
     \<and> lg_global L1 = p \<and> lg_dir L1 name = Some n \<and> MIN_LOGFILE_SIZE \<le> iLogSize h \<and> 3 \<le> iLogFileCount h \<and> 0 \<le> iLogLevel h
     \<and> DestroyLogfileHandle L1 p = Inr L2 \<and> lg_fds L2 = lg_fds L \<and> lg_handles L2 = lg_handles L \<and> lg_global L2 = NULL
     \<and> lg_leaked L2 = lg_leaked L + 1"
proof -
  obtain L1 h n where c: "CreateLogfileHandle L (Some name) level maxsize files now = Inr (lg_next L, L1)"
    "h = (fresh_handle name level maxsize files now)\<lparr>iLogFd := fd\<rparr>" "log_file L1 (lg_next L) h n" "lg_global L1 = lg_next L"
    "lg_dir L1 name = Some n" "lg_fds L1 = (lg_fds L)(fd \<mapsto> n)" "lg_handles L1 = (lg_handles L)(lg_next L \<mapsto> h)"
    "lg_leaked L1 = lg_leaked L + 1"
    by (rule create_log_form [OF name L(1-3) fd]) blast
  have g: "get_handle L1 (lg_global L1) = Inr h" using c(3,4) by (simp add: log_file_def)
  let ?L2 = "L1\<lparr>lg_fds := if 0 \<le> iLogFd h then (lg_fds L1)(iLogFd h := None) else lg_fds L1,
    lg_handles := (lg_handles L1)(lg_global L1 := None), lg_global := NULL\<rparr>"
  have "DestroyLogfileHandle L1 (lg_next L) = Inr ?L2" using destroy_log_form [OF g] c(4) by simp
  moreover have "lg_fds ?L2 = lg_fds L" "lg_handles ?L2 = lg_handles L"
    using c(2,4,6,7) fd(2,3) L(4) by (auto simp: fun_eq_iff)
  ultimately show ?thesis
    using c by (intro exI [of _ "lg_next L"] exI [of _ L1] exI [of _ ?L2] exI [of _ h] exI [of _ n]) (simp add: fresh_handle_def)
qed

lemma create_destroy_log_witness:
  "\<exists>p L1 L2. CreateLogfileHandle (log_demo (fresh_handle ''a'' 0 0 0 0)) (Some ''b'') 5 0 0 0 = Inr (p, L1)
     \<and> DestroyLogfileHandle L1 p = Inr L2 \<and> lg_fds L2 = [3 \<mapsto> 10]"
proof -
  let ?L = "log_demo (fresh_handle ''a'' 0 0 0 0)"
  have "\<exists>p L1 L2 h n. CreateLogfileHandle ?L (Some ''b'') 5 0 0 0 = Inr (p, L1) \<and> log_file L1 p h n
     \<and> lg_global L1 = p \<and> lg_dir L1 ''b'' = Some n \<and> MIN_LOGFILE_SIZE \<le> iLogSize h \<and> 3 \<le> iLogFileCount h \<and> 0 \<le> iLogLevel h
     \<and> DestroyLogfileHandle L1 p = Inr L2 \<and> lg_fds L2 = lg_fds ?L \<and> lg_handles L2 = lg_handles ?L \<and> lg_global L2 = NULL
     \<and> lg_leaked L2 = lg_leaked ?L + 1"
    by (rule create_destroy_log [where fd = 4 and opens = "[]"]) (simp_all add: log_demo_def LOG_PATH_LEN_def)
  then obtain p L1 L2 where "CreateLogfileHandle ?L (Some ''b'') 5 0 0 0 = Inr (p, L1)" "DestroyLogfileHandle L1 p = Inr L2"
      "lg_fds L2 = lg_fds ?L" by blast
  then show ?thesis by (intro exI [of _ p] exI [of _ L1] exI [of _ L2]) (simp add: log_demo_def)
qed

text \<open>
  A handle on standard output never opens a descriptor but records 0, so that destroying it closes
  the standard input of the process.
\<close>

theorem stdout_log_closes_stdin:
  assumes name: "length name < LOG_PATH_LEN" "take 6 name = ''stdout''"
    and L: "lg_malloc L = []" "lg_ctl L = []" "lg_next L \<noteq> NULL" and stdin: "lg_fds L 0 = Some n"
  shows "\<exists>p L1 L2. CreateLogfileHandle L (Some name) level maxsize files now = Inr (p, L1) \<and> lg_fds L1 0 = Some n
     \<and> DestroyLogfileHandle L1 p = Inr L2 \<and> lg_fds L2 0 = None"
proof -
  let ?h = "(fresh_handle name level maxsize files now)\<lparr>iLogStd := FD_STDOUT\<rparr>"
  let ?L1 = "put_handle (L\<lparr>lg_malloc := [], lg_ctl := [], lg_next := lg_next L + 1, lg_global := lg_next L, lg_leaked := lg_leaked L + 1\<rparr>)
      (lg_next L) ?h"
  have "take 9 name \<noteq> ''/dev/null''" using name(2) by (cases name) auto
  then have "CreateLogfileHandle L (Some name) level maxsize files now = Inr (lg_next L, ?L1)"
    using name L by (cases L) (simp add: CreateLogfileHandle_def leak_int_def log_ctl_def put_handle_def Let_def)
  moreover have "\<exists>L2. DestroyLogfileHandle ?L1 (lg_next L) = Inr L2 \<and> lg_fds L2 0 = None"
    using L(3) by (simp add: DestroyLogfileHandle_def get_handle_def put_handle_def fresh_handle_def file_close_def Let_def)
  ultimately show ?thesis using stdin by (auto simp: put_handle_def)
qed


lemma stdout_log_closes_stdin_witness:
  "\<exists>p L1 L2. CreateLogfileHandle ((log_demo (fresh_handle ''a'' 0 0 0 0))\<lparr>lg_fds := [0 \<mapsto> 8]\<rparr>) (Some ''stdout'') 5 0 0 0 = Inr (p, L1)
     \<and> lg_fds L1 0 = Some 8 \<and> DestroyLogfileHandle L1 p = Inr L2 \<and> lg_fds L2 0 = None"
  by (rule stdout_log_closes_stdin) (simp_all add: log_demo_def LOG_PATH_LEN_def)

end
