(* ===== verification/Master.thy ===== *)
theory Master
  imports ServerLog Dispatch
begin

text \<open>
  The program of \<open>src/main.c\<close>: the command line, becoming a daemon, the loop of the master process
  that keeps the workers running, and the worker.  What \<open>fork\<close>, \<open>wait\<close>, \<open>getrlimit\<close>
  and \<open>setrlimit\<close> answer are lists.  The calls of the log macros are left out.
\<close>

section \<open>Processes and signals\<close>

datatype signal = SIGPIPE | SIGINT | SIGHUP | SIGQUIT | SIGTTOU | SIGTTIN | SIGCHLD | SIGTERM
datatype disposition = SigDfl | SigIgn | ParentSigHandler | ChildSigHandler

text \<open>A limit is a number or \<open>RLIM_INFINITY\<close> (\<open>None\<close>); a pair is the soft and the hard limit.\<close>

type_synonym limits = "nat option \<times> nat option"

record prog =
  g_sig :: "signal \<Rightarrow> disposition"
  g_nofile :: limits
  g_core :: limits
  g_limit_calls :: "bool list"
  g_session :: bool           \<comment> \<open>whether it leads a session of its own\<close>
  g_umask :: "nat option"     \<comment> \<open>\<open>None\<close>: as inherited\<close>
  g_forks :: "int list"
  g_waits :: "int list"
  g_children :: "int set"     \<comment> \<open>the processes it has forked and not collected\<close>
  g_signalled :: "int set"    \<comment> \<open>those it has sent \<open>SIGTERM\<close>\<close>
  g_log :: log_state
  g_world :: world

definition set_signal :: "prog \<Rightarrow> signal \<Rightarrow> disposition \<Rightarrow> prog" where
  "set_signal g s d = g\<lparr>g_sig := (g_sig g)(s := d)\<rparr>"

definition next_fork :: "prog \<Rightarrow> int \<times> prog" where
  "next_fork g = (case g_forks g of [] \<Rightarrow> (-1, g) | pid # r \<Rightarrow> (pid, g\<lparr>g_forks := r\<rparr>))"

section \<open>Becoming a daemon\<close>

definition SYSTEM_FILE_MAX :: nat where "SYSTEM_FILE_MAX = 1000000"

text \<open>One limit: when the new one is refused, both limits are set to the old hard limit.\<close>

definition raise_limit :: "limits \<Rightarrow> nat option \<Rightarrow> bool list \<Rightarrow> limits \<times> bool list" where
  "raise_limit lim want calls = (let (got, c1) = next_answer calls in
     if \<not> got then (lim, c1)
     else let (ok, c2) = next_answer c1 in
     if ok then ((want, want), c2)
     else let (ok2, c3) = next_answer c2 in (if ok2 then (snd lim, snd lim) else lim, c3))"

definition ignored_signals :: "signal list" where
  "ignored_signals = [SIGINT, SIGHUP, SIGQUIT, SIGPIPE, SIGTTOU, SIGTTIN, SIGCHLD, SIGTERM]"

text \<open>A result of \<open>fork\<close> other than 0 ends the process, a failure as well.\<close>

definition InitDaemonProcess :: "prog \<Rightarrow> prog outcome" where
  "InitDaemonProcess g = (let (nofile, c1) = raise_limit (g_nofile g) (Some SYSTEM_FILE_MAX) (g_limit_calls g);
       (core, c2) = raise_limit (g_core g) None c1;
       g1 = set_signal (g\<lparr>g_nofile := nofile, g_core := core, g_limit_calls := c2\<rparr>) SIGPIPE SigIgn;
       (pid, g2) = next_fork g1 in
     if pid \<noteq> 0 then Inl (Exits 0)
     else let g3 = fold (\<lambda>s g. set_signal g s SigIgn) ignored_signals (g2\<lparr>g_session := True\<rparr>);
              (pid2, g4) = next_fork (set_signal g3 SIGHUP SigIgn) in
       if pid2 \<noteq> 0 then Inl (Exits 0) else Inr (g4\<lparr>g_session := False, g_umask := Some 0\<rparr>))"

section \<open>The master loop\<close>

datatype master_end =
    ForkFailed   \<comment> \<open>the master returns\<close>
  | InWorker     \<comment> \<open>this is the child\<close>
  | WaitFailed
  | Waits        \<comment> \<open>no further answer: the call does not return\<close>

text \<open>One turn: with the number of workers that are missing.  \<open>None\<close>: the loop goes on.\<close>

definition master_turn :: "int \<times> prog \<Rightarrow> master_end option \<times> int \<times> prog" where
  "master_turn = (\<lambda>(iWorkerCount, g).
     if iWorkerCount > 0 then
       (case g_forks g of [] \<Rightarrow> (Some Waits, iWorkerCount, g)
        | pid # r \<Rightarrow> let g1 = g\<lparr>g_forks := r\<rparr> in
            if pid = -1 then (Some ForkFailed, iWorkerCount, g1)
            else if pid = 0 then (Some InWorker, iWorkerCount, g1\<lparr>g_children := {}\<rparr>)
            else (None, iWorkerCount - 1, g1\<lparr>g_children := insert pid (g_children g)\<rparr>))
     else
       (case g_waits g of [] \<Rightarrow> (Some Waits, iWorkerCount, g)
        | pid # r \<Rightarrow> let g1 = g\<lparr>g_waits := r\<rparr> in
            if pid \<noteq> -1 then (None, iWorkerCount + 1, g1\<lparr>g_children := g_children g - {pid}\<rparr>)
            else (Some WaitFailed, iWorkerCount, g1)))"

lemma master_turn_consumes:
  "master_turn (n, g) = (None, n', g') \<Longrightarrow> length (g_forks g') + length (g_waits g') < length (g_forks g) + length (g_waits g)"
  by (auto simp: master_turn_def Let_def split: list.splits if_splits)

function master_loop :: "int \<times> prog \<Rightarrow> master_end \<times> int \<times> prog" where
  "master_loop (n, g) = (case master_turn (n, g) of
       (None, n', g') \<Rightarrow> master_loop (n', g') | (Some e, n', g') \<Rightarrow> (e, n', g'))"
  by pat_completeness auto
termination
  by (relation "measure (\<lambda>(n, g). length (g_forks g) + length (g_waits g))") (auto dest: master_turn_consumes [OF sym])

declare master_loop.simps [simp del]

text \<open>\<open>kill(0, SIGTERM)\<close> reaches every worker.\<close>

definition kill_group :: "prog \<Rightarrow> prog" where
  "kill_group g = g\<lparr>g_signalled := g_signalled g \<union> g_children g\<rparr>"

text \<open>
  What \<open>SIGTERM\<close> does to a process: whether it ends, and to whom it passes the signal.  The master's
  handler signals its group; a worker's only ends the worker.
\<close>

definition on_sigterm :: "prog \<Rightarrow> bool \<times> prog" where
  "on_sigterm g = (case g_sig g SIGTERM of SigIgn \<Rightarrow> (False, g) | SigDfl \<Rightarrow> (True, g)
     | ParentSigHandler \<Rightarrow> (True, kill_group g) | ChildSigHandler \<Rightarrow> (True, g))"

section \<open>The worker\<close>

text \<open>
  The worker replaces the log handle it inherited, creates its event base and runs the event loop.
  The result of \<open>main\<close> is \<open>None\<close> when the loop still runs after the last answer of
  \<open>epoll_wait\<close>.
\<close>

definition worker_main ::
  "prog \<Rightarrow> int \<Rightarrow> int \<Rightarrow> int \<Rightarrow> int \<Rightarrow> (nat \<Rightarrow> FdEvent) \<Rightarrow> epoll_reply list \<Rightarrow> (int option \<times> prog) outcome" where
  "worker_main g now iServerFd iMaxClientsCount epfd junk replies =
     cbind (DestroyLogfileHandle (g_log g) (lg_global (g_log g))) (\<lambda>L1.
     cbind (CreateLogfileHandle L1 (Some (snprintf 1023 (''./log/connsvr-worker-'' @ dec_int (w_pid (g_world g)))))
              5 (1024 * 1024 * 10) 5 now) (\<lambda>(h, L2).
       let g1 = g\<lparr>g_log := L2\<rparr> in
       if h = NULL then Inr (Some (-1), g1)
       else let g2 = set_signal g1 SIGTERM ChildSigHandler in
       cbind (EventBaseCreate (g_world g2) iServerFd iMaxClientsCount epfd junk) (\<lambda>(ep, w).
         if ep = NULL then Inr (Some (-1), g2\<lparr>g_world := w\<rparr>)
         else cbind (ReactorEventDispatchLoop w ep replies) (\<lambda>(ended, w1).
           Inr (if ended then Some 0 else None, g2\<lparr>g_world := w1\<rparr>)))))"

section \<open>main\<close>

fun digits :: "string \<Rightarrow> int \<Rightarrow> int" where
  "digits [] a = a"
| "digits (c # cs) a = (let d = int (of_char c) - 48 in if 0 \<le> d \<and> d \<le> 9 then digits cs (a * 10 + d) else a)"

text \<open>\<open>atoi\<close> is undefined for numbers an \<open>int\<close> does not hold, and for \<open>NULL\<close>.\<close>

definition atoi :: "string option \<Rightarrow> int outcome" where
  "atoi arg = (case arg of None \<Rightarrow> undef NullDeref
     | Some s \<Rightarrow> let t = dropWhile (\<lambda>c. c = CHR '' '') s in
         (case t of [] \<Rightarrow> Inr 0
          | c # cs \<Rightarrow> if c = CHR ''-'' then c_int (- digits cs 0)
              else if c = CHR ''+'' then c_int (digits cs 0) else c_int (digits t 0)))"

text \<open>\<open>argv[argc]\<close> is \<open>NULL\<close>.\<close>

definition arg :: "string list \<Rightarrow> nat \<Rightarrow> string option outcome" where
  "arg argv i = (if i < length argv then Inr (Some (argv ! i))
     else if i = length argv then Inr None else undef OutOfBounds)"

text \<open>The end of the master: the workers are told to end, except after a failed \<open>fork\<close>.\<close>

definition master_done :: "master_end \<Rightarrow> prog \<Rightarrow> int option \<times> prog" where
  "master_done e g = (case e of ForkFailed \<Rightarrow> (Some (-1), g)
     | WaitFailed \<Rightarrow> (Some 0, kill_group g) | _ \<Rightarrow> (None, g))"

text \<open>
  \<open>ip_valid\<close> and \<open>fd\<close> are what the address conversion and \<open>socket()\<close> answer,
  \<open>now\<close> the time, \<open>epfd\<close> and \<open>junk\<close> what the worker's \<open>epoll_create\<close> and
  uncleared memory give.
\<close>

definition server_main ::
  "(string \<Rightarrow> bool) \<Rightarrow> int \<Rightarrow> int \<Rightarrow> int \<Rightarrow> (nat \<Rightarrow> FdEvent) \<Rightarrow> epoll_reply list \<Rightarrow> prog \<Rightarrow> string list
     \<Rightarrow> (int option \<times> prog) outcome" where
  "server_main ip_valid fd now epfd junk replies g argv =
     (if length argv < 5 then Inr (Some (-1), g)
      else cbind (arg argv 2) (\<lambda>a2. cbind (atoi a2) (\<lambda>iServerPort.
      cbind (arg argv 3) (\<lambda>a3. cbind (atoi a3) (\<lambda>n.
      cbind (arg argv 4) (\<lambda>a4. cbind (atoi a4) (\<lambda>iMaxClientsCount.
      cbind (arg argv 5) (\<lambda>a5. cbind (atoi a5) (\<lambda>iDaemon.
        let iWorkerCount = (if n \<le> 0 then 1 else n) in
        cbind (if iDaemon = 1 then InitDaemonProcess g else Inr g) (\<lambda>g1.
        let g2 = set_signal (set_signal g1 SIGCHLD SigDfl) SIGTERM ParentSigHandler in
        cbind (CreateLogfileHandle (g_log g2) (Some ''./log/connsvr.log'') 5 (1024 * 10240) 10 now) (\<lambda>(h, L).
          let g3 = g2\<lparr>g_log := L\<rparr> in
          if h = NULL then Inl (Exits (-1))
          else let (iServerFd, k) = PynServerCreateTcpServer (w_kern (g_world g3)) False (ip_valid (argv ! 1)) iServerPort fd;
                   g4 = g3\<lparr>g_world := put_kern (g_world g3) k\<rparr> in
            if 0 > iServerFd then Inr (Some (-1), g4)
            else (case master_loop (iWorkerCount, g4) of (e, _, g5) \<Rightarrow>
              if e = InWorker then worker_main g5 now iServerFd iMaxClientsCount epfd junk replies
              else Inr (master_done e g5)))))))))))))"

end
