(* ===== verification/MasterProperties.thy ===== *)
theory MasterProperties
  imports Master
begin

text \<open>
  The properties of the master process: the number of its workers, what becomes of them when it ends,
  the command line, and the daemon.
\<close>

section \<open>The loop as a step relation\<close>

text \<open>
  What the kernel may answer: \<open>fork\<close> fails, is in the child, or gives a new process; \<open>wait\<close>
  fails or gives one of the children.
\<close>

definition real_answer :: "int \<times> prog \<Rightarrow> bool" where
  "real_answer s = (case s of (n, g) \<Rightarrow> if n > 0
     then (case g_forks g of [] \<Rightarrow> True | pid # _ \<Rightarrow> pid = -1 \<or> pid = 0 \<or> 0 < pid \<and> pid \<notin> g_children g)
     else (case g_waits g of [] \<Rightarrow> True | pid # _ \<Rightarrow> pid = -1 \<or> pid \<in> g_children g))"

inductive master_step :: "int \<times> prog \<Rightarrow> int \<times> prog \<Rightarrow> bool" where
  turn: "real_answer s \<Longrightarrow> master_turn s = (None, s') \<Longrightarrow> master_step s s'"

text \<open>The steps are the turns of the loop.\<close>

lemma master_steps_loop: "master_step\<^sup>*\<^sup>* s0 s \<Longrightarrow> master_loop s0 = master_loop s"
proof (induction rule: rtranclp_induct)
  case (step s s')
  then show ?case by (cases s, cases s') (auto simp: master_loop.simps elim: master_step.cases)
qed simp

definition workers_ok :: "int \<Rightarrow> int \<times> prog \<Rightarrow> bool" where
  "workers_ok N s \<longleftrightarrow> finite (g_children (snd s)) \<and> 0 \<le> fst s \<and> int (card (g_children (snd s))) + fst s = N"

lemma master_step_workers:
  assumes ok: "workers_ok N s" and st: "master_step s s'"
  shows "workers_ok N s'" "g_signalled (snd s') = g_signalled (snd s)"
proof -
  have r: "real_answer s" and t: "master_turn s = (None, s')" using st by (auto elim: master_step.cases)
  obtain n g where s: "s = (n, g)" by (cases s)
  note ok = ok [unfolded s workers_ok_def, simplified]
  have "workers_ok N s' \<and> g_signalled (snd s') = g_signalled (snd s)"
  proof (cases "0 < n")
    case True
    then obtain pid fs where f: "g_forks g = pid # fs" "pid \<noteq> -1" "pid \<noteq> 0"
        "s' = (n - 1, g\<lparr>g_forks := fs, g_children := insert pid (g_children g)\<rparr>)"
      using t s by (auto simp: master_turn_def Let_def split: list.splits if_splits)
    then have "pid \<notin> g_children g" using r s True by (simp add: real_answer_def)
    then show ?thesis using ok f(4) s True by (simp add: workers_ok_def)
  next
    case False
    then obtain pid ws where f: "g_waits g = pid # ws" "pid \<noteq> -1"
        "s' = (n + 1, g\<lparr>g_waits := ws, g_children := g_children g - {pid}\<rparr>)"
      using t s by (auto simp: master_turn_def Let_def split: list.splits if_splits)
    then have "pid \<in> g_children g" using r s False by (simp add: real_answer_def)
    then have "int (card (g_children g - {pid})) = int (card (g_children g)) - 1"
      using ok card_Suc_Diff1 [of "g_children g" pid] by simp
    then show ?thesis using ok f(3) s by (simp add: workers_ok_def)
  qed
  then show "workers_ok N s'" "g_signalled (snd s') = g_signalled (snd s)" by simp_all
qed

text \<open>Nobody is signalled while the loop runs.\<close>

definition master_ok :: "int \<Rightarrow> int \<times> prog \<Rightarrow> bool" where
  "master_ok N s \<longleftrightarrow> workers_ok N s \<and> g_signalled (snd s) = {}"

interpretation master_workers: invariant_system master_step "workers_ok N" for N
  by unfold_locales (rule master_step_workers)

interpretation master_quiet: invariant_system master_step "master_ok N" for N
  by unfold_locales (use master_step_workers in \<open>fastforce simp: master_ok_def\<close>)

lemma set_signal_simps [simp]: "g_sig (set_signal g s d) = (g_sig g)(s := d)" "g_forks (set_signal g s d) = g_forks g"
  by (simp_all add: set_signal_def)

lemma fold_set_signal:
  "g_sig (fold (\<lambda>s g. set_signal g s SigIgn) ss g) = (\<lambda>s. if s \<in> set ss then SigIgn else g_sig g s)"
  "g_forks (fold (\<lambda>s g. set_signal g s SigIgn) ss g) = g_forks g"
  by (induction ss arbitrary: g) (auto simp: fun_eq_iff)

section \<open>The properties\<close>

text \<open>C22: in every state the master's loop reaches, the workers that run and those still to be started
  make up the requested number; while the master waits, all of them run, and a worker that ends is
  replaced.
\<close>

theorem workers_are_replaced:
  assumes "master_step\<^sup>*\<^sup>* (N, g0) (n, g)" "0 \<le> N" "g_children g0 = {}"
  shows "master_loop (N, g0) = master_loop (n, g) \<and> finite (g_children g) \<and> 0 \<le> n
     \<and> int (card (g_children g)) = N - n"
proof -
  have "workers_ok N (N, g0)" using assms(2,3) by (simp add: workers_ok_def)
  then show ?thesis
    using master_workers.reachable_inv [OF assms(1)] master_steps_loop [OF assms(1)] by (simp add: workers_ok_def)
qed

definition demo_prog :: "int list \<Rightarrow> int list \<Rightarrow> prog \<Rightarrow> prog" where
  "demo_prog forks waits g = g\<lparr>g_forks := forks, g_waits := waits, g_children := {}, g_signalled := {}\<rparr>"

lemma workers_are_replaced_witness:
  "\<forall>g. \<exists>g'. master_step\<^sup>*\<^sup>* (2, demo_prog [101, 102, 103] [101] g) (0, g') \<and> g_children g' = {102, 103}
     \<and> int (card (g_children g')) = 2 - 0"
proof
  fix g :: prog
  let ?g0 = "demo_prog [101, 102, 103] [101] g"
  let ?g1 = "?g0\<lparr>g_forks := [102, 103], g_children := {101}\<rparr>"
  let ?g2 = "?g0\<lparr>g_forks := [103], g_children := {102, 101}\<rparr>"
  let ?g3 = "?g0\<lparr>g_forks := [103], g_waits := [], g_children := {102, 101} - {101}\<rparr>"
  let ?g4 = "?g0\<lparr>g_forks := [], g_waits := [], g_children := insert 103 ({102, 101} - {101})\<rparr>"
  have "master_step\<^sup>*\<^sup>* (2, ?g0) (1, ?g1)"
    by (intro r_into_rtranclp master_step.turn) (simp_all add: demo_prog_def real_answer_def master_turn_def)
  then have "master_step\<^sup>*\<^sup>* (2, ?g0) (0, ?g2)"
    by (rule rtranclp.rtrancl_into_rtrancl, intro master_step.turn) (simp_all add: demo_prog_def real_answer_def master_turn_def)
  then have "master_step\<^sup>*\<^sup>* (2, ?g0) (1, ?g3)"
    by (rule rtranclp.rtrancl_into_rtrancl, intro master_step.turn) (simp_all add: demo_prog_def real_answer_def master_turn_def)
  then have r: "master_step\<^sup>*\<^sup>* (2, ?g0) (0, ?g4)"
    by (rule rtranclp.rtrancl_into_rtrancl, intro master_step.turn) (simp_all add: demo_prog_def real_answer_def master_turn_def)
  have "int (card (g_children ?g4)) = 2 - 0"
    using workers_are_replaced [OF r] by (simp add: demo_prog_def)
  then show "\<exists>g'. master_step\<^sup>*\<^sup>* (2, ?g0) (0, g') \<and> g_children g' = {102, 103} \<and> int (card (g_children g')) = 2 - 0"
    using r by (intro exI [of _ ?g4]) auto
qed

text \<open>
  When \<open>wait\<close> fails, every running worker is told to end; when \<open>fork\<close> fails, the master
  returns as well, but the workers it has started are not told and go on.
\<close>

theorem fork_failure_abandons_workers:
  assumes "master_step\<^sup>*\<^sup>* (N, g0) (n, g)" "0 \<le> N" "g_children g0 = {}" "g_signalled g0 = {}"
    and "master_turn (n, g) = (Some e, n', g')" "master_done e g' = (r, g2)"
  shows "(e = WaitFailed \<longrightarrow> r = Some 0 \<and> g_signalled g2 = g_children g \<and> int (card (g_signalled g2)) = N)
     \<and> (e = ForkFailed \<longrightarrow> r = Some (-1) \<and> g_signalled g2 = {} \<and> g_children g2 = g_children g
          \<and> int (card (g_children g2)) = N - n)"
proof -
  have "master_ok N (N, g0)" using assms(2-4) by (simp add: workers_ok_def master_ok_def)
  then have "master_ok N (n, g)" by (rule master_quiet.reachable_inv [OF assms(1)])
  then have w: "workers_ok N (n, g)" "g_signalled g = {}" by (simp_all add: master_ok_def)
  then show ?thesis
    using assms(5,6)
    by (auto simp: workers_ok_def master_turn_def master_done_def kill_group_def Let_def split: list.splits if_splits)
qed

lemma fork_failure_abandons_workers_witness:
  "\<forall>g. \<exists>g2. master_done ForkFailed ((demo_prog [] [] g)\<lparr>g_children := {101}\<rparr>) = (Some (-1), g2)
     \<and> g_children g2 = {101} \<and> g_signalled g2 = {}"
proof
  fix g :: prog
  let ?g0 = "demo_prog [101, -1] [] g"
  let ?g1 = "?g0\<lparr>g_forks := [-1], g_children := {101}\<rparr>"
  let ?g2 = "(demo_prog [] [] g)\<lparr>g_children := {101}\<rparr>"
  have r: "master_step\<^sup>*\<^sup>* (2, ?g0) (1, ?g1)"
    by (intro r_into_rtranclp master_step.turn) (simp_all add: demo_prog_def real_answer_def master_turn_def)
  have t: "master_turn (1, ?g1) = (Some ForkFailed, 1, ?g2)" by (simp add: master_turn_def demo_prog_def)
  have d: "master_done ForkFailed ?g2 = (Some (-1), ?g2)" by (simp add: master_done_def)
  show "\<exists>g2. master_done ForkFailed ?g2 = (Some (-1), g2) \<and> g_children g2 = {101} \<and> g_signalled g2 = {}"
    using fork_failure_abandons_workers [OF r _ _ _ t d] d by (simp add: demo_prog_def)
qed

text \<open>
  With exactly four arguments, which the test of \<open>argc\<close> lets pass, the server follows the
  null pointer at the end of \<open>argv\<close>.
\<close>

theorem missing_daemon_argument_crashes:
  assumes "length argv = 5" "\<forall>i \<in> {2, 3, 4}. \<exists>n. atoi (Some (argv ! i)) = Inr n"
  shows "server_main ip_valid fd now epfd junk replies g argv = undef NullDeref"
  using assms by (auto simp: server_main_def arg_def atoi_def [of None])

lemma missing_daemon_argument_crashes_witness:
  "\<forall>g. server_main (\<lambda>_. True) 3 0 4 (\<lambda>_. empty_slot) [] g [''srv'', ''127.0.0.1'', ''5113'', ''4'', ''100''] = undef NullDeref"
  by (intro allI missing_daemon_argument_crashes) (simp_all add: atoi_def c_int_def INT_MAX_def)

text \<open>
  Becoming a daemon goes on only in the grandchild: then every signal of the list is ignored, so
  that \<open>SIGCHLD\<close> has to be restored before the master can wait; any other result of one of the
  two forks, a failure too, ends the process with status 0.
\<close>


theorem daemon_is_grandchild:
  assumes "g_forks g = pid # pid2 # rest"
  shows "InitDaemonProcess g = Inl (Exits 0) \<and> (pid \<noteq> 0 \<or> pid2 \<noteq> 0)
   \<or> (\<exists>g'. InitDaemonProcess g = Inr g' \<and> pid = 0 \<and> pid2 = 0 \<and> (\<forall>s. g_sig g' s = SigIgn) \<and> g_forks g' = rest
        \<and> g_umask g' = Some 0)"
proof -
  obtain nf c1 where 1: "raise_limit (g_nofile g) (Some SYSTEM_FILE_MAX) (g_limit_calls g) = (nf, c1)" by fastforce
  obtain co c2 where 2: "raise_limit (g_core g) None c1 = (co, c2)" by fastforce
  have all: "s \<in> set ignored_signals" for s by (cases s) (simp_all add: ignored_signals_def)
  show ?thesis
    using assms all by (simp add: InitDaemonProcess_def 1 2 next_fork_def Let_def fold_set_signal)
qed

lemma daemon_is_grandchild_witness:
  "\<forall>g. \<exists>g'. InitDaemonProcess (demo_prog [0, 0] [] g) = Inr g' \<and> g_sig g' SIGCHLD = SigIgn"
proof
  fix g :: prog
  have "g_forks (demo_prog [0, 0] [] g) = 0 # 0 # []" by (simp add: demo_prog_def)
  then show "\<exists>g'. InitDaemonProcess (demo_prog [0, 0] [] g) = Inr g' \<and> g_sig g' SIGCHLD = SigIgn"
    using daemon_is_grandchild by blast
qed

end
