(* ===== verification/ServerStart.thy ===== *)
theory ServerStart
  imports TimeoutService MasterProperties LogProperties
begin

text \<open>
  The start of a worker (\<open>main.c\<close>, \<open>EventBaseCreate\<close> of \<open>src/reactor.c\<close>): after
  it the server is in the order that the results about connections require.
\<close>

lemma fresh_base_sync:
  assumes "k_interest (w_kern w) = (\<lambda>_. None)" "\<And>i. iMask (junk i) = 0"
    and "w_base w' = Some ((fresh_base n epfd junk pid now)\<lparr>iListenFd := fd, iEpType := ty\<rparr>)" "w_kern w' = w_kern w"
  shows "in_sync (slot_mask w') (watched_by_kernel w')" "timers_ok w' []"
    "usable_fds w' = {x. 0 \<le> x \<and> x < n \<and> sock_is_open (w_kern w) x \<and> k_ctl (w_kern w) = []}"
  using assms
  by (auto simp: in_sync_def slot_mask_def watched_by_kernel_def fresh_base_def timers_ok_def heap_ok_def heap_rep_def
      heap_shape_def MinheapCreate_def INT_MAX_def usable_fds_def)

abbreviation listen_base :: "world \<Rightarrow> int \<Rightarrow> int \<Rightarrow> int \<Rightarrow> (nat \<Rightarrow> FdEvent) \<Rightarrow> EventBase" where
  "listen_base w fd n epfd junk \<equiv> (fresh_base n epfd junk (w_pid w) (w_now w))\<lparr>iListenFd := fd, iEpType := EPOLL_LT_TYPE\<rparr>"

lemma EventBaseCreate_form:
  assumes fd: "0 \<le> fd" "fd < n" "0 \<le> epfd" "sock_is_open (w_kern w) fd"
    and w: "w_malloc w = []" "k_ctl (w_kern w) = []" "k_interest (w_kern w) = (\<lambda>_. None)" and junk: "\<And>i. iMask (junk i) = 0"
    and eb: "eb = listen_base w fd n epfd junk" and sl: "sl = slot_with (junk (nat fd)) EVENT_READABLE AcceptProc NULL"
  obtains k where "EventBaseCreate w fd n epfd junk = Inr (1, reslot (put_base w eb) eb fd sl k)"
    "interest_upd (w_kern w) k fd EVENT_READABLE" "in_sync (slot_mask (reslot (put_base w eb) eb fd sl k)) (k_interest k)"
    "usable_fds (reslot (put_base w eb) eb fd sl k) = {x. 0 \<le> x \<and> x < n \<and> sock_is_open (w_kern w) x}"
    "timers_ok (reslot (put_base w eb) eb fd sl k) []"
proof -
  let ?w = "put_base w eb"
  have mal: "ask_malloc w = (True, w)" using w(1) by (cases w) (simp add: ask_malloc_def)
  have f: "in_sync (slot_mask ?w) (watched_by_kernel ?w)" "timers_ok ?w []"
      "usable_fds ?w = {x. 0 \<le> x \<and> x < n \<and> sock_is_open (w_kern w) x \<and> k_ctl (w_kern w) = []}"
    using fresh_base_sync [where junk = junk and w' = ?w, OF w(3) junk] by (simp_all add: put_base_def eb)
  have us: "fd \<in> usable_fds ?w" using f(3) fd w(2) by simp
  have at: "get_slot eb fd = Inr (junk (nat fd))" using fd by (simp add: get_slot_def fresh_base_def eb)
  have step: "EventBaseCreate w fd n epfd junk = cbind (EventAdd ?w 1 fd EVENT_READABLE AcceptProc NULL)
      (\<lambda>(r, w3). if r = RET_FAIL then Inr (NULL, w3) else Inr (1, w3))"
    using fd mal by (simp add: EventBaseCreate_def CreateNewEventBase_def Let_def put_base_def eb del: One_nat_def)
  have rd: "EVENT_READABLE \<noteq> 0" by (simp add: EVENT_READABLE_def)
  obtain k where k: "EventAdd ?w 1 fd EVENT_READABLE AcceptProc NULL = Inr (RET_SUCC, reslot ?w eb fd sl k)"
      "interest_upd (w_kern ?w) k fd EVENT_READABLE"
    using EventAdd_form [OF f(1) us _ rd _ at, of 1 AcceptProc NULL] junk sl by (auto simp: add_bits_def)
  obtain w'' where "EventAdd ?w 1 fd EVENT_READABLE AcceptProc NULL = Inr (RET_SUCC, w'')"
      "in_sync (slot_mask w'') (watched_by_kernel w'')" "usable_fds w'' = usable_fds ?w"
    using EventAdd_sync [OF f(1) us rd, of 1 AcceptProc NULL] by auto
  then have sy: "in_sync (slot_mask (reslot ?w eb fd sl k)) (k_interest k)" "usable_fds (reslot ?w eb fd sl k) = usable_fds ?w"
    using k(1) by (simp_all add: watched_by_kernel_def)
  have tm: "timers_ok (reslot ?w eb fd sl k) []"
    using f(2) timers_ok_cong [of "reslot ?w eb fd sl k" ?w "[]"] by (simp add: put_slot_def)
  show thesis by (rule that [OF _ _ sy(1) _ tm]) (use step k sy(2) f(3) w(2) in simp_all)
qed

lemma EventBaseCreate_serves:
  assumes fd: "0 \<le> fd" "fd < n" "0 \<le> epfd" "sock_is_open (w_kern w) fd"
    and w: "w_malloc w = []" "k_ctl (w_kern w) = []" "k_interest (w_kern w) = (\<lambda>_. None)" and junk: "\<And>i. iMask (junk i) = 0"
  shows "\<exists>w' eb. EventBaseCreate w fd n epfd junk = Inr (1, w') \<and> server_ok w' [] {}
     \<and> watched_by_kernel w' = [fd \<mapsto> EPOLLIN] \<and> w_base w' = Some eb \<and> iListenFd eb = fd \<and> iStopSign eb = 0
     \<and> usable_fds w' = {x. 0 \<le> x \<and> x < n \<and> sock_is_open (w_kern w) x}"
proof -
  let ?eb = "listen_base w fd n epfd junk" and ?sl = "slot_with (junk (nat fd)) EVENT_READABLE AcceptProc NULL"
  obtain k where k: "EventBaseCreate w fd n epfd junk = Inr (1, reslot (put_base w ?eb) ?eb fd ?sl k)"
    "interest_upd (w_kern w) k fd EVENT_READABLE" "in_sync (slot_mask (reslot (put_base w ?eb) ?eb fd ?sl k)) (k_interest k)"
    "usable_fds (reslot (put_base w ?eb) ?eb fd ?sl k) = {x. 0 \<le> x \<and> x < n \<and> sock_is_open (w_kern w) x}"
    "timers_ok (reslot (put_base w ?eb) ?eb fd ?sl k) []"
    by (rule EventBaseCreate_form [OF fd w junk refl refl])
  let ?w' = "reslot (put_base w ?eb) ?eb fd ?sl k"
  have "server_ok ?w' [] {}" using k(3,5) by (simp add: server_ok_def watched_by_kernel_def)
  moreover have "watched_by_kernel ?w' = [fd \<mapsto> EPOLLIN]"
    using k(2) w(3) by (simp add: watched_by_kernel_def interest_upd_def fun_eq_iff)
      (simp add: epoll_events_def EVENT_READABLE_def EVENT_WRITABLE_def EPOLLIN_def)
  ultimately show ?thesis
    using k(1,4) by (intro exI [of _ ?w'] exI [of _ "put_slot ?eb fd ?sl"]) (simp add: put_slot_def fresh_base_def)
qed

section \<open>The start of a worker\<close>

definition worker_log_name :: "int \<Rightarrow> string" where
  "worker_log_name pid = ''./log/connsvr-worker-'' @ dec_int pid"

lemma worker_log_name:
  assumes "0 \<le> pid" "pid \<le> INT_MAX"
  shows "snprintf 1023 (worker_log_name pid) = worker_log_name pid" "length (worker_log_name pid) < LOG_PATH_LEN"
    "take 9 (worker_log_name pid) \<noteq> ''/dev/null''" "take 6 (worker_log_name pid) \<noteq> ''stdout''"
proof -
  have "nat pid < 10 ^ Suc 9" using assms by (simp add: INT_MAX_def)
  then have "length (dec_int pid) \<le> 10" using length_dec [of "nat pid" 9] assms(1) by (simp add: dec_int_def)
  then show "snprintf 1023 (worker_log_name pid) = worker_log_name pid" "length (worker_log_name pid) < LOG_PATH_LEN"
    by (simp_all add: worker_log_name_def snprintf_def LOG_PATH_LEN_def)
qed (simp_all add: worker_log_name_def)

text \<open>What the fork leaves a worker with, when nothing is refused to it.\<close>

definition worker_forked :: "prog \<Rightarrow> int \<Rightarrow> int \<Rightarrow> bool" where
  "worker_forked g fd n \<longleftrightarrow> (let L = g_log g; w = g_world g in
     (\<exists>h. get_handle L (lg_global L) = Inr h) \<and> lg_malloc L = [] \<and> lg_ctl L = [] \<and> lg_next L \<noteq> NULL
     \<and> lg_opens L \<noteq> [] \<and> 0 < hd (lg_opens L) \<and> lg_fds L (hd (lg_opens L)) = None
     \<and> 0 \<le> w_pid w \<and> w_pid w \<le> INT_MAX \<and> w_malloc w = [] \<and> k_ctl (w_kern w) = [] \<and> k_interest (w_kern w) = (\<lambda>_. None)
     \<and> 0 \<le> fd \<and> fd < n \<and> sock_is_open (w_kern w) fd)"

definition serving_prog :: "prog \<Rightarrow> log_state \<Rightarrow> world \<Rightarrow> prog" where
  "serving_prog g L w = (set_signal (g\<lparr>g_log := L\<rparr>) SIGTERM ChildSigHandler)\<lparr>g_world := w\<rparr>"

lemma serving_prog_simps [simp]:
  "g_world (serving_prog g L w) = w" "g_log (serving_prog g L w) = L" "g_sig (serving_prog g L w) SIGTERM = ChildSigHandler"
  by (simp_all add: serving_prog_def set_signal_def)

text \<open>A worker first opens its log, then makes its event base, and runs the loop.\<close>

lemma worker_main_form:
  assumes w: "worker_forked g fd n"
  obtains L2 h k where "\<forall>epfd junk replies. worker_main g now fd n epfd junk replies =
       cbind (EventBaseCreate (g_world g) fd n epfd junk) (\<lambda>(ep, w).
         if ep = NULL then Inr (Some (-1), serving_prog g L2 w)
         else cbind (ReactorEventDispatchLoop w ep replies) (\<lambda>(ended, w1).
           Inr (if ended then Some 0 else None, serving_prog g L2 w1)))"
    "log_file L2 (lg_global L2) h k" "szLogFilename h = worker_log_name (w_pid (g_world g))"
proof -
  let ?L = "g_log g" and ?name = "worker_log_name (w_pid (g_world g))"
  obtain h0 where h0: "get_handle ?L (lg_global ?L) = Inr h0" using w by (auto simp: worker_forked_def Let_def)
  let ?L1 = "?L\<lparr>lg_fds := if 0 \<le> iLogFd h0 then (lg_fds ?L)(iLogFd h0 := None) else lg_fds ?L,
    lg_handles := (lg_handles ?L)(lg_global ?L := None), lg_global := NULL\<rparr>"
  have pid: "0 \<le> w_pid (g_world g)" "w_pid (g_world g) \<le> INT_MAX" using w by (simp_all add: worker_forked_def Let_def)
  note name = worker_log_name [OF pid]
  have L1: "lg_malloc ?L1 = []" "lg_ctl ?L1 = []" "lg_next ?L1 \<noteq> NULL" "lg_opens ?L1 = hd (lg_opens ?L1) # tl (lg_opens ?L)"
      "0 < hd (lg_opens ?L)" "lg_fds ?L1 (hd (lg_opens ?L)) = None"
    using w by (auto simp: worker_forked_def Let_def)
  obtain L2 h k where L2: "CreateLogfileHandle ?L1 (Some ?name) 5 (1024 * 1024 * 10) 5 now = Inr (lg_next ?L1, L2)"
      "h = (fresh_handle ?name 5 (1024 * 1024 * 10) 5 now)\<lparr>iLogFd := hd (lg_opens ?L)\<rparr>"
      "log_file L2 (lg_next ?L1) h k" "lg_global L2 = lg_next ?L1"
    by (rule create_log_form [OF name(2-4) L1(1-3) _ L1(5,6), where level = 5 and maxsize = "1024 * 1024 * 10" and files = 5 and now = now])
       (use L1(4) in auto)
  have name': "snprintf 1023 (''./log/connsvr-worker-'' @ dec_int (w_pid (g_world g))) = ?name"
    using name(1) by (simp add: worker_log_name_def)
  show thesis
  proof (rule that)
    show "log_file L2 (lg_global L2) h k" using L2(3,4) by simp
    show "szLogFilename h = ?name" by (simp add: L2(2) fresh_handle_def)
    show "\<forall>epfd junk replies. worker_main g now fd n epfd junk replies =
       cbind (EventBaseCreate (g_world g) fd n epfd junk) (\<lambda>(ep, w).
         if ep = NULL then Inr (Some (-1), serving_prog g L2 w)
         else cbind (ReactorEventDispatchLoop w ep replies) (\<lambda>(ended, w1).
           Inr (if ended then Some 0 else None, serving_prog g L2 w1)))"
      unfolding worker_main_def destroy_log_form [OF h0] cbind_simps name' L2(1)
      using L1(3) by (simp add: serving_prog_def set_signal_def Let_def cong: if_cong)
  qed
qed

text \<open>C23: a worker that is refused nothing, and whose uncleared event slots happen to be zero, starts in
  order: it writes to a log of its own, ends alone on \<open>SIGTERM\<close>, watches exactly the listening socket,
  and is in the state that the results about connections require, with no connection yet.
\<close>

theorem worker_starts_serving:
  assumes w: "worker_forked g fd n" and ep: "0 \<le> epfd" and junk: "\<forall>i. iMask (junk i) = 0"
  shows "\<exists>g' h k. worker_main g now fd n epfd junk [] = Inr (None, g') \<and> server_ok (g_world g') [] {}
     \<and> watched_by_kernel (g_world g') = [fd \<mapsto> EPOLLIN] \<and> g_sig g' SIGTERM = ChildSigHandler
     \<and> log_file (g_log g') (lg_global (g_log g')) h k \<and> szLogFilename h = worker_log_name (w_pid (g_world g))"
proof -
  obtain L2 h k where f: "\<forall>epfd junk replies. worker_main g now fd n epfd junk replies =
       cbind (EventBaseCreate (g_world g) fd n epfd junk) (\<lambda>(ep, w).
         if ep = NULL then Inr (Some (-1), serving_prog g L2 w)
         else cbind (ReactorEventDispatchLoop w ep replies) (\<lambda>(ended, w1).
           Inr (if ended then Some 0 else None, serving_prog g L2 w1)))"
    "log_file L2 (lg_global L2) h k" "szLogFilename h = worker_log_name (w_pid (g_world g))"
    by (rule worker_main_form [OF w, where now = now])
  obtain w' eb where w': "EventBaseCreate (g_world g) fd n epfd junk = Inr (1, w')" "server_ok w' [] {}"
      "watched_by_kernel w' = [fd \<mapsto> EPOLLIN]" "w_base w' = Some eb" "iStopSign eb = 0"
    using EventBaseCreate_serves [of fd n epfd "g_world g" junk] w ep junk by (auto simp: worker_forked_def Let_def)
  let ?g' = "serving_prog g L2 w'"
  have loop: "ReactorEventDispatchLoop w' 1 [] = Inr (False, w')"
    using w'(4,5) by (simp add: ReactorEventDispatchLoop.simps)
  have "worker_main g now fd n epfd junk [] = Inr (None, ?g')"
    using f(1) w'(1) loop by (simp del: One_nat_def)
  then show ?thesis
    using w'(2,3) f(2,3) by (intro exI [of _ ?g'] exI [of _ h] exI [of _ k]) simp
qed

definition forked_worker :: prog where
  "forked_worker = \<lparr>g_sig = (\<lambda>_. SigDfl), g_nofile = (None, None), g_core = (None, None), g_limit_calls = [], g_session = False,
     g_umask = None, g_forks = [], g_waits = [], g_children = {}, g_signalled = {}, g_log = log_demo (fresh_handle ''a'' 5 0 3 0),
     g_world = \<lparr>w_base = None, w_conns = (\<lambda>_. None), w_tevs = (\<lambda>_. None), w_mem = (\<lambda>_. None), w_next = 1, w_malloc = [],
       w_junk = (\<lambda>_. 0), w_pid = 77, w_now = Timeval 0 0,
       w_kern = \<lparr>k_socks = [3 \<mapsto> new_sock], k_interest = (\<lambda>_. None), k_ctl = []\<rparr>\<rparr>\<rparr>"

lemma worker_starts_serving_witness:
  "\<exists>g'. worker_main forked_worker 0 3 100 4 (\<lambda>_. empty_slot) [] = Inr (None, g') \<and> server_ok (g_world g') [] {}
     \<and> watched_by_kernel (g_world g') = [3 \<mapsto> EPOLLIN]"
proof -
  have "worker_forked forked_worker 3 100"
    by (simp add: worker_forked_def forked_worker_def log_demo_def get_handle_def INT_MAX_def sock_is_open_def)
  then show ?thesis
    using worker_starts_serving [of forked_worker 3 100 4 "\<lambda>_. empty_slot" 0] by (auto simp: empty_slot_def)
qed

end
