(* ===== verification/HarmlessStreams.thy ===== *)
theory HarmlessStreams
  imports PacketFlow
begin

text \<open>
  The byte streams of clients as the read handler cuts them into packets, and which streams do not
  lead the server into an undefined access: a client may send anything, broken packets and unknown
  commands included, but no packet of the test command and no echo request that is longer than the
  send buffer.
\<close>

definition head_len :: "buf \<Rightarrow> int" where
  "head_len bs = sint (ntohl_bytes (take 4 (drop 1 bs)))"

text \<open>The heads the read handler accepts.\<close>

definition good_head :: "buf \<Rightarrow> bool" where
  "good_head bs \<longleftrightarrow> 5 \<le> length bs \<and> bs ! 0 = PROTO_SOH \<and> 13 < head_len bs \<and> head_len bs \<le> PACKET_MAX_LEN"

definition packet_cmd :: "buf \<Rightarrow> u32" where
  "packet_cmd pkt = ntohl_bytes (take 4 (drop 5 pkt))"

text \<open>A packet without the end mark is dropped before its command is looked at.\<close>

definition harmless_packet :: "buf \<Rightarrow> bool" where
  "harmless_packet pkt \<longleftrightarrow> pkt ! (length pkt - 1) \<noteq> PROTO_EOT
     \<or> packet_cmd pkt \<noteq> CMD_TEST_VALUE \<and> (packet_cmd pkt = CMD_TEST_ECHO \<longrightarrow> int (length pkt) \<le> MAX_TCP_BUF_SIZE)"

text \<open>
  The stream is cut at the lengths its heads announce.  A head that is not accepted ends the
  connection, so that what follows it does not matter.
\<close>

function harmless_stream :: "buf \<Rightarrow> bool" where
  "harmless_stream bs = (if good_head bs \<and> head_len bs \<le> int (length bs)
     then harmless_packet (take (nat (head_len bs)) bs) \<and> harmless_stream (drop (nat (head_len bs)) bs)
     else True)"
  by pat_completeness auto
termination
  by (relation "measure length") (auto simp: good_head_def)

declare harmless_stream.simps [simp del]

lemma harmless_stream_Nil [simp]: "harmless_stream []"
  by (simp add: harmless_stream.simps good_head_def)

lemma head_len_append: "5 \<le> length xs \<Longrightarrow> head_len (xs @ ys) = head_len xs"
  by (simp add: head_len_def)

lemma good_head_append: "5 \<le> length xs \<Longrightarrow> good_head (xs @ ys) = good_head xs"
  by (auto simp: good_head_def head_len_append nth_append)

text \<open>When a packet is complete it is harmless, and so is the rest of the stream.\<close>

lemma harmless_stream_packet:
  assumes "harmless_stream (pkt @ rest)" "good_head pkt" "head_len pkt = int (length pkt)"
  shows "harmless_packet pkt" "harmless_stream rest"
proof -
  have "5 \<le> length pkt" using assms(2) by (simp add: good_head_def)
  then have "good_head (pkt @ rest)" "head_len (pkt @ rest) = int (length pkt)"
    using assms(2,3) good_head_append head_len_append by simp_all
  then show "harmless_packet pkt" "harmless_stream rest"
    using assms(1) harmless_stream.simps [of "pkt @ rest"] by simp_all
qed

section \<open>Receiving, whatever arrives\<close>

lemma kept_outside_block:
  assumes k: "kept_outside m m' b lo hi" and sz: "mem_sized m m'" and c: "c \<noteq> b"
  shows "m' c = m c"
proof (cases "m c")
  case None
  then have "map_option length (m' c) = None" using sz by (simp add: mem_sized_def)
  then show ?thesis using None by simp
next
  case (Some bs)
  then have "mem_at m c 0 bs" by (simp add: mem_at_iff)
  then have "mem_at m' c 0 bs" by (rule kept_outsideD [OF k]) (use c in simp)
  moreover have "map_option length (m' c) = Some (length bs)" using sz Some by (simp add: mem_sized_def)
  then obtain bs' where "m' c = Some bs'" "length bs' = length bs" by auto
  ultimately show ?thesis using Some by (simp add: mem_at_iff)
qed

lemma RecvData_result:
  assumes "0 \<le> fd" "k_socks (w_kern w) fd = Some so" "mem_room (w_mem w) b (off + need)" "0 \<le> off" "0 \<le> need"
  obtains r m s where "PynServerRecvData w fd (Ptr b off) need = Inr (r, received w fd so m s)"
    "r \<le> need" "mem_sized (w_mem w) m" "\<And>c. c \<noteq> b \<Longrightarrow> m c = w_mem w c" "kept_outside (w_mem w) m b off (off + need)"
    "0 < r \<Longrightarrow> \<exists>bs. int (length bs) = r \<and> mem_at m b off bs \<and> arriving (s_in so) = bs @ arriving s"
proof -
  obtain r m s where r: "recv_loop (w_mem w) (Ptr b off) 0 need (s_in so) = Inr (r, m, s)"
    "recv_result (w_mem w) b off 0 need (s_in so) r m s"
    using recv_loop_result [OF assms(3,4) order_refl assms(5)] by blast
  have k: "mem_sized (w_mem w) m" "kept_outside (w_mem w) m b off (off + need)"
    using r(2) by (simp_all add: recv_result_def)
  show thesis
  proof (rule that [of r m s, OF _ _ k(1) _ k(2)])
    show "PynServerRecvData w fd (Ptr b off) need = Inr (r, received w fd so m s)"
      using assms(1,2) r(1) by (simp add: PynServerRecvData_def received_def)
    show "\<And>c. c \<noteq> b \<Longrightarrow> m c = w_mem w c" using kept_outside_block [OF k(2,1)] by blast
    show "0 < r \<Longrightarrow> \<exists>bs. int (length bs) = r \<and> mem_at m b off bs \<and> arriving (s_in so) = bs @ arriving s"
      using r(2) by (auto simp: recv_result_def)
    show "r \<le> need" using r(2) by (simp add: recv_result_def)
  qed
qed

end
