(* ===== verification/LiveServer.thy ===== *)
theory LiveServer
  imports HarmlessStreams TimeoutService AcceptConn
begin

text \<open>
  The invariant of a running worker.  It ties the connections, their buffers, timers and slots, the
  listening socket, the clients that wait to be accepted and the bytes that are still to come
  together; \<open>live_change\<close> says what an operation that touches one connection has to show to keep
  it.
\<close>

section \<open>The invariant\<close>

abbreviation conn_of :: "world \<Rightarrow> nat \<Rightarrow> ConnFd" where
  "conn_of w p \<equiv> the (w_conns w p)"

definition clock :: "world \<Rightarrow> timeval option" where
  "clock w = (case w_base w of None \<Rightarrow> None | Some eb \<Rightarrow> pstTimeCache eb)"

definition restart_time :: "timeval \<Rightarrow> timeval" where
  "restart_time now = minheap_timeradd now (interval_of MAX_CONN_TIMEOUT)"

text \<open>The slot of a client: read by \<open>ProcessRecvCallback\<close>, written by \<open>ProcessSendCallback\<close>.\<close>

definition owns_slot :: "world \<Rightarrow> int \<Rightarrow> nat \<Rightarrow> bool" where
  "owns_slot w fd p \<longleftrightarrow> (case slot_at w fd of None \<Rightarrow> False | Some sl \<Rightarrow> pstArg sl = p \<and> pFunEventCallbackRead sl = RecvProc
     \<and> (iMask sl = EVENT_READABLE \<or> iMask sl = EVENT_READABLE OR EVENT_WRITABLE \<and> pFunEventCallbackWrite sl = SendProc))"

definition conn_core :: "world \<Rightarrow> nat \<Rightarrow> ConnFd \<Rightarrow> bool" where
  "conn_core w p c \<longleftrightarrow> 5 \<le> iRecvTotalLen c \<and> iSendTotalLen c = MAX_TCP_BUF_SIZE
     \<and> 0 \<le> iSendCurLen c \<and> iSendPacketLen c \<le> MAX_TCP_BUF_SIZE \<and> owns_slot w (iFd c) p
     \<and> p < w_next w \<and> pstTimeoutEvent c < w_next w \<and> (\<forall>b \<in> conn_blocks c. b < w_next w)
     \<and> (\<exists>now. clock w = Some now \<and> due_of w p \<le> restart_time now)"

text \<open>
  The connection waits for the rest of a head or of a packet whose head has been accepted, and what
  it has received and will receive is harmless.
\<close>

definition recv_ready :: "world \<Rightarrow> ConnFd \<Rightarrow> bool" where
  "recv_ready w c \<longleftrightarrow> (\<exists>got so. k_socks (w_kern w) (iFd c) = Some so
     \<and> mem_at (w_mem w) (block_of (pszRecvBuf c)) 0 got \<and> int (length got) = iRecvCurLen c
     \<and> harmless_stream (got @ arriving (s_in so))
     \<and> (5 \<le> iRecvCurLen c \<longrightarrow> good_head got \<and> iPacketLen c = head_len got
          \<and> iRecvCurLen c < iPacketLen c \<and> iPacketLen c \<le> iRecvTotalLen c))"

definition process_ok :: "world \<Rightarrow> bool" where
  "process_ok w \<longleftrightarrow> w_malloc w = [] \<and> w_next w \<noteq> NULL \<and> k_ctl (w_kern w) = [] \<and> heap_cap w \<le> 16
     \<and> (case w_base w of None \<Rightarrow> False | Some eb \<Rightarrow> iEpType eb = EPOLL_LT_TYPE \<and> iStopSign eb = 0)
     \<and> (case clock w of None \<Rightarrow> False | Some now \<Rightarrow> tv_normal now)"

definition listen_fd :: "world \<Rightarrow> int" where
  "listen_fd w = (case w_base w of None \<Rightarrow> -1 | Some eb \<Rightarrow> iListenFd eb)"

definition listens :: "world \<Rightarrow> nat set \<Rightarrow> bool" where
  "listens w ids \<longleftrightarrow> listen_fd w \<in> usable_fds w \<and> (\<forall>p \<in> ids. iFd (conn_of w p) \<noteq> listen_fd w)
     \<and> (case slot_at w (listen_fd w) of None \<Rightarrow> False
        | Some sl \<Rightarrow> iMask sl = EVENT_READABLE \<and> pFunEventCallbackRead sl = AcceptProc)
     \<and> (\<forall>fd. slot_mask w fd \<noteq> 0 \<longrightarrow> fd = listen_fd w \<or> fd \<in> (\<lambda>p. iFd (conn_of w p)) ` ids)"

fun waiting :: "net_conn list \<Rightarrow> (int \<times> net_in list) list" where
  "waiting [] = []"
| "waiting (Incoming fd ip port i out # r) = (fd, i) # waiting r"
| "waiting (ConnErr e # r) = waiting r"

definition waiting_clients :: "world \<Rightarrow> (int \<times> net_in list) list" where
  "waiting_clients w = (case k_socks (w_kern w) (listen_fd w) of None \<Rightarrow> [] | Some so \<Rightarrow> waiting (s_conns so))"

definition in_array :: "world \<Rightarrow> int \<Rightarrow> bool" where
  "in_array w fd \<longleftrightarrow> (case w_base w of None \<Rightarrow> False | Some eb \<Rightarrow>
     0 \<le> fd \<and> fd < int (length (pstFdEventsArray eb)) \<and> fd \<le> iFdEventArraySize eb)"

text \<open>
  The clients that wait get descriptors of their own inside the array; together with the connected
  ones there are at most five.  (Up to five timers \<open>MinheapErase\<close> never takes the branch in which
  it resets the index of the wrong node.)
\<close>

definition max_clients :: nat where "max_clients = 5"

definition clients_fit :: "world \<Rightarrow> nat \<Rightarrow> bool" where
  "clients_fit w n \<longleftrightarrow> n + length (waiting_clients w) \<le> max_clients \<and> distinct (map fst (waiting_clients w))
     \<and> (\<forall>(fd, i) \<in> set (waiting_clients w). in_array w fd \<and> k_socks (w_kern w) fd = None \<and> harmless_stream (arriving i))"

text \<open>The connections in \<open>X\<close> are in the middle of a receive.\<close>

definition live :: "world \<Rightarrow> tptr list \<Rightarrow> nat set \<Rightarrow> nat set \<Rightarrow> bool" where
  "live w ps ids X \<longleftrightarrow> server_ok w ps ids \<and> (\<forall>p \<in> ids. conn_core w p (conn_of w p))
     \<and> (\<forall>p \<in> ids - X. recv_ready w (conn_of w p)) \<and> process_ok w \<and> listens w ids \<and> clients_fit w (card ids)
     \<and> dom (w_conns w) = ids"

section \<open>Frames\<close>

lemma usable_iff:
  "fd \<in> usable_fds w \<longleftrightarrow> in_array w fd \<and> k_socks (w_kern w) fd \<noteq> None \<and> k_ctl (w_kern w) = []"
  by (auto simp: usable_fds_def in_array_def sock_is_open_def split: option.splits)

lemma slot_mask_at: "slot_mask w fd = (case slot_at w fd of None \<Rightarrow> 0 | Some sl \<Rightarrow> iMask sl)"
  by (auto simp: slot_mask_def slot_at_def get_slot_def split: option.splits)

lemma slot_atE:
  assumes "slot_at w fd = Some sl"
  obtains eb where "w_base w = Some eb" "get_slot eb fd = Inr sl"
  using assms by (auto simp: slot_at_def split: option.splits sum.splits)

lemma node_view_key: "node_view S' t = node_view S t \<Longrightarrow> key_of S' t = key_of S t"
proof -
  have "key_of S t = (case node_view S t of None \<Rightarrow> key_of (\<lambda>_. None) t | Some e \<Rightarrow> stTimeout e)" for S
    by (cases "S t") (simp_all add: node_view_def key_of_def)
  then show "node_view S' t = node_view S t \<Longrightarrow> key_of S' t = key_of S t" by metis
qed

lemma node_view_times_out:
  assumes "node_view S' t = node_view S t" shows "times_out S' t p = times_out S t p"
proof -
  have "times_out S t p = (case node_view S t of None \<Rightarrow> False
      | Some e \<Rightarrow> pstCallbackArg e = p \<and> pFunTimeoutProcCallback e = Some ConnectionTimeoutCallback)" for S
    by (cases "S t") (simp_all add: node_view_def times_out_def)
  then show ?thesis using assms by simp
qed

lemma base_view_fields:
  assumes "map_option base_view (w_base w') = map_option base_view (w_base w)"
  shows "clock w' = clock w" "listen_fd w' = listen_fd w" "in_array w' = in_array w"
    "(case w_base w' of None \<Rightarrow> False | Some eb \<Rightarrow> iEpType eb = EPOLL_LT_TYPE \<and> iStopSign eb = 0)
       = (case w_base w of None \<Rightarrow> False | Some eb \<Rightarrow> iEpType eb = EPOLL_LT_TYPE \<and> iStopSign eb = 0)"
  using assms
  by (auto simp: clock_def listen_fd_def in_array_def base_view_def fun_eq_iff split: option.splits)

lemma touches_views:
  assumes "touches_only w w' fd t B"
  shows "clock w' = clock w" "listen_fd w' = listen_fd w" "in_array w' = in_array w"
    "f \<noteq> fd \<Longrightarrow> slot_mask w' f = slot_mask w f" "f \<noteq> fd \<Longrightarrow> f \<in> usable_fds w' \<longleftrightarrow> f \<in> usable_fds w"
    "u \<noteq> t \<Longrightarrow> key_of (w_tevs w') u = key_of (w_tevs w) u"
    "u \<noteq> t \<Longrightarrow> times_out (w_tevs w') u p = times_out (w_tevs w) u p"
proof -
  note a = assms [unfolded touches_only_def]
  show v: "clock w' = clock w" "listen_fd w' = listen_fd w" "in_array w' = in_array w"
    using base_view_fields a by blast+
  show "f \<noteq> fd \<Longrightarrow> slot_mask w' f = slot_mask w f" using a by (simp add: slot_mask_at)
  show "f \<noteq> fd \<Longrightarrow> f \<in> usable_fds w' \<longleftrightarrow> f \<in> usable_fds w" using a by (simp add: usable_iff v(3))
  show "u \<noteq> t \<Longrightarrow> key_of (w_tevs w') u = key_of (w_tevs w) u" using a node_view_key by blast
  show "u \<noteq> t \<Longrightarrow> times_out (w_tevs w') u p = times_out (w_tevs w) u p" using a node_view_times_out by blast
qed

text \<open>A connection that an operation on another one does not concern.\<close>

lemma bystander:
  assumes t: "touches_only w w' fd t B" and q: "conn_ok w q" "conn_core w q (conn_of w q)" "w_conns w' q = w_conns w q"
    and ap: "iFd (conn_of w q) \<noteq> fd" "timer_of w q \<noteq> t" "conn_blocks (conn_of w q) \<inter> B = {}"
  shows "conn_ok w' q" "conn_core w' q (conn_of w' q)"
    "recv_ready w (conn_of w q) \<Longrightarrow> recv_ready w' (conn_of w' q)"
proof -
  obtain d where d: "w_conns w q = Some d" "q \<noteq> NULL" "pstEventBase d \<noteq> NULL" "bufs_ok (w_mem w) d"
    "iFd d \<in> usable_fds w" "pstTimeoutEvent d \<noteq> NULL" "times_out (w_tevs w) (pstTimeoutEvent d) q"
    by (rule conn_okE [OF q(1)])
  have ap': "iFd d \<noteq> fd" "pstTimeoutEvent d \<noteq> t" "conn_blocks d \<inter> B = {}" using ap d(1) by (simp_all add: timer_of_def)
  have core: "conn_core w q d" using q(2) d(1) by simp
  have mem: "w_mem w' b = w_mem w b" if "b \<in> conn_blocks d" for b
    using that t core ap'(3) by (auto simp: touches_only_def conn_core_def)
  have fr: "k_socks (w_kern w') (iFd d) = k_socks (w_kern w) (iFd d)" "slot_at w' (iFd d) = slot_at w (iFd d)"
      "w_next w \<le> w_next w'"
    using t ap'(1) by (simp_all add: touches_only_def)
  note v = touches_views [OF t]
  obtain rb sb where b: "pszRecvBuf d = Ptr rb 0" "pszSendBuf d = Ptr sb 0" by (rule bufs_okE [OF d(4)])
  have "bufs_ok (w_mem w') d" using d(4) mem b by (simp add: bufs_ok_def conn_blocks_def)
  then show "conn_ok w' q" using d q(3) v(5) [OF ap'(1)] v(7) [OF ap'(2)] by (simp add: conn_ok_def)
  have "due_of w' q = due_of w q" using v(6) [OF ap'(2)] q(3) d(1) by (simp add: due_of_def timer_of_def)
  then show "conn_core w' q (conn_of w' q)"
    using core fr v(1) q(3) d(1) by (auto simp: conn_core_def owns_slot_def)
  have "mem_at (w_mem w') (block_of (pszRecvBuf d)) 0 got = mem_at (w_mem w) (block_of (pszRecvBuf d)) 0 got" for got
    using mem [of "block_of (pszRecvBuf d)"] by (simp add: mem_at_iff conn_blocks_def)
  then show "recv_ready w (conn_of w q) \<Longrightarrow> recv_ready w' (conn_of w' q)"
    using fr(1) q(3) d(1) by (simp add: recv_ready_def)
qed

section \<open>What the invariant gives\<close>

lemma liveD:
  assumes "live w ps ids X"
  shows "server_ok w ps ids" "process_ok w" "listens w ids" "clients_fit w (card ids)"
    "timers_ok w ps" "in_sync (slot_mask w) (watched_by_kernel w)" "set ps = timer_of w ` ids"
    "p \<in> ids \<Longrightarrow> conn_ok w p" "p \<in> ids \<Longrightarrow> conn_core w p (conn_of w p)"
    "p \<in> ids \<Longrightarrow> p \<notin> X \<Longrightarrow> recv_ready w (conn_of w p)"
    "dom (w_conns w) = ids"
  using assms by (simp_all add: live_def server_ok_def)

lemma live_apart:
  assumes "live w ps ids X" "p \<in> ids" "q \<in> ids - {p}"
  shows "conns_apart (conn_of w p) (conn_of w q)" "iFd (conn_of w q) \<noteq> iFd (conn_of w p)"
    "timer_of w q \<noteq> timer_of w p" "conn_blocks (conn_of w q) \<inter> conn_blocks (conn_of w p) = {}"
proof -
  show ap: "conns_apart (conn_of w p) (conn_of w q)" using assms by (auto simp: live_def server_ok_def)
  obtain c d where "w_conns w p = Some c" "w_conns w q = Some d"
    using conn_okE [OF liveD(8) [OF assms(1)]] assms(2,3) by (metis Diff_iff)
  then show "iFd (conn_of w q) \<noteq> iFd (conn_of w p)" "timer_of w q \<noteq> timer_of w p"
      "conn_blocks (conn_of w q) \<inter> conn_blocks (conn_of w p) = {}"
    using ap by (auto simp: conns_apart_def timer_of_def)
qed

lemma live_clock:
  assumes "live w ps ids X"
  obtains eb now where "w_base w = Some eb" "pstTimeCache eb = Some now" "clock w = Some now" "tv_normal now"
    "w_malloc w = []" "heap_can_grow eb" "iEpType eb = EPOLL_LT_TYPE" "iStopSign eb = 0" "heap_cap w \<le> 16"
proof -
  have p: "process_ok w" "timers_ok w ps" using liveD [OF assms] by simp_all
  obtain eb H where eb: "w_base w = Some eb" "pstHeapHeader eb = Some H" using p(2) by (rule timers_okE)
  obtain now where "pstTimeCache eb = Some now" "tv_normal now"
    using p(1) eb by (auto simp: process_ok_def clock_def split: option.splits)
  then show thesis
    using that [OF eb(1)] p(1) eb by (simp add: process_ok_def clock_def heap_can_grow_def heap_cap_def INT_MAX_def)
qed

text \<open>With at most five clients every timer can be moved and removed.\<close>

lemma live_few:
  assumes "live w ps ids X"
  shows "finite ids" "length ps = card ids" "length ps \<le> 5"
proof -
  show "finite ids" and l: "length ps = card ids" using server_ok_finite [OF liveD(1) [OF assms]] by simp_all
  show "length ps \<le> 5" using liveD(4) [OF assms] by (simp add: clients_fit_def max_clients_def l)
qed

lemma live_timer:
  assumes l: "live w ps ids X" and p: "p \<in> ids" and now: "clock w = Some now"
  shows "can_remove w ps (timer_of w p)" "can_set w ps (timer_of w p) (restart_time now)"
proof -
  let ?t = "timer_of w p"
  obtain eb H where H: "w_base w = Some eb" "heap_rep H (w_tevs w) ps" by (rule timers_okE [OF liveD(5) [OF l]])
  have t: "?t \<in> set ps" using liveD(7) [OF l] p by simp
  obtain e where e: "w_tevs w ?t = Some e" "0 \<le> iHeapIndex e" "nat (iHeapIndex e) < length ps"
    using heap_rep_node(2) [OF H(2) t] by auto
  have nz: "?t \<noteq> NULL" using heap_rep_node(1) [OF H(2) t] .
  have br: "\<not> erase_goes_up (w_tevs w) ps (nat (iHeapIndex e))"
    by (rule few_nodes_erase_down [OF H(2) live_few(3) [OF l] e(3)])
  have "due_of w p \<le> restart_time now" using liveD(9) [OF l p] now by (auto simp: conn_core_def)
  then have "stTimeout e \<le> restart_time now" using e(1) by (simp add: due_of_def key_of_def)
  then show "can_remove w ps ?t" "can_set w ps ?t (restart_time now)"
    using e t nz br by (simp_all add: can_remove_def can_set_def)
qed

section \<open>Keeping the invariant\<close>

lemma conns_apart_sym: "conns_apart c d \<Longrightarrow> conns_apart d c"
  by (auto simp: conns_apart_def)

lemma listens_kept:
  assumes l: "listens w ids" and t: "touches_only w w' fd t B" and conns: "\<forall>q \<in> ids - {p}. w_conns w' q = w_conns w q"
    and ids': "ids - {p} \<subseteq> ids'" "ids' \<subseteq> insert p ids" and own: "p \<in> ids \<Longrightarrow> iFd (conn_of w p) = fd"
    and p: "p \<in> ids' \<Longrightarrow> iFd (conn_of w' p) = fd" "p \<notin> ids' \<Longrightarrow> slot_mask w' fd = 0" and nl: "fd \<noteq> listen_fd w"
  shows "listens w' ids'"
proof -
  note v = touches_views [OF t]
  have other: "w_conns w' q = w_conns w q" "q \<in> ids" if "q \<in> ids'" "q \<noteq> p" for q using that conns ids' by auto
  have "f = listen_fd w \<or> f \<in> (\<lambda>q. iFd (conn_of w' q)) ` ids'" if f: "slot_mask w' f \<noteq> 0" for f
  proof (cases "f = fd")
    case True
    then show ?thesis using p f by force
  next
    case False
    then consider "f = listen_fd w" | q where "f = iFd (conn_of w q)" "q \<in> ids"
      using v(4) f l unfolding listens_def by auto
    then show ?thesis
    proof cases
      case 2
      then have "q \<in> ids - {p}" using own False by (cases "q = p") auto
      then have "f = iFd (conn_of w' q)" "q \<in> ids'" using conns ids'(1) 2(1) by auto
      then show ?thesis by blast
    qed simp
  qed
  moreover have "iFd (conn_of w' q) \<noteq> listen_fd w" if "q \<in> ids'" for q
    using l other [OF that] p(1) nl that by (cases "q = p") (simp_all add: listens_def)
  moreover have "slot_at w' (listen_fd w) = slot_at w (listen_fd w)" using t nl by (simp add: touches_only_def)
  ultimately show ?thesis using l v(2,5) nl by (simp add: listens_def)
qed

lemma clients_fit_kept:
  assumes f: "clients_fit w n" and t: "touches_only w w' fd t B" and nl: "fd \<noteq> listen_fd w"
    and op: "k_socks (w_kern w) fd \<noteq> None" and n: "n' + length (waiting_clients w) \<le> max_clients"
  shows "clients_fit w' n'"
proof -
  note v = touches_views [OF t]
  have s: "k_socks (w_kern w') f = k_socks (w_kern w) f" if "f \<noteq> fd" for f
    using that t by (simp add: touches_only_def)
  have wc: "waiting_clients w' = waiting_clients w" using s nl by (simp add: waiting_clients_def v(2))
  have each: "in_array w f" "k_socks (w_kern w) f = None" "harmless_stream (arriving i)"
    if "(f, i) \<in> set (waiting_clients w)" for f i
    using that f by (auto simp: clients_fit_def)
  have "k_socks (w_kern w') f = None" if "(f, i) \<in> set (waiting_clients w)" for f i
    using s [of f] each(2) [OF that] op by metis
  then show ?thesis unfolding clients_fit_def wc v(3)
    using f n each by (auto simp: clients_fit_def)
qed

lemma live_change:
  assumes l: "live w ps ids X" and t: "touches_only w w' fd t B"
    and conns: "\<forall>q. q \<noteq> p \<longrightarrow> w_conns w' q = w_conns w q"
    and ap: "\<forall>q \<in> ids - {p}. iFd (conn_of w q) \<noteq> fd \<and> timer_of w q \<noteq> t \<and> conn_blocks (conn_of w q) \<inter> B = {}"
    and ids': "ids - {p} \<subseteq> ids'" "ids' \<subseteq> insert p ids" and own: "p \<in> ids \<Longrightarrow> iFd (conn_of w p) = fd"
    and p: "p \<in> ids' \<Longrightarrow> conn_ok w' p \<and> conn_core w' p (conn_of w' p) \<and> iFd (conn_of w' p) = fd
        \<and> (\<forall>q \<in> ids - {p}. conns_apart (conn_of w' p) (conn_of w q))"
      "p \<notin> ids' \<Longrightarrow> slot_mask w' fd = 0 \<and> w_conns w' p = None"
    and tm: "timers_ok w' qs" "set qs = timer_of w' ` ids'" "in_sync (slot_mask w') (watched_by_kernel w')"
    and rest: "heap_cap w' \<le> 16" "fd \<noteq> listen_fd w" "k_socks (w_kern w) fd \<noteq> None"
      "card ids' + length (waiting_clients w) \<le> max_clients"
  shows "live w' qs ids' (insert p X)"
proof -
  note d = liveD [OF l]
  have keep: "conn_ok w' q" "conn_core w' q (conn_of w' q)" "recv_ready w (conn_of w q) \<Longrightarrow> recv_ready w' (conn_of w' q)"
    if "q \<in> ids - {p}" for q
    using bystander [OF t d(8,9), of q] that conns ap by auto
  have other: "q \<in> ids - {p}" if "q \<in> ids'" "q \<noteq> p" for q using that ids' by auto
  have apart: "conns_apart (conn_of w' q) (conn_of w' r)" if "q \<in> ids'" "r \<in> ids'" "q \<noteq> r" for q r
    using that p(1) conns conns_apart_sym live_apart(1) [OF l] other by (metis Diff_iff singletonD)
  have "server_ok w' qs ids'"
    unfolding server_ok_def using tm apart p(1) keep(1) other by blast
  moreover have "\<forall>q \<in> ids'. conn_core w' q (conn_of w' q)" using p(1) keep(2) other by blast
  moreover have "\<forall>q \<in> ids' - insert p X. recv_ready w' (conn_of w' q)" using keep(3) other d(10) by blast
  moreover have "process_ok w'"
    using d(2) t rest(1) base_view_fields [of w' w] unfolding process_ok_def touches_only_def by auto
  moreover have "listens w' ids'"
    by (rule listens_kept [OF d(3) t _ ids' own]) (use p rest(2) conns in blast)+
  moreover have "clients_fit w' (card ids')" by (rule clients_fit_kept [OF d(4) t rest(2,3,4)])
  moreover have "w_conns w' q \<noteq> None \<longleftrightarrow> q \<in> ids'" for q
  proof (cases "q = p")
    case True
    have "w_conns w' p \<noteq> None" if "p \<in> ids'" using p(1) [OF that] by (auto simp: conn_ok_def split: option.splits)
    then show ?thesis unfolding True using p(2) by (cases "p \<in> ids'") simp_all
  next
    case False
    then show ?thesis using d(11) conns ids' by (auto simp: dom_def)
  qed
  then have "dom (w_conns w') = ids'" by auto
  ultimately show ?thesis by (simp add: live_def)
qed

lemma live_more: "live w ps ids X \<Longrightarrow> X \<subseteq> Y \<Longrightarrow> live w ps ids Y"
  by (auto simp: live_def)

lemma live_received: "live w ps ids {p} \<Longrightarrow> recv_ready w (conn_of w p) \<Longrightarrow> live w ps ids {}"
  by (auto simp: live_def)

lemma live_removed: "live w ps (ids - {p}) {p} \<Longrightarrow> live w ps (ids - {p}) {}"
  by (auto simp: live_def)

end
