(* ===== verification/LiveSteps.thy ===== *)
theory LiveSteps
  imports LiveServer RecvErrors
begin

text \<open>
  The elementary changes the handlers make to one connection, each of which keeps the invariant of
  the server: its own fields, buffers and socket, its slot, its timer, and its end.
\<close>

abbreviation same_base :: "world \<Rightarrow> world \<Rightarrow> bool" where
  "same_base w w' \<equiv> map_option base_view (w_base w') = map_option base_view (w_base w)"

text \<open>
  Nothing of the other connections changes: neither their fields nor their sockets, slots, timers
  and buffers.
\<close>

definition kept_conn :: "world \<Rightarrow> world \<Rightarrow> ConnFd \<Rightarrow> bool" where
  "kept_conn w w' d \<longleftrightarrow> k_socks (w_kern w') (iFd d) = k_socks (w_kern w) (iFd d) \<and> slot_at w' (iFd d) = slot_at w (iFd d)
     \<and> node_view (w_tevs w') (pstTimeoutEvent d) = node_view (w_tevs w) (pstTimeoutEvent d)
     \<and> (\<forall>b \<in> conn_blocks d. w_mem w' b = w_mem w b)"

definition core_fields :: "ConnFd \<Rightarrow> ConnFd \<Rightarrow> bool" where
  "core_fields c c' \<longleftrightarrow> iFd c' = iFd c \<and> pstTimeoutEvent c' = pstTimeoutEvent c \<and> pstEventBase c' = pstEventBase c
     \<and> 5 \<le> iRecvTotalLen c' \<and> iSendTotalLen c' = MAX_TCP_BUF_SIZE \<and> 0 \<le> iSendCurLen c' \<and> iSendPacketLen c' \<le> MAX_TCP_BUF_SIZE"

text \<open>
  What belongs to the connection at an address: its blocks, its timer and its descriptor.  An operation
  on it is tidy when what it leaves allocated belongs to the connection afterwards or was there
  before and did not belong to it.
\<close>

definition owned :: "(ConnFd \<Rightarrow> 'a set) \<Rightarrow> world \<Rightarrow> nat \<Rightarrow> 'a set" where
  "owned f w p = (case w_conns w p of None \<Rightarrow> {} | Some c \<Rightarrow> f c)"

definition tidy_at :: "nat \<Rightarrow> world \<Rightarrow> world \<Rightarrow> bool" where
  "tidy_at p w w' \<longleftrightarrow> dom (w_mem w') - owned conn_blocks w' p \<subseteq> dom (w_mem w) - owned conn_blocks w p
     \<and> dom (w_tevs w') - owned (\<lambda>c. {pstTimeoutEvent c}) w' p \<subseteq> dom (w_tevs w) - owned (\<lambda>c. {pstTimeoutEvent c}) w p
     \<and> dom (k_socks (w_kern w')) - owned (\<lambda>c. {iFd c}) w' p \<subseteq> dom (k_socks (w_kern w)) - owned (\<lambda>c. {iFd c}) w p"

lemma tidy_at_refl [simp]: "tidy_at p w w"
  by (simp add: tidy_at_def)

lemma tidy_at_trans: "tidy_at p w w1 \<Longrightarrow> tidy_at p w1 w2 \<Longrightarrow> tidy_at p w w2"
  unfolding tidy_at_def by (blast intro: subset_trans)

text \<open>Outside its timer and its descriptor an operation allocates nothing.\<close>

lemma touches_dom:
  assumes "touches_only w w' fd t B"
  shows "dom (w_tevs w') - {t} = dom (w_tevs w) - {t}" "dom (k_socks (w_kern w')) - {fd} = dom (k_socks (w_kern w)) - {fd}"
proof -
  have view: "w_tevs w u = None \<longleftrightarrow> node_view (w_tevs w) u = None" for w u by (simp add: node_view_def)
  have "u \<in> dom (w_tevs w') \<longleftrightarrow> u \<in> dom (w_tevs w)" if "u \<noteq> t" for u
    using assms that unfolding domIff view touches_only_def by simp
  then show "dom (w_tevs w') - {t} = dom (w_tevs w) - {t}" by blast
  have "k_socks (w_kern w') f = k_socks (w_kern w) f" if "f \<noteq> fd" for f using assms that by (simp add: touches_only_def)
  then show "dom (k_socks (w_kern w')) - {fd} = dom (k_socks (w_kern w)) - {fd}" by (auto simp: dom_def)
qed

lemma tidy_at_touches:
  assumes t: "touches_only w w' (iFd c) (pstTimeoutEvent c) B" and c: "w_conns w p = Some c"
    and mem: "dom (w_mem w') - owned conn_blocks w' p \<subseteq> dom (w_mem w) - conn_blocks c"
    and own: "case w_conns w' p of None \<Rightarrow> w_tevs w' (pstTimeoutEvent c) = None \<and> k_socks (w_kern w') (iFd c) = None
        | Some c' \<Rightarrow> pstTimeoutEvent c' = pstTimeoutEvent c \<and> iFd c' = iFd c"
  shows "tidy_at p w w'"
proof (cases "w_conns w' p")
  case None
  then show ?thesis using own mem c touches_dom [OF t] by (auto simp: tidy_at_def owned_def)
next
  case (Some c')
  then show ?thesis using own mem c touches_dom [OF t] by (simp add: tidy_at_def owned_def)
qed

definition only_at :: "nat \<Rightarrow> world \<Rightarrow> world \<Rightarrow> bool" where
  "only_at p w w' \<longleftrightarrow> same_base w w' \<and> (\<forall>q. q \<noteq> p \<longrightarrow> w_conns w' q = w_conns w q)
     \<and> (\<forall>q d. q \<noteq> p \<longrightarrow> w_conns w q = Some d \<longrightarrow> kept_conn w w' d) \<and> tidy_at p w w'"

lemma only_at_refl [simp]: "only_at p w w"
  by (simp add: only_at_def kept_conn_def)

lemma only_at_trans: "only_at p w w1 \<Longrightarrow> only_at p w1 w2 \<Longrightarrow> only_at p w w2"
  using tidy_at_trans by (auto simp: only_at_def kept_conn_def)

lemma only_at_put:
  assumes "w_conns w p = Some c" "core_fields c c'" "conn_blocks c' = conn_blocks c"
  shows "only_at p w (put_conn w p c')"
  using assms by (simp add: only_at_def kept_conn_def slot_at_def tidy_at_def owned_def core_fields_def)

lemma only_at_base: "only_at p w w' \<Longrightarrow> same_base w w'"
  by (simp add: only_at_def)

lemma kept_trans: "kept_conn w w1 d \<Longrightarrow> kept_conn w1 w2 d \<Longrightarrow> kept_conn w w2 d"
  by (simp add: kept_conn_def)

text \<open>An operation keeps the connections whose descriptors are not among those it is about.\<close>

definition keeps_others :: "int set \<Rightarrow> world \<Rightarrow> world \<Rightarrow> bool" where
  "keeps_others F w w' \<longleftrightarrow> (\<forall>q d. w_conns w q = Some d \<longrightarrow> iFd d \<notin> F \<longrightarrow> w_conns w' q = Some d \<and> kept_conn w w' d)"

lemma keeps_others_refl [simp]: "keeps_others F w w"
  by (simp add: keeps_others_def kept_conn_def)

lemma keeps_others_trans: "keeps_others F w w1 \<Longrightarrow> keeps_others F w1 w2 \<Longrightarrow> keeps_others F w w2"
  unfolding keeps_others_def using kept_trans by blast

lemma keeps_others_mono: "keeps_others F w w' \<Longrightarrow> F \<subseteq> G \<Longrightarrow> keeps_others G w w'"
  by (auto simp: keeps_others_def)

lemma only_at_keeps: "only_at p w w' \<Longrightarrow> w_conns w p = Some c \<Longrightarrow> keeps_others {iFd c} w w'"
  unfolding only_at_def keeps_others_def by (metis insertI1 option.inject)

lemma kept_due: "w_conns w q = Some d \<Longrightarrow> w_conns w' q = Some d \<Longrightarrow> kept_conn w w' d \<Longrightarrow> due_of w' q = due_of w q"
  using node_view_key [of "w_tevs w'" "pstTimeoutEvent d" "w_tevs w"] by (simp add: due_of_def timer_of_def kept_conn_def)

lemma touches_keeps:
  assumes l: "live w ps ids X" and t: "touches_only w w' fd t B" and d: "w_conns w q = Some d"
    and ap: "iFd d \<noteq> fd" "pstTimeoutEvent d \<noteq> t" "conn_blocks d \<inter> B = {}"
  shows "kept_conn w w' d"
proof -
  have "\<forall>b \<in> conn_blocks d. b < w_next w" using liveD(9) [OF l, of q] d liveD(11) [OF l] by (auto simp: conn_core_def)
  then show ?thesis using ap t by (auto simp: kept_conn_def touches_only_def)
qed

lemma only_at_touches:
  assumes l: "live w ps ids X" and p: "p \<in> ids" "w_conns w p = Some c"
    and t: "touches_only w w' (iFd c) (pstTimeoutEvent c) B" "B \<subseteq> conn_blocks c" and w': "\<forall>q. q \<noteq> p \<longrightarrow> w_conns w' q = w_conns w q"
    and mem: "dom (w_mem w') - owned conn_blocks w' p \<subseteq> dom (w_mem w) - conn_blocks c"
    and own: "case w_conns w' p of None \<Rightarrow> w_tevs w' (pstTimeoutEvent c) = None \<and> k_socks (w_kern w') (iFd c) = None
        | Some c' \<Rightarrow> pstTimeoutEvent c' = pstTimeoutEvent c \<and> iFd c' = iFd c"
  shows "only_at p w w'"
proof -
  have "kept_conn w w' d" if q: "q \<noteq> p" "w_conns w q = Some d" for q d
  proof -
    have "q \<in> ids - {p}" using q liveD(11) [OF l] by auto
    note ap = live_apart(2-4) [OF l p(1) this]
    show ?thesis
      by (rule touches_keeps [OF l t(1) q(2)]) (use ap t(2) q(2) p(2) in \<open>auto simp: timer_of_def\<close>)
  qed
  moreover have "same_base w w'" using t(1) by (simp add: touches_only_def)
  ultimately show ?thesis using w' tidy_at_touches [OF t(1) p(2) mem own] by (simp add: only_at_def)
qed

text \<open>
  Nothing is lost: every block, every timer node and every open descriptor but that of the listening
  socket belongs to a connection.
\<close>

definition leak_free :: "world \<Rightarrow> bool" where
  "leak_free w \<longleftrightarrow> dom (w_mem w) \<subseteq> (\<Union>q. owned conn_blocks w q) \<and> dom (w_tevs w) \<subseteq> (\<Union>q. owned (\<lambda>c. {pstTimeoutEvent c}) w q)
     \<and> dom (k_socks (w_kern w)) \<subseteq> insert (listen_fd w) (\<Union>q. owned (\<lambda>c. {iFd c}) w q)"

lemma owned_elsewhere:
  assumes o: "\<forall>q. q \<noteq> p \<longrightarrow> w_conns w' q = w_conns w q" and D: "D' - owned f w' p \<subseteq> D - owned f w p" "D \<subseteq> A \<union> (\<Union>q. owned f w q)"
  shows "D' \<subseteq> A \<union> (\<Union>q. owned f w' q)"
proof
  fix x assume x: "x \<in> D'"
  show "x \<in> A \<union> (\<Union>q. owned f w' q)"
  proof (cases "x \<in> owned f w' p")
    case False
    then have "x \<in> D" "x \<notin> owned f w p" using x D(1) by auto
    then consider "x \<in> A" | q where "x \<in> owned f w q" "q \<noteq> p" using D(2) by blast
    then show ?thesis
    proof cases
      case 2
      then have "x \<in> owned f w' q" using o by (simp add: owned_def)
      then show ?thesis by blast
    qed simp
  qed blast
qed

lemma leak_free_kept:
  assumes "leak_free w" "tidy_at p w w'" "\<forall>q. q \<noteq> p \<longrightarrow> w_conns w' q = w_conns w q" "listen_fd w' = listen_fd w"
  shows "leak_free w'"
proof -
  note t = assms(2) [unfolded tidy_at_def, THEN conjunct1] assms(2) [unfolded tidy_at_def, THEN conjunct2, THEN conjunct1]
    assms(2) [unfolded tidy_at_def, THEN conjunct2, THEN conjunct2]
  have "dom (w_mem w') \<subseteq> {} \<union> (\<Union>q. owned conn_blocks w' q)"
    by (rule owned_elsewhere [OF assms(3) t(1)]) (use assms(1) in \<open>simp add: leak_free_def\<close>)
  moreover have "dom (w_tevs w') \<subseteq> {} \<union> (\<Union>q. owned (\<lambda>c. {pstTimeoutEvent c}) w' q)"
    by (rule owned_elsewhere [OF assms(3) t(2)]) (use assms(1) in \<open>simp add: leak_free_def\<close>)
  moreover have "dom (k_socks (w_kern w')) \<subseteq> {listen_fd w} \<union> (\<Union>q. owned (\<lambda>c. {iFd c}) w' q)"
    by (rule owned_elsewhere [OF assms(3) t(3)]) (use assms(1) in \<open>simp add: leak_free_def\<close>)
  ultimately show ?thesis by (simp add: leak_free_def assms(4))
qed

lemma only_at_leak_free: "only_at p w w' \<Longrightarrow> leak_free w \<Longrightarrow> leak_free w'"
  using leak_free_kept [of w p w'] base_view_fields(2) [of w' w] by (simp add: only_at_def)

text \<open>What belongs to the connections is bounded by their number.\<close>

lemma owned_Union: "(\<Union>q. owned f w q) = {x. \<exists>p c. w_conns w p = Some c \<and> x \<in> f c}"
proof -
  have "x \<in> owned f w q \<longleftrightarrow> (\<exists>c. w_conns w q = Some c \<and> x \<in> f c)" for x q by (simp add: owned_def split: option.splits)
  then show ?thesis by blast
qed

lemma owned_card:
  assumes fin: "finite (dom (w_conns w))" and D: "D \<subseteq> (\<Union>q. owned f w q)" and f: "\<forall>c. finite (f c) \<and> card (f c) \<le> k"
  shows "card D \<le> card (dom (w_conns w)) * k"
proof -
  let ?U = "\<Union>q \<in> dom (w_conns w). f (conn_of w q)"
  have U: "D \<subseteq> ?U"
  proof
    fix x assume "x \<in> D"
    then obtain p c where "w_conns w p = Some c" "x \<in> f c" using D unfolding owned_Union by blast
    then have "p \<in> dom (w_conns w)" "x \<in> f (conn_of w p)" by auto
    then show "x \<in> ?U" by blast
  qed
  have "finite ?U" using fin f by simp
  then have "card D \<le> card ?U" using U by (rule card_mono)
  also have "\<dots> \<le> (\<Sum>q \<in> dom (w_conns w). card (f (conn_of w q)))" by (rule card_UN_le [OF fin])
  also have "\<dots> \<le> of_nat (card (dom (w_conns w))) * k" by (rule sum_bounded_above) (use f in simp)
  finally show ?thesis by simp
qed

lemma leak_free_card:
  assumes fin: "finite (dom (w_conns w))" and w: "leak_free w"
  shows "card (dom (w_mem w)) \<le> card (dom (w_conns w)) * 2" "card (dom (w_tevs w)) \<le> card (dom (w_conns w)) * 1"
proof -
  show "card (dom (w_mem w)) \<le> card (dom (w_conns w)) * 2"
    by (rule owned_card [OF fin, where f = conn_blocks]) (use w in \<open>simp_all add: leak_free_def conn_blocks_def card_insert_if\<close>)
  show "card (dom (w_tevs w)) \<le> card (dom (w_conns w)) * 1"
    by (rule owned_card [OF fin, where f = "\<lambda>c. {pstTimeoutEvent c}"]) (use w in \<open>simp_all add: leak_free_def\<close>)
qed

text \<open>A handler returned, and the server goes on with no other connections than before.\<close>

definition goes_on :: "world \<Rightarrow> nat \<Rightarrow> nat set \<Rightarrow> world outcome \<Rightarrow> bool" where
  "goes_on w p ids r \<longleftrightarrow> (\<exists>w' qs ids'. r = Inr w' \<and> live w' qs ids' {} \<and> ids' \<subseteq> ids \<and> only_at p w w')"

lemma goes_onI: "live w' qs ids' {} \<Longrightarrow> ids' \<subseteq> ids \<Longrightarrow> only_at p w w' \<Longrightarrow> goes_on w p ids (Inr w')"
  by (auto simp: goes_on_def)

lemma goes_on_from: "goes_on w1 p ids r \<Longrightarrow> only_at p w w1 \<Longrightarrow> goes_on w p ids r"
  using only_at_trans by (fastforce simp: goes_on_def)

lemma live_conn:
  assumes "live w ps ids X" "p \<in> ids"
  obtains c where "w_conns w p = Some c" "p \<noteq> NULL" "conn_at w p c" "conn_core w p c" "timer_of w p = pstTimeoutEvent c"
    "conn_of w p = c" "times_out (w_tevs w) (pstTimeoutEvent c) p" "pstTimeoutEvent c \<noteq> NULL"
    "iFd c \<noteq> listen_fd w" "0 \<le> iFd c" "k_socks (w_kern w) (iFd c) \<noteq> None"
proof -
  obtain c where c: "w_conns w p = Some c" "p \<noteq> NULL" "pstEventBase c \<noteq> NULL" "bufs_ok (w_mem w) c"
    "iFd c \<in> usable_fds w" "pstTimeoutEvent c \<noteq> NULL" "times_out (w_tevs w) (pstTimeoutEvent c) p"
    "timer_of w p = pstTimeoutEvent c"
    by (rule conn_okE [OF liveD(8) [OF assms]])
  have "0 \<le> iFd c" "k_socks (w_kern w) (iFd c) \<noteq> None"
    using c(5) by (auto simp: usable_iff in_array_def split: option.splits)
  moreover have "iFd c \<noteq> listen_fd w" using liveD(3) [OF assms(1)] assms(2) c(1) by (auto simp: listens_def)
  ultimately show thesis
    using that [OF c(1,2)] c liveD(6) [OF assms(1)] liveD(9) [OF assms] by (simp add: conn_at_def)
qed

section \<open>The end of a connection\<close>

lemma live_released:
  assumes l: "live w ps ids X" "X \<subseteq> {p}" and p: "p \<in> ids" "w_conns w p = Some c"
    and t: "touches_only w w1 (iFd c) (pstTimeoutEvent c) (conn_blocks c)" and w1: "w_conns w1 = w_conns w"
    and rel: "conn_released w1 p c ps1 w' qs" and cap: "heap_cap w1 \<le> 16"
    and set: "set ps1 - {pstTimeoutEvent c} = set ps - {pstTimeoutEvent c}" and mem: "w_mem w1 = w_mem w"
  shows "live w' qs (ids - {p}) {}" "only_at p w w'"
proof -
  have r: "w_conns w' = (w_conns w)(p := None)" "timers_ok w' qs" "slot_mask w' = (slot_mask w1)(iFd c := 0)"
      "touches_only w1 w' (iFd c) (pstTimeoutEvent c) (conn_blocks c)"
      "heap_cap w' = heap_cap w1" "due_times w' qs = (due_times w1 ps1)(pstTimeoutEvent c := None)"
    using rel w1 by (simp_all add: conn_released_def)
  have sync: "in_sync (slot_mask w') (watched_by_kernel w')" using rel unfolding conn_released_def by blast
  have t': "touches_only w w' (iFd c) (pstTimeoutEvent c) (conn_blocks c)" by (rule touches_only_trans [OF t r(4)])
  have "same_nodes ((w_tevs w1)(pstTimeoutEvent c := None)) (w_tevs w')" using rel by (simp add: conn_released_def)
  then have gone: "w_tevs w' (pstTimeoutEvent c) = None" using same_nodes_None by fastforce
  have freed: "w_mem w' = freed_mem (w_mem w) c" "k_socks (w_kern w') (iFd c) = None" using rel mem by (simp_all add: conn_released_def)
  have "dom (w_mem w') \<subseteq> dom (w_mem w) - conn_blocks c" by (auto simp: freed freed_mem_def conn_blocks_def split: if_splits)
  then show "only_at p w w'"
    by (intro only_at_touches [OF l(1) p t' order_refl]) (use gone freed(2) in \<open>auto simp: r(1) owned_def\<close>)
  have c: "conn_of w p = c" "timer_of w p = pstTimeoutEvent c" using p(2) by (simp_all add: timer_of_def)
  obtain d where d: "w_conns w p = Some d" "iFd d \<noteq> listen_fd w" "k_socks (w_kern w) (iFd d) \<noteq> None"
    by (rule live_conn [OF l(1) p(1)])
  have ap: "\<forall>q \<in> ids - {p}. iFd (conn_of w q) \<noteq> iFd c \<and> timer_of w q \<noteq> pstTimeoutEvent c \<and> conn_blocks (conn_of w q) \<inter> conn_blocks c = {}"
    using live_apart(2-4) [OF l(1) p(1)] c by auto
  have "timer_of w' ` (ids - {p}) = timer_of w ` (ids - {p})"
    by (rule image_cong [OF refl]) (simp add: timer_of_def r(1))
  moreover have "timer_of w ` (ids - {p}) = timer_of w ` ids - {pstTimeoutEvent c}" using ap p(1) c(2) by auto
  ultimately have qs: "set qs = timer_of w' ` (ids - {p})"
    using set_due_times [OF r(6)] set liveD(7) [OF l(1)] by simp
  have "live w' qs (ids - {p}) (insert p X)"
  proof (rule live_change [OF l(1) t' _ ap])
    show "card (ids - {p}) + length (waiting_clients w) \<le> max_clients"
      using liveD(4) [OF l(1)] card_Diff1_le [of ids p] by (simp add: clients_fit_def)
  qed (use r sync cap d c p qs in auto)
  then show "live w' qs (ids - {p}) {}" using l(2) by (auto simp: live_def)
qed

lemma live_destroys:
  assumes l: "live w ps ids X" "X \<subseteq> {p}" and p: "p \<in> ids"
  shows "goes_on w p ids (DestroyConn w p)"
proof -
  obtain c where c: "w_conns w p = Some c" "conn_at w p c" "timer_of w p = pstTimeoutEvent c"
    by (rule live_conn [OF l(1) p])
  obtain now where now: "clock w = Some now" by (rule live_clock [OF l(1)])
  obtain w' qs where d: "DestroyConn w p = Inr w'" "conn_released w p c ps w' qs"
    using DestroyConn_releases [OF c(2) liveD(5) [OF l(1)]] live_timer(1) [OF l(1) p now] c(3) by auto
  have "heap_cap w \<le> 16" using liveD(2) [OF l(1)] by (simp add: process_ok_def)
  then show ?thesis
    using live_released [OF l p c(1) touches_only_refl refl d(2) _ refl refl] d(1) by (auto intro: goes_onI)
qed

section \<open>Its fields, buffers and socket\<close>

lemma live_private:
  assumes l: "live w ps ids X" "X \<subseteq> {p}" and p: "p \<in> ids" "w_conns w p = Some c"
    and f: "core_fields c c'" and w': "w_base w' = w_base w" "w_tevs w' = w_tevs w" "w_malloc w' = w_malloc w"
      "w_conns w' = (w_conns w)(p \<mapsto> c')" "w_next w \<le> w_next w'"
    and k: "k_interest (w_kern w') = k_interest (w_kern w)" "k_ctl (w_kern w') = k_ctl (w_kern w)"
      "k_socks (w_kern w') = (k_socks (w_kern w))(iFd c \<mapsto> so)"
    and m: "\<And>b. b \<notin> conn_blocks c \<Longrightarrow> b < w_next w \<Longrightarrow> w_mem w' b = w_mem w b" "bufs_ok (w_mem w') c'"
      "\<And>b. b \<in> conn_blocks c' \<Longrightarrow> b \<in> conn_blocks c \<or> w_next w \<le> b \<and> b < w_next w'"
      "dom (w_mem w') - conn_blocks c' \<subseteq> dom (w_mem w) - conn_blocks c"
  shows "live w' ps ids {p}" "only_at p w w'"
proof -
  obtain d where d: "w_conns w p = Some d" "p \<noteq> NULL" "conn_at w p d" "conn_core w p d" "pstTimeoutEvent d \<noteq> NULL"
    "times_out (w_tevs w) (pstTimeoutEvent d) p" "iFd d \<noteq> listen_fd w" "k_socks (w_kern w) (iFd d) \<noteq> None"
    by (rule live_conn [OF l(1) p(1)])
  then have c: "conn_at w p c" "conn_core w p c" "iFd c \<noteq> listen_fd w" "k_socks (w_kern w) (iFd c) \<noteq> None"
    "times_out (w_tevs w) (pstTimeoutEvent c) p" "pstTimeoutEvent c \<noteq> NULL" "conn_of w p = c" using p(2) by simp_all
  have eq: "slot_at w' = slot_at w" "clock w' = clock w" by (simp_all add: fun_eq_iff slot_at_def clock_def w'(1))
  have v: "slot_mask w' = slot_mask w" "watched_by_kernel w' = watched_by_kernel w" "usable_fds w' = usable_fds w"
    by (rule view_cong_socks; use w'(1) k c(4) in simp)+
  have t: "touches_only w w' (iFd c) (pstTimeoutEvent c) (conn_blocks c)"
    unfolding touches_only_def using w' k(2,3) m(1) eq(1) by simp
  show "only_at p w w'" by (rule only_at_touches [OF l(1) p t order_refl]) (use m(4) f in \<open>simp_all add: w'(4) owned_def core_fields_def\<close>)
  have ap: "conns_apart c (conn_of w q)" "conn_core w q (conn_of w q)" if "q \<in> ids - {p}" for q
    using live_apart(1) [OF l(1) p(1) that] liveD(9) [OF l(1)] that c(7) by auto
  have ap': "conns_apart c' (conn_of w q)" if q: "q \<in> ids - {p}" for q
  proof -
    have "\<forall>b \<in> conn_blocks (conn_of w q). b < w_next w" using ap(2) [OF q] by (simp add: conn_core_def)
    then have "conn_blocks c' \<inter> conn_blocks (conn_of w q) = {}"
      using m(3) ap(1) [OF q] by (fastforce simp: conns_apart_def)
    then show ?thesis using ap(1) [OF q] f by (simp add: conns_apart_def core_fields_def)
  qed
  have ok: "conn_ok w' p"
    using d(2) c m(2) f v(3) w'(2,4) by (simp add: conn_ok_def conn_at_def core_fields_def)
  have "b < w_next w'" if "b \<in> conn_blocks c'" for b
    using m(3) [OF that] c(2) w'(5) by (auto simp: conn_core_def)
  moreover have "due_of w' p = due_of w p" using f p(2) w'(2,4) by (simp add: due_of_def timer_of_def core_fields_def)
  ultimately have core: "conn_core w' p c'"
    using c(2) f w'(5) eq by (auto simp: conn_core_def core_fields_def owns_slot_def)
  have tm: "timers_ok w' ps" using liveD(5) [OF l(1)] timers_ok_cong [of w' w ps] w'(1,2) by simp
  have "timer_of w' q = timer_of w q" for q using w'(4) f p(2) by (simp add: timer_of_def core_fields_def)
  then have set: "set ps = timer_of w' ` ids" using liveD(7) [OF l(1)] by simp
  have "live w' ps ids (insert p X)"
  proof (rule live_change [OF l(1) t])
    show "\<forall>q \<in> ids - {p}. iFd (conn_of w q) \<noteq> iFd c \<and> timer_of w q \<noteq> pstTimeoutEvent c \<and> conn_blocks (conn_of w q) \<inter> conn_blocks c = {}"
      using live_apart(2-4) [OF l(1) p(1)] c(7) p(2) by (auto simp: timer_of_def)
    show "conn_ok w' p \<and> conn_core w' p (conn_of w' p) \<and> iFd (conn_of w' p) = iFd c
        \<and> (\<forall>q \<in> ids - {p}. conns_apart (conn_of w' p) (conn_of w q))"
      using ok core ap' w'(4) f by (simp add: core_fields_def)
    show "heap_cap w' \<le> 16" using liveD(2) [OF l(1)] w'(1) by (simp add: process_ok_def heap_cap_def)
    show "card ids + length (waiting_clients w) \<le> max_clients"
      using liveD(4) [OF l(1)] by (simp add: clients_fit_def)
    show "in_sync (slot_mask w') (watched_by_kernel w')" using liveD(6) [OF l(1)] v by simp
  qed (use w'(4) p c tm set in auto)
  then show "live w' ps ids {p}" by (rule live_more) (use l(2) in auto)
qed

section \<open>Its slot\<close>

lemma live_self:
  assumes "live w ps ids X" "p \<in> ids" "w_conns w p = Some c"
  shows "\<forall>q \<in> ids - {p}. iFd (conn_of w q) \<noteq> iFd c \<and> timer_of w q \<noteq> pstTimeoutEvent c" "\<forall>q \<in> ids - {p}. conns_apart c (conn_of w q)"
    "card ids + length (waiting_clients w) \<le> max_clients" "heap_cap w \<le> 16"
  using live_apart(1-3) [OF assms(1,2)] assms(3) liveD(2,4) [OF assms(1)]
  by (auto simp: timer_of_def clients_fit_def process_ok_def)

lemma live_slot_here:
  assumes "live w ps ids X" "p \<in> ids" "w_conns w p = Some c"
  obtains eb sl where "w_base w = Some eb" "get_slot eb (iFd c) = Inr sl" "pstArg sl = p" "pFunEventCallbackRead sl = RecvProc"
    "iMask sl = EVENT_READABLE \<or> iMask sl = EVENT_READABLE OR EVENT_WRITABLE \<and> pFunEventCallbackWrite sl = SendProc"
    "slot_mask w (iFd c) = iMask sl"
proof -
  have "owns_slot w (iFd c) p" using liveD(9) [OF assms(1,2)] assms(3) by (simp add: conn_core_def)
  then show thesis
    using that by (auto simp: owns_slot_def slot_mask_at split: option.splits elim: slot_atE)
qed

lemma live_reslot:
  assumes l: "live w ps ids X" and p: "p \<in> ids" "w_conns w p = Some c" and eb: "w_base w = Some eb"
    and k: "interest_upd (w_kern w) k (iFd c) (iMask sl)" and w': "w' = reslot w eb (iFd c) sl k"
    and sl: "pstArg sl = p" "pFunEventCallbackRead sl = RecvProc"
      "iMask sl = EVENT_READABLE \<or> iMask sl = EVENT_READABLE OR EVENT_WRITABLE \<and> pFunEventCallbackWrite sl = SendProc"
  shows "live w' ps ids (insert p X)" "only_at p w w'"
proof -
  obtain d where d: "w_conns w p = Some d" "p \<noteq> NULL" "conn_at w p d" "conn_core w p d" "pstTimeoutEvent d \<noteq> NULL"
    "times_out (w_tevs w) (pstTimeoutEvent d) p" "iFd d \<noteq> listen_fd w" "0 \<le> iFd d" "k_socks (w_kern w) (iFd d) \<noteq> None"
    by (rule live_conn [OF l p(1)])
  then have c: "conn_at w p c" "conn_core w p c" "iFd c \<noteq> listen_fd w" "k_socks (w_kern w) (iFd c) \<noteq> None" "0 \<le> iFd c"
    "times_out (w_tevs w) (pstTimeoutEvent c) p" "pstTimeoutEvent c \<noteq> NULL" using p(2) by simp_all
  have us: "iFd c \<in> usable_fds w" using c(1) by (simp add: conn_at_def)
  obtain sl0 where u: "get_slot eb (iFd c) = Inr sl0" "iFd c < int (length (pstFdEventsArray eb))"
    by (rule usableE [OF us]) (use eb in auto)
  have k': "k_socks k = k_socks (w_kern w)" "k_ctl k = k_ctl (w_kern w)" using k by (simp_all add: interest_upd_def)
  have slots: "slot_at w' f = slot_at w f" if "f \<noteq> iFd c" for f
    using that c(5) eb by (simp add: slot_at_def w' get_slot_put_other)
  have mine: "slot_at w' (iFd c) = Some sl"
    using u(2) c(5) by (simp add: slot_at_def w' get_slot_def put_slot_def)
  have t: "touches_only w w' (iFd c) (pstTimeoutEvent c) {}"
    unfolding touches_only_def using slots k' eb by (simp add: w' base_view_def)
  show "only_at p w w'" by (rule only_at_touches [OF l p t]) (simp_all add: w' owned_def p(2))
  have mask: "slot_mask w' = (slot_mask w)(iFd c := iMask sl)"
    unfolding w' by (rule slot_mask_put [OF eb c(5) u(2)])
  have "in_sync (slot_mask w') (watched_by_kernel w')"
    unfolding mask by (rule in_sync_upd [OF liveD(6) [OF l]]) (use k in \<open>simp add: interest_upd_def watched_by_kernel_def w'\<close>)
  moreover have "timers_ok w' ps"
    using liveD(5) [OF l] timers_ok_cong [of w' w ps] eb by (simp add: w')
  moreover have "usable_fds w' = usable_fds w" unfolding w' by (rule usable_put [OF eb k'])
  then have "conn_ok w' p" using c d(2) p(2) by (simp add: conn_ok_def conn_at_def w')
  moreover have "conn_core w' p c"
    using c(2) mine sl eb by (simp add: conn_core_def owns_slot_def w' due_of_def timer_of_def clock_def)
  moreover have "heap_cap w' = heap_cap w" using eb by (simp add: heap_cap_def w')
  ultimately show "live w' ps ids (insert p X)"
    using live_self [OF l p] p c liveD(7) [OF l]
    by (intro live_change [OF l t]) (auto simp: w' timer_of_def)
qed

section \<open>Its timer\<close>

lemma grown_capacity_16: "cap \<le> 16 \<Longrightarrow> n \<le> 5 \<Longrightarrow> grown_capacity cap n \<le> 16"
  by (auto simp: grown_capacity_def MINHEAP_INIT_SIZE_def)

lemma live_restarts:
  assumes l: "live w ps ids X" and p: "p \<in> ids" "w_conns w p = Some c" and ep: "ep \<noteq> NULL"
  shows "\<exists>w' qs. RegisterTimerOutEvent w ep (pstTimeoutEvent c) MAX_CONN_TIMEOUT = Inr (RET_SUCC, w') \<and> live w' qs ids (insert p X)
     \<and> only_at p w w' \<and> w_conns w' = w_conns w \<and> w_mem w' = w_mem w \<and> w_kern w' = w_kern w"
proof -
  let ?t = "pstTimeoutEvent c"
  obtain eb now where eb: "w_base w = Some eb" "pstTimeCache eb = Some now" "clock w = Some now" "w_malloc w = []"
    "heap_can_grow eb" "heap_cap w \<le> 16" by (rule live_clock [OF l])
  obtain d where d: "w_conns w p = Some d" "p \<noteq> NULL" "conn_at w p d" "conn_core w p d" "pstTimeoutEvent d \<noteq> NULL"
    "times_out (w_tevs w) (pstTimeoutEvent d) p" "iFd d \<noteq> listen_fd w" "k_socks (w_kern w) (iFd d) \<noteq> None"
    by (rule live_conn [OF l p(1)])
  then have c: "conn_at w p c" "conn_core w p c" "iFd c \<noteq> listen_fd w" "k_socks (w_kern w) (iFd c) \<noteq> None"
    "times_out (w_tevs w) ?t p" "?t \<noteq> NULL" "timer_of w p = ?t" using p(2) by (simp_all add: timer_of_def)
  obtain e where e: "w_tevs w ?t = Some e" using c(5) by (auto simp: times_out_def split: option.splits)
  have can: "can_set w ps ?t (minheap_timeradd now (interval_of MAX_CONN_TIMEOUT))"
    using live_timer(2) [OF l p(1) eb(3)] c(7) by (simp add: restart_time_def)
  let ?e = "e\<lparr>stInterval := interval_of MAX_CONN_TIMEOUT, stTimeout := minheap_timeradd now (interval_of MAX_CONN_TIMEOUT)\<rparr>"
  obtain H' S' qs H where r: "RegisterTimerOutEvent w ep ?t MAX_CONN_TIMEOUT = Inr (RET_SUCC, put_heap w eb \<lparr>hs_hdr = Some H', hs_tevs = S'\<rparr>)"
    "heap_rep H' S' qs" "set qs = insert ?t (set ps)" "same_nodes ((w_tevs w)(?t \<mapsto> ?e)) S'"
    "pstHeapHeader eb = Some H" "iNodeCapacity H' \<le> grown_capacity (iNodeCapacity H) (length ps)"
    using Register_form [OF liveD(5) [OF l] eb(1,2,5,4) ep e can] by blast
  let ?w' = "put_heap w eb \<lparr>hs_hdr = Some H', hs_tevs = S'\<rparr>"
  note v = put_heap_view [OF eb(1), of "\<lparr>hs_hdr = Some H', hs_tevs = S'\<rparr>"]
  have slots: "slot_at ?w' = slot_at w" using eb(1) by (simp add: slot_at_def fun_eq_iff)
  have view: "node_view S' u = node_view (w_tevs w) u" if "u \<noteq> ?t" for u
    using that same_nodes_view [OF r(4), of u] by (simp add: node_view_def)
  have t: "touches_only w ?w' (iFd c) ?t {}"
    unfolding touches_only_def using slots view eb(1) by (simp add: base_view_def)
  have cap: "heap_cap ?w' \<le> 16"
    using r(5,6) eb(1,6) grown_capacity_16 [OF _ live_few(3) [OF l]] by (force simp: heap_cap_def)
  have tset: "set qs = set ps" using r(3) liveD(7) [OF l] p(1) c(7) by (metis imageI insert_absorb)
  have "times_out S' ?t p" using times_out_same [OF r(4), of ?t p] c(5) e by (simp add: times_out_def)
  then have "conn_ok ?w' p" using c d(2) p(2) v(3) by (simp add: conn_ok_def conn_at_def)
  moreover have "due_of ?w' p = restart_time now"
    using same_nodes_key [OF r(4), of ?t] p(2) by (simp add: due_of_def timer_of_def key_of_def restart_time_def)
  then have "conn_core ?w' p c"
    using c(2) slots eb by (simp add: conn_core_def owns_slot_def clock_def)
  moreover have "in_sync (slot_mask ?w') (watched_by_kernel ?w')" using liveD(6) [OF l] v by simp
  ultimately have "live ?w' qs ids (insert p X)"
    using live_self [OF l p] p c tset liveD(7) [OF l] timers_ok_put_heap [OF r(2)] cap
    by (intro live_change [OF l t]) (auto simp: timer_of_def)
  moreover have "only_at p w ?w'" by (rule only_at_touches [OF l p t]) (simp_all add: owned_def p(2))
  ultimately show ?thesis using r(1) by (intro exI [of _ ?w'] exI [of _ qs]) simp
qed

end
