(* ===== verification/LiveRecv.thy ===== *)
theory LiveRecv
  imports LiveSteps
begin

text \<open>
  The read handler on a live server: whatever a harmless stream brings, in whatever pieces, it returns,
  and the server goes on, with the connection or without it.
\<close>

section \<open>One read\<close>

lemma received_some_simps [simp]:
  "w_base (received_some w p c so m s a b) = w_base w" "w_tevs (received_some w p c so m s a b) = w_tevs w"
  "w_malloc (received_some w p c so m s a b) = w_malloc w" "w_next (received_some w p c so m s a b) = w_next w"
  "w_conns (received_some w p c so m s a b) = (w_conns w)(p \<mapsto> c\<lparr>iRecvCurLen := a, iPacketLen := b\<rparr>)"
  "w_mem (received_some w p c so m s a b) = m"
  "k_interest (w_kern (received_some w p c so m s a b)) = k_interest (w_kern w)"
  "k_ctl (w_kern (received_some w p c so m s a b)) = k_ctl (w_kern w)"
  "k_socks (w_kern (received_some w p c so m s a b)) = (k_socks (w_kern w))(iFd c \<mapsto> so\<lparr>s_in := s\<rparr>)"
  by (simp_all add: received_some_def)

lemma core_fieldsI:
  assumes "conn_core w p c" "iFd c' = iFd c" "pstTimeoutEvent c' = pstTimeoutEvent c" "pstEventBase c' = pstEventBase c"
    "iSendTotalLen c' = iSendTotalLen c" "iRecvTotalLen c \<le> iRecvTotalLen c'" "iSendCurLen c' = iSendCurLen c"
    "iSendPacketLen c' = iSendPacketLen c"
  shows "core_fields c c'"
  using assms by (simp add: core_fields_def conn_core_def)

lemma dom_sized: "mem_sized m m' \<Longrightarrow> dom m' = dom m"
proof -
  assume sz: "mem_sized m m'"
  have "b \<in> dom m' \<longleftrightarrow> b \<in> dom m" for b
    using sz [unfolded mem_sized_def, THEN spec, of b] by (cases "m b"; cases "m' b") auto
  then show ?thesis by blast
qed

lemma live_received_some:
  assumes l: "live w ps ids X" "X \<subseteq> {p}" and p: "p \<in> ids" "w_conns w p = Some c" and rb: "pszRecvBuf c = Ptr rb 0"
    and m: "mem_sized (w_mem w) m" "\<And>b. b \<noteq> rb \<Longrightarrow> m b = w_mem w b"
  shows "live (received_some w p c so m s a b) ps ids {p}" "only_at p w (received_some w p c so m s a b)"
proof -
  obtain d where d: "w_conns w p = Some d" "conn_at w p d" "conn_core w p d" by (rule live_conn [OF l(1) p(1)])
  have c: "bufs_ok (w_mem w) c" "conn_core w p c" using d p(2) by (simp_all add: conn_at_def)
  let ?c = "c\<lparr>iRecvCurLen := a, iPacketLen := b\<rparr>"
  have f: "core_fields c ?c" by (rule core_fieldsI [OF c(2)]) simp_all
  have b: "bufs_ok m ?c" by (rule bufs_ok_sized [OF c(1) m(1)]) simp_all
  have bl: "conn_blocks ?c = conn_blocks c" by (simp add: conn_blocks_def)
  show "live (received_some w p c so m s a b) ps ids {p}" "only_at p w (received_some w p c so m s a b)"
    by (rule live_private [OF l p f]; use b bl m rb dom_sized [OF m(1)] in \<open>auto simp: conn_blocks_def\<close>)+
qed

text \<open>The bytes of one read are put behind those that are there.\<close>

lemma live_read:
  assumes l: "live w ps ids {}" and p: "p \<in> ids" "w_conns w p = Some c" and need: "0 < need" "iRecvCurLen c + need \<le> iRecvTotalLen c"
  obtains r so m s rb got where "PynServerRecvData w (iFd c) (ptr_add (pszRecvBuf c) (iRecvCurLen c)) need = Inr (r, received w (iFd c) so m s)"
    "r \<le> need" "pszRecvBuf c = Ptr rb 0" "k_socks (w_kern w) (iFd c) = Some so" "int (length got) = iRecvCurLen c"
    "r \<le> 0 \<Longrightarrow> goes_on w p ids (DestroyConn (received w (iFd c) so m s) p)"
    "\<And>a b. live (received_some w p c so m s a b) ps ids {p}" "\<And>a b. only_at p w (received_some w p c so m s a b)"
    "0 < r \<Longrightarrow> \<exists>bs. int (length bs) = r \<and> mem_at m rb 0 (got @ bs) \<and> harmless_stream ((got @ bs) @ arriving s)"
    "5 \<le> iRecvCurLen c \<Longrightarrow> good_head got \<and> iPacketLen c = head_len got"
proof -
  have rr: "recv_ready w c" using liveD(10) [OF l p(1)] p(2) by simp
  obtain d where d: "w_conns w p = Some d" "conn_at w p d" "0 \<le> iFd d" by (rule live_conn [OF l p(1)])
  have c: "bufs_ok (w_mem w) c" "0 \<le> iFd c" using d p(2) by (simp_all add: conn_at_def)
  obtain rb rbs where rb: "pszRecvBuf c = Ptr rb 0" "w_mem w rb = Some rbs" "int (length rbs) = iRecvTotalLen c"
    by (rule bufs_okE [OF c(1)])
  obtain got so where g: "k_socks (w_kern w) (iFd c) = Some so" "mem_at (w_mem w) rb 0 got" "int (length got) = iRecvCurLen c"
    "harmless_stream (got @ arriving (s_in so))" "5 \<le> iRecvCurLen c \<longrightarrow> good_head got \<and> iPacketLen c = head_len got"
    using rr rb(1) by (auto simp: recv_ready_def)
  have room: "mem_room (w_mem w) rb (iRecvCurLen c + need)" using rb need by (simp add: mem_room_def)
  have off: "0 \<le> iRecvCurLen c" using g(3) by linarith
  obtain r m s where r: "PynServerRecvData w (iFd c) (Ptr rb (iRecvCurLen c)) need = Inr (r, received w (iFd c) so m s)"
    "r \<le> need" "mem_sized (w_mem w) m" "\<And>c. c \<noteq> rb \<Longrightarrow> m c = w_mem w c" "kept_outside (w_mem w) m rb (iRecvCurLen c) (iRecvCurLen c + need)"
    "0 < r \<Longrightarrow> \<exists>bs. int (length bs) = r \<and> mem_at m rb (iRecvCurLen c) bs \<and> arriving (s_in so) = bs @ arriving s"
    by (rule RecvData_result [OF c(2) g(1) room off]) (use need(1) in auto)
  have lv: "live (received_some w p c so m s a b) ps ids {p}" "only_at p w (received_some w p c so m s a b)" for a b
    using live_received_some [OF l _ p rb(1) r(3,4)] by simp_all
  have "received_some w p c so m s (iRecvCurLen c) (iPacketLen c) = received w (iFd c) so m s"
    using p(2) by (cases c) (simp add: received_some_def put_conn_def received_def fun_upd_idem)
  then have gu: "goes_on w p ids (DestroyConn (received w (iFd c) so m s) p)"
    using live_destroys [OF lv(1) [of "iRecvCurLen c" "iPacketLen c"] _ p(1)] lv(2) goes_on_from by fastforce
  have kept: "mem_at m rb 0 got" by (rule kept_outsideD [OF r(5) g(2)]) (use g(3) in simp)
  have more: "\<exists>bs. int (length bs) = r \<and> mem_at m rb 0 (got @ bs) \<and> harmless_stream ((got @ bs) @ arriving s)" if "0 < r"
    using r(6) [OF that] kept g(3,4) by (auto simp: mem_at_append)
  show thesis
    by (rule that [OF _ r(2) rb(1) g(1,3) gu lv more]) (use r(1) rb(1) g(5) in auto)
qed

lemma ready_after:
  assumes "mem_at m rb 0 got" "int (length got) = a" "harmless_stream (got @ arriving s)" "pszRecvBuf c = Ptr rb 0"
    "5 \<le> a \<longrightarrow> good_head got \<and> b = head_len got \<and> a < b \<and> b \<le> iRecvTotalLen c"
  shows "recv_ready (received_some w p c so m s a b) (conn_of (received_some w p c so m s a b) p)"
  using assms by (auto simp: recv_ready_def)

section \<open>Making room\<close>

lemma grow_total_grows:
  assumes "0 < tot" "0 \<le> cur" "cur + need \<le> PACKET_MAX_LEN"
  shows "\<exists>t. grow_total tot cur need = Inr t \<and> need \<le> t - cur \<and> tot \<le> t"
  using assms
proof (induction tot cur need rule: grow_total.induct)
  case (1 tot cur need)
  show ?case
  proof (cases "tot - cur < need")
    case False
    then show ?thesis by (simp add: grow_total.simps [of tot])
  next
    case True
    have fit: "c_int (tot * 2) = Inr (tot * 2)" using True 1(2,4) by (simp add: INT_MAX_def PACKET_MAX_LEN_def)
    obtain t where "grow_total (tot * 2) cur need = Inr t" "need \<le> t - cur" "tot * 2 \<le> t"
      using 1(1) [OF True _ fit] 1(2-4) by auto
    then show ?thesis using True 1(2) fit by (simp add: grow_total.simps [of tot])
  qed
qed

text \<open>A live connection in the middle of a receive, which has read the bytes \<open>got\<close>.\<close>

definition has_read :: "world \<Rightarrow> tptr list \<Rightarrow> nat set \<Rightarrow> nat \<Rightarrow> ConnFd \<Rightarrow> nat \<Rightarrow> sock \<Rightarrow> buf \<Rightarrow> bool" where
  "has_read w ps ids p c rb so got \<longleftrightarrow> live w ps ids {p} \<and> p \<in> ids \<and> w_conns w p = Some c \<and> pszRecvBuf c = Ptr rb 0
     \<and> k_socks (w_kern w) (iFd c) = Some so \<and> mem_at (w_mem w) rb 0 got \<and> int (length got) = iRecvCurLen c
     \<and> harmless_stream (got @ arriving (s_in so))"

lemma live_put_conn:
  assumes l: "live w ps ids X" "X \<subseteq> {p}" and p: "p \<in> ids" "w_conns w p = Some c"
    and f: "core_fields c c'" "pszRecvBuf c' = pszRecvBuf c" "pszSendBuf c' = pszSendBuf c" "iRecvTotalLen c' = iRecvTotalLen c"
  shows "live (put_conn w p c') ps ids {p}"
proof -
  obtain d where d: "w_conns w p = Some d" "conn_at w p d" "conn_core w p d" "k_socks (w_kern w) (iFd d) \<noteq> None"
    by (rule live_conn [OF l(1) p(1)])
  have c: "bufs_ok (w_mem w) c" "iSendTotalLen c' = iSendTotalLen c" using d p(2) f(1)
    by (simp_all add: conn_at_def conn_core_def core_fields_def)
  obtain so where so: "k_socks (w_kern w) (iFd c) = Some so" using d(1,4) p(2) by auto
  have b: "bufs_ok (w_mem w) c'" by (rule bufs_ok_fields [OF c(1) f(2-4) c(2)])
  have bl: "conn_blocks c' = conn_blocks c" using f(2,3) by (simp add: conn_blocks_def)
  show ?thesis
    by (rule live_private(1) [OF l p f(1), of _ so]) (use b bl so in \<open>auto simp: fun_upd_idem\<close>)
qed

text \<open>The receive buffer grows: the bytes read move to a new block.\<close>

lemma live_grown:
  assumes h: "has_read w ps ids p c rb so got" and n: "0 < need" "iRecvTotalLen c - iRecvCurLen c < need"
      "iRecvCurLen c + need \<le> PACKET_MAX_LEN"
  obtains w' c' rb' where "ResizeRecvBufferPtr w p need = Inr (Ptr rb' (iRecvCurLen c), w')" "has_read w' ps ids p c' rb' so got"
    "c' = c\<lparr>iRecvTotalLen := iRecvTotalLen c', pszRecvBuf := Ptr rb' 0\<rparr>" "iRecvCurLen c + need \<le> iRecvTotalLen c'" "only_at p w w'"
proof -
  note h' = h [unfolded has_read_def]
  have l: "live w ps ids {p}" and p: "p \<in> ids" "w_conns w p = Some c" using h' by simp_all
  obtain d where d: "w_conns w p = Some d" "p \<noteq> NULL" "conn_at w p d" "conn_core w p d" by (rule live_conn [OF l p(1)])
  have c: "bufs_ok (w_mem w) c" "conn_core w p c" using d p(2) by (simp_all add: conn_at_def)
  obtain sb rbs sbs where b: "pszRecvBuf c = Ptr rb 0" "pszSendBuf c = Ptr sb 0" "rb \<noteq> sb" "w_mem w rb = Some rbs"
    "w_mem w sb = Some sbs" "int (length rbs) = iRecvTotalLen c" "int (length sbs) = iSendTotalLen c"
    by (rule bufs_okE [OF c(1)]) (use h' in auto)
  obtain now where mal: "w_malloc w = []" by (rule live_clock [OF l])
  have cur: "0 \<le> iRecvCurLen c" "iRecvCurLen c = int (length got)" using h' by auto
  have tot: "5 \<le> iRecvTotalLen c" using c(2) by (simp add: conn_core_def)
  obtain t where t: "grow_total (iRecvTotalLen c) (iRecvCurLen c) need = Inr t" "need \<le> t - iRecvCurLen c" "iRecvTotalLen c \<le> t"
    using grow_total_grows [OF _ cur(1) n(3)] tot by force
  let ?nb = "w_next w" and ?junk = "map (w_junk w) [0..<nat t]" and ?c1 = "c\<lparr>iRecvTotalLen := t\<rparr>"
  let ?m = "(w_mem w)(?nb \<mapsto> ?junk)"
  have fresh: "?nb \<noteq> rb" "?nb \<noteq> sb" using c(2) b(1,2) by (auto simp: conn_core_def conn_blocks_def)
  have "mem_at (w_mem w) rb 0 got" using h' by blast
  then have at: "mem_at ?m rb 0 got" using fresh(1) by (simp add: mem_at_iff)
  have room: "mem_room ?m ?nb t" using t(2) n(1) cur(1) by (simp add: mem_room_def)
  obtain m where m: "store_bytes ?m (Ptr ?nb 0) got = Inr m" "mem_at m ?nb 0 got"
    by (rule store_kept [OF room, of 0 got]) (use t(2) n(1) cur in auto)
  have mv: "c_memmove ?m (Ptr ?nb 0) (Ptr rb 0) (iRecvCurLen c) = Inr m"
    using mem_at_load [OF at] cur(2) m(1) by (simp add: c_memmove_def)
  have other: "m b = ?m b" if "b \<noteq> ?nb" for b using store_bytes_frame [OF m(1) that] .
  have len: "map_option length (m ?nb) = Some (nat t)" using mem_sized_store [OF m(1)] by (simp add: mem_sized_def)
  let ?c' = "c\<lparr>iRecvTotalLen := t, pszRecvBuf := Ptr ?nb 0\<rparr>"
  let ?w1 = "put_mem (snd (malloc_bytes (put_conn w p ?c1) t)) m"
  let ?w' = "put_conn (?w1\<lparr>w_mem := m(rb := None)\<rparr>) p ?c'"
  have al: "malloc_bytes (put_conn w p ?c1) t = (Ptr ?nb 0, (put_conn w p ?c1)\<lparr>w_next := ?nb + 1, w_mem := ?m\<rparr>)"
    using malloc_bytes_granted [of "put_conn w p ?c1" t] mal t(3) tot by (simp add: put_conn_def)
  have res: "ResizeRecvBufferPtr w p need = Inr (Ptr ?nb (iRecvCurLen c), ?w')"
    using d(2) n(1,2) p(2) t(1) al mv b(1,4) fresh(1) other [of rb] unfolding ResizeRecvBufferPtr_def
    by (simp add: Let_def)
  have w': "w_base ?w' = w_base w" "w_tevs ?w' = w_tevs w" "w_malloc ?w' = w_malloc w" "w_conns ?w' = (w_conns w)(p \<mapsto> ?c')"
      "w_next ?w' = ?nb + 1" "w_kern ?w' = w_kern w" "w_mem ?w' = m(rb := None)"
    using al by (simp_all add: put_mem_def put_conn_def)
  have f: "core_fields c ?c'" by (rule core_fieldsI [OF c(2)]) (use t(3) in simp_all)
  have bo: "bufs_ok (w_mem ?w') ?c'"
    using w'(7) b len other [of sb] fresh t(3) tot by (auto simp: bufs_ok_def)
  have socks: "(k_socks (w_kern w))(iFd c \<mapsto> so) = k_socks (w_kern w)" using h' by (simp add: fun_upd_idem)
  have mem: "w_mem ?w' x = w_mem w x" if "x \<notin> conn_blocks c" "x < ?nb" for x
    using that w'(7) other [of x] b(1) by (auto simp: conn_blocks_def)
  have bl: "x \<in> conn_blocks c \<or> ?nb \<le> x \<and> x < w_next ?w'" if "x \<in> conn_blocks ?c'" for x
    using that b(2) w'(5) by (auto simp: conn_blocks_def)
  have dm: "dom (w_mem ?w') - conn_blocks ?c' \<subseteq> dom (w_mem w) - conn_blocks c"
    using dom_sized [OF mem_sized_store [OF m(1)]] b(1,2) by (auto simp: w'(7) conn_blocks_def)
  have lv: "live ?w' ps ids {p}" "only_at p w ?w'"
    by (rule live_private [OF l order_refl p f w'(1-4) _ _ _ _ mem bo bl dm, of so]; use w'(5,6) socks in simp)+
  have "has_read ?w' ps ids p ?c' ?nb so got"
    using lv(1) h' w' m(2) fresh(1) by (simp add: has_read_def mem_at_iff)
  then show thesis by (rule that [OF res]) (use t(2) lv(2) in auto)
qed

section \<open>The head\<close>

lemma give_up_goes_on:
  assumes "goes_on w p ids (DestroyConn w1 p)"
  shows "\<exists>w'. give_up w1 p = Inr (False, w') \<and> goes_on w p ids (Inr w')"
proof -
  obtain w' qs ids' where d: "DestroyConn w1 p = Inr w'" "live w' qs ids' {}" "ids' \<subseteq> ids" "only_at p w w'"
    using assms by (auto simp: goes_on_def)
  then show ?thesis using goes_onI [OF d(2-4)] by (simp add: give_up_def)
qed

lemma has_read_ready:
  assumes "has_read w ps ids p c rb so got"
    and "5 \<le> iRecvCurLen c \<longrightarrow> good_head got \<and> iPacketLen c = head_len got \<and> iRecvCurLen c < iPacketLen c \<and> iPacketLen c \<le> iRecvTotalLen c"
  shows "live w ps ids {}"
proof (rule live_received)
  show "live w ps ids {p}" using assms(1) by (simp add: has_read_def)
  show "recv_ready w (conn_of w p)" using assms by (auto simp: has_read_def recv_ready_def)
qed

text \<open>The handler goes on to the body, on a server in order.\<close>

definition head_done :: "world \<Rightarrow> tptr list \<Rightarrow> nat set \<Rightarrow> nat \<Rightarrow> world \<Rightarrow> bool" where
  "head_done w ps ids p w' \<longleftrightarrow> live w' ps ids {} \<and> only_at p w w' \<and> (\<exists>c'. w_conns w' p = Some c' \<and> 5 \<le> iRecvCurLen c')"

lemma check_head_live:
  assumes h: "has_read w ps ids p c rb so got" and five: "iRecvCurLen c = 5"
  shows "(\<exists>w'. check_head w p = Inr (False, w') \<and> goes_on w p ids (Inr w'))
     \<or> (\<exists>w'. check_head w p = Inr (True, w') \<and> head_done w ps ids p w')"
proof -
  have l: "live w ps ids {p}" and p: "p \<in> ids" "w_conns w p = Some c" and rb: "pszRecvBuf c = Ptr rb 0"
    and at: "mem_at (w_mem w) rb 0 got" and len: "length got = 5"
    using h five by (simp_all add: has_read_def)
  obtain d where d: "w_conns w p = Some d" "p \<noteq> NULL" "conn_core w p d" by (rule live_conn [OF l p(1)])
  let ?n = "head_len got"
  let ?c1 = "c\<lparr>iPacketLen := ?n\<rparr>"
  let ?w1 = "put_conn w p ?c1"
  have f: "core_fields c ?c1" by (rule core_fieldsI [of w p]) (use d p(2) in simp_all)
  have l1: "live ?w1 ps ids {p}" by (rule live_put_conn [OF l order_refl p f]) simp_all
  have h1: "has_read ?w1 ps ids p ?c1 rb so got" using h l1 by (simp add: has_read_def)
  have o1: "only_at p w ?w1" by (rule only_at_put [OF p(2) f]) (simp add: conn_blocks_def)
  have gu: "\<exists>w'. give_up ?w1 p = Inr (False, w') \<and> goes_on w p ids (Inr w')"
    using give_up_goes_on [OF goes_on_from [OF live_destroys [OF l1 order_refl p(1)] o1]] by simp
  have "got = [got ! 0] @ drop 1 got" using len by (metis Cons_nth_drop_Suc append_Cons append_Nil drop0 drop_Suc_Cons One_nat_def zero_less_numeral)
  then have "mem_at (w_mem w) rb 0 ([got ! 0] @ drop 1 got)" using at by metis
  then have at': "mem_at (w_mem w) rb 0 [got ! 0]" "mem_at (w_mem w) rb 1 (drop 1 got)" by (simp_all only: mem_at_append) simp_all
  have ld: "load_bytes (w_mem w) (Ptr rb 1) 4 = Inr (drop 1 got)" by (rule mem_at_load [OF at'(2)]) (use len in simp)
  have soh: "load_byte (w_mem w) (Ptr rb 0) 0 = Inr (got ! 0)" using mem_at_load_byte [of "w_mem w" rb 0 0] at'(1) by simp
  have n: "sint (ntohl_bytes (drop 1 got)) = ?n" using len by (simp add: head_len_def)
  have ch: "check_head w p = (if got ! 0 \<noteq> PROTO_SOH \<or> ?n \<le> 13 then give_up ?w1 p
      else if ?n > PACKET_MAX_LEN then give_up ?w1 p
      else cbind (ResizeRecvBufferPtr ?w1 p (?n - 5)) (\<lambda>(q, w2). if q = CNull then give_up w2 p else Inr (True, w2)))"
    using d(2) p(2) rb ld soh n by (simp add: check_head_def packet_pos PACKET_HEAD_LEN_def Let_def)
  show ?thesis
  proof (cases "good_head got")
    case False
    then have "check_head w p = give_up ?w1 p" unfolding ch using len by (auto simp: good_head_def)
    then show ?thesis using gu by simp
  next
    case True
    then have g: "got ! 0 = PROTO_SOH" "13 < ?n" "?n \<le> PACKET_MAX_LEN" by (simp_all add: good_head_def)
    have ch': "check_head w p = cbind (ResizeRecvBufferPtr ?w1 p (?n - 5)) (\<lambda>(q, w2). if q = CNull then give_up w2 p else Inr (True, w2))"
      unfolding ch using g by simp
    show ?thesis
    proof (cases "?n \<le> iRecvTotalLen c")
      case fits: True
      have "ResizeRecvBufferPtr ?w1 p (?n - 5) = Inr (Ptr rb 5, ?w1)"
        using d(2) g(2) fits five rb by (simp add: ResizeRecvBufferPtr_def)
      moreover have "live ?w1 ps ids {}" by (rule has_read_ready [OF h1]) (use True g(2) five fits in simp)
      ultimately show ?thesis using five o1 unfolding ch' by (simp add: head_done_def)
    next
      case grow: False
      obtain w' c' rb' where r: "ResizeRecvBufferPtr ?w1 p (?n - 5) = Inr (Ptr rb' (iRecvCurLen ?c1), w')"
        "has_read w' ps ids p c' rb' so got" "c' = ?c1\<lparr>iRecvTotalLen := iRecvTotalLen c', pszRecvBuf := Ptr rb' 0\<rparr>"
        "iRecvCurLen ?c1 + (?n - 5) \<le> iRecvTotalLen c'" "only_at p ?w1 w'"
        by (rule live_grown [OF h1, of "?n - 5"]) (use grow g five in simp_all)
      have c': "iRecvCurLen c' = 5" "iPacketLen c' = ?n" by (subst r(3); simp add: five)+
      have "live w' ps ids {}" by (rule has_read_ready [OF r(2)]) (use True g(2) five c' r(4) in simp)
      then show ?thesis using r(1,2) c' only_at_trans [OF o1 r(5)] unfolding ch' by (auto simp: head_done_def has_read_def)
    qed
  qed
qed

lemma recv_head_live:
  assumes l: "live w ps ids {}" and p: "p \<in> ids" "w_conns w p = Some c" and cur: "iRecvCurLen c < 5"
  shows "(\<exists>w'. recv_head w p = Inr (False, w') \<and> goes_on w p ids (Inr w'))
     \<or> (\<exists>w'. recv_head w p = Inr (True, w') \<and> head_done w ps ids p w')"
proof -
  obtain d where d: "w_conns w p = Some d" "p \<noteq> NULL" "conn_core w p d" by (rule live_conn [OF l p(1)])
  then have tot: "5 \<le> iRecvTotalLen c" using p(2) by (simp add: conn_core_def)
  obtain r so m s rb got where r: "PynServerRecvData w (iFd c) (ptr_add (pszRecvBuf c) (iRecvCurLen c)) (5 - iRecvCurLen c)
        = Inr (r, received w (iFd c) so m s)"
    "r \<le> 5 - iRecvCurLen c" "pszRecvBuf c = Ptr rb 0" "k_socks (w_kern w) (iFd c) = Some so" "int (length got) = iRecvCurLen c"
    "r \<le> 0 \<Longrightarrow> goes_on w p ids (DestroyConn (received w (iFd c) so m s) p)"
    "\<And>a b. live (received_some w p c so m s a b) ps ids {p}" "\<And>a b. only_at p w (received_some w p c so m s a b)"
    "0 < r \<Longrightarrow> \<exists>bs. int (length bs) = r \<and> mem_at m rb 0 (got @ bs) \<and> harmless_stream ((got @ bs) @ arriving s)"
    by (rule live_read [OF l p, of "5 - iRecvCurLen c"]) (use cur tot in auto)
  show ?thesis
  proof (cases "r \<le> 0")
    case True
    then have "recv_head w p = give_up (received w (iFd c) so m s) p"
      using d(2) p(2) r(1) by (simp add: recv_head_def PACKET_HEAD_LEN_def)
    then show ?thesis using give_up_goes_on [OF r(6) [OF True]] by simp
  next
    case pos: False
    obtain bs where bs: "int (length bs) = r" "mem_at m rb 0 (got @ bs)" "harmless_stream ((got @ bs) @ arriving s)"
      using r(9) pos by auto
    let ?a = "iRecvCurLen c + r" and ?so = "so\<lparr>s_in := s\<rparr>"
    let ?w2 = "received_some w p c so m s ?a (iPacketLen c)" and ?c2 = "c\<lparr>iRecvCurLen := ?a\<rparr>"
    have c2: "c\<lparr>iRecvCurLen := ?a, iPacketLen := iPacketLen c\<rparr> = ?c2" by (cases c) simp
    have w2: "put_conn (received w (iFd c) so m s) p ?c2 = ?w2" by (simp add: received_some_def c2)
    have h2: "has_read ?w2 ps ids p ?c2 rb ?so (got @ bs)"
      using r(3,5,7) bs p c2 by (simp add: has_read_def)
    show ?thesis
    proof (cases "?a < 5")
      case True
      then have "recv_head w p = Inr (False, ?w2)"
        using d(2) p(2) r(1) pos w2 by (simp add: recv_head_def PACKET_HEAD_LEN_def Let_def)
      moreover have "live ?w2 ps ids {}" by (rule has_read_ready [OF h2]) (use True in simp)
      ultimately show ?thesis using r(8) by (auto intro!: goes_onI)
    next
      case False
      then have five: "?a = 5" using r(2) by simp
      then have "recv_head w p = check_head ?w2 p"
        using d(2) p(2) r(1) pos w2 by (simp add: recv_head_def PACKET_HEAD_LEN_def Let_def)
      then show ?thesis
        using check_head_live [OF h2] five goes_on_from [OF _ r(8)] only_at_trans [OF r(8)] by (auto simp: head_done_def)
    qed
  qed
qed

end
