(* ===== verification/LivePacket.thy ===== *)
theory LivePacket
  imports LiveRecv
begin

text \<open>
  The processing of a complete, harmless packet on a live server, and the body part of the read
  handler: dropped packets, unknown commands and echo requests leave the server in order.
\<close>

lemma mem_at_nth:
  assumes "mem_at m b 0 xs" "i < length xs"
  shows "load_byte m (Ptr b 0) (int i) = Inr (xs ! i)"
proof -
  obtain bs where bs: "m b = Some bs" "length xs \<le> length bs" "take (length xs) bs = xs"
    using assms(1) by (auto simp: mem_at_iff)
  have "bs ! i = xs ! i" using bs(3) assms(2) by (metis nth_take)
  then show ?thesis using bs(1,2) assms(2) by (simp add: load_byte_Inr_iff peek_Inr_iff)
qed

lemma mem_at_part:
  assumes "mem_at m b 0 xs" "k + n \<le> length xs"
  shows "load_bytes m (Ptr b (int k)) (int n) = Inr (take n (drop k xs))"
proof -
  obtain bs where bs: "m b = Some bs" "length xs \<le> length bs" "take (length xs) bs = xs"
    using assms(1) by (auto simp: mem_at_iff)
  have "take n (drop k xs) = take n (drop k (take (length xs) bs))" by (simp only: bs(3))
  also have "\<dots> = take n (drop k bs)" using assms(2) by (simp add: drop_take min_absorb1)
  finally show ?thesis using bs(1,2) assms(2) by (simp add: load_bytes_Inr_iff mem_slice_Inr_iff)
qed

section \<open>Recognising the packet\<close>

lemma String2PacketPack_complete:
  assumes "mem_at m rb 0 pkt" "good_head pkt"
  shows "String2PacketPack True m (Ptr rb 0) (int (length pkt)) =
    Inr (if pkt ! (length pkt - 1) = PROTO_EOT then Some \<lparr>pBuffer = Ptr rb 0, iPos = PACKET_BODY_POS,
        iTailer = int (length pkt) - 1, iHeader = 0, iTotal = int (length pkt)\<rparr> else None)"
proof -
  have g: "5 \<le> length pkt" "pkt ! 0 = PROTO_SOH" using assms(2) by (simp_all add: good_head_def)
  have l0: "load_byte m (Ptr rb 0) 0 = Inr PROTO_SOH" using mem_at_nth [OF assms(1), of 0] g by fastforce
  have ne: "pkt \<noteq> []" using g(1) by auto
  then have "int (length pkt - 1) = int (length pkt) - 1" by (cases pkt) simp_all
  then have l1: "load_byte m (Ptr rb 0) (int (length pkt) - 1) = Inr (pkt ! (length pkt - 1))"
    using mem_at_nth [OF assms(1), of "length pkt - 1"] ne by simp
  show ?thesis using l0 l1 by (simp add: String2PacketPack_def bad_ends_def PACKET_SOH_POS_def)
qed

text \<open>A packet that asks for nothing the server does changes nothing.\<close>

lemma process_drops:
  assumes c: "w_conns w p = Some c" "p \<noteq> NULL" "pszRecvBuf c = Ptr rb 0" "iRecvCurLen c = int (length pkt)"
    and at: "mem_at (w_mem w) rb 0 pkt" "good_head pkt" "9 \<le> length pkt" and mal: "w_malloc w = []"
    and drop: "pkt ! (length pkt - 1) \<noteq> PROTO_EOT \<or> packet_cmd pkt \<noteq> CMD_TEST_VALUE \<and> packet_cmd pkt \<noteq> CMD_TEST_ECHO"
  shows "ProcessEntirePacket w p = Inr (RET_FAIL, w)"
proof -
  have "load_bytes (w_mem w) (Ptr rb 5) 4 = Inr (take 4 (drop 5 pkt))"
    using mem_at_part [OF at(1), of 5 4] at(3) by simp
  then show ?thesis
    using c drop String2PacketPack_complete [OF at(1,2)]
    by (simp add: ProcessEntirePacket_def ask_malloc_granted [OF mal] GetPacketCmd_def packet_pos packet_cmd_def)
qed

lemma process_echoes:
  assumes c: "w_conns w p = Some c" "p \<noteq> NULL" "pszRecvBuf c = Ptr rb 0" "iRecvCurLen c = int (length pkt)"
    and at: "mem_at (w_mem w) rb 0 pkt" "good_head pkt" "9 \<le> length pkt" and mal: "w_malloc w = []"
    and echo: "pkt ! (length pkt - 1) = PROTO_EOT" "packet_cmd pkt = CMD_TEST_ECHO"
  shows "ProcessEntirePacket w p = cbind (SendBackEcho w p) (\<lambda>(_, w2). Inr (RET_SUCC, w2))"
proof -
  have "load_bytes (w_mem w) (Ptr rb 5) 4 = Inr (take 4 (drop 5 pkt))"
    using mem_at_part [OF at(1), of 5 4] at(3) by simp
  then show ?thesis
    using c echo String2PacketPack_complete [OF at(1,2)]
    by (simp add: ProcessEntirePacket_def ask_malloc_granted [OF mal] GetPacketCmd_def packet_pos packet_cmd_def
        CMD_TEST_VALUE_def CMD_TEST_ECHO_def)
qed

section \<open>Queueing an echo\<close>

lemma live_echoes:
  assumes h: "has_read w ps ids p c rb so pkt" and n: "iPacketLen c = int (length pkt)" "int (length pkt) \<le> MAX_TCP_BUF_SIZE"
  shows "\<exists>w' c'. SendBackEcho w p = Inr (RET_SUCC, w') \<and> live w' ps ids {p} \<and> only_at p w w' \<and> w_conns w' p = Some c'
     \<and> pstTimeoutEvent c' = pstTimeoutEvent c \<and> iFd c' = iFd c \<and> k_socks (w_kern w') = k_socks (w_kern w)"
proof -
  have l: "live w ps ids {p}" and p: "p \<in> ids" "w_conns w p = Some c" and rb: "pszRecvBuf c = Ptr rb 0"
    and at: "mem_at (w_mem w) rb 0 pkt" and so: "k_socks (w_kern w) (iFd c) = Some so"
    using h by (simp_all add: has_read_def)
  obtain d where d: "w_conns w p = Some d" "p \<noteq> NULL" "conn_core w p d" "conn_at w p d" by (rule live_conn [OF l p(1)])
  then have c: "conn_core w p c" "conn_at w p c" "bufs_ok (w_mem w) c" "pstEventBase c \<noteq> NULL" using p(2) by (simp_all add: conn_at_def)
  obtain rb' sb sbs where b: "pszRecvBuf c = Ptr rb' 0" "pszSendBuf c = Ptr sb 0" "rb' \<noteq> sb" "w_mem w sb = Some sbs"
    "int (length sbs) = iSendTotalLen c"
    by (rule bufs_okE [OF c(3)])
  have tot: "iSendTotalLen c = MAX_TCP_BUF_SIZE" using c(1) by (simp add: conn_core_def)
  have room: "mem_room (w_mem w) sb MAX_TCP_BUF_SIZE" using b(4,5) tot by (simp add: mem_room_def)
  obtain m where m: "store_bytes (w_mem w) (Ptr sb 0) pkt = Inr m" by (rule store_kept [OF room, of 0 pkt]) (use n in simp_all)
  have cpy: "c_memcpy (w_mem w) (Ptr sb 0) (Ptr rb 0) (int (length pkt)) = Inr m"
    using mem_at_load [OF at] m(1) by (simp add: c_memcpy_def c_memmove_def)
  let ?c1 = "c\<lparr>iSendPacketLen := int (length pkt)\<rparr>"
  let ?w1 = "put_conn (put_mem w m) p ?c1"
  have f: "core_fields c ?c1" using c(1) n(2) by (simp add: core_fields_def conn_core_def)
  have bo: "bufs_ok m ?c1" by (rule bufs_ok_sized [OF c(3) mem_sized_store [OF m]]) simp_all
  have l1: "live ?w1 ps ids {p}" "only_at p w ?w1"
    by (rule live_private [OF l order_refl p f, of _ so];
        use bo so b store_bytes_frame [OF m] dom_sized [OF mem_sized_store [OF m]] in \<open>auto simp: conn_blocks_def fun_upd_idem\<close>)+
  have p1: "w_conns ?w1 p = Some ?c1" by simp
  obtain eb sl where s: "w_base ?w1 = Some eb" "get_slot eb (iFd ?c1) = Inr sl" "pstArg sl = p" "pFunEventCallbackRead sl = RecvProc"
    "iMask sl = EVENT_READABLE \<or> iMask sl = EVENT_READABLE OR EVENT_WRITABLE \<and> pFunEventCallbackWrite sl = SendProc"
    by (rule live_slot_here [OF l1(1) p(1) p1])
  obtain d1 where d1: "w_conns ?w1 p = Some d1" "conn_at ?w1 p d1" by (rule live_conn [OF l1(1) p(1)])
  then have at1: "conn_at ?w1 p ?c1" using p1 by (metis option.sel)
  have us: "iFd c \<in> usable_fds ?w1" "in_sync (slot_mask ?w1) (watched_by_kernel ?w1)" using at1 by (simp_all add: conn_at_def)
  let ?sl = "if iMask sl AND EVENT_WRITABLE = 0 then slot_with sl EVENT_WRITABLE SendProc p else sl"
  have mask: "iMask ?sl = EVENT_READABLE OR EVENT_WRITABLE" "add_bits (iMask sl) EVENT_WRITABLE = EVENT_READABLE OR EVENT_WRITABLE"
    "pFunEventCallbackWrite ?sl = SendProc" "pstArg ?sl = p" "pFunEventCallbackRead ?sl = RecvProc"
    using s(3,4,5) rw_bits by (auto simp: slot_with_def add_bits_def)
  obtain k where k: "EventAdd ?w1 (pstEventBase c) (iFd c) EVENT_WRITABLE SendProc p = Inr (RET_SUCC, reslot ?w1 eb (iFd c) ?sl k)"
    "interest_upd (w_kern ?w1) k (iFd c) (iMask ?sl)"
    using EventAdd_form [OF us(2,1) c(4) rw_bits(2) s(1), of sl SendProc p] s(2) unfolding mask by auto
  let ?w' = "reslot ?w1 eb (iFd c) ?sl k"
  have res: "SendBackEcho w p = Inr (RET_SUCC, ?w')"
    using d(2) p(2) rb b(2) n(1) cpy k(1) by (simp add: SendBackEcho_def)
  have "live ?w' ps ids (insert p {p})" and o: "only_at p ?w1 ?w'"
    by (rule live_reslot [OF l1(1) p(1) p1 s(1), of k ?sl]; use k(2) mask in simp)+
  moreover have "k_socks k = k_socks (w_kern w)" using k(2) by (simp add: interest_upd_def)
  ultimately show ?thesis using res only_at_trans [OF l1(2) o] by (intro exI [of _ ?w'] exI [of _ ?c1]) simp
qed

section \<open>The end of a packet\<close>

lemma live_processes:
  assumes h: "has_read w ps ids p c rb so pkt" and n: "iPacketLen c = int (length pkt)" and g: "good_head pkt" "9 \<le> length pkt"
    and ok: "harmless_packet pkt"
  shows "\<exists>r w' c'. ProcessEntirePacket w p = Inr (r, w') \<and> live w' ps ids {p} \<and> only_at p w w' \<and> w_conns w' p = Some c'
     \<and> pstTimeoutEvent c' = pstTimeoutEvent c \<and> iFd c' = iFd c \<and> k_socks (w_kern w') = k_socks (w_kern w)"
proof -
  have l: "live w ps ids {p}" and p: "p \<in> ids" "w_conns w p = Some c" and rb: "pszRecvBuf c = Ptr rb 0"
    and at: "mem_at (w_mem w) rb 0 pkt" and cur: "iRecvCurLen c = int (length pkt)"
    using h by (simp_all add: has_read_def)
  obtain d where nz: "p \<noteq> NULL" by (rule live_conn [OF l p(1)])
  obtain now where mal: "w_malloc w = []" by (rule live_clock [OF l])
  note a = p(2) nz rb cur at g mal
  show ?thesis
  proof (cases "pkt ! (length pkt - 1) = PROTO_EOT \<and> packet_cmd pkt = CMD_TEST_ECHO")
    case True
    then have fit: "int (length pkt) \<le> MAX_TCP_BUF_SIZE" using ok by (auto simp: harmless_packet_def)
    show ?thesis using live_echoes [OF h n fit] process_echoes [OF a] True by auto
  next
    case False
    then have "ProcessEntirePacket w p = Inr (RET_FAIL, w)"
      by (intro process_drops [OF a]) (use ok in \<open>auto simp: harmless_packet_def\<close>)
    then show ?thesis using l p by auto
  qed
qed

lemma live_finishes:
  assumes h: "has_read w ps ids p c rb so pkt" and n: "iPacketLen c = int (length pkt)"
    and g: "good_head pkt" "head_len pkt = int (length pkt)" and ep: "ep \<noteq> NULL"
  shows "goes_on w p ids (finish_packet w ep p)"
proof -
  have p: "p \<in> ids" and so: "k_socks (w_kern w) (iFd c) = Some so" and hs: "harmless_stream (pkt @ arriving (s_in so))"
    using h by (simp_all add: has_read_def)
  have len: "9 \<le> length pkt" using g by (simp add: good_head_def)
  note hl = harmless_stream_packet [OF hs g]
  obtain r w1 c1 where w1: "ProcessEntirePacket w p = Inr (r, w1)" "live w1 ps ids {p}" "only_at p w w1" "w_conns w1 p = Some c1"
    "iFd c1 = iFd c" "k_socks (w_kern w1) = k_socks (w_kern w)"
    using live_processes [OF h n g(1) len hl(1)] by blast
  obtain w2 qs where w2: "RegisterTimerOutEvent w1 ep (pstTimeoutEvent c1) MAX_CONN_TIMEOUT = Inr (RET_SUCC, w2)"
    "live w2 qs ids (insert p {p})" "only_at p w1 w2" "w_conns w2 = w_conns w1" "w_kern w2 = w_kern w1"
    using live_restarts [OF w1(2) p w1(4) ep] by blast
  have l2: "live w2 qs ids {p}" using w2(2) by simp
  obtain d where d: "w_conns w2 p = Some d" "p \<noteq> NULL" "conn_at w2 p d" "conn_core w2 p d" by (rule live_conn [OF l2 p])
  have c2: "w_conns w2 p = Some c1" "bufs_ok (w_mem w2) c1" "conn_core w2 p c1"
    using d w1(4) w2(4) by (simp_all add: conn_at_def)
  let ?c = "c1\<lparr>iRecvCurLen := 0, iPacketLen := 0\<rparr>"
  let ?w = "put_conn w2 p ?c"
  have f: "core_fields c1 ?c" by (rule core_fieldsI [OF c2(3)]) simp_all
  have l3: "live ?w qs ids {p}" by (rule live_put_conn [OF l2 order_refl p c2(1) f]) simp_all
  obtain rb' rbs where b: "pszRecvBuf c1 = Ptr rb' 0" "w_mem w2 rb' = Some rbs" by (rule bufs_okE [OF c2(2)])
  have "mem_at (w_mem w2) rb' 0 []" using b(2) by (simp add: mem_at_iff)
  then have "recv_ready ?w (conn_of ?w p)"
    using so w1(5,6) w2(5) b(1) hl(2) by (auto simp: recv_ready_def)
  then have "live ?w qs ids {}" by (rule live_received [OF l3])
  moreover have "finish_packet w ep p = Inr ?w"
    using w1(1,4) w2(1) c2(1) d(2) by (simp add: finish_packet_def)
  moreover have "only_at p w2 ?w" by (rule only_at_put [OF c2(1) f]) (simp add: conn_blocks_def)
  ultimately show ?thesis using only_at_trans [OF only_at_trans [OF w1(3) w2(3)]] by (auto intro!: goes_onI)
qed

section \<open>The read handler\<close>

lemma recv_body_live:
  assumes l: "live w ps ids {}" and p: "p \<in> ids" "w_conns w p = Some c" and cur: "5 \<le> iRecvCurLen c" and ep: "ep \<noteq> NULL"
  shows "goes_on w p ids (recv_body w ep p)"
proof -
  obtain d where nz: "p \<noteq> NULL" by (rule live_conn [OF l p(1)])
  have rr: "recv_ready w c" using liveD(10) [OF l p(1)] p(2) by simp
  then have len: "iRecvCurLen c < iPacketLen c" "iPacketLen c \<le> iRecvTotalLen c" using cur by (auto simp: recv_ready_def)
  let ?need = "if iPacketLen c - iRecvCurLen c > 4096 then 4096 else iPacketLen c - iRecvCurLen c"
  have need: "0 < ?need" "iRecvCurLen c + ?need \<le> iPacketLen c" using len(1) by auto
  obtain r so m s rb got where r: "PynServerRecvData w (iFd c) (ptr_add (pszRecvBuf c) (iRecvCurLen c)) ?need
        = Inr (r, received w (iFd c) so m s)"
    "r \<le> ?need" "pszRecvBuf c = Ptr rb 0" "k_socks (w_kern w) (iFd c) = Some so" "int (length got) = iRecvCurLen c"
    "r \<le> 0 \<Longrightarrow> goes_on w p ids (DestroyConn (received w (iFd c) so m s) p)"
    "\<And>a b. live (received_some w p c so m s a b) ps ids {p}" "\<And>a b. only_at p w (received_some w p c so m s a b)"
    "0 < r \<Longrightarrow> \<exists>bs. int (length bs) = r \<and> mem_at m rb 0 (got @ bs) \<and> harmless_stream ((got @ bs) @ arriving s)"
    "5 \<le> iRecvCurLen c \<Longrightarrow> good_head got \<and> iPacketLen c = head_len got"
    by (rule live_read [OF l p need(1)]) (use need(2) len(2) in auto)
  have pos: "\<not> iPacketLen c \<le> 0" using len(1) cur by linarith
  let ?a = "iRecvCurLen c + r" and ?so = "so\<lparr>s_in := s\<rparr>"
  let ?w2 = "received_some w p c so m s ?a (iPacketLen c)" and ?c2 = "c\<lparr>iRecvCurLen := ?a\<rparr>"
  have c2: "c\<lparr>iRecvCurLen := ?a, iPacketLen := iPacketLen c\<rparr> = ?c2" by (cases c) simp
  have w2: "put_conn (received w (iFd c) so m s) p ?c2 = ?w2" by (simp add: received_some_def c2)
  have body: "recv_body w ep p = (if r \<le> 0 then DestroyConn (received w (iFd c) so m s) p
      else if ?a < iPacketLen c then Inr ?w2 else finish_packet ?w2 ep p)"
    using nz p(2) pos r(1) w2 by (simp add: recv_body_def Let_def)
  show ?thesis
  proof (cases "r \<le> 0")
    case True
    then show ?thesis using body r(6) by simp
  next
    case False
    then obtain bs where bs: "int (length bs) = r" "mem_at m rb 0 (got @ bs)" "harmless_stream ((got @ bs) @ arriving s)"
      using r(9) by auto
    have h2: "has_read ?w2 ps ids p ?c2 rb ?so (got @ bs)" using r(3,5,7) bs p c2 by (simp add: has_read_def)
    have g: "good_head (got @ bs)" "head_len (got @ bs) = iPacketLen c"
      using r(5,10) cur good_head_append [of got bs] head_len_append [of got bs] by simp_all
    show ?thesis
    proof (cases "?a < iPacketLen c")
      case True
      then have "live ?w2 ps ids {}" using has_read_ready [OF h2] g len(2) by simp
      then show ?thesis unfolding body using False True r(8) by (auto intro!: goes_onI)
    next
      case full: False
      then have "iPacketLen ?c2 = int (length (got @ bs))" using r(2,5) need(2) bs(1) by simp
      then have "goes_on ?w2 p ids (finish_packet ?w2 ep p)" using live_finishes [OF h2 _ g(1) _ ep] g(2) by simp
      then show ?thesis unfolding body using False full goes_on_from [OF _ r(8)] by simp
    qed
  qed
qed

lemma recv_callback_live:
  assumes l: "live w ps ids {}" and p: "p \<in> ids" "w_conns w p = Some c" and ep: "ep \<noteq> NULL"
  shows "goes_on w p ids (ProcessRecvCallback w ep (iFd c) p)"
proof -
  obtain d where d: "w_conns w p = Some d" "p \<noteq> NULL" "0 \<le> iFd d" by (rule live_conn [OF l p(1)])
  have cb: "ProcessRecvCallback w ep (iFd c) p = cbind (if iRecvCurLen c < 5 then recv_head w p else Inr (True, w))
      (\<lambda>(go, w1). if go then recv_body w1 ep p else Inr w1)"
    using d p(2) ep by (simp add: ProcessRecvCallback_def PACKET_HEAD_LEN_def)
  show ?thesis
  proof (cases "iRecvCurLen c < 5")
    case False
    then show ?thesis unfolding cb using recv_body_live [OF l p _ ep] by simp
  next
    case True
    then consider w' where "recv_head w p = Inr (False, w')" "goes_on w p ids (Inr w')"
      | w' where "recv_head w p = Inr (True, w')" "head_done w ps ids p w'"
      using recv_head_live [OF l p] by blast
    then show ?thesis
    proof cases
      case 1
      then show ?thesis unfolding cb using True by simp
    next
      case 2
      then obtain c' where c': "live w' ps ids {}" "only_at p w w'" "w_conns w' p = Some c'" "5 \<le> iRecvCurLen c'"
        by (auto simp: head_done_def)
      then have "goes_on w p ids (recv_body w' ep p)"
        using goes_on_from [OF recv_body_live [OF c'(1) p(1) c'(3,4) ep] c'(2)] by simp
      then show ?thesis unfolding cb using True 2(1) by simp
    qed
  qed
qed

end
