(* ===== verification/LiveSend.thy ===== *)
theory LiveSend
  imports LiveRecv SendFlow
begin

text \<open>
  The write handler on a live server: whatever the socket takes, and wherever an earlier echo was
  interrupted, the handler returns and the server goes on.
\<close>

lemma recv_ready_cong:
  assumes "recv_ready w c" "w_mem w' = w_mem w" "k_socks (w_kern w) (iFd c) = Some so" "k_socks (w_kern w') (iFd c) = Some so'"
    "s_in so' = s_in so" "iFd c' = iFd c" "pszRecvBuf c' = pszRecvBuf c" "iRecvCurLen c' = iRecvCurLen c"
    "iPacketLen c' = iPacketLen c" "iRecvTotalLen c' = iRecvTotalLen c"
  shows "recv_ready w' c'"
  using assms by (auto simp: recv_ready_def)

text \<open>Bytes have gone out, and the position has moved to a place inside the buffer.\<close>

lemma live_sent:
  assumes l: "live w ps ids {}" and p: "p \<in> ids" "w_conns w p = Some c" and so: "k_socks (w_kern w) (iFd c) = Some so"
    and c': "c' = c\<lparr>iSendCurLen := n, iSendPacketLen := k\<rparr>" "0 \<le> n" "k \<le> MAX_TCP_BUF_SIZE"
    and w': "w' = put_conn (sent_to w (iFd c) so s bs) p c'"
  shows "live w' ps ids {}" "only_at p w w'"
proof -
  obtain d where d: "w_conns w p = Some d" "conn_at w p d" "conn_core w p d" by (rule live_conn [OF l p(1)])
  have c: "bufs_ok (w_mem w) c" "conn_core w p c" using d p(2) by (simp_all add: conn_at_def)
  have f: "core_fields c c'" using c(2) c' by (simp add: core_fields_def conn_core_def)
  have bo: "bufs_ok (w_mem w) c'" by (rule bufs_ok_fields [OF c(1)]) (simp_all add: c')
  have lv: "live w' ps ids {p}" "only_at p w w'"
    by (rule live_private [OF l _ p f, of _ "so\<lparr>s_out := s, s_sent := s_sent so @ bs\<rparr>"];
        use bo in \<open>simp add: w' conn_blocks_def c'(1)\<close>)+
  have "recv_ready w c" using liveD(10) [OF l p(1)] p(2) by simp
  then have "recv_ready w' c'"
    by (rule recv_ready_cong [OF _ _ so, where so' = "so\<lparr>s_out := s, s_sent := s_sent so @ bs\<rparr>"]) (simp_all add: w' c')
  then show "live w' ps ids {}" using live_received [OF lv(1)] by (simp add: w')
  show "only_at p w w'" by (rule lv(2))
qed

lemma live_del_writable:
  assumes l: "live w ps ids {}" and p: "p \<in> ids" "w_conns w p = Some c" and ep: "ep \<noteq> NULL"
  shows "\<exists>w'. EventDel w ep (iFd c) EVENT_WRITABLE = Inr (RET_SUCC, w') \<and> live w' ps ids {} \<and> only_at p w w'
     \<and> w_conns w' = w_conns w"
proof -
  obtain d where "w_conns w p = Some d" "conn_at w p d" by (rule live_conn [OF l p(1)])
  then have us: "iFd c \<in> usable_fds w" "in_sync (slot_mask w) (watched_by_kernel w)" using p(2) by (simp_all add: conn_at_def)
  obtain eb sl where s: "w_base w = Some eb" "get_slot eb (iFd c) = Inr sl" "pstArg sl = p" "pFunEventCallbackRead sl = RecvProc"
    "iMask sl = EVENT_READABLE \<or> iMask sl = EVENT_READABLE OR EVENT_WRITABLE \<and> pFunEventCallbackWrite sl = SendProc"
    by (rule live_slot_here [OF l p])
  let ?sl = "sl\<lparr>iMask := iMask sl AND NOT EVENT_WRITABLE\<rparr>"
  obtain k where k: "EventDel w ep (iFd c) EVENT_WRITABLE = Inr (RET_SUCC, reslot w eb (iFd c) ?sl k)"
    "interest_upd (w_kern w) k (iFd c) (iMask sl AND NOT EVENT_WRITABLE)"
    using EventDel_form [OF us(2,1) ep s(1,2)] by blast
  have mask: "iMask ?sl = EVENT_READABLE" using s(5) rw_bits by (auto simp: EVENT_READABLE_def EVENT_WRITABLE_def)
  let ?w' = "reslot w eb (iFd c) ?sl k"
  have lv: "live ?w' ps ids (insert p {})" "only_at p w ?w'"
    by (rule live_reslot [OF l p s(1), of k ?sl]; use k(2) mask s(3,4) in simp)+
  have ks: "k_socks k = k_socks (w_kern w)" using k(2) by (simp add: interest_upd_def)
  obtain so where so: "k_socks (w_kern w) (iFd c) = Some so"
    using us(1) by (auto simp: usable_iff)
  have "recv_ready w c" using liveD(10) [OF l p(1)] p(2) by simp
  then have "recv_ready ?w' c" by (rule recv_ready_cong [OF _ _ so, where so' = so]) (simp_all add: ks so)
  then have "live ?w' ps ids {}" using live_received [of ?w' ps ids p] lv(1) p(2) by simp
  then show ?thesis using k(1) lv(2) by (intro exI [of _ ?w']) simp
qed

lemma send_result_live:
  assumes l: "live w ps ids {}" and p: "p \<in> ids" "w_conns w p = Some c" and pos: "0 < iSendPacketLen c"
  shows "(\<exists>r w1. PynServerSendData w (iFd c) (ptr_add (pszSendBuf c) (iSendCurLen c)) (iSendPacketLen c - iSendCurLen c) = Inr (r, w1)
        \<and> r < 0 \<and> goes_on w p ids (DestroyConn w1 p))
     \<or> (\<exists>n so s bs. PynServerSendData w (iFd c) (ptr_add (pszSendBuf c) (iSendCurLen c)) (iSendPacketLen c - iSendCurLen c)
          = Inr (int n, sent_to w (iFd c) so s bs) \<and> k_socks (w_kern w) (iFd c) = Some so)"
proof (cases "iFd c \<le> 0 \<or> iSendPacketLen c - iSendCurLen c < 0")
  case True
  then have "PynServerSendData w (iFd c) (ptr_add (pszSendBuf c) (iSendCurLen c)) (iSendPacketLen c - iSendCurLen c) = Inr (-1, w)"
    by (auto simp: PynServerSendData_def)
  then show ?thesis using live_destroys [OF l _ p(1)] by (intro disjI1 exI [of _ "-1"] exI [of _ w]) simp
next
  case False
  obtain d where d: "w_conns w p = Some d" "conn_at w p d" "conn_core w p d" by (rule live_conn [OF l p(1)])
  have c: "bufs_ok (w_mem w) c" "iSendTotalLen c = MAX_TCP_BUF_SIZE" "0 \<le> iSendCurLen c" "iSendPacketLen c \<le> MAX_TCP_BUF_SIZE"
      "iFd c \<in> usable_fds w"
    using d p(2) by (simp_all add: conn_at_def conn_core_def)
  obtain so where so: "k_socks (w_kern w) (iFd c) = Some so" using c(5) by (auto simp: usable_iff)
  obtain sb sbs where b: "pszSendBuf c = Ptr sb 0" "w_mem w sb = Some sbs" "int (length sbs) = iSendTotalLen c"
    by (rule bufs_okE [OF c(1)])
  let ?bs = "take (nat (iSendPacketLen c - iSendCurLen c)) (drop (nat (iSendCurLen c)) sbs)"
  have len: "int (length ?bs) = iSendPacketLen c - iSendCurLen c" using False b(3) c(2-4) by simp
  have at: "mem_at (w_mem w) sb (iSendCurLen c) ?bs" using b(2,3) c(2-4) len False by (auto simp: mem_at_iff)
  obtain r s n where r: "PynServerSendData w (iFd c) (Ptr sb (iSendCurLen c)) (int (length ?bs)) = Inr (r, sent_to w (iFd c) so s (take n ?bs))"
    "n \<le> length ?bs" "r = int n \<or> r = -1"
    by (rule SendData_result [OF _ so at]) (use False in auto)
  show ?thesis
  proof (cases "r = -1")
    case True
    have "put_conn (sent_to w (iFd c) so s (take n ?bs)) p (c\<lparr>iSendCurLen := iSendCurLen c, iSendPacketLen := iSendPacketLen c\<rparr>)
        = sent_to w (iFd c) so s (take n ?bs)"
      using p(2) by (cases c) (simp add: put_conn_def sent_to_def fun_upd_idem)
    then have "live (sent_to w (iFd c) so s (take n ?bs)) ps ids {}" "only_at p w (sent_to w (iFd c) so s (take n ?bs))"
      using live_sent [OF l p so refl c(3,4) refl, of s "take n ?bs"] by simp_all
    then have "goes_on w p ids (DestroyConn (sent_to w (iFd c) so s (take n ?bs)) p)"
      using live_destroys [OF _ _ p(1)] goes_on_from by blast
    then show ?thesis using r(1) True b(1) unfolding len by simp
  next
    case False
    then show ?thesis using r so b(1) unfolding len by auto
  qed
qed

lemma send_callback_live:
  assumes l: "live w ps ids {}" and p: "p \<in> ids" "w_conns w p = Some c" and ep: "ep \<noteq> NULL"
  shows "goes_on w p ids (ProcessSendCallback w ep (iFd c) p)"
proof (cases "0 < iSendPacketLen c")
  case False
  obtain d where "w_conns w p = Some d" "p \<noteq> NULL" "0 \<le> iFd d" by (rule live_conn [OF l p(1)])
  then have "ProcessSendCallback w ep (iFd c) p = Inr w" using False ep p(2) by (simp add: ProcessSendCallback_def)
  then show ?thesis using l by (auto intro: goes_onI)
next
  case pos: True
  obtain d where d: "w_conns w p = Some d" "p \<noteq> NULL" "0 \<le> iFd d" "conn_core w p d" by (rule live_conn [OF l p(1)])
  have c: "0 \<le> iFd c" "0 \<le> iSendCurLen c" "iSendPacketLen c \<le> MAX_TCP_BUF_SIZE" using d p(2) by (simp_all add: conn_core_def)
  have cb: "ProcessSendCallback w ep (iFd c) p = cbind (PynServerSendData w (iFd c) (ptr_add (pszSendBuf c) (iSendCurLen c))
        (iSendPacketLen c - iSendCurLen c)) (\<lambda>(iRet, w1). if iRet < 0 then DestroyConn w1 p
         else let c1 = c\<lparr>iSendCurLen := iSendCurLen c + iRet\<rparr>; w2 = put_conn w1 p c1 in
           if iSendPacketLen c1 = iSendCurLen c1
           then cbind (EventDel w2 ep (iFd c1) EVENT_WRITABLE) (\<lambda>(r, w3).
                  if r = RET_FAIL then Inl (Exits (-1)) else Inr (put_conn w3 p (c1\<lparr>iSendPacketLen := 0, iSendCurLen := 0\<rparr>)))
           else Inr w2)"
    using d(2) p(2) c(1) ep pos by (simp add: ProcessSendCallback_def)
  consider r w1 where "PynServerSendData w (iFd c) (ptr_add (pszSendBuf c) (iSendCurLen c)) (iSendPacketLen c - iSendCurLen c) = Inr (r, w1)"
      "r < 0" "goes_on w p ids (DestroyConn w1 p)"
    | n so s bs where "PynServerSendData w (iFd c) (ptr_add (pszSendBuf c) (iSendCurLen c)) (iSendPacketLen c - iSendCurLen c)
          = Inr (int n, sent_to w (iFd c) so s bs)" "k_socks (w_kern w) (iFd c) = Some so"
    using send_result_live [OF l p pos] by blast
  then show ?thesis
  proof cases
    case 1
    then show ?thesis unfolding cb by simp
  next
    case 2
    let ?c1 = "c\<lparr>iSendCurLen := iSendCurLen c + int n\<rparr>"
    let ?w2 = "put_conn (sent_to w (iFd c) so s bs) p ?c1"
    have c1: "?c1 = c\<lparr>iSendCurLen := iSendCurLen c + int n, iSendPacketLen := iSendPacketLen c\<rparr>" by (cases c) simp
    have l2: "live ?w2 ps ids {}" "only_at p w ?w2"
      by (rule live_sent [OF l p 2(2) c1 _ _ refl]; use c in simp)+
    show ?thesis
    proof (cases "iSendPacketLen c = iSendCurLen c + int n")
      case False
      then show ?thesis unfolding cb using 2(1) l2 by (auto simp: Let_def intro: goes_onI)
    next
      case True
      have p2: "w_conns ?w2 p = Some ?c1" by simp
      obtain w3 where w3: "EventDel ?w2 ep (iFd ?c1) EVENT_WRITABLE = Inr (RET_SUCC, w3)" "live w3 ps ids {}" "only_at p ?w2 w3"
        "w_conns w3 = w_conns ?w2" using live_del_writable [OF l2(1) p(1) p2 ep] by blast
      have p3: "w_conns w3 p = Some ?c1" using w3(4) by simp
      let ?c3 = "?c1\<lparr>iSendPacketLen := 0, iSendCurLen := 0\<rparr>"
      obtain d3 where d3: "w_conns w3 p = Some d3" "conn_core w3 p d3" by (rule live_conn [OF w3(2) p(1)])
      have f: "core_fields ?c1 ?c3" using d3 p3 by (simp add: core_fields_def conn_core_def MAX_TCP_BUF_SIZE_def)
      have l3: "live (put_conn w3 p ?c3) ps ids {p}" by (rule live_put_conn [OF w3(2) _ p(1) p3 f]) simp_all
      have "recv_ready w3 ?c1" using liveD(10) [OF w3(2) p(1)] p3 by simp
      then have "recv_ready (put_conn w3 p ?c3) ?c3" by (simp add: recv_ready_def)
      then have "live (put_conn w3 p ?c3) ps ids {}" using live_received [OF l3] by simp
      moreover have "ProcessSendCallback w ep (iFd c) p = Inr (put_conn w3 p ?c3)"
        unfolding cb using 2(1) True w3(1) by (simp add: Let_def)
      moreover have "only_at p w3 (put_conn w3 p ?c3)" by (rule only_at_put [OF p3 f]) (simp add: conn_blocks_def)
      ultimately show ?thesis using only_at_trans [OF only_at_trans [OF l2(2) w3(3)]] by (auto intro!: goes_onI)
    qed
  qed
qed

end
