(* ===== verification/LiveAccept.thy ===== *)
theory LiveAccept
  imports LiveSteps
begin

text \<open>
  What comes from outside on a live server: bytes and clients that arrive, and the accept handler,
  which makes a waiting client a connected one.
\<close>

section \<open>The network moves\<close>

text \<open>Only sockets change, and none is closed.\<close>

lemma live_net:
  assumes l: "live w ps ids {}" and k: "k_ctl k = k_ctl (w_kern w)" "k_interest k = k_interest (w_kern w)"
      "\<And>fd. k_socks (w_kern w) fd \<noteq> None \<Longrightarrow> k_socks k fd \<noteq> None"
    and r: "\<forall>p \<in> ids. recv_ready (put_kern w k) (conn_of w p)" and f: "clients_fit (put_kern w k) (card ids)"
  shows "live (put_kern w k) ps ids {}"
proof -
  let ?w = "put_kern w k"
  note d = liveD [OF l]
  have v: "slot_mask ?w = slot_mask w" "slot_at ?w = slot_at w" "watched_by_kernel ?w = watched_by_kernel w" "clock ?w = clock w"
      "listen_fd ?w = listen_fd w" "in_array ?w = in_array w" "heap_cap ?w = heap_cap w"
    using k(2) by (simp_all add: fun_eq_iff slot_mask_def slot_at_def watched_by_kernel_def clock_def listen_fd_def in_array_def heap_cap_def)
  have us: "fd \<in> usable_fds w \<Longrightarrow> fd \<in> usable_fds ?w" for fd using k by (simp add: usable_iff v)
  have "conn_ok ?w p" if p: "p \<in> ids" for p
    using d(8) [OF p] us by (auto simp: conn_ok_def split: option.splits)
  moreover have "timers_ok ?w ps" using d(5) timers_ok_cong [of ?w w ps] by simp
  moreover have "timer_of ?w = timer_of w" by (simp add: timer_of_def fun_eq_iff)
  ultimately have "server_ok ?w ps ids" using d(1) v by (simp add: server_ok_def)
  moreover have "\<forall>p \<in> ids. conn_core ?w p (conn_of ?w p)"
    using d(9) v by (simp add: conn_core_def owns_slot_def due_of_def timer_of_def)
  moreover have "process_ok ?w" using d(2) v k(1) by (simp add: process_ok_def)
  moreover have "listens ?w ids" using d(3) us v by (simp add: listens_def)
  ultimately show ?thesis using r f d(11) by (simp add: live_def)
qed

section \<open>Taking a client from the queue\<close>

lemma accept_loop_waiting:
  "accept_loop cs = (Incoming fd ip port i out, r) \<Longrightarrow> waiting cs = (fd, i) # waiting r"
  "accept_loop cs = (ConnErr e, r) \<Longrightarrow> waiting cs = waiting r"
  by (induction cs rule: accept_loop.induct) (auto split: if_splits)

text \<open>The listening socket of a live server, and the clients waiting there.\<close>

lemma live_listener:
  assumes l: "live w ps ids X"
  obtains eb sl so where "w_base w = Some eb" "get_slot eb (listen_fd w) = Inr sl" "iMask sl = EVENT_READABLE"
    "pFunEventCallbackRead sl = AcceptProc" "k_socks (w_kern w) (listen_fd w) = Some so" "0 \<le> listen_fd w"
    "waiting_clients w = waiting (s_conns so)"
proof -
  have li: "listens w ids" using liveD(3) [OF l] .
  obtain sl where sl: "slot_at w (listen_fd w) = Some sl" "iMask sl = EVENT_READABLE" "pFunEventCallbackRead sl = AcceptProc"
    using li by (auto simp: listens_def split: option.splits)
  obtain eb where eb: "w_base w = Some eb" "get_slot eb (listen_fd w) = Inr sl" using sl(1) by (rule slot_atE)
  have us: "listen_fd w \<in> usable_fds w" using li by (simp add: listens_def)
  then obtain so where "k_socks (w_kern w) (listen_fd w) = Some so" by (auto simp: usable_iff)
  moreover have "0 \<le> listen_fd w" using us eb(1) by (simp add: usable_iff in_array_def)
  ultimately show thesis using that [OF eb sl(2,3)] by (simp add: waiting_clients_def)
qed

text \<open>A descriptor that is not open is nobody's.\<close>

lemma closed_fd_free:
  assumes l: "live w ps ids X" and fd: "k_socks (w_kern w) fd = None"
  shows "slot_mask w fd = 0" "fd \<noteq> listen_fd w" "\<forall>p \<in> ids. iFd (conn_of w p) \<noteq> fd"
proof -
  have li: "listens w ids" using liveD(3) [OF l] .
  then show nl: "fd \<noteq> listen_fd w" using fd by (auto simp: listens_def usable_iff)
  show nc: "\<forall>p \<in> ids. iFd (conn_of w p) \<noteq> fd"
  proof
    fix p assume "p \<in> ids"
    then obtain c where "conn_of w p = c" "k_socks (w_kern w) (iFd c) \<noteq> None" by (rule live_conn [OF l])
    then show "iFd (conn_of w p) \<noteq> fd" using fd by auto
  qed
  show "slot_mask w fd = 0" using li nl nc by (auto simp: listens_def)
qed

text \<open>\<open>accept\<close> on a live server: an empty queue, an error, or the first client.\<close>

lemma live_takes:
  assumes l: "live w ps ids {}" and a: "sys_accept (w_kern w) (listen_fd w) = (a, k)"
  shows "live (put_kern w k) ps ids {}"
    "a = Incoming fd ip port i out \<Longrightarrow> fd \<in> usable_fds (put_kern w k) \<and> slot_mask w fd = 0 \<and> fd \<noteq> listen_fd w
       \<and> (\<forall>p \<in> ids. iFd (conn_of w p) \<noteq> fd) \<and> harmless_stream (arriving i)
       \<and> map_option s_in (k_socks k fd) = Some i \<and> Suc (card ids) + length (waiting_clients (put_kern w k)) \<le> max_clients"
proof -
  obtain eb sl so where ls: "w_base w = Some eb" "k_socks (w_kern w) (listen_fd w) = Some so" "waiting_clients w = waiting (s_conns so)"
    by (rule live_listener [OF l])
  obtain r where r: "accept_loop (s_conns so) = (a, r)" and k: "k = (let k1 = (w_kern w)\<lparr>k_socks := (k_socks (w_kern w))(listen_fd w \<mapsto>
       so\<lparr>s_conns := r\<rparr>)\<rparr> in case a of ConnErr e \<Rightarrow> k1 | Incoming nfd ip port i out \<Rightarrow>
         k1\<lparr>k_socks := (k_socks k1)(nfd \<mapsto> new_sock\<lparr>s_in := i, s_out := out\<rparr>)\<rparr>)"
    using a ls(2) by (auto simp: sys_accept_def Let_def split: prod.splits)
  have fit: "clients_fit w (card ids)" using liveD(4) [OF l] .
  have free: "k_socks (w_kern w) f = None" "in_array w f" "harmless_stream (arriving j)" if "(f, j) \<in> set (waiting_clients w)" for f j
    using that fit by (auto simp: clients_fit_def)
  have head: "(nfd, i') \<in> set (waiting_clients w)" "waiting_clients w = (nfd, i') # waiting r" if "a = Incoming nfd ip' port' i' out'" for nfd ip' port' i' out'
    using accept_loop_waiting(1) [of "s_conns so" nfd ip' port' i' out' r] r that ls(3) by simp_all
  have rest: "set (waiting r) \<subseteq> set (waiting_clients w)" "length (waiting r) \<le> length (waiting_clients w)" "distinct (map fst (waiting r))"
    using accept_loop_waiting [of "s_conns so"] r ls(3) fit by (cases a; auto simp: clients_fit_def)+
  have other: "k_socks k f = k_socks (w_kern w) f" if "f \<noteq> listen_fd w" "\<And>nfd ip' port' i' out'. a = Incoming nfd ip' port' i' out' \<Longrightarrow> f \<noteq> nfd" for f
    using that by (simp add: k Let_def split: net_conn.splits)
  have lk: "k_socks k (listen_fd w) = Some (so\<lparr>s_conns := r\<rparr>)"
    using closed_fd_free(2) [OF l] free(1) head(1) by (simp add: k Let_def split: net_conn.splits) metis
  have wc: "waiting_clients (put_kern w k) = waiting r"
    using lk by (simp add: waiting_clients_def) (simp add: listen_fd_def)
  have closed: "k_socks k f = None" if f: "(f, j) \<in> set (waiting r)" for f j
  proof -
    have w: "(f, j) \<in> set (waiting_clients w)" using f rest(1) by blast
    have "f \<noteq> nfd" if "a = Incoming nfd ip' port' i' out'" for nfd ip' port' i' out'
      using fit head(2) [OF that] f by (force simp: clients_fit_def)
    then show ?thesis using other [of f] free(1) [OF w] closed_fd_free(2) [OF l free(1) [OF w]] by simp
  qed
  have mine: "k_socks k (iFd (conn_of w p)) = k_socks (w_kern w) (iFd (conn_of w p))" if p: "p \<in> ids" for p
  proof (rule other)
    show "iFd (conn_of w p) \<noteq> listen_fd w" using liveD(3) [OF l] p by (simp add: listens_def)
    show "\<And>nfd ip' port' i' out'. a = Incoming nfd ip' port' i' out' \<Longrightarrow> iFd (conn_of w p) \<noteq> nfd"
      using closed_fd_free(3) [OF l free(1) [OF head(1)]] p by blast
  qed
  have arr: "in_array (put_kern w k) = in_array w" by (simp add: in_array_def fun_eq_iff)
  have n: "card ids + length (waiting r) \<le> max_clients" using fit rest(2) by (simp add: clients_fit_def)
  show "live (put_kern w k) ps ids {}"
  proof (rule live_net [OF l])
    show "k_ctl k = k_ctl (w_kern w)" "k_interest k = k_interest (w_kern w)" by (simp_all add: k Let_def split: net_conn.splits)
    show "\<And>fd. k_socks (w_kern w) fd \<noteq> None \<Longrightarrow> k_socks k fd \<noteq> None" by (auto simp: k Let_def split: net_conn.splits)
    show "\<forall>p \<in> ids. recv_ready (put_kern w k) (conn_of w p)"
      using liveD(10) [OF l] mine by (simp add: recv_ready_def)
    show "clients_fit (put_kern w k) (card ids)"
      unfolding clients_fit_def wc arr using n rest(1,3) closed free by auto
  qed
  assume new: "a = Incoming fd ip port i out"
  have nf: "k_socks (w_kern w) fd = None" "in_array w fd" "harmless_stream (arriving i)" using free head(1) [OF new] by blast+
  have "k_ctl k = []" using liveD(2) [OF l] by (simp add: process_ok_def k Let_def split: net_conn.splits)
  moreover have "k_socks k fd \<noteq> None" using new by (simp add: k Let_def)
  ultimately have "fd \<in> usable_fds (put_kern w k)" using nf(2) arr by (simp add: usable_iff)
  moreover have "map_option s_in (k_socks k fd) = Some i" using new by (simp add: k Let_def)
  moreover have "Suc (card ids) + length (waiting r) \<le> max_clients" using fit head(2) [OF new] by (simp add: clients_fit_def)
  ultimately show "fd \<in> usable_fds (put_kern w k) \<and> slot_mask w fd = 0 \<and> fd \<noteq> listen_fd w
       \<and> (\<forall>p \<in> ids. iFd (conn_of w p) \<noteq> fd) \<and> harmless_stream (arriving i)
       \<and> map_option s_in (k_socks k fd) = Some i \<and> Suc (card ids) + length (waiting_clients (put_kern w k)) \<le> max_clients"
    unfolding wc using closed_fd_free [OF l nf(1)] nf(3) by simp
qed

section \<open>The accept handler\<close>

lemma new_conn_simps [simp]:
  "iFd (new_conn w ep fd ip port) = fd" "pstTimeoutEvent (new_conn w ep fd ip port) = w_next w + 3"
  "pstEventBase (new_conn w ep fd ip port) = ep" "pszRecvBuf (new_conn w ep fd ip port) = Ptr (w_next w + 1) 0"
  "pszSendBuf (new_conn w ep fd ip port) = Ptr (w_next w + 2) 0" "iRecvTotalLen (new_conn w ep fd ip port) = MAX_TCP_BUF_SIZE"
  "iSendTotalLen (new_conn w ep fd ip port) = MAX_TCP_BUF_SIZE" "iRecvCurLen (new_conn w ep fd ip port) = 0"
  "iSendCurLen (new_conn w ep fd ip port) = 0" "iSendPacketLen (new_conn w ep fd ip port) = 0"
  by (simp_all add: new_conn_def fresh_conn_def)

lemma new_conn_apart:
  assumes l: "live w ps ids X" and q: "q \<in> ids" and fd: "iFd (conn_of w q) \<noteq> fd"
  shows "conns_apart (new_conn w ep fd ip port) (conn_of w q)" "q < w_next w" "timer_of w q < w_next w"
proof -
  obtain c where "w_conns w q = Some c" "conn_core w q c" by (rule live_conn [OF l q])
  then show "conns_apart (new_conn w ep fd ip port) (conn_of w q)" "q < w_next w" "timer_of w q < w_next w"
    using fd by (auto simp: conns_apart_def conn_blocks_def conn_core_def timer_of_def)
qed

text \<open>What an accepted client adds belongs to its connection.\<close>

definition conn_added :: "world \<Rightarrow> world \<Rightarrow> nat \<Rightarrow> int \<Rightarrow> bool" where
  "conn_added w w' p fd \<longleftrightarrow> (\<exists>c. w_conns w p = None \<and> w_conns w' = (w_conns w)(p \<mapsto> c) \<and> iFd c = fd
     \<and> dom (w_mem w') \<subseteq> dom (w_mem w) \<union> conn_blocks c \<and> dom (w_tevs w') \<subseteq> insert (pstTimeoutEvent c) (dom (w_tevs w))
     \<and> dom (k_socks (w_kern w')) \<subseteq> insert fd (dom (k_socks (w_kern w))))"

lemma conn_added_leak_free:
  assumes a: "conn_added (put_kern w k) w' p fd" and k: "dom (k_socks k) \<subseteq> insert fd (dom (k_socks (w_kern w)))"
    and w: "leak_free w" "listen_fd w' = listen_fd w"
  shows "leak_free w'"
proof -
  obtain c where c: "w_conns w p = None" "w_conns w' = (w_conns w)(p \<mapsto> c)" "iFd c = fd"
    "dom (w_mem w') \<subseteq> dom (w_mem w) \<union> conn_blocks c" "dom (w_tevs w') \<subseteq> insert (pstTimeoutEvent c) (dom (w_tevs w))"
    "dom (k_socks (w_kern w')) \<subseteq> insert fd (dom (k_socks k))"
    using a by (auto simp: conn_added_def)
  have "dom (k_socks (w_kern w')) \<subseteq> insert fd (dom (k_socks (w_kern w)))" using c(6) k by blast
  then have "tidy_at p w w'" using c(1-5) unfolding tidy_at_def owned_def by auto
  then show ?thesis by (rule leak_free_kept [OF w(1) _ _ w(2)]) (simp add: c(2))
qed

text \<open>A client that is connected and idle: it has sent nothing that is not answered; \<open>sent\<close> is what it has been sent.\<close>

definition idle_client :: "world \<Rightarrow> nat \<Rightarrow> int \<Rightarrow> buf \<Rightarrow> bool" where
  "idle_client w p fd sent \<longleftrightarrow> (case w_conns w p of None \<Rightarrow> False | Some c \<Rightarrow> iFd c = fd \<and> iRecvCurLen c = 0
     \<and> iSendPacketLen c = 0 \<and> iSendCurLen c = 0 \<and> MAX_TCP_BUF_SIZE \<le> iRecvTotalLen c)
     \<and> slot_mask w fd = EVENT_READABLE \<and> map_option s_sent (k_socks (w_kern w) fd) = Some sent"

lemma live_accepts:
  assumes l: "live w ps ids {}" and ep: "ep \<noteq> NULL" and us: "fd \<in> usable_fds w" "slot_mask w fd = 0" "fd \<noteq> listen_fd w"
    and own: "\<forall>p \<in> ids. iFd (conn_of w p) \<noteq> fd" and i: "harmless_stream (arriving i)" "map_option s_in (k_socks (w_kern w) fd) = Some i"
    and n: "Suc (card ids) + length (waiting_clients w) \<le> max_clients"
  shows "\<exists>w' qs. accept_conn w ep fd ip port = Inr w' \<and> live w' qs (insert (w_next w) ids) {} \<and> same_base w w'
     \<and> k_socks (w_kern w') (listen_fd w) = k_socks (w_kern w) (listen_fd w) \<and> w_next w \<notin> ids
     \<and> conn_added w w' (w_next w) fd \<and> keeps_others {} w w'
     \<and> (\<forall>sent. map_option s_sent (k_socks (w_kern w) fd) = Some sent \<longrightarrow> idle_client w' (w_next w) fd sent)
     \<and> Some (due_of w' (w_next w)) = map_option restart_time (clock w)"
proof -
  let ?p = "w_next w" and ?c = "new_conn w ep fd (ip_array ip) port"
  let ?t = "w_next w + 3"
  obtain eb now where eb: "w_base w = Some eb" "pstTimeCache eb = Some now" "heap_can_grow eb" "clock w = Some now" "w_malloc w = []"
    "heap_cap w \<le> 16" by (rule live_clock [OF l])
  have apart: "conns_apart ?c (conn_of w q)" "q < ?p" "timer_of w q < ?p" if "q \<in> ids" for q
    using new_conn_apart [OF l that] own that by blast+
  have fr: "fresh_addrs w ps"
    using liveD(2,7) [OF l] apart(3) by (auto simp: fresh_addrs_def process_ok_def)
  obtain w' qs where w': "accept_conn w ep fd ip port = Inr w'" "conn_accepted w ep fd (ip_array ip) port now ps w' qs"
    using accept_conn_accepts [OF eb(1-3) liveD(5) [OF l] eb(5) fr ep us(1) liveD(6) [OF l] us(2)] by blast
  have a: "w_conns w' = (w_conns w)(?p \<mapsto> ?c)" "conn_at w' ?p ?c" "timers_ok w' qs"
    "due_times w' qs = (due_times w ps)(?t \<mapsto> restart_time now)"
    "\<exists>e. w_tevs w' ?t = Some e \<and> pstCallbackArg e = ?p \<and> pFunTimeoutProcCallback e = Some ConnectionTimeoutCallback"
    "slot_mask w' = (slot_mask w)(fd := EVENT_READABLE)"
    "\<exists>eb sl. w_base w' = Some eb \<and> get_slot eb fd = Inr sl \<and> pFunEventCallbackRead sl = RecvProc \<and> pstArg sl = ?p"
    "\<exists>so so'. k_socks (w_kern w) fd = Some so \<and> k_socks (w_kern w') fd = Some so' \<and> s_in so' = s_in so \<and> s_sent so' = s_sent so"
    "touches_only w w' fd ?t {}" "w_next w' = w_next w + 4" "heap_cap w' \<le> grown_capacity (heap_cap w) (length ps)"
    "dom (w_mem w') = dom (w_mem w) \<union> conn_blocks ?c"
    using w'(2) by (auto simp: conn_accepted_def Let_def restart_time_def)
  have bo: "bufs_ok (w_mem w') ?c" "fd \<in> usable_fds w'" "in_sync (slot_mask w') (watched_by_kernel w')"
    using a(2) by (simp_all add: conn_at_def)
  have ok: "conn_ok w' ?p" using a(1,2,5) by (auto simp: conn_ok_def conn_at_def times_out_def)
  obtain sl where sl: "slot_at w' fd = Some sl" "pFunEventCallbackRead sl = RecvProc" "pstArg sl = ?p"
    using a(7) by (auto simp: slot_at_def)
  then have "iMask sl = EVENT_READABLE" using a(6) by (metis fun_upd_same option.simps(5) slot_mask_at)
  then have own': "owns_slot w' fd ?p" using sl by (simp add: owns_slot_def)
  have tq: "?t \<in> set qs" "key_of (w_tevs w') ?t = restart_time now"
    using fun_cong [OF a(4), of ?t] by (auto simp: due_times_def timer_table_def split: if_splits)
  have core: "conn_core w' ?p ?c"
    using own' a(1,10) tq(2) touches_views(1) [OF a(9)] eb(4)
    by (auto simp: conn_core_def conn_blocks_def due_of_def timer_of_def MAX_TCP_BUF_SIZE_def)
  have "x \<in> set qs \<longleftrightarrow> x \<in> insert ?t (set ps)" for x
    using fun_cong [OF a(4), of x] by (auto simp: due_times_def timer_table_def split: if_splits)
  then have "set qs = insert ?t (set ps)" by blast
  moreover have "timer_of w' q = timer_of w q" if "q \<in> ids" for q using apart(2) [OF that] a(1) by (simp add: timer_of_def)
  then have "timer_of w' ` ids = timer_of w ` ids" by (rule image_cong [OF refl])
  ultimately have tset: "set qs = timer_of w' ` insert ?p ids" using liveD(7) [OF l] a(1) by (simp add: timer_of_def)
  have np: "?p \<notin> ids" using apart(2) by blast
  have "live w' qs (insert ?p ids) (insert ?p {})"
  proof (rule live_change [OF l a(9), where p = ?p])
    show "heap_cap w' \<le> 16" using a(11) grown_capacity_16 [OF eb(6) live_few(3) [OF l]] by simp
    show "card (insert ?p ids) + length (waiting_clients w) \<le> max_clients" using n np live_few(1) [OF l] by simp
    show "conn_ok w' ?p \<and> conn_core w' ?p (conn_of w' ?p) \<and> iFd (conn_of w' ?p) = fd
        \<and> (\<forall>q \<in> ids - {?p}. conns_apart (conn_of w' ?p) (conn_of w q))"
      using ok core a(1) apart(1) by simp
    show "\<forall>q \<in> ids - {?p}. iFd (conn_of w q) \<noteq> fd \<and> timer_of w q \<noteq> ?t \<and> conn_blocks (conn_of w q) \<inter> {} = {}"
      using own apart(3) by fastforce
    show "k_socks (w_kern w) fd \<noteq> None" using us(1) by (simp add: usable_iff)
  qed (use a(1,3) tset bo(3) us(3) np in auto)
  moreover have "recv_ready w' (conn_of w' ?p)"
  proof -
    obtain rbs where "w_mem w' (w_next w + 1) = Some rbs" by (rule bufs_okE [OF bo(1)]) auto
    then show ?thesis using a(1,8) i by (auto simp: recv_ready_def mem_at_iff)
  qed
  ultimately have "live w' qs (insert ?p ids) {}" by (intro live_received) simp_all
  moreover have "k_socks (w_kern w') (listen_fd w) = k_socks (w_kern w) (listen_fd w)"
    using a(9) us(3) by (simp add: touches_only_def)
  moreover have "same_base w w'" using a(9) by (simp add: touches_only_def)
  moreover have "conn_added w w' ?p fd"
    unfolding conn_added_def using a(1,12) np liveD(11) [OF l] touches_dom [OF a(9)] by (intro exI [of _ ?c]) auto
  moreover have "w_conns w' q = Some d" "kept_conn w w' d" if d: "w_conns w q = Some d" for q d
  proof -
    have q: "q \<in> ids" using d liveD(11) [OF l] by auto
    show "w_conns w' q = Some d" using a(1) apart(2) [OF q] d by simp
    show "kept_conn w w' d"
      by (rule touches_keeps [OF l a(9) d]) (use own apart(3) [OF q] q d in \<open>auto simp: timer_of_def\<close>)
  qed
  then have "keeps_others {} w w'" by (simp add: keeps_others_def)
  moreover have "idle_client w' ?p fd sent" if "map_option s_sent (k_socks (w_kern w) fd) = Some sent" for sent
    using that a(1,6,8) by (auto simp: idle_client_def)
  moreover have "Some (due_of w' ?p) = map_option restart_time (clock w)"
    using tq(2) eb(4) a(1) by (simp add: due_of_def timer_of_def)
  ultimately show ?thesis using w'(1) np by blast
qed

text \<open>A handler returned on a server that is still in order, or the process ended with \<open>exit(1)\<close>.\<close>

definition carries_on :: "int set \<Rightarrow> world \<Rightarrow> world outcome \<Rightarrow> bool" where
  "carries_on F w r \<longleftrightarrow> (\<exists>w' qs ids. r = Inr w' \<and> live w' qs ids {} \<and> same_base w w' \<and> (leak_free w \<longrightarrow> leak_free w')
     \<and> keeps_others F w w')"

lemma carries_onI:
  "live w' qs ids {} \<Longrightarrow> same_base w w' \<Longrightarrow> (leak_free w \<Longrightarrow> leak_free w') \<Longrightarrow> keeps_others F w w' \<Longrightarrow> carries_on F w (Inr w')"
  by (auto simp: carries_on_def)

lemma carries_on_mono: "carries_on F w r \<Longrightarrow> F \<subseteq> G \<Longrightarrow> carries_on G w r"
  unfolding carries_on_def using keeps_others_mono by blast

lemma goes_on_carries_on:
  assumes "goes_on w p ids r" "w_conns w p = Some c" shows "carries_on {iFd c} w r"
proof -
  obtain w' qs ids' where w': "r = Inr w'" "live w' qs ids' {}" "only_at p w w'" using assms(1) by (auto simp: goes_on_def)
  show ?thesis unfolding w'(1)
    by (rule carries_onI [OF w'(2) only_at_base [OF w'(3)] only_at_leak_free [OF w'(3)] only_at_keeps [OF w'(3) assms(2)]])
qed

text \<open>Sockets other than those of the connections change.\<close>

lemma live_quiet:
  assumes l: "live w ps ids {}" and f: "\<forall>p \<in> ids. iFd (conn_of w p) \<noteq> f"
    and k: "\<And>fd. fd \<noteq> listen_fd w \<Longrightarrow> fd \<noteq> f \<Longrightarrow> k_socks k fd = k_socks (w_kern w) fd"
  shows "keeps_others {} w (put_kern w k)"
proof -
  have "kept_conn w (put_kern w k) d" if d: "w_conns w q = Some d" for q d
  proof -
    have q: "q \<in> ids" using d liveD(11) [OF l] by auto
    then have "iFd d \<noteq> listen_fd w" "iFd d \<noteq> f" using liveD(3) [OF l] f d by (auto simp: listens_def)
    then show ?thesis using k by (simp add: kept_conn_def slot_at_def)
  qed
  then show ?thesis by (simp add: keeps_others_def)
qed

lemma accepts_next:
  assumes l: "live w ps ids {}" and ep: "ep \<noteq> NULL" and so: "k_socks (w_kern w) (listen_fd w) = Some so"
    and inc: "accept_loop (s_conns so) = (Incoming fd ip port i out, r)"
  shows "\<exists>w' qs. ProcessAcceptCallback w ep (listen_fd w) arg = Inr w' \<and> live w' qs (insert (w_next w) ids) {} \<and> same_base w w'
     \<and> k_socks (w_kern w') (listen_fd w) = Some (so\<lparr>s_conns := r\<rparr>) \<and> w_next w \<notin> ids \<and> (leak_free w \<longrightarrow> leak_free w')
     \<and> keeps_others {} w w' \<and> idle_client w' (w_next w) fd []
     \<and> Some (due_of w' (w_next w)) = map_option restart_time (clock w)"
proof -
  obtain eb where eb: "w_base w = Some eb" "iEpType eb = EPOLL_LT_TYPE" by (rule live_clock [OF l])
  obtain so' where nn: "0 \<le> listen_fd w" by (rule live_listener [OF l])
  let ?k = "(w_kern w)\<lparr>k_socks := (k_socks (w_kern w))(listen_fd w \<mapsto> so\<lparr>s_conns := r\<rparr>, fd \<mapsto> new_sock\<lparr>s_in := i, s_out := out\<rparr>)\<rparr>"
  let ?w1 = "put_kern w ?k"
  have a: "sys_accept (w_kern w) (listen_fd w) = (Incoming fd ip port i out, ?k)" using so inc by (simp add: sys_accept_def Let_def)
  have cb: "ProcessAcceptCallback w ep (listen_fd w) arg = accept_conn ?w1 ep fd ip port"
    using eb ep a nn by (simp add: ProcessAcceptCallback_def EPOLL_LT_TYPE_def EPOLL_ET_TYPE_def Let_def)
  note t = live_takes [OF l a]
  have m: "slot_mask ?w1 = slot_mask w" "listen_fd ?w1 = listen_fd w"
    by (simp_all add: fun_eq_iff slot_mask_def listen_fd_def)
  have t2: "fd \<in> usable_fds ?w1" "slot_mask w fd = 0" "fd \<noteq> listen_fd w" "\<forall>p \<in> ids. iFd (conn_of w p) \<noteq> fd" "harmless_stream (arriving i)"
      "map_option s_in (k_socks ?k fd) = Some i" "Suc (card ids) + length (waiting_clients ?w1) \<le> max_clients"
    using t(2) [OF refl] by blast+
  obtain w' qs where w': "accept_conn ?w1 ep fd ip port = Inr w'" "live w' qs (insert (w_next ?w1) ids) {}" "same_base ?w1 w'"
      "k_socks (w_kern w') (listen_fd ?w1) = k_socks (w_kern ?w1) (listen_fd ?w1)" "w_next ?w1 \<notin> ids"
      "conn_added ?w1 w' (w_next ?w1) fd" "keeps_others {} ?w1 w'"
      "\<forall>sent. map_option s_sent (k_socks (w_kern ?w1) fd) = Some sent \<longrightarrow> idle_client w' (w_next ?w1) fd sent"
      "Some (due_of w' (w_next ?w1)) = map_option restart_time (clock ?w1)"
    using live_accepts [OF t(1) ep, of fd i ip port] t2 m by auto
  have "listen_fd w' = listen_fd w" using base_view_fields(2) [OF w'(3)] m(2) by simp
  moreover have "dom (k_socks ?k) \<subseteq> insert fd (dom (k_socks (w_kern w)))" using so by auto
  ultimately have "leak_free w \<Longrightarrow> leak_free w'" using conn_added_leak_free [OF w'(6)] by blast
  moreover have "keeps_others {} w w'"
  proof -
    have "keeps_others {} w ?w1"
      by (rule live_quiet [OF l t2(4)]) simp
    then show ?thesis using keeps_others_trans w'(7) by blast
  qed
  moreover have "idle_client w' (w_next w) fd []" using w'(8) by (simp add: new_sock_def)
  moreover have "clock ?w1 = clock w" by (simp add: clock_def)
  ultimately show ?thesis unfolding cb using w'(1-5,9) t2(3) m(2) by auto
qed

lemma accept_callback_live:
  assumes l: "live w ps ids {}" and ep: "ep \<noteq> NULL"
  shows "carries_on {} w (ProcessAcceptCallback w ep (listen_fd w) arg) \<or> ProcessAcceptCallback w ep (listen_fd w) arg = Inl (Exits 1)"
proof -
  obtain eb where eb: "w_base w = Some eb" "iEpType eb = EPOLL_LT_TYPE" by (rule live_clock [OF l])
  obtain so where so: "k_socks (w_kern w) (listen_fd w) = Some so" "0 \<le> listen_fd w" by (rule live_listener [OF l])
  obtain a r where a: "accept_loop (s_conns so) = (a, r)" by fastforce
  show ?thesis
  proof (cases a)
    case (ConnErr e)
    let ?k = "(w_kern w)\<lparr>k_socks := (k_socks (w_kern w))(listen_fd w \<mapsto> so\<lparr>s_conns := r\<rparr>)\<rparr>"
    have k: "sys_accept (w_kern w) (listen_fd w) = (ConnErr e, ?k)" using so a ConnErr by (simp add: sys_accept_def)
    have "ProcessAcceptCallback w ep (listen_fd w) arg = (if e \<noteq> EAGAIN then Inl (Exits 1) else Inr (put_kern w ?k))"
      using eb ep k so(2) by (simp add: ProcessAcceptCallback_def EPOLL_LT_TYPE_def EPOLL_ET_TYPE_def Let_def)
    moreover have "leak_free w \<Longrightarrow> leak_free (put_kern w ?k)"
      by (auto simp: leak_free_def owned_def listen_fd_def split: if_splits)
    moreover have "keeps_others {} w (put_kern w ?k)"
      by (rule live_quiet [OF l, of "listen_fd w"]) (use liveD(3) [OF l] in \<open>auto simp: listens_def\<close>)
    ultimately show ?thesis using carries_onI [OF live_takes(1) [OF l k]] by simp
  next
    case (Incoming fd ip port i out)
    obtain w' qs where "ProcessAcceptCallback w ep (listen_fd w) arg = Inr w'" "live w' qs (insert (w_next w) ids) {}" "same_base w w'"
        "leak_free w \<longrightarrow> leak_free w'" "keeps_others {} w w'"
      using accepts_next [OF l ep so(1), of fd ip port i out r arg] a Incoming by blast
    then show ?thesis using carries_onI by simp
  qed
qed

end
