(* ===== verification/LiveLoop.thy ===== *)
theory LiveLoop
  imports LivePacket LiveSend LiveAccept EventDelivery
begin

text \<open>
  A turn of the event loop on a live server: the events of \<open>epoll_wait\<close>, the clock, the timers
  that are due.
\<close>

section \<open>Which handler an event runs\<close>

text \<open>The slot an event finds: the one of the listening socket, of a client, or an empty one.\<close>

lemma live_slotE:
  assumes l: "live w ps ids {}" and fd: "in_array w fd"
  obtains eb sl where "w_base w = Some eb" "get_slot eb fd = Inr sl" "fd = listen_fd w" "iMask sl = EVENT_READABLE"
      "pFunEventCallbackRead sl = AcceptProc"
  | eb sl p c where "w_base w = Some eb" "get_slot eb fd = Inr sl" "p \<in> ids" "w_conns w p = Some c" "iFd c = fd"
      "pstArg sl = p" "pFunEventCallbackRead sl = RecvProc"
      "iMask sl AND EVENT_WRITABLE \<noteq> 0 \<longrightarrow> pFunEventCallbackWrite sl = SendProc"
  | eb sl where "w_base w = Some eb" "get_slot eb fd = Inr sl" "iMask sl = 0"
proof -
  obtain eb where eb: "w_base w = Some eb" by (rule live_clock [OF l])
  let ?sl = "pstFdEventsArray eb ! nat fd"
  have sl: "get_slot eb fd = Inr ?sl" using fd eb by (simp add: in_array_def get_slot_Inr_iff)
  have mask: "slot_mask w fd = iMask ?sl" using eb sl by (simp add: slot_mask_def get_slot_Inr_iff)
  consider "fd = listen_fd w" | "fd \<noteq> listen_fd w" "fd \<in> (\<lambda>p. iFd (conn_of w p)) ` ids" | "slot_mask w fd = 0"
    using liveD(3) [OF l] unfolding listens_def by blast
  then show thesis
  proof cases
    case 1
    obtain eb' sl' where "w_base w = Some eb'" "get_slot eb' (listen_fd w) = Inr sl'" "iMask sl' = EVENT_READABLE"
        "pFunEventCallbackRead sl' = AcceptProc"
      by (rule live_listener [OF l])
    then show thesis using that(1) [OF eb sl 1] eb sl 1 by simp
  next
    case 2
    then obtain p where p: "p \<in> ids" "iFd (conn_of w p) = fd" by auto
    obtain c where c: "w_conns w p = Some c" "conn_of w p = c" by (rule live_conn [OF l p(1)])
    obtain eb' sl' where s: "w_base w = Some eb'" "get_slot eb' (iFd c) = Inr sl'" "pstArg sl' = p" "pFunEventCallbackRead sl' = RecvProc"
      "iMask sl' = EVENT_READABLE \<or> iMask sl' = EVENT_READABLE OR EVENT_WRITABLE \<and> pFunEventCallbackWrite sl' = SendProc"
      by (rule live_slot_here [OF l p(1) c(1)])
    have fd': "iFd c = fd" using p(2) c(2) by simp
    have "iMask sl' AND EVENT_WRITABLE \<noteq> 0 \<longrightarrow> pFunEventCallbackWrite sl' = SendProc" using s(5) rw_bits by auto
    then show thesis using that(2) [OF s(1) _ p(1) c(1) fd' s(3,4)] s(2) fd' by simp
  next
    case 3
    then show thesis using that(3) [OF eb sl] mask by simp
  qed
qed

lemma in_array_base: "same_base w w' \<Longrightarrow> in_array w' = in_array w"
  by (rule base_view_fields)

text \<open>The second half of an event: the slot is read again, and the write handler may run.\<close>

lemma write_half_live:
  assumes l: "live w ps ids {}" and fd: "in_array w fd" and ep: "ep \<noteq> NULL"
  shows "\<exists>eb sl. w_base w = Some eb \<and> get_slot eb fd = Inr sl
     \<and> carries_on {fd} w (if iMask sl AND triggered ev AND EVENT_WRITABLE \<noteq> 0
          then run_event_callback w (pFunEventCallbackWrite sl) ep fd (pstArg sl) else Inr w)"
proof -
  have stay: "carries_on {fd} w (Inr w)" using l by (rule carries_onI) simp_all
  have bit: "iMask sl AND EVENT_WRITABLE \<noteq> 0" if "iMask sl AND triggered ev AND EVENT_WRITABLE \<noteq> 0" for sl
    using that by (metis and.assoc and.commute and_zero_eq)
  show ?thesis
  proof (rule live_slotE [OF l fd])
    fix eb sl assume "w_base w = Some eb" "get_slot eb fd = Inr sl" "iMask sl = EVENT_READABLE"
    then show ?thesis using stay bit [of sl] rw_bits by auto
  next
    fix eb sl assume "w_base w = Some eb" "get_slot eb fd = Inr sl" "iMask sl = 0"
    then show ?thesis using stay by auto
  next
    fix eb sl p c assume s: "w_base w = Some eb" "get_slot eb fd = Inr sl" "p \<in> ids" "w_conns w p = Some c" "iFd c = fd"
      "pstArg sl = p" "iMask sl AND EVENT_WRITABLE \<noteq> 0 \<longrightarrow> pFunEventCallbackWrite sl = SendProc"
    have "carries_on {fd} w (ProcessSendCallback w ep fd p)"
      using goes_on_carries_on [OF send_callback_live [OF l s(3,4) ep] s(4)] s(5) by simp
    then show ?thesis using stay s bit [of sl] by (auto simp: run_event_callback_def)
  qed
qed

text \<open>One event.\<close>

definition carries_on_or_exits :: "int set \<Rightarrow> world \<Rightarrow> world outcome \<Rightarrow> bool" where
  "carries_on_or_exits F w r \<longleftrightarrow> carries_on F w r \<or> r = Inl (Exits 1)"

lemma carries_on_bind:
  assumes r: "carries_on_or_exits F w r"
    and f: "\<And>w' qs ids'. live w' qs ids' {} \<Longrightarrow> same_base w w' \<Longrightarrow> carries_on_or_exits F w' (f w')"
  shows "carries_on_or_exits F w (cbind r f)"
proof (cases "r = Inl (Exits 1)")
  case False
  then obtain w' qs ids' where w': "r = Inr w'" "live w' qs ids' {}" "same_base w w'" "leak_free w \<longrightarrow> leak_free w'" "keeps_others F w w'"
    using r by (auto simp: carries_on_or_exits_def carries_on_def)
  have "carries_on_or_exits F w (f w')"
    using f [OF w'(2,3)] w'(3,4) keeps_others_trans [OF w'(5)] unfolding carries_on_or_exits_def carries_on_def by fastforce
  then show ?thesis by (simp add: w'(1))
qed (simp add: carries_on_or_exits_def)

lemma carries_on_or_exits_mono: "carries_on_or_exits F w r \<Longrightarrow> F \<subseteq> G \<Longrightarrow> carries_on_or_exits G w r"
  using carries_on_mono by (auto simp: carries_on_or_exits_def)

lemma deliver_event_live:
  assumes l: "live w ps ids {}" and fd: "in_array w fd" and ep: "ep \<noteq> NULL"
  shows "carries_on_or_exits {fd} w (deliver_event w ep (fd, ev))"
proof -
  let ?second = "\<lambda>w1. cbind (get_base w1 ep) (\<lambda>eb1. cbind (get_slot eb1 fd) (\<lambda>sl1.
       if iMask sl1 AND triggered ev AND EVENT_WRITABLE \<noteq> 0
       then run_event_callback w1 (pFunEventCallbackWrite sl1) ep fd (pstArg sl1) else Inr w1))"
  have second: "carries_on_or_exits {fd} w' (?second w')" if l': "live w' qs ids' {}" and b: "same_base w w'" for w' qs ids'
    using write_half_live [OF l' _ ep, of fd ev] fd in_array_base [OF b] ep
    by (auto simp: carries_on_or_exits_def get_base_def)
  have stay: "carries_on_or_exits {fd} w (Inr w)" using carries_onI [OF l] by (simp add: carries_on_or_exits_def)
  have first: "\<exists>eb sl. w_base w = Some eb \<and> get_slot eb fd = Inr sl
     \<and> carries_on_or_exits {fd} w (if iMask sl AND triggered ev AND EVENT_READABLE \<noteq> 0
          then run_event_callback w (pFunEventCallbackRead sl) ep fd (pstArg sl) else Inr w)"
  proof (rule live_slotE [OF l fd])
    fix eb sl assume s: "w_base w = Some eb" "get_slot eb fd = Inr sl" "fd = listen_fd w" "pFunEventCallbackRead sl = AcceptProc"
    moreover have "carries_on_or_exits {fd} w (ProcessAcceptCallback w ep (listen_fd w) (pstArg sl))"
      using accept_callback_live [OF l ep, of "pstArg sl"] carries_on_mono [of "{}"] by (auto simp: carries_on_or_exits_def)
    ultimately show ?thesis using stay by (auto simp: run_event_callback_def)
  next
    fix eb sl assume "w_base w = Some eb" "get_slot eb fd = Inr sl" "iMask sl = 0"
    then show ?thesis using stay by auto
  next
    fix eb sl p c assume s: "w_base w = Some eb" "get_slot eb fd = Inr sl" "p \<in> ids" "w_conns w p = Some c" "iFd c = fd"
      "pstArg sl = p" "pFunEventCallbackRead sl = RecvProc"
    have "carries_on_or_exits {fd} w (ProcessRecvCallback w ep fd p)"
      using goes_on_carries_on [OF recv_callback_live [OF l s(3,4) ep] s(4)] s(5) by (simp add: carries_on_or_exits_def)
    then show ?thesis using stay s by (auto simp: run_event_callback_def)
  qed
  then obtain eb sl where f: "w_base w = Some eb" "get_slot eb fd = Inr sl"
     "carries_on_or_exits {fd} w (if iMask sl AND triggered ev AND EVENT_READABLE \<noteq> 0
          then run_event_callback w (pFunEventCallbackRead sl) ep fd (pstArg sl) else Inr w)"
    by blast
  have "deliver_event w ep (fd, ev) = cbind (if iMask sl AND triggered ev AND EVENT_READABLE \<noteq> 0
          then run_event_callback w (pFunEventCallbackRead sl) ep fd (pstArg sl) else Inr w) ?second"
    using f(1,2) ep by (simp add: deliver_event_def get_base_def)
  then show ?thesis using carries_on_bind [OF f(3), of ?second] second by simp
qed

text \<open>An event on the descriptor of a client concerns this client alone, and never ends the worker.\<close>

lemma goes_on_refl: "live w ps ids {} \<Longrightarrow> goes_on w p ids (Inr w)"
  by (rule goes_onI [OF _ order_refl only_at_refl])

lemma goes_on_mono:
  assumes "goes_on w p js r" "js \<subseteq> ids" shows "goes_on w p ids r"
proof -
  obtain w' qs ids' where w': "r = Inr w'" "live w' qs ids' {}" "ids' \<subseteq> js" "only_at p w w'" using assms(1) by (auto simp: goes_on_def)
  show ?thesis unfolding w'(1) by (rule goes_onI [OF w'(2) subset_trans [OF w'(3) assms(2)] w'(4)])
qed

lemma write_half_conn:
  assumes l: "live w ps ids {}" and fd: "in_array w fd" "fd \<noteq> listen_fd w" and own: "\<forall>q \<in> ids - {p}. iFd (conn_of w q) \<noteq> fd"
    and ep: "ep \<noteq> NULL"
  shows "\<exists>eb sl. w_base w = Some eb \<and> get_slot eb fd = Inr sl
     \<and> goes_on w p ids (if iMask sl AND triggered ev AND EVENT_WRITABLE \<noteq> 0
          then run_event_callback w (pFunEventCallbackWrite sl) ep fd (pstArg sl) else Inr w)"
proof -
  note stay = goes_on_refl [OF l, of p]
  have bit: "iMask sl AND EVENT_WRITABLE \<noteq> 0" if "iMask sl AND triggered ev AND EVENT_WRITABLE \<noteq> 0" for sl
    using that by (metis and.assoc and.commute and_zero_eq)
  show ?thesis
  proof (rule live_slotE [OF l fd(1)])
    fix eb sl assume "fd = listen_fd w"
    then show ?thesis using fd(2) by simp
  next
    fix eb sl assume "w_base w = Some eb" "get_slot eb fd = Inr sl" "iMask sl = 0"
    then show ?thesis using stay by auto
  next
    fix eb sl q c assume s: "w_base w = Some eb" "get_slot eb fd = Inr sl" "q \<in> ids" "w_conns w q = Some c" "iFd c = fd"
      "pstArg sl = q" "iMask sl AND EVENT_WRITABLE \<noteq> 0 \<longrightarrow> pFunEventCallbackWrite sl = SendProc"
    have "iFd (conn_of w q) = fd" using s(4,5) by simp
    then have q: "q = p" using own s(3) by blast
    have "goes_on w p ids (ProcessSendCallback w ep fd p)"
      using send_callback_live [OF l s(3,4) ep] s(5) q by simp
    then show ?thesis using stay s bit [of sl] q by (auto simp: run_event_callback_def)
  qed
qed

lemma deliver_conn_live:
  assumes l: "live w ps ids {}" and p: "p \<in> ids" "w_conns w p = Some c" and ep: "ep \<noteq> NULL"
  shows "goes_on w p ids (deliver_event w ep (iFd c, ev))"
proof -
  let ?fd = "iFd c"
  obtain eb sl where s: "w_base w = Some eb" "get_slot eb ?fd = Inr sl" "pstArg sl = p" "pFunEventCallbackRead sl = RecvProc"
    by (rule live_slot_here [OF l p])
  obtain d where d: "w_conns w p = Some d" "conn_at w p d" "iFd d \<noteq> listen_fd w" by (rule live_conn [OF l p(1)])
  then have fd: "in_array w ?fd" "?fd \<noteq> listen_fd w" using p(2) by (simp_all add: conn_at_def usable_iff)
  have "goes_on w p ids (if iMask sl AND triggered ev AND EVENT_READABLE \<noteq> 0
      then run_event_callback w (pFunEventCallbackRead sl) ep ?fd (pstArg sl) else Inr w)"
    using recv_callback_live [OF l p ep] goes_on_refl [OF l] s(3,4) by (simp add: run_event_callback_def)
  then obtain w1 qs js where w1: "(if iMask sl AND triggered ev AND EVENT_READABLE \<noteq> 0
      then run_event_callback w (pFunEventCallbackRead sl) ep ?fd (pstArg sl) else Inr w) = Inr w1"
    "live w1 qs js {}" "js \<subseteq> ids" "only_at p w w1" by (auto simp: goes_on_def)
  note base = base_view_fields [OF only_at_base [OF w1(4)]]
  have own: "iFd (conn_of w1 q) \<noteq> ?fd" if "q \<in> js - {p}" for q
    using live_apart(2) [OF l p(1), of q] that w1(3,4) p(2) by (auto simp: only_at_def)
  obtain eb1 sl1 where s1: "w_base w1 = Some eb1" "get_slot eb1 ?fd = Inr sl1"
    "goes_on w1 p js (if iMask sl1 AND triggered ev AND EVENT_WRITABLE \<noteq> 0
        then run_event_callback w1 (pFunEventCallbackWrite sl1) ep ?fd (pstArg sl1) else Inr w1)"
    using write_half_conn [OF w1(2) _ _ _ ep, of ?fd p ev] fd own by (auto simp: base)
  have "deliver_event w ep (?fd, ev) = (if iMask sl1 AND triggered ev AND EVENT_WRITABLE \<noteq> 0
        then run_event_callback w1 (pFunEventCallbackWrite sl1) ep ?fd (pstArg sl1) else Inr w1)"
    using s(1,2) s1(1,2) w1(1) ep by (simp add: deliver_event_def get_base_def)
  then have "goes_on w p js (deliver_event w ep (?fd, ev))" using goes_on_from [OF s1(3) w1(4)] by simp
  then show ?thesis by (rule goes_on_mono [OF _ w1(3)])
qed

lemma deliver_events_live:
  assumes "live w ps ids {}" "\<forall>(fd, ev) \<in> set evs. in_array w fd" "ep \<noteq> NULL"
  shows "carries_on_or_exits (fst ` set evs) w (deliver_events w ep evs)"
  using assms
proof (induction evs arbitrary: w ps ids)
  case Nil
  then show ?case using carries_onI [of w ps ids w] by (simp add: carries_on_or_exits_def)
next
  case (Cons e evs)
  obtain fd ev where e: "e = (fd, ev)" by (cases e)
  let ?F = "fst ` set (e # evs)"
  have rest: "carries_on_or_exits ?F w' (deliver_events w' ep evs)" if w': "live w' qs ids' {}" "same_base w w'" for w' qs ids'
  proof (rule carries_on_or_exits_mono)
    show "carries_on_or_exits (fst ` set evs) w' (deliver_events w' ep evs)"
      by (rule Cons.IH [OF w'(1) _ Cons.prems(3)]) (use Cons.prems(2) in_array_base [OF w'(2)] in simp)
  qed auto
  have "carries_on_or_exits {fd} w (deliver_event w ep (fd, ev))"
    using deliver_event_live [OF Cons.prems(1) _ Cons.prems(3)] Cons.prems(2) e by simp
  then have "carries_on_or_exits ?F w (deliver_event w ep e)" unfolding e by (rule carries_on_or_exits_mono) simp
  then show ?case using carries_on_bind [OF _ rest] by simp
qed

section \<open>The timers that are due\<close>

lemma put_heap_touches:
  assumes "w_base w = Some eb" "same_nodes (w_tevs w) (hs_tevs st)"
  shows "touches_only w (put_heap w eb st) fd t B"
proof -
  have "slot_at (put_heap w eb st) = slot_at w" using assms(1) by (simp add: slot_at_def fun_eq_iff)
  then show ?thesis
    unfolding touches_only_def using assms(1) same_nodes_view [OF assms(2)] by (simp add: base_view_def)
qed

text \<open>Every connection has time left.\<close>

definition none_due :: "world \<Rightarrow> nat set \<Rightarrow> bool" where
  "none_due w ids \<longleftrightarrow> (\<forall>p \<in> ids. \<forall>now. clock w = Some now \<longrightarrow> now < due_of w p)"

text \<open>Of the connections without an event those that are due are closed, and the others are kept.\<close>

definition spares :: "int set \<Rightarrow> timeval \<Rightarrow> world \<Rightarrow> world \<Rightarrow> bool" where
  "spares F now w w' \<longleftrightarrow> (\<forall>q d. w_conns w q = Some d \<longrightarrow> iFd d \<notin> F \<longrightarrow>
     (if due_of w q \<le> now then w_conns w' q = None else w_conns w' q = Some d \<and> kept_conn w w' d))"

lemma spares_none_due:
  assumes "\<forall>q \<in> dom (w_conns w). now < due_of w q" shows "spares F now w w"
proof -
  have "\<not> due_of w q \<le> now" if "w_conns w q = Some d" for q d using assms that by (simp add: domI not_le)
  then show ?thesis by (simp add: spares_def kept_conn_def)
qed

lemma keeps_spares:
  assumes k: "keeps_others F w w1" and s: "spares {} now w1 w'" shows "spares F now w w'"
  unfolding spares_def
proof (intro allI impI)
  fix q d assume d: "w_conns w q = Some d" "iFd d \<notin> F"
  have w1: "w_conns w1 q = Some d" "kept_conn w w1 d" using k d by (simp_all add: keeps_others_def)
  then show "if due_of w q \<le> now then w_conns w' q = None else w_conns w' q = Some d \<and> kept_conn w w' d"
    using s kept_due [OF d(1) w1] kept_trans [OF w1(2)] by (simp add: spares_def)
qed

lemma spares_closed:
  assumes o: "only_at p w w1" and p: "due_of w p \<le> now" "w_conns w1 p = None"
    and s: "spares {} now w1 w'" "dom (w_conns w') \<subseteq> dom (w_conns w1)"
  shows "spares {} now w w'"
  unfolding spares_def
proof (intro allI impI)
  fix q d assume d: "w_conns w q = Some d"
  show "if due_of w q \<le> now then w_conns w' q = None else w_conns w' q = Some d \<and> kept_conn w w' d"
  proof (cases "q = p")
    case True
    then show ?thesis using p s(2) by auto
  next
    case False
    then have w1: "w_conns w1 q = Some d" "kept_conn w w1 d" using o d by (simp_all add: only_at_def)
    then show ?thesis using s(1) kept_due [OF d w1] kept_trans [OF w1(2)] by (simp add: spares_def)
  qed
qed

lemma timeout_loop_live:
  assumes "live w ps ids {}" "ep \<noteq> NULL" "card (set ps) < n"
  shows "\<exists>w' qs ids'. timeout_loop n w ep = Inr (RET_SUCC, w') \<and> live w' qs ids' {} \<and> same_base w w'
     \<and> none_due w' ids' \<and> (leak_free w \<longrightarrow> leak_free w') \<and> ids' \<subseteq> ids \<and> (\<forall>now. clock w = Some now \<longrightarrow> spares {} now w w')"
  using assms
proof (induction n arbitrary: w ps ids)
  case (Suc n)
  note l = Suc.prems(1)
  obtain eb now where eb: "w_base w = Some eb" "pstTimeCache eb = Some now" "heap_cap w \<le> 16" "clock w = Some now"
    by (rule live_clock [OF l])
  have s: "server_ok w ps ids" using liveD(1) [OF l] .
  show ?case
  proof (cases "\<exists>p \<in> ids. due_of w p \<le> now")
    case False
    then have late: "\<forall>p \<in> ids. now < due_of w p" by (auto simp: not_le)
    then have "none_due w ids" using eb(4) by (simp add: none_due_def)
    moreover have "spares {} now w w" by (rule spares_none_due) (use late liveD(11) [OF l] in simp)
    ultimately show ?thesis using expire_none [OF s eb(1,2) Suc.prems(2) late] l eb(4) by auto
  next
    case True
    obtain p w1 qs where p: "p \<in> ids" "\<forall>n. timeout_loop (Suc n) w ep = timeout_loop n w1 ep" "card (set qs) < card (set ps)"
      "due_of w p \<le> now" "w_conns w1 = (w_conns w)(p := None)"
      "\<exists>c st ps1. w_conns w p = Some c \<and> conn_released (put_heap w eb st) p c ps1 w1 qs
         \<and> heap_cap (put_heap w eb st) = heap_cap w \<and> same_nodes (w_tevs w) (hs_tevs st)
         \<and> set ps1 = set ps - {pstTimeoutEvent c}"
      by (rule expire_one [OF s eb(1,2) Suc.prems(2) True])
    then obtain c st ps1 where r: "w_conns w p = Some c" "conn_released (put_heap w eb st) p c ps1 w1 qs"
      "heap_cap (put_heap w eb st) = heap_cap w" "same_nodes (w_tevs w) (hs_tevs st)"
      "set ps1 = set ps - {pstTimeoutEvent c}" by blast
    have w1: "live w1 qs (ids - {p}) {}" "only_at p w w1"
      using live_released [OF l _ p(1) r(1) put_heap_touches [OF eb(1) r(4)] _ r(2)] r(3,5) eb(3) by simp_all
    have b: "same_base w w1" "clock w1 = Some now" using only_at_base [OF w1(2)] base_view_fields(1) [of w1 w] eb(4) by simp_all
    obtain w' qs' ids' where w': "timeout_loop n w1 ep = Inr (RET_SUCC, w')" "live w' qs' ids' {}" "same_base w1 w'" "none_due w' ids'"
      "leak_free w1 \<longrightarrow> leak_free w'" "ids' \<subseteq> ids - {p}" "spares {} now w1 w'"
      using Suc.IH [OF w1(1) Suc.prems(2)] p(3) Suc.prems(3) b(2) by auto
    have "spares {} now w w'"
      by (rule spares_closed [OF w1(2) p(4) _ w'(7)]) (use p(5) w'(6) liveD(11) [OF w'(2)] liveD(11) [OF w1(1)] in auto)
    moreover have "timeout_loop (Suc n) w ep = Inr (RET_SUCC, w')" using p(2) w'(1) by simp
    moreover have "leak_free w \<longrightarrow> leak_free w'" using only_at_leak_free [OF w1(2)] w'(5) by blast
    ultimately show ?thesis using w'(2-4,6) b(1) eb(4) by (intro exI [of _ w'] exI [of _ qs'] exI [of _ ids']) auto
  qed
qed simp

section \<open>The clock\<close>

lemma restart_time_mono:
  assumes "tv_normal a" "tv_normal b" "a \<le> b"
  shows "restart_time a \<le> restart_time b"
proof -
  have n: "tv_normal (interval_of MAX_CONN_TIMEOUT)" by (simp add: interval_of_def MAX_CONN_TIMEOUT_def tv_normal_def)
  show ?thesis
    using assms n by (simp add: restart_time_def timeval_le_iff_usec timeradd_normal timeradd_to_usec)
qed

text \<open>The server at a later time: \<open>time\<close> is read again after \<open>epoll_wait\<close>.\<close>

definition at_time :: "world \<Rightarrow> timeval \<Rightarrow> world" where
  "at_time w t = w\<lparr>w_now := t, w_base := map_option (\<lambda>eb. eb\<lparr>pstTimeCache := Some t\<rparr>) (w_base w)\<rparr>"

lemma at_time_views:
  "slot_at (at_time w t) = slot_at w" "slot_mask (at_time w t) = slot_mask w" "watched_by_kernel (at_time w t) = watched_by_kernel w"
  "usable_fds (at_time w t) = usable_fds w" "listen_fd (at_time w t) = listen_fd w" "in_array (at_time w t) = in_array w"
  "heap_cap (at_time w t) = heap_cap w" "due_of (at_time w t) = due_of w" "timer_of (at_time w t) = timer_of w"
  "w_conns (at_time w t) = w_conns w" "w_kern (at_time w t) = w_kern w" "w_mem (at_time w t) = w_mem w"
  "w_tevs (at_time w t) = w_tevs w" "w_next (at_time w t) = w_next w" "w_malloc (at_time w t) = w_malloc w"
  by (cases "w_base w"; simp add: at_time_def fun_eq_iff slot_at_def get_slot_def slot_mask_def watched_by_kernel_def usable_fds_def
      listen_fd_def in_array_def heap_cap_def due_of_def timer_of_def)+

lemma at_time_leak_free: "leak_free (at_time w t) = leak_free w"
  by (simp add: leak_free_def owned_def at_time_views)

lemma at_time_keeps: "keeps_others F w (at_time w t)"
  by (simp add: keeps_others_def kept_conn_def at_time_views)

lemma at_time_timers: "timers_ok (at_time w t) ps = timers_ok w ps"
  by (cases "w_base w") (simp_all add: timers_ok_def at_time_def heap_of_def)

lemma live_at_time:
  assumes l: "live w ps ids {}" and t: "clock w = Some t0" "t0 \<le> t" "tv_normal t"
  shows "live (at_time w t) ps ids {}" "clock (at_time w t) = Some t"
proof -
  note d = liveD [OF l] and v = at_time_views
  obtain eb now where eb: "w_base w = Some eb" "clock w = Some now" "tv_normal now" "iEpType eb = EPOLL_LT_TYPE" "iStopSign eb = 0"
    by (rule live_clock [OF l])
  show ck: "clock (at_time w t) = Some t" using eb(1) by (simp add: clock_def at_time_def)
  have later: "restart_time t0 \<le> restart_time t" using restart_time_mono t eb(2,3) by simp
  have "conn_ok (at_time w t) p" if "p \<in> ids" for p
    using d(8) [OF that] by (simp add: conn_ok_def v split: option.splits)
  then have "server_ok (at_time w t) ps ids" using d(1) by (simp add: server_ok_def v at_time_timers)
  moreover have "conn_core (at_time w t) p (conn_of (at_time w t) p)" if "p \<in> ids" for p
    using d(9) [OF that] ck t(1) later by (auto simp: conn_core_def owns_slot_def v)
  moreover have "\<forall>p \<in> ids. recv_ready (at_time w t) (conn_of (at_time w t) p)"
    using d(10) by (simp add: recv_ready_def v)
  moreover have "process_ok (at_time w t)"
    using d(2) ck t(3) eb by (simp add: process_ok_def v) (simp add: at_time_def)
  moreover have "listens (at_time w t) ids" using d(3) by (simp add: listens_def v)
  moreover have "clients_fit (at_time w t) (card ids)" using d(4) by (simp add: clients_fit_def waiting_clients_def v)
  moreover have "dom (w_conns (at_time w t)) = ids" using d(11) by (simp add: v)
  ultimately show "live (at_time w t) ps ids {}" by (simp add: live_def)
qed

text \<open>The time to wait is computed without going wrong, and then the events are delivered.\<close>

lemma loop_turn_form:
  assumes l: "live w ps ids {}" and ep: "ep \<noteq> NULL"
  shows "\<exists>wait. loop_turn w ep reply = (case er_events reply of None \<Rightarrow> Inr (wait, at_time w (er_now reply))
     | Some evs \<Rightarrow> cbind (deliver_events (at_time w (er_now reply)) ep evs) (\<lambda>w4.
         cbind (ReactorProcessTimeoutEvent w4 ep) (\<lambda>(_, w5). Inr (wait, w5))))"
proof -
  obtain eb now where eb: "w_base w = Some eb" "pstTimeCache eb = Some now" by (rule live_clock [OF l])
  obtain H where H: "pstHeapHeader eb = Some H" "heap_rep H (w_tevs w) ps"
    using liveD(5) [OF l] eb(1) by (auto elim: timers_okE)
  have "\<exists>r saved c. GetEPollwaitTimeoutValue w ep False = Inr (r, saved, put_base w (eb\<lparr>pstTimeCache := Some c\<rparr>))"
  proof (cases "ps = []")
    case True
    have "put_base w (eb\<lparr>pstTimeCache := Some now\<rparr>) = w" using eb by (cases w; cases eb) (simp add: put_base_def)
    moreover have "GetEPollwaitTimeoutValue w ep False = Inr (-1, None, w)"
      using True GetTop_rep [OF H(2)] H(1) eb ep by (simp add: GetEPollwaitTimeoutValue_def get_base_def)
    ultimately show ?thesis by metis
  next
    case False
    have top: "ps ! 0 \<in> set ps" using False by simp
    obtain e where "w_tevs w (ps ! 0) = Some e" "ps ! 0 \<noteq> NULL"
      using heap_rep_node(2) [OF H(2) top] heap_rep_node(1) [OF H(2) top] by blast
    then show ?thesis
      using False GetTop_rep [OF H(2)] H(1) eb ep
      by (simp add: GetEPollwaitTimeoutValue_def get_base_def Let_def tev_get_def) blast
  qed
  then obtain r saved c where g: "GetEPollwaitTimeoutValue w ep False = Inr (r, saved, put_base w (eb\<lparr>pstTimeCache := Some c\<rparr>))"
    by blast
  show ?thesis
    using ep eb(1) by (intro exI [of _ "wait_msec r saved"], cases "er_events reply")
      (simp_all add: loop_turn_def g get_base_def put_base_def at_time_def Let_def)
qed

section \<open>A turn\<close>

text \<open>
  An answer of \<open>epoll_wait\<close> that the kernel can give: an error, or events on descriptors inside the
  array; and a clock that does not go back.
\<close>

definition reply_ok :: "world \<Rightarrow> epoll_reply \<Rightarrow> bool" where
  "reply_ok w reply \<longleftrightarrow> tv_normal (er_now reply) \<and> (case clock w of None \<Rightarrow> False | Some t \<Rightarrow> t \<le> er_now reply)
     \<and> (case er_events reply of None \<Rightarrow> True | Some evs \<Rightarrow> \<forall>(fd, ev) \<in> set evs. in_array w fd)"

text \<open>What a turn leaves: a live server at the time of the reply, in which no connection is overdue
  and nothing has been lost.\<close>

definition turned :: "world \<Rightarrow> epoll_reply \<Rightarrow> world \<Rightarrow> nat set \<Rightarrow> bool" where
  "turned w reply w' ids \<longleftrightarrow> clock w' = Some (er_now reply) \<and> in_array w' = in_array w \<and> listen_fd w' = listen_fd w
     \<and> (er_events reply \<noteq> None \<longrightarrow> none_due w' ids) \<and> (leak_free w \<longrightarrow> leak_free w')
     \<and> (case er_events reply of None \<Rightarrow> keeps_others {} w w' | Some evs \<Rightarrow> spares (fst ` set evs) (er_now reply) w w')"

lemma timeouts_live:
  assumes l: "live w ps ids {}" and ep: "ep \<noteq> NULL"
  shows "\<exists>w' qs ids'. ReactorProcessTimeoutEvent w ep = Inr (RET_SUCC, w') \<and> live w' qs ids' {} \<and> same_base w w' \<and> none_due w' ids'
     \<and> (leak_free w \<longrightarrow> leak_free w') \<and> ids' \<subseteq> ids \<and> (\<forall>now. clock w = Some now \<longrightarrow> spares {} now w w')"
proof -
  obtain eb now where eb: "w_base w = Some eb" "pstTimeCache eb = Some now" by (rule live_clock [OF l])
  obtain H where H: "pstHeapHeader eb = Some H" "heap_rep H (w_tevs w) ps"
    using liveD(5) [OF l] eb(1) by (auto elim: timers_okE)
  have "card (set ps) < nat (MinheapGetCurSize (pstHeapHeader eb)) + 1"
    using H heap_repD(1) [OF H(2)] card_length [of ps] by (simp add: MinheapGetCurSize_def)
  note ends = timeout_loop_live [OF l ep this]
  have "ReactorProcessTimeoutEvent w ep = timeout_loop (nat (MinheapGetCurSize (pstHeapHeader eb)) + 1) w ep"
    using eb ep by (simp add: ReactorProcessTimeoutEvent_def get_base_def del: timeout_loop.simps)
  then show ?thesis using ends by (simp only:)
qed

lemma loop_turn_live:
  assumes l: "live w ps ids {}" and r: "reply_ok w reply" and ep: "ep \<noteq> NULL"
  shows "(\<exists>wait w' qs ids'. loop_turn w ep reply = Inr (wait, w') \<and> live w' qs ids' {} \<and> turned w reply w' ids')
     \<or> loop_turn w ep reply = Inl (Exits 1)"
proof -
  let ?w = "at_time w (er_now reply)"
  obtain t0 where t0: "clock w = Some t0" "t0 \<le> er_now reply" "tv_normal (er_now reply)"
    using r by (auto simp: reply_ok_def split: option.splits)
  note lt = live_at_time [OF l t0]
  have same: "clock w' = Some (er_now reply)" "in_array w' = in_array w" "listen_fd w' = listen_fd w" if "same_base ?w w'" for w'
    using base_view_fields [OF that] lt(2) by (simp_all add: at_time_views)
  obtain wait where f: "loop_turn w ep reply = (case er_events reply of None \<Rightarrow> Inr (wait, ?w)
     | Some evs \<Rightarrow> cbind (deliver_events ?w ep evs) (\<lambda>w4. cbind (ReactorProcessTimeoutEvent w4 ep) (\<lambda>(_, w5). Inr (wait, w5))))"
    using loop_turn_form [OF l ep] by blast
  show ?thesis
  proof (cases "er_events reply")
    case None
    then show ?thesis unfolding f using lt(1) same [of ?w] at_time_leak_free at_time_keeps by (auto simp: turned_def)
  next
    case (Some evs)
    then have "\<forall>(fd, ev) \<in> set evs. in_array ?w fd" using r by (simp add: reply_ok_def at_time_views)
    then have "carries_on_or_exits (fst ` set evs) ?w (deliver_events ?w ep evs)" by (rule deliver_events_live [OF lt(1) _ ep])
    then consider "deliver_events ?w ep evs = Inl (Exits 1)"
      | w4 qs ids' where "deliver_events ?w ep evs = Inr w4" "live w4 qs ids' {}" "same_base ?w w4"
          "leak_free ?w \<longrightarrow> leak_free w4" "keeps_others (fst ` set evs) ?w w4"
      by (auto simp: carries_on_or_exits_def carries_on_def)
    then show ?thesis
    proof cases
      case 1
      then show ?thesis unfolding f using Some by simp
    next
      case 2
      obtain w5 rs js where w5: "ReactorProcessTimeoutEvent w4 ep = Inr (RET_SUCC, w5)" "live w5 rs js {}" "same_base w4 w5" "none_due w5 js"
          "leak_free w4 \<longrightarrow> leak_free w5" "\<forall>now. clock w4 = Some now \<longrightarrow> spares {} now w4 w5"
        using timeouts_live [OF 2(2) ep] by blast
      have "same_base ?w w5" using w5(3) 2(3) by simp
      moreover have "clock w4 = Some (er_now reply)" using same [OF 2(3)] by simp
      then have "spares (fst ` set evs) (er_now reply) w w5"
        using keeps_spares keeps_others_trans [OF at_time_keeps 2(5)] w5(6) by blast
      ultimately have "turned w reply w5 js" using same [of w5] w5(4,5) 2(4) Some at_time_leak_free by (simp add: turned_def)
      then show ?thesis unfolding f using Some 2(1) w5(1,2) by auto
    qed
  qed
qed

end
