(* ===== verification/LiveStart.thy ===== *)
theory LiveStart
  imports ServerStart LiveLoop
begin

text \<open>
  The start of a worker leads into the invariant of the running server, and the loop over the answers
  of \<open>epoll_wait\<close> never leaves it.
\<close>

section \<open>The first state\<close>

text \<open>The clients that will come to the listening socket \<open>fd\<close> of a worker for \<open>n\<close> descriptors.\<close>

definition clients_come :: "world \<Rightarrow> int \<Rightarrow> int \<Rightarrow> bool" where
  "clients_come w fd n \<longleftrightarrow> (case k_socks (w_kern w) fd of None \<Rightarrow> False | Some so \<Rightarrow>
     length (waiting (s_conns so)) \<le> max_clients \<and> distinct (map fst (waiting (s_conns so)))
     \<and> (\<forall>(f, i) \<in> set (waiting (s_conns so)). 0 \<le> f \<and> f < n \<and> k_socks (w_kern w) f = None \<and> harmless_stream (arriving i)))"

lemma EventBaseCreate_live:
  assumes fd: "0 \<le> fd" "fd < n" "0 \<le> epfd" "sock_is_open (w_kern w) fd"
    and w: "w_malloc w = []" "k_ctl (w_kern w) = []" "k_interest (w_kern w) = (\<lambda>_. None)" and junk: "\<And>i. iMask (junk i) = 0"
    and first: "w_conns w = (\<lambda>_. None)" "w_next w \<noteq> NULL" "tv_normal (w_now w)" and come: "clients_come w fd n"
  shows "\<exists>w'. EventBaseCreate w fd n epfd junk = Inr (1, w') \<and> live w' [] {} {} \<and> clock w' = Some (w_now w)
     \<and> in_array w' = (\<lambda>x. 0 \<le> x \<and> x < n) \<and> listen_fd w' = fd \<and> k_socks (w_kern w') = k_socks (w_kern w)
     \<and> w_mem w' = w_mem w \<and> w_tevs w' = w_tevs w"
proof -
  let ?eb = "listen_base w fd n epfd junk" and ?sl = "slot_with (junk (nat fd)) EVENT_READABLE AcceptProc NULL"
  obtain k where k: "EventBaseCreate w fd n epfd junk = Inr (1, reslot (put_base w ?eb) ?eb fd ?sl k)"
    "interest_upd (w_kern w) k fd EVENT_READABLE" "in_sync (slot_mask (reslot (put_base w ?eb) ?eb fd ?sl k)) (k_interest k)"
    "usable_fds (reslot (put_base w ?eb) ?eb fd ?sl k) = {x. 0 \<le> x \<and> x < n \<and> sock_is_open (w_kern w) x}"
    "timers_ok (reslot (put_base w ?eb) ?eb fd ?sl k) []"
    by (rule EventBaseCreate_form [OF fd w junk refl refl])
  let ?w = "reslot (put_base w ?eb) ?eb fd ?sl k"
  have ks: "k_socks k = k_socks (w_kern w)" "k_ctl k = []" using k(2) w(2) by (simp_all add: interest_upd_def)
  have v: "w_base ?w = Some (put_slot ?eb fd ?sl)" "w_conns ?w = (\<lambda>_. None)" "w_kern ?w = k"
    using first(1) by (simp_all add: put_base_def)
  have lf: "listen_fd ?w = fd" by (simp add: listen_fd_def v(1) put_slot_def)
  have ck: "clock ?w = Some (w_now w)" by (simp add: clock_def v(1) put_slot_def fresh_base_def)
  have arr: "in_array ?w = (\<lambda>x. 0 \<le> x \<and> x < n)"
    using fd by (auto simp: in_array_def fun_eq_iff put_slot_def fresh_base_def)
  have wc: "waiting_clients ?w = (case k_socks (w_kern w) fd of None \<Rightarrow> [] | Some so \<Rightarrow> waiting (s_conns so))"
    using lf ks(1) by (simp only: waiting_clients_def v(3))
  have "clients_fit ?w 0" unfolding clients_fit_def wc arr v(3) ks(1) using come by (auto simp: clients_come_def split: option.splits)
  moreover have "server_ok ?w [] {}" using k(3,5) v(3) by (simp add: server_ok_def watched_by_kernel_def)
  moreover have "process_ok ?w"
    using ck first(2,3) w(1) ks(2) v(1)
    by (simp add: process_ok_def heap_cap_def put_base_def) (simp add: put_slot_def fresh_base_def MinheapCreate_def)
  moreover have "listens ?w {}"
  proof -
    have us: "fd \<in> usable_fds ?w" using k(4) fd by simp
    have at: "slot_at ?w fd = Some ?sl" using fd by (simp add: slot_at_def get_slot_def put_slot_def fresh_base_def)
    have sl: "iMask ?sl = EVENT_READABLE" "pFunEventCallbackRead ?sl = AcceptProc"
      using junk rw_bits by (simp_all add: slot_with_def)
    have "slot_mask ?w f = 0" if "f \<noteq> fd" for f
      using that junk fd by (auto simp: slot_mask_def put_slot_def fresh_base_def nth_list_update)
    then show ?thesis using us at sl unfolding listens_def lf by auto
  qed
  ultimately have "live ?w [] {} {}" using v(2) by (simp add: live_def)
  then show ?thesis using k(1) ck arr lf ks(1) v(3) by (intro exI [of _ ?w]) (simp add: put_base_def)
qed

section \<open>The loop\<close>

text \<open>Answers of \<open>epoll_wait\<close> on descriptors of the array, at times that do not go back.\<close>

fun replies_ok :: "(int \<Rightarrow> bool) \<Rightarrow> timeval \<Rightarrow> epoll_reply list \<Rightarrow> bool" where
  "replies_ok A t [] = True"
| "replies_ok A t (r # rs) = (tv_normal (er_now r) \<and> t \<le> er_now r
     \<and> (case er_events r of None \<Rightarrow> True | Some evs \<Rightarrow> \<forall>(fd, ev) \<in> set evs. A fd) \<and> replies_ok A (er_now r) rs)"

lemma dispatch_live_simps:
  assumes "live w ps ids {}" "ep \<noteq> NULL"
  shows "ReactorEventDispatchLoop w ep [] = Inr (False, w)"
    "ReactorEventDispatchLoop w ep (r # rs) = cbind (loop_turn w ep r) (\<lambda>(_, w1). ReactorEventDispatchLoop w1 ep rs)"
proof -
  obtain eb where "w_base w = Some eb" "iStopSign eb = 0" by (rule live_clock [OF assms(1)])
  then show "ReactorEventDispatchLoop w ep [] = Inr (False, w)"
      "ReactorEventDispatchLoop w ep (r # rs) = cbind (loop_turn w ep r) (\<lambda>(_, w1). ReactorEventDispatchLoop w1 ep rs)"
    using assms(2) by (simp_all add: ReactorEventDispatchLoop.simps get_base_def)
qed

lemma dispatch_loop_live:
  assumes "live w ps ids {}" "clock w = Some t" "replies_ok (in_array w) t rs" "ep \<noteq> NULL"
  shows "(\<exists>w' qs ids'. ReactorEventDispatchLoop w ep rs = Inr (False, w') \<and> live w' qs ids' {})
     \<or> ReactorEventDispatchLoop w ep rs = Inl (Exits 1)"
  using assms
proof (induction rs arbitrary: w ps ids t)
  case Nil
  then show ?case using dispatch_live_simps(1) by blast
next
  case (Cons r rs)
  note step = dispatch_live_simps(2) [OF Cons.prems(1,4)]
  have ok: "reply_ok w r" using Cons.prems(2,3) by (simp add: reply_ok_def)
  consider "loop_turn w ep r = Inl (Exits 1)"
    | wait w1 qs js where "loop_turn w ep r = Inr (wait, w1)" "live w1 qs js {}" "turned w r w1 js"
    using loop_turn_live [OF Cons.prems(1) ok Cons.prems(4)] by blast
  then show ?case
  proof cases
    case 1
    then show ?thesis unfolding step by simp
  next
    case 2
    have "clock w1 = Some (er_now r)" "replies_ok (in_array w1) (er_now r) rs"
      using 2(3) Cons.prems(3) by (simp_all add: turned_def)
    then show ?thesis unfolding step using Cons.IH [OF 2(2) _ _ Cons.prems(4)] 2(1) by simp
  qed
qed

section \<open>A worker among its clients\<close>

text \<open>
  A worker that serves, and what can happen to it: the network moves (bytes, clients and errors come,
  as long as they are within the bounds of the invariant), or the loop turns once.
\<close>

definition in_service :: "world \<Rightarrow> bool" where
  "in_service w \<longleftrightarrow> (\<exists>ps. live w ps (dom (w_conns w)) {})"

definition net_moves :: "world \<Rightarrow> kernel \<Rightarrow> bool" where
  "net_moves w k \<longleftrightarrow> k_ctl k = k_ctl (w_kern w) \<and> k_interest k = k_interest (w_kern w)
     \<and> dom (k_socks k) = dom (k_socks (w_kern w))
     \<and> (\<forall>p c. w_conns w p = Some c \<longrightarrow> recv_ready (put_kern w k) c)
     \<and> clients_fit (put_kern w k) (card (dom (w_conns w)))"

inductive server_step :: "world \<Rightarrow> world \<Rightarrow> bool" where
  network: "net_moves w k \<Longrightarrow> server_step w (put_kern w k)"
| turn: "ep \<noteq> NULL \<Longrightarrow> reply_ok w reply \<Longrightarrow> loop_turn w ep reply = Inr (wait, w') \<Longrightarrow> server_step w w'"

inductive_cases server_stepE: "server_step w w'"

lemma live_in_service: "live w ps ids {} \<Longrightarrow> in_service w"
  using liveD(11) by (auto simp: in_service_def)

lemma service_turns:
  assumes "in_service w" "reply_ok w reply" "ep \<noteq> NULL"
  shows "(\<exists>wait w'. loop_turn w ep reply = Inr (wait, w') \<and> in_service w' \<and> turned w reply w' (dom (w_conns w')))
     \<or> loop_turn w ep reply = Inl (Exits 1)"
proof -
  obtain ps where l: "live w ps (dom (w_conns w)) {}" using assms(1) by (auto simp: in_service_def)
  show ?thesis using loop_turn_live [OF l assms(2,3)] liveD(11) live_in_service by metis
qed

lemma service_net:
  assumes "in_service w" "net_moves w k"
  shows "in_service (put_kern w k)" "leak_free w \<Longrightarrow> leak_free (put_kern w k)"
proof -
  obtain ps where l: "live w ps (dom (w_conns w)) {}" using assms(1) by (auto simp: in_service_def)
  have "live (put_kern w k) ps (dom (w_conns w)) {}"
    by (rule live_net [OF l]) (use assms(2) in \<open>auto simp: net_moves_def\<close>)
  then show "in_service (put_kern w k)" by (rule live_in_service)
  show "leak_free w \<Longrightarrow> leak_free (put_kern w k)"
    using assms(2) by (simp add: leak_free_def owned_def net_moves_def listen_fd_def)
qed

interpretation server_run: invariant_system server_step in_service
proof
  fix w w' assume "in_service w" "server_step w w'"
  then show "in_service w'" using service_net service_turns by (elim server_stepE) (auto, metis Inl_not_Inr Pair_inject sum.inject(2))
qed

text \<open>A worker that has lost nothing loses nothing.\<close>

interpretation tidy_run: invariant_system server_step "\<lambda>w. in_service w \<and> leak_free w"
proof
  fix w w' assume w: "in_service w \<and> leak_free w" "server_step w w'"
  have "leak_free w'" if "ep \<noteq> NULL" "reply_ok w reply" "loop_turn w ep reply = Inr (wait, w')" for ep reply wait
    using service_turns [OF conjunct1 [OF w(1)] that(2,1)] that(3) w(1) by (auto simp: turned_def)
  then have "leak_free w'" using w service_net(2) by (elim server_stepE) auto
  then show "in_service w' \<and> leak_free w'" using server_run.reachable_inv [of w w'] w by blast
qed

end
