(* ===== verification/LiveSession.thy ===== *)
theory LiveSession
  imports LiveStart
begin

text \<open>
  What a live server does for its clients over several turns: a client that waits is accepted, a client
  that asks is answered, and a client that is silent is closed when its time has come.
\<close>

section \<open>The end of a turn\<close>

lemma restart_later:
  assumes "tv_normal now" shows "now < restart_time now"
proof -
  have n: "tv_normal (interval_of MAX_CONN_TIMEOUT)" by (simp add: interval_of_def MAX_CONN_TIMEOUT_def tv_normal_def)
  have "0 < to_usec (interval_of MAX_CONN_TIMEOUT)" by (simp add: interval_of_def MAX_CONN_TIMEOUT_def to_usec_def)
  then have "\<not> restart_time now \<le> now"
    using assms n by (simp add: restart_time_def timeval_le_iff_usec timeradd_normal timeradd_to_usec)
  then show ?thesis by (simp add: not_le)
qed

text \<open>When the events have been handled the turn ends with the connections that are due.\<close>

lemma turn_ends:
  assumes l: "live w ps ids {}" and ep: "ep \<noteq> NULL" and evs: "er_events reply = Some evs"
    and d: "deliver_events (at_time w (er_now reply)) ep evs = Inr w1" and l1: "live w1 qs js {}" and now: "clock w1 = Some (er_now reply)"
  shows "\<exists>wait w' rs ids'. loop_turn w ep reply = Inr (wait, w') \<and> live w' rs ids' {} \<and> same_base w1 w'
     \<and> spares {} (er_now reply) w1 w'"
proof -
  obtain wait where f: "loop_turn w ep reply = (case er_events reply of None \<Rightarrow> Inr (wait, at_time w (er_now reply))
     | Some evs \<Rightarrow> cbind (deliver_events (at_time w (er_now reply)) ep evs) (\<lambda>w4.
         cbind (ReactorProcessTimeoutEvent w4 ep) (\<lambda>(_, w5). Inr (wait, w5))))"
    using loop_turn_form [OF l ep] by blast
  obtain w' rs ids' where w': "ReactorProcessTimeoutEvent w1 ep = Inr (RET_SUCC, w')" "live w' rs ids' {}" "same_base w1 w'"
    "spares {} (er_now reply) w1 w'" using timeouts_live [OF l1 ep] now by blast
  have "loop_turn w ep reply = Inr (wait, w')" unfolding f using evs d w'(1) by simp
  then show ?thesis using w'(2-4) by blast
qed

lemma idle_client_kept:
  assumes i: "idle_client w p fd sent" and w': "w_conns w p = Some c" "w_conns w' p = Some c" "kept_conn w w' c"
  shows "idle_client w' p fd sent"
  using assms by (simp add: idle_client_def kept_conn_def slot_mask_at)

text \<open>A client that has just been heard of is not due.\<close>

lemma idle_client_survives:
  assumes i: "idle_client w p fd sent" and due: "due_of w p = restart_time now" "tv_normal now" and s: "spares {} now w w'"
  shows "idle_client w' p fd sent" "due_of w' p = restart_time now"
proof -
  obtain c where c: "w_conns w p = Some c" using i by (auto simp: idle_client_def split: option.splits)
  have "\<not> due_of w p \<le> now" using restart_later [OF due(2)] due(1) by (simp add: not_le)
  then have w': "w_conns w' p = Some c" "kept_conn w w' c" using s c by (simp_all add: spares_def)
  show "idle_client w' p fd sent" by (rule idle_client_kept [OF i c w'])
  show "due_of w' p = restart_time now" using kept_due [OF c w'] due(1) by simp
qed

section \<open>A client is accepted\<close>

lemma listener_event:
  assumes l: "live w ps ids {}" and ep: "ep \<noteq> NULL" and so: "k_socks (w_kern w) (listen_fd w) = Some so"
    and inc: "accept_loop (s_conns so) = (Incoming fd ip port i out, rest)"
  shows "\<exists>w' qs. deliver_event w ep (listen_fd w, EPOLLIN) = Inr w' \<and> live w' qs (insert (w_next w) ids) {} \<and> same_base w w'
     \<and> idle_client w' (w_next w) fd [] \<and> Some (due_of w' (w_next w)) = map_option restart_time (clock w)"
proof -
  obtain eb sl where s: "w_base w = Some eb" "get_slot eb (listen_fd w) = Inr sl" "iMask sl = EVENT_READABLE"
    "pFunEventCallbackRead sl = AcceptProc" by (rule live_listener [OF l])
  obtain w' qs where w': "ProcessAcceptCallback w ep (listen_fd w) (pstArg sl) = Inr w'"
      "live w' qs (insert (w_next w) ids) {}" "same_base w w'" "idle_client w' (w_next w) fd []"
      "Some (due_of w' (w_next w)) = map_option restart_time (clock w)"
    using accepts_next [OF l ep so inc, of "pstArg sl"] by blast
  obtain eb1 sl1 where s1: "w_base w' = Some eb1" "get_slot eb1 (listen_fd w') = Inr sl1" "iMask sl1 = EVENT_READABLE"
    by (rule live_listener [OF w'(2)])
  have lf: "listen_fd w' = listen_fd w" by (rule base_view_fields [OF w'(3)])
  have "EPOLLIN AND EPOLLIN \<noteq> 0" by (simp add: EPOLLIN_def)
  note trig = triggered_readable [OF this, of EVENT_READABLE]
  have "EVENT_READABLE AND triggered EPOLLIN AND EVENT_WRITABLE = (EVENT_READABLE AND EVENT_WRITABLE) AND triggered EPOLLIN"
    by (simp only: and.assoc and.commute and.left_commute)
  then have no: "EVENT_READABLE AND triggered EPOLLIN AND EVENT_WRITABLE = 0" using rw_bits(1) by simp
  have "deliver_event w ep (listen_fd w, EPOLLIN) = Inr w'"
    using s s1 w'(1) ep trig no lf rw_bits(7) by (simp add: deliver_event_def get_base_def run_event_callback_def)
  then show ?thesis using w'(2-5) by blast
qed

lemma accept_turn:
  assumes l: "live w ps ids {}" and r: "reply_ok w reply" "er_events reply = Some [(listen_fd w, EPOLLIN)]" and ep: "ep \<noteq> NULL"
    and so: "k_socks (w_kern w) (listen_fd w) = Some so" "accept_loop (s_conns so) = (Incoming fd ip port i out, rest)"
  shows "\<exists>wait w' qs ids'. loop_turn w ep reply = Inr (wait, w') \<and> live w' qs ids' {} \<and> clock w' = Some (er_now reply)
     \<and> in_array w' = in_array w \<and> idle_client w' (w_next w) fd []"
proof -
  let ?w = "at_time w (er_now reply)"
  obtain t0 where t0: "clock w = Some t0" "t0 \<le> er_now reply" "tv_normal (er_now reply)"
    using r by (auto simp: reply_ok_def split: option.splits)
  note l' = live_at_time [OF l t0]
  obtain w1 qs where w1: "deliver_event ?w ep (listen_fd ?w, EPOLLIN) = Inr w1" "live w1 qs (insert (w_next ?w) ids) {}" "same_base ?w w1"
      "idle_client w1 (w_next ?w) fd []" "Some (due_of w1 (w_next ?w)) = map_option restart_time (clock ?w)"
    using listener_event [OF l'(1) ep, of so fd ip port i out rest] so by (auto simp: at_time_views)
  have v: "w_next ?w = w_next w" "listen_fd ?w = listen_fd w" "in_array ?w = in_array w" by (simp_all add: at_time_views)
  note b = base_view_fields [OF w1(3)]
  have now: "clock w1 = Some (er_now reply)" using b(1) l'(2) by simp
  have "deliver_events ?w ep [(listen_fd w, EPOLLIN)] = Inr w1" using w1(1) v(2) by simp
  then obtain wait w' rs ids' where w': "loop_turn w ep reply = Inr (wait, w')" "live w' rs ids' {}" "same_base w1 w'"
      "spares {} (er_now reply) w1 w'"
    using turn_ends [OF l ep r(2) _ w1(2) now] by blast
  have "due_of w1 (w_next w) = restart_time (er_now reply)" using w1(5) l'(2) v(1) by simp
  then have "idle_client w' (w_next w) fd []" using idle_client_survives(1) [OF _ _ t0(3) w'(4)] w1(4) v(1) by simp
  moreover have "in_array w' = in_array w" using base_view_fields(3) [OF w'(3)] b(3) v(3) by simp
  moreover have "clock w' = Some (er_now reply)" using base_view_fields(1) [OF w'(3)] now by simp
  ultimately show ?thesis using w'(1,2) by blast
qed

section \<open>A request is answered\<close>

lemma harmless_echo:
  assumes "14 + length body \<le> 4096"
  shows "harmless_stream (packet_bytes CMD_TEST_ECHO seqno body)"
proof -
  let ?p = "packet_bytes CMD_TEST_ECHO seqno body"
  have four: "length (htonl_bytes x) = 4" for x by (simp add: htonl_bytes_def)
  have "take 4 (drop 1 ?p) = htonl_bytes (of_nat (14 + length body))" "take 4 (drop 5 ?p) = htonl_bytes CMD_TEST_ECHO"
    by (simp_all add: packet_bytes_def four)
  then have h: "head_len ?p = int (14 + length body)" "packet_cmd ?p = CMD_TEST_ECHO"
    using sint_small [of "14 + length body"] assms by (simp_all add: head_len_def packet_cmd_def)
  have "CMD_TEST_ECHO \<noteq> CMD_TEST_VALUE" by (simp add: CMD_TEST_ECHO_def CMD_TEST_VALUE_def)
  then have "harmless_packet ?p" using h(2) assms by (simp add: harmless_packet_def MAX_TCP_BUF_SIZE_def)
  then show ?thesis using h(1) by (subst harmless_stream.simps) simp
qed

text \<open>A request reaches the socket \<open>fd\<close>, which has room for the answer, and \<open>epoll_wait\<close> tells it.\<close>

definition request_arrives :: "world \<Rightarrow> int \<Rightarrow> buf \<Rightarrow> kernel" where
  "request_arrives w fd pkt = (w_kern w)\<lparr>k_socks := (k_socks (w_kern w))(fd :=
     map_option (\<lambda>so. so\<lparr>s_in := [Data pkt], s_out := [Room (length pkt)]\<rparr>) (k_socks (w_kern w) fd))\<rparr>"

definition both_ways :: "int \<Rightarrow> timeval \<Rightarrow> epoll_reply" where
  "both_ways fd t = \<lparr>er_events = Some [(fd, EPOLLIN), (fd, EPOLLOUT)], er_now = t\<rparr>"

lemma request_arrives_live:
  assumes l: "live w ps ids {}" and p: "p \<in> ids" "w_conns w p = Some c" "iRecvCurLen c = 0" and h: "harmless_stream pkt"
  shows "live (put_kern w (request_arrives w (iFd c) pkt)) ps ids {}"
proof -
  let ?k = "request_arrives w (iFd c) pkt"
  obtain d so where d: "w_conns w p = Some d" "iFd d \<noteq> listen_fd w" "k_socks (w_kern w) (iFd d) = Some so" "conn_at w p d"
    by (rule live_conn [OF l p(1)]) blast
  have k: "k_socks ?k f = k_socks (w_kern w) f" if "f \<noteq> iFd c" for f using that by (simp add: request_arrives_def)
  have some: "k_socks ?k f = None \<longleftrightarrow> k_socks (w_kern w) f = None" for f by (cases "f = iFd c") (auto simp: request_arrives_def)
  show ?thesis
  proof (rule live_net [OF l])
    show "k_ctl ?k = k_ctl (w_kern w)" "k_interest ?k = k_interest (w_kern w)" by (simp_all add: request_arrives_def)
    show "\<And>fd. k_socks (w_kern w) fd \<noteq> None \<Longrightarrow> k_socks ?k fd \<noteq> None" using some by simp
    have "recv_ready (put_kern w ?k) (conn_of w q)" if q: "q \<in> ids" for q
    proof (cases "q = p")
      case True
      have "bufs_ok (w_mem w) c" using d(1,4) p(2) by (simp add: conn_at_def)
      then obtain rb rbs where "pszRecvBuf c = Ptr rb 0" "w_mem w rb = Some rbs" by (rule bufs_okE)
      then have "mem_at (w_mem w) (block_of (pszRecvBuf c)) 0 []" by (simp add: mem_at_iff)
      then show ?thesis
        using True p(2,3) d(1,3) h by (auto simp: recv_ready_def request_arrives_def intro!: exI [of _ "[]"])
    next
      case False
      then have "iFd (conn_of w q) \<noteq> iFd c" using live_apart(2) [OF l p(1), of q] q p(2) by simp
      then show ?thesis using liveD(10) [OF l q] k by (simp add: recv_ready_def)
    qed
    then show "\<forall>q \<in> ids. recv_ready (put_kern w ?k) (conn_of w q)" by blast
    have lf: "listen_fd (put_kern w ?k) = listen_fd w" "in_array (put_kern w ?k) = in_array w"
      by (simp_all add: listen_fd_def in_array_def fun_eq_iff)
    have wc: "waiting_clients (put_kern w ?k) = waiting_clients w"
      using k d(1,2) p(2) unfolding waiting_clients_def lf by simp
    show "clients_fit (put_kern w ?k) (card ids)"
      using liveD(4) [OF l] unfolding clients_fit_def wc lf by (simp add: some)
  qed
qed

lemma idle_clientE:
  assumes "live w ps ids {}" "idle_client w p fd sent"
  obtains c so where "p \<in> ids" "w_conns w p = Some c" "iFd c = fd" "iRecvCurLen c = 0" "iSendPacketLen c = 0" "iSendCurLen c = 0"
    "MAX_TCP_BUF_SIZE \<le> iRecvTotalLen c" "slot_mask w fd = EVENT_READABLE" "k_socks (w_kern w) fd = Some so" "s_sent so = sent"
  using assms(2) liveD(11) [OF assms(1)] that by (auto simp: idle_client_def split: option.splits)

lemma owns_belongs: "owns_slot w fd p \<Longrightarrow> slot_belongs w fd p"
  using rw_bits by (auto simp: owns_slot_def slot_belongs_def slot_at_def split: option.splits sum.splits)

text \<open>The two events of a request on a live server.\<close>

lemma echo_events:
  assumes l: "live w ps ids {}" and i: "idle_client w p fd sent" and ep: "ep \<noteq> NULL" and fd: "0 < fd"
    and so: "k_socks (w_kern w) fd = Some so" "s_in so = [Data pkt]" "s_out so = Room (length pkt) # rest"
    and pkt: "pkt = packet_bytes CMD_TEST_ECHO seqno body" "length pkt \<le> 4096"
  shows "\<exists>w' qs js. deliver_events w ep [(fd, EPOLLIN), (fd, EPOLLOUT)] = Inr w' \<and> live w' qs js {} \<and> same_base w w'
     \<and> idle_client w' p fd (sent @ pkt) \<and> Some (due_of w' p) = map_option restart_time (clock w)"
proof -
  obtain c where c: "p \<in> ids" "w_conns w p = Some c" "iFd c = fd" "iRecvCurLen c = 0" "iSendPacketLen c = 0" "iSendCurLen c = 0"
    "MAX_TCP_BUF_SIZE \<le> iRecvTotalLen c" "slot_mask w fd = EVENT_READABLE" "s_sent so = sent"
    by (rule idle_clientE [OF l i]) (use so(1) in auto)
  obtain d where "w_conns w p = Some d" "p \<noteq> NULL" "conn_at w p d" "conn_core w p d" "timer_of w p = pstTimeoutEvent d"
    by (rule live_conn [OF l c(1)])
  then have d: "p \<noteq> NULL" "conn_at w p c" "conn_core w p c" "timer_of w p = pstTimeoutEvent c" using c(2) by simp_all
  obtain eb now where eb: "w_base w = Some eb" "pstTimeCache eb = Some now" "clock w = Some now" "w_malloc w = []" "heap_can_grow eb"
    by (rule live_clock [OF l])
  have us: "fd \<in> usable_fds w" using d(2) c(3) by (simp add: conn_at_def)
  then have arr: "in_array w fd" by (simp add: usable_iff)
  have "bufs_ok (w_mem w) c" using d(2) by (simp add: conn_at_def)
  then obtain rb sb rbs where b: "pszRecvBuf c = Ptr rb 0" "pszSendBuf c = Ptr sb 0" "w_mem w rb = Some rbs" "int (length rbs) = iRecvTotalLen c"
    by (rule bufs_okE) blast
  have wt: "packet_waits w p c rb sb so pkt"
    using d(1) c b so pkt(2) fd by (simp add: packet_waits_def mem_room_def MAX_TCP_BUF_SIZE_def)
  have fit: "int (length pkt) \<le> iSendTotalLen c" using d(3) pkt(2) by (simp add: conn_core_def MAX_TCP_BUF_SIZE_def)
  have own: "slot_belongs w (iFd c) p" using d(3) owns_belongs by (simp add: conn_core_def)
  have tm: "timer_restarts w ps (pstTimeoutEvent c) now"
    using liveD(5) [OF l] live_timer(2) [OF l c(1) eb(3)] eb d(4) by (simp add: timer_restarts_def restart_time_def)
  obtain w1 where w1: "deliver_events w ep [(fd, EPOLLIN), (fd, EPOLLOUT)] = Inr w1" "echo_answered w p c so pkt w1"
    using echo_answers [OF d(2) wt pkt(1) fit _ own tm ep _ c(6) so(3) order_refl] c(3,8) fd by auto
  have "carries_on_or_exits (fst ` set [(fd, EPOLLIN), (fd, EPOLLOUT)]) w (deliver_events w ep [(fd, EPOLLIN), (fd, EPOLLOUT)])"
    by (rule deliver_events_live [OF l _ ep]) (use arr in simp)
  then obtain qs js where l1: "live w1 qs js {}" "same_base w w1" using w1(1) by (auto simp: carries_on_or_exits_def carries_on_def)
  have a: "w_conns w1 = (w_conns w)(p \<mapsto> c\<lparr>iRecvCurLen := 0, iPacketLen := 0, iSendPacketLen := 0, iSendCurLen := 0\<rparr>)"
    "slot_mask w1 = slot_mask w" "\<exists>so'. k_socks (w_kern w1) fd = Some so' \<and> s_sent so' = s_sent so @ pkt"
    "key_of (w_tevs w1) (pstTimeoutEvent c) = restart_time now"
    using w1(2) c(3) eb by (auto simp: echo_answered_def Let_def restart_time_def)
  have "idle_client w1 p fd (sent @ pkt)" using a(1-3) c(3,7,8,9) by (auto simp: idle_client_def)
  moreover have "due_of w1 p = restart_time now" using a(1,4) by (simp add: due_of_def timer_of_def)
  ultimately show ?thesis using w1(1) l1 eb(3) by auto
qed

lemma echo_turn:
  assumes l: "live w ps ids {}" and i: "idle_client w p fd sent" and ep: "ep \<noteq> NULL" and fd: "0 < fd"
    and pkt: "pkt = packet_bytes CMD_TEST_ECHO seqno body" "length pkt \<le> 4096" and t: "clock w = Some t0" "t0 \<le> t" "tv_normal t"
  shows "\<exists>wait w' qs js. loop_turn (put_kern w (request_arrives w fd pkt)) ep (both_ways fd t) = Inr (wait, w') \<and> live w' qs js {}
     \<and> idle_client w' p fd (sent @ pkt) \<and> clock w' = Some t"
proof -
  let ?w1 = "put_kern w (request_arrives w fd pkt)"
  obtain c so where c: "p \<in> ids" "w_conns w p = Some c" "iFd c = fd" "iRecvCurLen c = 0" "k_socks (w_kern w) fd = Some so"
    by (rule idle_clientE [OF l i])
  have "14 + length body \<le> 4096" using pkt by simp
  then have "harmless_stream pkt" unfolding pkt(1) by (rule harmless_echo)
  then have l1: "live ?w1 ps ids {}" using request_arrives_live [OF l c(1,2,4)] c(3) by simp
  have "clock ?w1 = Some t0" using t(1) by (simp add: clock_def)
  note l2 = live_at_time [OF l1 this t(2,3)]
  let ?w2 = "at_time ?w1 t" and ?so = "so\<lparr>s_in := [Data pkt], s_out := [Room (length pkt)]\<rparr>"
  have so: "k_socks (w_kern ?w2) fd = Some ?so" using c(5) by (simp add: at_time_views request_arrives_def)
  have "slot_mask ?w1 = slot_mask w" by (simp add: slot_mask_def fun_eq_iff)
  then have i2: "idle_client ?w2 p fd sent" using i so c(5) by (simp add: idle_client_def at_time_views)
  have "s_in ?so = [Data pkt]" "s_out ?so = Room (length pkt) # []" by simp_all
  then obtain w3 qs js where w3: "deliver_events ?w2 ep [(fd, EPOLLIN), (fd, EPOLLOUT)] = Inr w3" "live w3 qs js {}" "same_base ?w2 w3"
      "idle_client w3 p fd (sent @ pkt)" "Some (due_of w3 p) = map_option restart_time (clock ?w2)"
    using echo_events [OF l2(1) i2 ep fd so _ _ pkt] by blast
  have now: "clock w3 = Some t" using base_view_fields(1) [OF w3(3)] l2(2) by simp
  obtain wait w' rs ids' where w': "loop_turn ?w1 ep (both_ways fd t) = Inr (wait, w')" "live w' rs ids' {}" "same_base w3 w'" "spares {} t w3 w'"
    using turn_ends [OF l1 ep, of "both_ways fd t" _ w3 qs js] w3(1,2) now by (auto simp: both_ways_def)
  have "idle_client w' p fd (sent @ pkt)" using idle_client_survives(1) [OF w3(4) _ t(3) w'(4)] w3(5) l2(2) by simp
  then show ?thesis using w'(1,2) base_view_fields(1) [OF w'(3)] now by auto
qed

section \<open>A session\<close>

text \<open>
  A client sends its echo requests one by one; each is a sequence number, a body and the time of the
  turn that answers it.
\<close>

fun session :: "world \<Rightarrow> nat \<Rightarrow> int \<Rightarrow> (u32 \<times> buf \<times> timeval) list \<Rightarrow> world outcome" where
  "session w ep fd [] = Inr w"
| "session w ep fd ((seqno, body, t) # rs) =
     cbind (loop_turn (put_kern w (request_arrives w fd (packet_bytes CMD_TEST_ECHO seqno body))) ep (both_ways fd t))
       (\<lambda>(_, w1). session w1 ep fd rs)"

definition requests_bytes :: "(u32 \<times> buf \<times> timeval) list \<Rightarrow> buf" where
  "requests_bytes rs = concat (map (\<lambda>(seqno, body, t). packet_bytes CMD_TEST_ECHO seqno body) rs)"

fun requests_ok :: "timeval \<Rightarrow> (u32 \<times> buf \<times> timeval) list \<Rightarrow> bool" where
  "requests_ok t [] = True"
| "requests_ok t ((seqno, body, t1) # rs) = (length body \<le> 4082 \<and> t \<le> t1 \<and> tv_normal t1 \<and> requests_ok t1 rs)"

lemma session_answers:
  assumes "live w ps ids {}" "idle_client w p fd sent" "ep \<noteq> NULL" "0 < fd" "clock w = Some t" "requests_ok t rs"
  shows "\<exists>w' qs js. session w ep fd rs = Inr w' \<and> live w' qs js {} \<and> idle_client w' p fd (sent @ requests_bytes rs)"
  using assms
proof (induction rs arbitrary: w ps ids sent t)
  case Nil
  then show ?case by (auto simp: requests_bytes_def)
next
  case (Cons r rs)
  obtain seqno body t1 where r: "r = (seqno, body, t1)" by (cases r)
  let ?pkt = "packet_bytes CMD_TEST_ECHO seqno body"
  obtain wait w1 qs js where w1: "loop_turn (put_kern w (request_arrives w fd ?pkt)) ep (both_ways fd t1) = Inr (wait, w1)"
      "live w1 qs js {}" "idle_client w1 p fd (sent @ ?pkt)" "clock w1 = Some t1"
    using echo_turn [OF Cons.prems(1-4) refl _ Cons.prems(5), of seqno body t1] Cons.prems(6) r by auto
  have "requests_ok t1 rs" using Cons.prems(6) r by simp
  then obtain w' qs' js' where "session w1 ep fd rs = Inr w'" "live w' qs' js' {}" "idle_client w' p fd ((sent @ ?pkt) @ requests_bytes rs)"
    using Cons.IH [OF w1(2,3) Cons.prems(3,4) w1(4)] by blast
  then show ?case using w1(1) r by (auto simp: requests_bytes_def)
qed

section \<open>A silent client\<close>

definition silent :: "int \<Rightarrow> epoll_reply \<Rightarrow> bool" where
  "silent fd r \<longleftrightarrow> (case er_events r of None \<Rightarrow> True | Some evs \<Rightarrow> fd \<notin> fst ` set evs)"

text \<open>A turn in which nothing happens on a descriptor leaves its connection as it was or, at its time, closes it.\<close>

lemma silent_turn:
  assumes t: "turned w r w' ids" and c: "w_conns w p = Some c" "silent (iFd c) r"
  shows "er_now r < due_of w p \<Longrightarrow> w_conns w' p = Some c \<and> kept_conn w w' c"
    "er_events r \<noteq> None \<Longrightarrow> due_of w p \<le> er_now r \<Longrightarrow> w_conns w' p = None"
proof -
  show "er_now r < due_of w p \<Longrightarrow> w_conns w' p = Some c \<and> kept_conn w w' c"
    using t c by (cases "er_events r") (auto simp: turned_def silent_def keeps_others_def spares_def not_le)
  show "er_events r \<noteq> None \<Longrightarrow> due_of w p \<le> er_now r \<Longrightarrow> w_conns w' p = None"
    using t c by (cases "er_events r") (auto simp: turned_def silent_def spares_def)
qed

lemma dispatch_loop_silent:
  assumes "live w ps ids {}" "clock w = Some t" "replies_ok (in_array w) t rs" "ep \<noteq> NULL" "w_conns w p = Some c"
    "\<forall>r \<in> set rs. silent (iFd c) r \<and> er_now r < due_of w p" "ReactorEventDispatchLoop w ep rs = Inr (ended, w1)"
  shows "in_service w1 \<and> w_conns w1 p = Some c \<and> kept_conn w w1 c"
  using assms
proof (induction rs arbitrary: w ps ids t)
  case Nil
  then have "w1 = w" using dispatch_live_simps(1) [OF Nil.prems(1,4)] by simp
  then show ?case using Nil.prems(5) live_in_service [OF Nil.prems(1)] by (simp add: kept_conn_def)
next
  case (Cons r rs)
  note step = dispatch_live_simps(2) [OF Cons.prems(1,4)]
  have ok: "reply_ok w r" using Cons.prems(2,3) by (simp add: reply_ok_def)
  have "loop_turn w ep r \<noteq> Inl (Exits 1)" using Cons.prems(7) unfolding step by auto
  then obtain wait w2 qs js where w2: "loop_turn w ep r = Inr (wait, w2)" "live w2 qs js {}" "turned w r w2 js"
    using loop_turn_live [OF Cons.prems(1) ok Cons.prems(4)] by blast
  have k: "w_conns w2 p = Some c" "kept_conn w w2 c" using silent_turn(1) [OF w2(3) Cons.prems(5)] Cons.prems(6) by simp_all
  have due: "due_of w2 p = due_of w p" by (rule kept_due [OF Cons.prems(5) k])
  have "clock w2 = Some (er_now r)" "replies_ok (in_array w2) (er_now r) rs" "ReactorEventDispatchLoop w2 ep rs = Inr (ended, w1)"
    using w2(1,3) Cons.prems(3,7) unfolding step by (simp_all add: turned_def)
  then have "in_service w1 \<and> w_conns w1 p = Some c \<and> kept_conn w2 w1 c"
    by (intro Cons.IH [OF w2(2) _ _ Cons.prems(4) k(1)]) (use Cons.prems(6) due in auto)
  then show ?case using kept_trans [OF k(2)] by blast
qed

end
