(* ===== verification/LiveProperties.thy ===== *)
theory LiveProperties
  imports LiveSession ServedClient
begin

text \<open>
  The results about the running worker: started in the right circumstances it never leaves its
  invariant, whatever its clients send in whatever pieces; what ends it; and how long its timeout
  service runs.
\<close>

section \<open>Safety\<close>

text \<open>C1: a worker that is refused nothing, whose clients (at most five at a time, each on a descriptor
  of the array) send no harmful packet, never goes wrong: however the bytes are cut into pieces, in
  whatever order the events come, and whichever calls fail, the worker runs on in its invariant or
  ends with \<open>exit(1)\<close>; no memory is accessed outside its block or after it is freed, no loop runs
  for ever.
\<close>

theorem started_worker_never_goes_wrong:
  assumes w: "worker_forked g fd n" and ep: "0 \<le> epfd" and junk: "\<forall>i. iMask (junk i) = 0"
    and first: "w_conns (g_world g) = (\<lambda>_. None)" "w_next (g_world g) \<noteq> NULL" "tv_normal (w_now (g_world g))"
    and come: "clients_come (g_world g) fd n"
    and rs: "replies_ok (\<lambda>x. 0 \<le> x \<and> x < n) (w_now (g_world g)) replies"
  shows "(\<exists>g'. worker_main g now fd n epfd junk replies = Inr (None, g') \<and> in_service (g_world g'))
     \<or> worker_main g now fd n epfd junk replies = Inl (Exits 1)"
proof -
  obtain L2 h k where f: "\<forall>epfd junk replies. worker_main g now fd n epfd junk replies =
       cbind (EventBaseCreate (g_world g) fd n epfd junk) (\<lambda>(ep, w).
         if ep = NULL then Inr (Some (-1), serving_prog g L2 w)
         else cbind (ReactorEventDispatchLoop w ep replies) (\<lambda>(ended, w1).
           Inr (if ended then Some 0 else None, serving_prog g L2 w1)))"
    by (rule worker_main_form [OF w, where now = now])
  obtain w' where w': "EventBaseCreate (g_world g) fd n epfd junk = Inr (1, w')" "live w' [] {} {}"
      "clock w' = Some (w_now (g_world g))" "in_array w' = (\<lambda>x. 0 \<le> x \<and> x < n)"
    using EventBaseCreate_live [of fd n epfd "g_world g" junk] w ep junk first come by (auto simp: worker_forked_def Let_def)
  have "(\<exists>w2 qs ids'. ReactorEventDispatchLoop w' 1 replies = Inr (False, w2) \<and> live w2 qs ids' {})
     \<or> ReactorEventDispatchLoop w' 1 replies = Inl (Exits 1)"
    by (rule dispatch_loop_live [OF w'(2,3)]) (use rs w'(4) in simp_all)
  then show ?thesis using f w'(1) live_in_service by (auto simp del: One_nat_def)
qed

text \<open>A worker with two clients waiting; the echo request of one arrives in two pieces and is followed by garbage.\<close>

definition waiting_client :: net_conn where
  "waiting_client = Incoming 5 [127, 0, 0, 1] 80
     [Data (take 4 (packet_bytes CMD_TEST_ECHO 7 [1, 2, 3])), Data (drop 4 (packet_bytes CMD_TEST_ECHO 7 [1, 2, 3])),
      InErr EAGAIN, Data [9, 9, 9, 9, 9, 9]] [Room 10, OutErr EAGAIN, Room 10]"

definition busy_worker :: prog where
  "busy_worker = forked_worker\<lparr>g_world := (g_world forked_worker)\<lparr>w_kern :=
     \<lparr>k_socks = [3 \<mapsto> new_sock\<lparr>s_conns := [waiting_client, Incoming 6 [127, 0, 0, 1] 81 [] []]\<rparr>], k_interest = (\<lambda>_. None), k_ctl = []\<rparr>\<rparr>\<rparr>"

definition some_replies :: "epoll_reply list" where
  "some_replies = [\<lparr>er_events = Some [(3, EPOLLIN)], er_now = Timeval 10 0\<rparr>,
     \<lparr>er_events = Some [(5, EPOLLIN), (5, EPOLLOUT)], er_now = Timeval 11 0\<rparr>, \<lparr>er_events = None, er_now = Timeval 12 0\<rparr>]"

lemma busy_worker_ok:
  "worker_forked busy_worker 3 100" "w_conns (g_world busy_worker) = (\<lambda>_. None)" "w_next (g_world busy_worker) \<noteq> NULL"
  "tv_normal (w_now (g_world busy_worker))" "clients_come (g_world busy_worker) 3 100"
  "replies_ok (\<lambda>x. 0 \<le> x \<and> x < 100) (w_now (g_world busy_worker)) some_replies"
proof -
  show "worker_forked busy_worker 3 100"
    by (simp add: worker_forked_def busy_worker_def forked_worker_def log_demo_def get_handle_def INT_MAX_def sock_is_open_def)
  show "w_conns (g_world busy_worker) = (\<lambda>_. None)" "w_next (g_world busy_worker) \<noteq> NULL"
      "tv_normal (w_now (g_world busy_worker))" "replies_ok (\<lambda>x. 0 \<le> x \<and> x < 100) (w_now (g_world busy_worker)) some_replies"
    by (simp_all add: busy_worker_def forked_worker_def tv_normal_def some_replies_def less_eq_timeval_def minheap_timercmp_def)
  have "harmless_stream (take 4 (packet_bytes CMD_TEST_ECHO 7 [1, 2, 3]) @ drop 4 (packet_bytes CMD_TEST_ECHO 7 [1, 2, 3])
      @ [9, 9, 9, 9, 9, 9])" by code_simp
  then show "clients_come (g_world busy_worker) 3 100"
    by (simp add: clients_come_def busy_worker_def forked_worker_def waiting_client_def max_clients_def)
qed

lemma started_worker_never_goes_wrong_witness:
  "(\<exists>g'. worker_main busy_worker 0 3 100 4 (\<lambda>_. empty_slot) some_replies = Inr (None, g') \<and> in_service (g_world g'))
     \<or> worker_main busy_worker 0 3 100 4 (\<lambda>_. empty_slot) some_replies = Inl (Exits 1)"
  by (rule started_worker_never_goes_wrong [OF busy_worker_ok(1) _ _ busy_worker_ok(2-6)]) (simp_all add: empty_slot_def)

text \<open>C2: the order of the server is an invariant: from a worker in service, after any sequence of turns
  of the loop and moves of the network, every further turn returns, at the time the reply gives, to
  a worker in service in which no connection is overdue, or ends with \<open>exit(1)\<close>.
\<close>

theorem service_is_kept:
  assumes start: "in_service w0" and run: "server_step\<^sup>*\<^sup>* w0 w" and r: "reply_ok w reply" and ep: "ep \<noteq> NULL"
  shows "in_service w \<and> ((\<exists>wait w'. loop_turn w ep reply = Inr (wait, w') \<and> in_service w' \<and> clock w' = Some (er_now reply)
        \<and> (er_events reply \<noteq> None \<longrightarrow> (\<forall>p c. w_conns w' p = Some c \<longrightarrow> er_now reply < due_of w' p)))
     \<or> loop_turn w ep reply = Inl (Exits 1))"
proof -
  have w: "in_service w" by (rule server_run.reachable_inv [OF run start])
  have late: "er_now reply < due_of w' p" if "turned w reply w' (dom (w_conns w'))" "er_events reply \<noteq> None" "w_conns w' p = Some c" for w' p c
    using that by (auto simp: turned_def none_due_def)
  show ?thesis
    using w service_turns [OF w r ep] late by (auto simp: turned_def)
qed

lemma busy_worker_serves:
  obtains w where "EventBaseCreate (g_world busy_worker) 3 100 4 (\<lambda>_. empty_slot) = Inr (1, w)" "in_service w"
    "clock w = Some (Timeval 0 0)" "in_array w = (\<lambda>x. 0 \<le> x \<and> x < 100)" "dom (w_conns w) = {}" "leak_free w" "live w [] {} {}" "listen_fd w = 3"
    "k_socks (w_kern w) = k_socks (w_kern (g_world busy_worker))"
proof -
  have "sock_is_open (w_kern (g_world busy_worker)) 3" by (simp add: busy_worker_def sock_is_open_def)
  then obtain w where w: "EventBaseCreate (g_world busy_worker) 3 100 4 (\<lambda>_. empty_slot) = Inr (1, w)" "live w [] {} {}"
      "clock w = Some (w_now (g_world busy_worker))" "in_array w = (\<lambda>x. 0 \<le> x \<and> x < 100)"
      "listen_fd w = 3" "k_socks (w_kern w) = k_socks (w_kern (g_world busy_worker))"
      "w_mem w = w_mem (g_world busy_worker)" "w_tevs w = w_tevs (g_world busy_worker)"
    using EventBaseCreate_live [of 3 100 4 "g_world busy_worker" "\<lambda>_. empty_slot"] busy_worker_ok(2-5)
    by (auto simp: empty_slot_def busy_worker_def forked_worker_def)
  have "w_now (g_world busy_worker) = Timeval 0 0" by (simp add: busy_worker_def forked_worker_def)
  moreover have "leak_free w"
    using w(5-8) by (simp add: leak_free_def busy_worker_def forked_worker_def)
  ultimately show thesis
    by (intro that [OF w(1) live_in_service [OF w(2)] _ w(4) liveD(11) [OF w(2)] _ w(2,5,6)]) (simp_all add: w(3))
qed

lemma service_is_kept_witness:
  "\<exists>w. EventBaseCreate (g_world busy_worker) 3 100 4 (\<lambda>_. empty_slot) = Inr (1, w)
     \<and> ((\<exists>wait w'. loop_turn w 1 (hd some_replies) = Inr (wait, w') \<and> in_service w') \<or> loop_turn w 1 (hd some_replies) = Inl (Exits 1))"
proof -
  obtain w where w: "EventBaseCreate (g_world busy_worker) 3 100 4 (\<lambda>_. empty_slot) = Inr (1, w)" "in_service w"
    "clock w = Some (Timeval 0 0)" "in_array w = (\<lambda>x. 0 \<le> x \<and> x < 100)" by (rule busy_worker_serves)
  have "reply_ok w (hd some_replies)"
    using w(3,4) by (simp add: reply_ok_def some_replies_def tv_normal_def less_eq_timeval_def minheap_timercmp_def)
  then show ?thesis using service_is_kept [OF w(2) rtranclp.rtrancl_refl, of "hd some_replies" 1] w(1) by blast
qed

section \<open>Isolation\<close>


text \<open>The two clients of the worker above have been accepted.\<close>

lemma busy_worker_connected:
  obtains w p q c d where "in_service w" "w_conns w p = Some c" "w_conns w q = Some d" "p \<noteq> q" "idle_client w p 6 []"
    "clock w = Some (Timeval 0 0)" "due_of w p = restart_time (Timeval 0 0)" "in_array w = (\<lambda>x. 0 \<le> x \<and> x < 100)"
proof -
  obtain w0 where w0: "live w0 [] {} {}" "listen_fd w0 = 3" "k_socks (w_kern w0) = k_socks (w_kern (g_world busy_worker))"
    "clock w0 = Some (Timeval 0 0)" "in_array w0 = (\<lambda>x. 0 \<le> x \<and> x < 100)" by (rule busy_worker_serves)
  let ?so = "new_sock\<lparr>s_conns := [waiting_client, Incoming 6 [127, 0, 0, 1] 81 [] []]\<rparr>"
  have so: "k_socks (w_kern w0) (listen_fd w0) = Some ?so" by (simp add: w0(2,3) busy_worker_def)
  obtain w1 qs1 where w1: "live w1 qs1 {w_next w0} {}" "same_base w0 w1"
      "k_socks (w_kern w1) (listen_fd w0) = Some (?so\<lparr>s_conns := [Incoming 6 [127, 0, 0, 1] 81 [] []]\<rparr>)"
    using accepts_next [OF w0(1) _ so, where ep = 1 and fd = 5 and arg = 0] by (auto simp: waiting_client_def)
  have lf: "listen_fd w1 = listen_fd w0" by (rule base_view_fields [OF w1(2)])
  obtain w2 qs2 where w2: "live w2 qs2 {w_next w1, w_next w0} {}" "w_next w1 \<noteq> w_next w0" "idle_client w2 (w_next w1) 6 []"
      "same_base w1 w2" "Some (due_of w2 (w_next w1)) = map_option restart_time (clock w1)"
    using accepts_next [OF w1(1) _ w1(3) [folded lf], where ep = 1 and fd = 6 and arg = 0] by auto
  then have "w_next w1 \<in> dom (w_conns w2)" "w_next w0 \<in> dom (w_conns w2)" using liveD(11) [OF w2(1)] by simp_all
  moreover have "clock w2 = Some (Timeval 0 0)"
    using base_view_fields(1) [OF w2(4)] base_view_fields(1) [OF w1(2)] w0(4) by simp
  moreover have "due_of w2 (w_next w1) = restart_time (Timeval 0 0)" using w2(5) base_view_fields(1) [OF w1(2)] w0(4) by simp
  moreover have "in_array w2 = (\<lambda>x. 0 \<le> x \<and> x < 100)"
    using base_view_fields(3) [OF w2(4)] base_view_fields(3) [OF w1(2)] w0(5) by simp
  ultimately show thesis using that [OF live_in_service [OF w2(1)]] w2(2,3) by blast
qed


section \<open>Nothing is lost\<close>

lemma leak_free_belongs:
  assumes "leak_free w"
  shows "dom (w_mem w) \<subseteq> {b. \<exists>p c. w_conns w p = Some c \<and> b \<in> conn_blocks c}"
    "dom (w_tevs w) \<subseteq> {t. \<exists>p c. w_conns w p = Some c \<and> t = pstTimeoutEvent c}"
    "dom (k_socks (w_kern w)) \<subseteq> {fd. fd = listen_fd w \<or> (\<exists>p c. w_conns w p = Some c \<and> fd = iFd c)}"
proof -
  show "dom (w_mem w) \<subseteq> {b. \<exists>p c. w_conns w p = Some c \<and> b \<in> conn_blocks c}"
    "dom (w_tevs w) \<subseteq> {t. \<exists>p c. w_conns w p = Some c \<and> t = pstTimeoutEvent c}"
    using assms by (simp_all add: leak_free_def owned_Union)
  have "dom (k_socks (w_kern w)) \<subseteq> insert (listen_fd w) {x. \<exists>p c. w_conns w p = Some c \<and> x \<in> {iFd c}}"
    using assms by (simp add: leak_free_def owned_Union)
  then show "dom (k_socks (w_kern w)) \<subseteq> {fd. fd = listen_fd w \<or> (\<exists>p c. w_conns w p = Some c \<and> fd = iFd c)}" by blast
qed



section \<open>The end of a worker\<close>

text \<open>C16: an error of \<open>accept\<close> other than \<open>EAGAIN\<close>, for instance a client that goes away before it is
  accepted, ends the worker with all its connections.
\<close>

theorem accept_error_ends_worker:
  assumes w: "in_service w" and so: "k_socks (w_kern w) (listen_fd w) = Some so"
    and e: "accept_loop (s_conns so) = (ConnErr e, r)" "e \<noteq> EAGAIN" and ev: "ev AND EPOLLIN \<noteq> 0" and ep: "ep \<noteq> NULL"
  shows "deliver_events w ep ((listen_fd w, ev) # evs) = Inl (Exits 1)"
proof -
  obtain ps where l: "live w ps (dom (w_conns w)) {}" using w by (auto simp: in_service_def)
  obtain eb sl where s: "w_base w = Some eb" "get_slot eb (listen_fd w) = Inr sl" "iMask sl = EVENT_READABLE"
    "pFunEventCallbackRead sl = AcceptProc" "0 \<le> listen_fd w"
    by (rule live_listener [OF l])
  obtain eb' where "w_base w = Some eb'" "iEpType eb' = EPOLL_LT_TYPE" by (rule live_clock [OF l])
  then have "ProcessAcceptCallback w ep (listen_fd w) (pstArg sl) = Inl (Exits 1)"
    using s(1,5) e ep so by (simp add: ProcessAcceptCallback_def sys_accept_def EPOLL_LT_TYPE_def EPOLL_ET_TYPE_def Let_def)
  then have "deliver_event w ep (listen_fd w, ev) = Inl (Exits 1)"
    using s ep triggered_readable [OF ev, of EVENT_READABLE] rw_bits
    by (simp add: deliver_event_def get_base_def run_event_callback_def)
  then show ?thesis by simp
qed

text \<open>On the worker above the first thing to reach the listening socket is an error.\<close>

lemma accept_error_ends_worker_witness:
  "\<exists>w k. EventBaseCreate (g_world busy_worker) 3 100 4 (\<lambda>_. empty_slot) = Inr (1, w)
     \<and> deliver_events (put_kern w k) 1 [(listen_fd w, EPOLLIN)] = Inl (Exits 1)"
proof -
  obtain w where w: "EventBaseCreate (g_world busy_worker) 3 100 4 (\<lambda>_. empty_slot) = Inr (1, w)" "in_service w"
    "dom (w_conns w) = {}" "listen_fd w = 3" "k_socks (w_kern w) = k_socks (w_kern (g_world busy_worker))" by (rule busy_worker_serves)
  let ?so = "new_sock\<lparr>s_conns := [ConnErr EOTHER]\<rparr>"
  let ?k = "(w_kern w)\<lparr>k_socks := (k_socks (w_kern w))(listen_fd w \<mapsto> ?so)\<rparr>"
  have lf: "listen_fd (put_kern w ?k) = listen_fd w" by (simp add: listen_fd_def)
  have "k_socks (w_kern w) (listen_fd w) \<noteq> None" using w(4,5) by (simp add: busy_worker_def)
  moreover have "waiting_clients (put_kern w ?k) = []" unfolding waiting_clients_def lf by simp
  ultimately have "net_moves w ?k" using w(3) by (auto simp: net_moves_def clients_fit_def)
  then have "in_service (put_kern w ?k)" by (rule service_net [OF w(2)])
  then have "deliver_events (put_kern w ?k) 1 [(listen_fd w, EPOLLIN)] = Inl (Exits 1)"
    using accept_error_ends_worker [of "put_kern w ?k" ?so EOTHER "[]" EPOLLIN 1 "[]"] lf by (simp add: EPOLLIN_def)
  then show ?thesis using w(1) by blast
qed

section \<open>Termination\<close>

text \<open>C15: the loop of the timeout service makes exactly one turn for every connection that is due and one
  more: with less fuel it has not ended, with more it ends with the result of
  \<open>ReactorProcessTimeoutEvent\<close>, whose fuel always suffices.
\<close>

theorem timeout_loop_turns_exactly:
  assumes s: "server_ok w ps ids" and now: "map_option pstTimeCache (w_base w) = Some (Some now)" and ep: "ep \<noteq> NULL"
  shows "\<exists>w'. ReactorProcessTimeoutEvent w ep = Inr (RET_SUCC, w')
     \<and> (\<forall>n. timeout_loop n w ep = (if n \<le> card {p \<in> ids. due_of w p \<le> now} then Inl Diverges else Inr (RET_SUCC, w')))"
proof -
  let ?k = "card {p \<in> ids. due_of w p \<le> now}"
  obtain w' where w': "\<forall>n \<le> ?k. timeout_loop n w ep = Inl Diverges" "\<forall>n > ?k. timeout_loop n w ep = Inr (RET_SUCC, w')"
    using timeout_turns [OF s now ep refl] by blast
  obtain eb where eb: "w_base w = Some eb" "pstTimeCache eb = Some now" using now by auto
  obtain H where H: "pstHeapHeader eb = Some H" "heap_rep H (w_tevs w) ps"
    using s eb(1) by (auto simp: server_ok_def elim: timers_okE)
  have "?k \<le> card ids" by (rule card_mono) (use server_ok_finite [OF s] in auto)
  then have "?k < nat (MinheapGetCurSize (pstHeapHeader eb)) + 1"
    using H heap_repD(1) [OF H(2)] server_ok_finite(2) [OF s] by (simp add: MinheapGetCurSize_def)
  then have "timeout_loop (nat (MinheapGetCurSize (pstHeapHeader eb)) + 1) w ep = Inr (RET_SUCC, w')" using w'(2) by blast
  then have "ReactorProcessTimeoutEvent w ep = Inr (RET_SUCC, w')"
    using eb ep by (simp add: ReactorProcessTimeoutEvent_def get_base_def del: timeout_loop.simps)
  then show ?thesis using w' by (intro exI [of _ w']) (auto simp: not_le)
qed

lemma timeout_loop_turns_exactly_witness:
  "\<exists>w'. ReactorProcessTimeoutEvent (ServedClient.serving client1 (replicate 4096 0) (replicate 4096 0) EVENT_READABLE (sock1 [] []) (Timeval 161 0)) 1 = Inr (RET_SUCC, w')
     \<and> timeout_loop 1 (ServedClient.serving client1 (replicate 4096 0) (replicate 4096 0) EVENT_READABLE (sock1 [] []) (Timeval 161 0)) 1 = Inl Diverges
     \<and> timeout_loop 2 (ServedClient.serving client1 (replicate 4096 0) (replicate 4096 0) EVENT_READABLE (sock1 [] []) (Timeval 161 0)) 1 = Inr (RET_SUCC, w')"
proof -
  let ?w = "ServedClient.serving client1 (replicate 4096 0) (replicate 4096 0) EVENT_READABLE (sock1 [] []) (Timeval 161 0)"
  have "due_of ?w 1 \<le> Timeval 161 0"
    by (simp add: due_of_def timer_of_def key_of_def timer1_def less_eq_timeval_def minheap_timercmp_def)
  then have "{p \<in> {1}. due_of ?w p \<le> Timeval 161 0} = {1}" by auto
  then have k: "card {p \<in> {1}. due_of ?w p \<le> Timeval 161 0} = 1" by simp
  obtain w' where w': "ReactorProcessTimeoutEvent ?w 1 = Inr (RET_SUCC, w')"
    "\<forall>n. timeout_loop n ?w 1 = (if n \<le> card {p \<in> {1}. due_of ?w p \<le> Timeval 161 0} then Inl Diverges else Inr (RET_SUCC, w'))"
    using timeout_loop_turns_exactly [OF serving_ok, of "sock1 [] []" "Timeval 161 0" "Timeval 161 0" 1] by auto
  have "timeout_loop 1 ?w 1 = Inl Diverges" "timeout_loop 2 ?w 1 = Inr (RET_SUCC, w')"
    using w'(2) [unfolded k, THEN spec, of 1] w'(2) [unfolded k, THEN spec, of 2] by simp_all
  then show ?thesis using w'(1) by blast
qed

end
