(* ===== verification/SessionProperties.thy ===== *)
theory SessionProperties
  imports LiveProperties
begin

text \<open>
  The results about what clients get from a running worker: they are accepted, answered as often as
  they ask, and closed when they have been silent for a minute.
\<close>

section \<open>Service\<close>



section \<open>Silence\<close>

text \<open>C4: a client that is silent is left alone until its time has come, which is at most a minute after the
  turn it was last heard of, and is closed by the first turn after that which serves events: whatever the
  other clients do and how many turns they cause, its connection, socket, slot, timer and buffers do not
  change before.
\<close>

theorem silent_client_is_closed:
  assumes w: "in_service w" "clock w = Some t" "w_conns w p = Some c" and ep: "ep \<noteq> NULL" and rs: "replies_ok (in_array w) t rs"
    and quiet: "\<forall>r \<in> set rs. silent (iFd c) r \<and> er_now r < due_of w p"
    and run: "ReactorEventDispatchLoop w ep rs = Inr (ended, w1)"
    and r: "reply_ok w1 r" "silent (iFd c) r" "er_events r \<noteq> None" and turn: "loop_turn w1 ep r = Inr (wait, w2)"
  shows "due_of w p \<le> restart_time t \<and> w_conns w1 p = Some c \<and> kept_conn w w1 c
     \<and> (if due_of w p \<le> er_now r then w_conns w2 p = None else w_conns w2 p = Some c \<and> kept_conn w w2 c)"
proof -
  obtain ps where l: "live w ps (dom (w_conns w)) {}" using w(1) by (auto simp: in_service_def)
  have "conn_core w p c" using liveD(9) [OF l, of p] w(3) by auto
  then have due: "due_of w p \<le> restart_time t" using w(2) by (auto simp: conn_core_def)
  have w1: "in_service w1" "w_conns w1 p = Some c" "kept_conn w w1 c"
    using dispatch_loop_silent [OF l w(2) rs ep w(3) quiet run] by simp_all
  have "turned w1 r w2 (dom (w_conns w2))" using service_turns [OF w1(1) r(1) ep] turn by auto
  note s = silent_turn [OF this w1(2) r(2)]
  have "due_of w1 p = due_of w p" by (rule kept_due [OF w(3) w1(2,3)])
  then show ?thesis using due w1(2,3) s r(3) kept_trans [OF w1(3)] by (auto simp: not_le)
qed

text \<open>One of the two clients of the worker above, in a turn in which nothing happens, and a hundred seconds later.\<close>

lemma turn_without_events:
  assumes w: "in_service w" and t: "clock w = Some t" "t \<le> er_now r" "tv_normal (er_now r)" and ep: "ep \<noteq> NULL" and r: "er_events r = Some []"
  shows "\<exists>wait w'. loop_turn w ep r = Inr (wait, w') \<and> clock w' = Some (er_now r)"
proof -
  obtain ps where l: "live w ps (dom (w_conns w)) {}" using w by (auto simp: in_service_def)
  note l' = live_at_time [OF l t]
  obtain wait w' where w': "loop_turn w ep r = Inr (wait, w')" "same_base (at_time w (er_now r)) w'"
    using turn_ends [OF l ep r deliver_events.simps(1) l'] by blast
  then show ?thesis using base_view_fields(1) [OF w'(2)] l'(2) by simp
qed

lemma silent_client_is_closed_witness:
  "\<exists>w p c w1 wait w2. in_service w \<and> w_conns w p = Some c \<and> ReactorEventDispatchLoop w 1 [\<lparr>er_events = Some [], er_now = Timeval 10 0\<rparr>] = Inr (False, w1)
     \<and> loop_turn w1 1 \<lparr>er_events = Some [], er_now = Timeval 100 0\<rparr> = Inr (wait, w2) \<and> w_conns w1 p = Some c \<and> w_conns w2 p = None"
proof -
  let ?r = "\<lparr>er_events = Some [], er_now = Timeval 10 0\<rparr>" and ?r2 = "\<lparr>er_events = Some [], er_now = Timeval 100 0\<rparr>"
  obtain w p c where w: "in_service w" "w_conns w p = Some c" "clock w = Some (Timeval 0 0)" "due_of w p = restart_time (Timeval 0 0)"
    "in_array w = (\<lambda>x. 0 \<le> x \<and> x < 100)" by (rule busy_worker_connected)
  obtain wait1 w1 where w1: "loop_turn w 1 ?r = Inr (wait1, w1)" "clock w1 = Some (Timeval 10 0)"
    using turn_without_events [OF w(1,3), of ?r 1] by (auto simp: tv_normal_def less_eq_timeval_def minheap_timercmp_def)
  have step: "reply_ok w ?r" using w(3) by (simp add: reply_ok_def tv_normal_def less_eq_timeval_def minheap_timercmp_def)
  have s1: "in_service w1" using service_turns [OF w(1) step, of 1] w1(1) by auto
  obtain ps ps1 where l: "live w ps (dom (w_conns w)) {}" "live w1 ps1 (dom (w_conns w1)) {}"
    using w(1) s1 by (auto simp: in_service_def)
  have run: "ReactorEventDispatchLoop w 1 [?r] = Inr (False, w1)"
    using dispatch_live_simps(2) [OF l(1), of 1 ?r "[]"] dispatch_live_simps(1) [OF l(2), of 1] w1(1) by simp
  obtain wait w2 where w2: "loop_turn w1 1 ?r2 = Inr (wait, w2)"
    using turn_without_events [OF s1 w1(2), of ?r2 1] by (auto simp: tv_normal_def less_eq_timeval_def minheap_timercmp_def)
  have r2: "reply_ok w1 ?r2" using w1(2) by (simp add: reply_ok_def tv_normal_def less_eq_timeval_def minheap_timercmp_def)
  have due: "Timeval 10 0 < due_of w p" "due_of w p \<le> Timeval 100 0"
    unfolding w(4) by (simp_all add: restart_time_def interval_of_def MAX_CONN_TIMEOUT_def minheap_timeradd_def Let_def
        less_timeval_def less_eq_timeval_def minheap_timercmp_def)
  have "w_conns w1 p = Some c \<and> w_conns w2 p = None"
    using silent_client_is_closed [OF w(1,3,2) _ _ _ run r2 _ _ w2] due
    by (simp add: silent_def tv_normal_def less_eq_timeval_def minheap_timercmp_def)
  then show ?thesis using w(1,2) run w2 by blast
qed

end
