(* ===== verification/StaleTimer.thy ===== *)
theory StaleTimer
  imports TimeoutService HeapProperties ServedClient
begin

text \<open>
  Why the bound on the clients is needed: when the erase of a timer takes the branch of
  \<open>MinheapErase\<close> that marks the wrong node, the connection that owns this node can no longer
  take its timer out of the heap, and the heap keeps a pointer to a node that has been freed.
\<close>

lemma destroy_marks_other:
  assumes tm: "timers_ok w ps" and c: "conn_at w p c" and i: "i < length ps" "ps ! i = pstTimeoutEvent c"
    and br: "erase_goes_up (w_tevs w) ps i" and eb: "w_base w = Some eb"
  obtains k H' S' qs e where "DestroyConn w p = Inr (destroyed w p c eb k H' S')"
    "take (iNodeUsed H') (ppstTimeoutEventHeader H') = map Some qs" "last ps \<in> set qs" "last ps \<noteq> NULL" "last ps \<noteq> pstTimeoutEvent c"
    "S' (last ps) = Some e" "iHeapIndex e = -1"
    "k_socks k = k_socks (w_kern w)" "k_ctl k = k_ctl (w_kern w)"
    "k_interest k = (k_interest (w_kern w))(iFd c := k_interest k (iFd c))"
proof -
  obtain H where H: "pstHeapHeader eb = Some H" "heap_rep H (w_tevs w) ps"
    using tm eb by (auto elim: timers_okE)
  have ne: "ps \<noteq> []" using i by auto
  let ?x = "ps ! (length ps - 1)" and ?t = "pstTimeoutEvent c"
  obtain H' S2 qs e where r: "MinheapErase (heap_of w eb) ?t = Inr (RET_SUCC, \<lparr>hs_hdr = Some H', hs_tevs = S2(?x \<mapsto> e\<lparr>iHeapIndex := -1\<rparr>)\<rparr>)"
    "S2 ?x = Some e" "heap_rep H' S2 qs" "mset qs = mset ps - {#?t#}" "i < length ps - 1" "same_nodes (w_tevs w) S2"
    using Erase_up [of "heap_of w eb" H ps i] H i br by auto
  have qs: "set qs = set ps - {?t}" by (rule set_mset_diff [OF r(4) heap_repD(4) [OF H(2)]])
  have x: "?x \<noteq> ?t" "?x = last ps" "?x \<in> set ps"
    using r(5) i ne heap_repD(4) [OF H(2)] by (auto simp: last_conv_nth nth_eq_iff_index_eq simp flip: i(2))
  have t: "?t \<in> set ps" using i nth_mem by metis
  have nz: "?t \<noteq> NULL" "?x \<noteq> NULL" using heap_rep_node(1) [OF H(2)] t x(3) by blast+
  have "w_tevs w ?t \<noteq> None" using heap_rep_node(2) [OF H(2) t] by auto
  then have "(S2(?x \<mapsto> e\<lparr>iHeapIndex := -1\<rparr>)) ?t \<noteq> None" using same_nodes_None [OF r(6), of ?t] by auto
  then obtain k where "DestroyConn w p = Inr (destroyed w p c eb k H' (S2(?x \<mapsto> e\<lparr>iHeapIndex := -1\<rparr>)))"
      "k_socks k = k_socks (w_kern w)" "k_ctl k = k_ctl (w_kern w)"
      "k_interest k = (k_interest (w_kern w))(iFd c := k_interest k (iFd c))"
    using DestroyConn_form [OF c eb nz(1) _ r(1)] by metis
  moreover have "take (iNodeUsed H') (ppstTimeoutEventHeader H') = map Some qs"
    using r(3) unfolding heap_rep_def heap_shape_def by blast
  ultimately show thesis using that [of k H' "S2(?x \<mapsto> e\<lparr>iHeapIndex := -1\<rparr>)" qs] x qs nz by (simp flip: x(2))
qed

lemma conn_at_destroyed:
  assumes c: "conn_at w p c" and d: "conn_at w q d" and ap: "conns_apart c d" and eb: "w_base w = Some eb"
    and k: "k_socks k = k_socks (w_kern w)" "k_ctl k = k_ctl (w_kern w)"
      "k_interest k = (k_interest (w_kern w))(iFd c := k_interest k (iFd c))" and w1: "w1 = destroyed w p c eb k H S"
  shows "conn_at w1 q d"
proof -
  note f = destroyed_fds [OF c eb k w1]
  obtain rb sb where b: "pszRecvBuf d = Ptr rb 0" "pszSendBuf d = Ptr sb 0" using d by (auto simp: conn_at_def elim: bufs_okE)
  have "bufs_ok (w_mem w1) d"
    using d ap b by (simp add: conn_at_def bufs_ok_def w1 destroyed_def freed_mem_def conns_apart_def conn_blocks_def)
  moreover have "p \<noteq> q" using c d ap by (auto simp: conn_at_def conns_apart_def)
  ultimately show ?thesis using d ap f by (simp add: conn_at_def conns_apart_def) (simp add: w1 destroyed_def)
qed

definition stale_timer :: "world \<Rightarrow> tptr \<Rightarrow> bool" where
  "stale_timer w t \<longleftrightarrow> w_tevs w t = None \<and> (case w_base w of None \<Rightarrow> False | Some eb \<Rightarrow>
     (case pstHeapHeader eb of None \<Rightarrow> False | Some H \<Rightarrow> Some t \<in> set (take (iNodeUsed H) (ppstTimeoutEventHeader H))))"

text \<open>C17: when a connection is destroyed whose timer \<open>MinheapErase\<close> takes out by its branch that
  sifts up, and then the connection whose timer was the last of the heap, the heap still holds the
  second timer, which has been freed: the next operation that looks at it reads freed memory.
\<close>

theorem destroy_leaves_stale_timer:
  assumes tm: "timers_ok w ps" and c: "conn_at w p c" and i: "i < length ps" "ps ! i = pstTimeoutEvent c"
    and br: "erase_goes_up (w_tevs w) ps i"
    and d: "conn_at w q d" "conns_apart c d" "pstTimeoutEvent d = last ps"
  shows "\<exists>w1 w2. DestroyConn w p = Inr w1 \<and> DestroyConn w1 q = Inr w2 \<and> stale_timer w2 (last ps)"
proof -
  obtain eb where eb: "w_base w = Some eb" using tm by (rule timers_okE)
  obtain k H' S' qs e where r: "DestroyConn w p = Inr (destroyed w p c eb k H' S')"
    "take (iNodeUsed H') (ppstTimeoutEventHeader H') = map Some qs" "last ps \<in> set qs" "last ps \<noteq> NULL" "last ps \<noteq> pstTimeoutEvent c"
    "S' (last ps) = Some e" "iHeapIndex e = -1" "k_socks k = k_socks (w_kern w)" "k_ctl k = k_ctl (w_kern w)"
    "k_interest k = (k_interest (w_kern w))(iFd c := k_interest k (iFd c))"
    by (rule destroy_marks_other [OF tm c i br eb])
  let ?w1 = "destroyed w p c eb k H' S'"
  have d1: "conn_at ?w1 q d" by (rule conn_at_destroyed [OF c d(1,2) eb r(8-10) refl])
  obtain eb1 where eb1: "w_base ?w1 = Some eb1" "pstHeapHeader eb1 = Some H'" by (simp add: destroyed_def put_slot_def)
  have x: "w_tevs ?w1 (last ps) = Some e" using r(5,6) by (simp add: destroyed_def)
  have "MinheapErase (heap_of ?w1 eb1) (pstTimeoutEvent d) = Inr (RET_FAIL, \<lparr>hs_hdr = Some H', hs_tevs = w_tevs ?w1\<rparr>)"
    using Erase_absent [of "heap_of ?w1 eb1" H' "last ps" e] x r(4,7) eb1(2) d(3) by (simp add: heap_of_def)
  then obtain k2 where w2: "DestroyConn ?w1 q = Inr (destroyed ?w1 q d eb1 k2 H' (w_tevs ?w1))"
    using DestroyConn_form [OF d1 eb1(1)] x r(4) d(3) by (metis option.distinct(1))
  have "stale_timer (destroyed ?w1 q d eb1 k2 H' (w_tevs ?w1)) (last ps)"
    using r(2,3) d(3) by (simp add: stale_timer_def destroyed_def put_slot_def)
  then show ?thesis using r(1) w2 by blast
qed

text \<open>
  The server after the fifteen connections of \<open>ops15\<close>: the connection 20 owns the timer 12, in the
  middle of the heap, and the connection 30 the timer 7, its last.
\<close>

definition crowd_conn :: "tptr \<Rightarrow> int \<Rightarrow> nat \<Rightarrow> ConnFd" where
  "crowd_conn t fd b = fresh_conn 1 t fd (Ptr b 0) (Ptr (b + 1) 0) (replicate 16 0) 80"

definition crowd :: "heap_state \<Rightarrow> world" where
  "crowd st = (serving client1 [] [] EVENT_READABLE (sock1 [] []) (Timeval 0 0))
     \<lparr>w_base := Some ((base1 EVENT_READABLE (Timeval 0 0))\<lparr>pstHeapHeader := hs_hdr st,
        pstFdEventsArray := (replicate 8 empty_slot)[4 := slot1 EVENT_READABLE, 5 := slot1 EVENT_READABLE]\<rparr>),
      w_conns := [20 \<mapsto> crowd_conn 12 4 40, 30 \<mapsto> crowd_conn 7 5 50], w_tevs := hs_tevs st,
      w_mem := (\<lambda>_. Some (replicate 4096 0)),
      w_kern := \<lparr>k_socks = [4 \<mapsto> sock1 [] [], 5 \<mapsto> sock1 [] []],
        k_interest = [4 \<mapsto> epoll_events EVENT_READABLE, 5 \<mapsto> epoll_events EVENT_READABLE], k_ctl = []\<rparr>\<rparr>"

lemma crowd_views:
  "timers_ok (crowd st) ps = heap_ok st ps" "w_tevs (crowd st) = hs_tevs st"
  "slot_mask (crowd st) = (\<lambda>_. 0)(4 := EVENT_READABLE, 5 := EVENT_READABLE)"
  "4 \<in> usable_fds (crowd st)" "5 \<in> usable_fds (crowd st)"
proof -
  show "timers_ok (crowd st) ps = heap_ok st ps" "w_tevs (crowd st) = hs_tevs st"
    by (cases st; simp add: timers_ok_def crowd_def heap_of_def)+
  show "4 \<in> usable_fds (crowd st)" "5 \<in> usable_fds (crowd st)"
    by (simp_all add: usable_fds_def sock_is_open_def crowd_def base1_def)
  show "slot_mask (crowd st) = (\<lambda>_. 0)(4 := EVENT_READABLE, 5 := EVENT_READABLE)"
  proof
    fix fd :: int
    consider "fd = 4" | "fd = 5" | "fd < 0 \<or> 8 \<le> fd" | "0 \<le> fd" "fd < 8" "fd \<noteq> 4" "fd \<noteq> 5" by linarith
    then show "slot_mask (crowd st) fd = ((\<lambda>_. 0)(4 := EVENT_READABLE, 5 := EVENT_READABLE)) fd"
      by cases (auto simp: slot_mask_def crowd_def base1_def slot1_def empty_slot_def nth_list_update nat_eq_iff)
  qed
qed

lemma crowd_conns: "conn_at (crowd st) 20 (crowd_conn 12 4 40)" "conn_at (crowd st) 30 (crowd_conn 7 5 50)"
proof -
  have "EVENT_READABLE \<noteq> 0" by (simp add: EVENT_READABLE_def)
  then have "in_sync (slot_mask (crowd st)) (watched_by_kernel (crowd st))"
    unfolding crowd_views by (simp add: in_sync_def watched_by_kernel_def crowd_def)
  then show "conn_at (crowd st) 20 (crowd_conn 12 4 40)" "conn_at (crowd st) 30 (crowd_conn 7 5 50)"
    using crowd_views(4,5) [of st] unfolding conn_at_def
    by (simp_all add: bufs_ok_def crowd_conn_def fresh_conn_def MAX_TCP_BUF_SIZE_def) (simp_all add: crowd_def crowd_conn_def fresh_conn_def MAX_TCP_BUF_SIZE_def)
qed

lemma destroy_leaves_stale_timer_witness:
  "\<exists>st w1 w2. heap_run ops15 empty_heap = Inr st \<and> DestroyConn (crowd st) 20 = Inr w1 \<and> DestroyConn w1 30 = Inr w2 \<and> stale_timer w2 7"
proof -
  let ?ps = "[1, 10, 3, 12, 11, 6, 7]"
  obtain st where st: "heap_run ops15 empty_heap = Inr st" "heap_ok st ?ps" "erase_goes_up (hs_tevs st) ?ps 3"
    using ops15_reaches by blast
  have ap: "conns_apart (crowd_conn 12 4 40) (crowd_conn 7 5 50)"
    by (simp add: conns_apart_def crowd_conn_def fresh_conn_def conn_blocks_def)
  have "\<exists>w1 w2. DestroyConn (crowd st) 20 = Inr w1 \<and> DestroyConn w1 30 = Inr w2 \<and> stale_timer w2 (last ?ps)"
    by (rule destroy_leaves_stale_timer [OF _ crowd_conns(1) _ _ _ crowd_conns(2) ap, where ps = ?ps and i = 3])
       (use st(2,3) crowd_views(1,2) in \<open>simp_all add: crowd_conn_def fresh_conn_def\<close>)
  then show ?thesis using st(1) by auto
qed

end
