(* ===== verification/EchoOverlap.thy ===== *)
theory EchoOverlap
  imports EventDelivery ServedClient
begin

text \<open>
  Two echo requests that overlap: the second is complete while the answer to the first is half sent.
  \<open>SendBackEcho\<close> writes the second over the first and sets \<open>iSendPacketLen\<close>, but leaves
  \<open>iSendCurLen\<close>, the position in what was being sent.
\<close>

text \<open>The second packet takes the place of the first in the send buffer; nothing else of the sending changes.\<close>

lemma SendBackEcho_again:
  assumes c: "conn_at w p c" "0 < iFd c" "k_socks (w_kern w) (iFd c) = Some so"
    and old: "0 \<le> iSendCurLen c" "slot_mask w (iFd c) AND EVENT_WRITABLE \<noteq> 0"
    and new: "pszRecvBuf c = Ptr rb 0" "mem_at (w_mem w) rb 0 pkt" "iPacketLen c = int (length pkt)" "iPacketLen c \<le> iSendTotalLen c"
      "iSendCurLen c < iPacketLen c"
  shows "\<exists>w1. SendBackEcho w p = Inr (RET_SUCC, w1) \<and> sending w1 p (c\<lparr>iSendPacketLen := iPacketLen c\<rparr>) so pkt"
proof -
  let ?c1 = "c\<lparr>iSendPacketLen := iPacketLen c\<rparr>"
  have c': "p \<noteq> NULL" "w_conns w p = Some c" "pstEventBase c \<noteq> NULL" "bufs_ok (w_mem w) c" "iFd c \<in> usable_fds w"
    "in_sync (slot_mask w) (watched_by_kernel w)"
    using c(1) by (simp_all add: conn_at_def)
  obtain sb sbs where sb: "pszSendBuf c = Ptr sb 0" "w_mem w sb = Some sbs" "int (length sbs) = iSendTotalLen c"
    by (rule bufs_okE [OF c'(4)]) blast
  have room: "mem_room (w_mem w) sb (iSendTotalLen c)" using sb by (simp add: mem_room_def)
  obtain m where m: "store_bytes (w_mem w) (Ptr sb 0) pkt = Inr m" "mem_at m sb 0 pkt"
    by (rule store_kept [OF room, of 0 pkt]) (use new in simp_all)
  have cpy: "c_memcpy (w_mem w) (Ptr sb 0) (Ptr rb 0) (int (length pkt)) = Inr m"
    using mem_at_load [OF new(2)] m(1) by (simp add: c_memcpy_def c_memmove_def)
  let ?w1 = "put_conn (put_mem w m) p ?c1"
  have v: "slot_mask ?w1 = slot_mask w" "watched_by_kernel ?w1 = watched_by_kernel w" "usable_fds ?w1 = usable_fds w"
    by (rule view_cong; simp)+
  obtain eb sl where s: "w_base w = Some eb" "get_slot eb (iFd c) = Inr sl" "iFd c \<le> iFdEventArraySize eb"
    by (rule usableE [OF c'(5)]) blast
  have "iMask sl AND EVENT_WRITABLE \<noteq> 0" using usable_at(4) [OF c'(5) s(1,2)] old(2) by simp
  then have "EventAdd ?w1 (pstEventBase c) (iFd c) EVENT_WRITABLE SendProc p = Inr (RET_SUCC, ?w1)"
    using s c'(3) by (simp add: EventAdd_def get_base_def)
  then have "SendBackEcho w p = Inr (RET_SUCC, ?w1)"
    using c'(1,2) sb(1) new(1,3) cpy by (simp add: SendBackEcho_def)
  moreover have "conn_at ?w1 p ?c1"
    using c' v bufs_ok_sized [OF c'(4) mem_sized_store [OF m(1)], of ?c1] by (simp add: conn_at_def)
  then have "sending ?w1 p ?c1 so pkt"
    using c(2,3) sb(1) m(2) old(1) new(3,5) by (simp add: sending_def)
  ultimately show ?thesis by blast
qed

text \<open>C18: when a second echo request is complete while the answer to the first is still being sent, the
  rest of the first answer and as many bytes from the front of the second are lost: the next write
  hands the socket the second packet from the position the first had reached, and after it nothing is
  left to send.
\<close>

theorem overlapping_echo_loses_bytes:
  assumes c: "conn_at w p c" "0 < iFd c" "k_socks (w_kern w) (iFd c) = Some so" and ep: "ep \<noteq> NULL"
    and old: "0 \<le> iSendCurLen c" "slot_mask w (iFd c) AND EVENT_WRITABLE \<noteq> 0"
    and new: "pszRecvBuf c = Ptr rb 0" "mem_at (w_mem w) rb 0 pkt" "iPacketLen c = int (length pkt)" "iPacketLen c \<le> iSendTotalLen c"
      "iSendCurLen c < iPacketLen c"
    and room: "s_out so = Room r # rest" "length pkt \<le> r"
  shows "\<exists>w1 w2. SendBackEcho w p = Inr (RET_SUCC, w1) \<and> ProcessSendCallback w1 ep (iFd c) p = Inr w2
     \<and> k_socks (w_kern w2) (iFd c) = Some (so\<lparr>s_out := rest, s_sent := s_sent so @ drop (nat (iSendCurLen c)) pkt\<rparr>)
     \<and> w_conns w2 p = Some (c\<lparr>iSendPacketLen := 0, iSendCurLen := 0\<rparr>)"
proof -
  obtain w1 where w1: "SendBackEcho w p = Inr (RET_SUCC, w1)" "sending w1 p (c\<lparr>iSendPacketLen := iPacketLen c\<rparr>) so pkt"
    using SendBackEcho_again [OF c old new] by blast
  obtain w2 where "ProcessSendCallback w1 ep (iFd c) p = Inr w2" "send_finished w1 p (c\<lparr>iSendPacketLen := iPacketLen c\<rparr>) so pkt rest w2"
    using send_callback_full [OF w1(2) ep room] by auto
  then show ?thesis using w1(1) by (intro exI [of _ w1] exI [of _ w2]) (simp add: send_finished_def sent_state_def)
qed

text \<open>
  Five bytes of the answer to one request have gone out when another of the same size has been
  received: the client gets the last twelve bytes of the second, in place of those of the first.
\<close>

definition overlapping_client :: ConnFd where
  "overlapping_client = client1\<lparr>iSendPacketLen := 17, iSendCurLen := 5, iPacketLen := 17, iRecvCurLen := 17\<rparr>"

definition overlapping :: world where
  "overlapping = serving overlapping_client (packet_bytes CMD_TEST_ECHO 8 [4, 5, 6] @ replicate 4079 0)
     (packet_bytes CMD_TEST_ECHO 7 [1, 2, 3] @ replicate 4079 0) (EVENT_READABLE OR EVENT_WRITABLE) (sock1 [] [Room 100]) (Timeval 100 0)"

lemma overlapping_echo_loses_bytes_witness:
  "\<exists>w1 w2 so. SendBackEcho overlapping 1 = Inr (RET_SUCC, w1) \<and> ProcessSendCallback w1 1 4 1 = Inr w2
     \<and> k_socks (w_kern w2) 4 = Some so \<and> s_sent so = drop 5 (packet_bytes CMD_TEST_ECHO 8 [4, 5, 6])"
proof -
  let ?c = overlapping_client and ?so = "sock1 [] [Room 100]"
  have c: "iFd ?c = 4" "iSendCurLen ?c = 5" "iPacketLen ?c = 17" "iSendTotalLen ?c = 4096" "pszRecvBuf ?c = Ptr 2 0"
    by (simp_all add: overlapping_client_def)
  have at: "conn_at overlapping 1 ?c"
    unfolding overlapping_def by (rule serving_conn_at) (simp_all add: overlapping_client_def EVENT_READABLE_def EVENT_WRITABLE_def)
  have w: "k_socks (w_kern overlapping) (iFd ?c) = Some ?so" "slot_mask overlapping (iFd ?c) AND EVENT_WRITABLE \<noteq> 0"
      "mem_at (w_mem overlapping) 2 0 (packet_bytes CMD_TEST_ECHO 8 [4, 5, 6])"
    using rw_bits(5) by (simp_all add: c overlapping_def serving_mask mem_at_iff)
  have "s_out ?so = Room 100 # []" by (simp add: sock1_def)
  then obtain w1 w2 where "SendBackEcho overlapping 1 = Inr (RET_SUCC, w1)" "ProcessSendCallback w1 1 (iFd ?c) 1 = Inr w2"
      "k_socks (w_kern w2) (iFd ?c) = Some (?so\<lparr>s_out := [], s_sent := s_sent ?so @ drop (nat (iSendCurLen ?c)) (packet_bytes CMD_TEST_ECHO 8 [4, 5, 6])\<rparr>)"
    using overlapping_echo_loses_bytes [OF at _ w(1) _ _ w(2) c(5) w(3), of 1 100 "[]"] c by auto
  then show ?thesis by (intro exI [of _ w1] exI [of _ w2]) (simp add: c sock1_def)
qed

end
