(* ===== verification/BenchAgainstServer.thy ===== *)
theory BenchAgainstServer
  imports BenchSteps LiveProperties
begin

text \<open>
  The benchmark client of \<open>client/http\<close> against the server of \<open>src\<close>: the request it sends is the text
  of an HTTP request, which is no packet of the server's binary protocol.
\<close>

section \<open>A head that is not accepted\<close>

text \<open>On a live server a wrong head ends its connection, and this connection alone.\<close>

lemma rejected_client:
  assumes l: "live w ps ids {}" and i: "idle_client w p fd sent" and ep: "ep \<noteq> NULL"
    and so: "k_socks (w_kern w) fd = Some so" "s_in so = [Data bs]" "take 5 bs = soh # htonl_bytes len" "head_rejected soh len"
  shows "\<exists>w'. deliver_event w ep (fd, EPOLLIN) = Inr w' \<and> in_service w' \<and> w_conns w' = (w_conns w)(p := None)
     \<and> k_socks (w_kern w') fd = None"
proof -
  obtain c where c: "p \<in> ids" "w_conns w p = Some c" "iFd c = fd" "iRecvCurLen c = 0" "MAX_TCP_BUF_SIZE \<le> iRecvTotalLen c"
    "slot_mask w fd = EVENT_READABLE" by (rule idle_clientE [OF l i])
  obtain d where "w_conns w p = Some d" "p \<noteq> NULL" "conn_at w p d" "conn_core w p d" "timer_of w p = pstTimeoutEvent d" "0 \<le> iFd d"
    by (rule live_conn [OF l c(1)])
  then have d: "p \<noteq> NULL" "conn_at w p c" "conn_core w p c" "timer_of w p = pstTimeoutEvent c" "0 \<le> fd" using c(2,3) by simp_all
  obtain now where now: "clock w = Some now" by (rule live_clock [OF l])
  have "bufs_ok (w_mem w) c" using d(2) by (simp add: conn_at_def)
  then obtain rb rbs where b: "pszRecvBuf c = Ptr rb 0" "w_mem w rb = Some rbs" "int (length rbs) = iRecvTotalLen c"
    by (rule bufs_okE) blast
  have "length (take 5 bs) = 5" unfolding so(3) by simp
  then have "5 \<le> length bs" by simp
  then have wt: "head_waits w p c rb so bs"
    using d(1,5) c b so(1,2) by (simp add: head_waits_def mem_room_def MAX_TCP_BUF_SIZE_def)
  have own: "slot_belongs w (iFd c) p" using d(3) owns_belongs by (simp add: conn_core_def)
  have rem: "can_remove w ps (pstTimeoutEvent c)" using live_timer(1) [OF l c(1) now] d(4) by simp
  obtain m s w' qs where r: "ProcessRecvCallback w ep (iFd c) p = Inr w'"
    "conn_released (received_some w p c so m s 5 (sint len)) p (c\<lparr>iRecvCurLen := 5, iPacketLen := sint len\<rparr>) ps w' qs"
    by (rule recv_rejects_head [OF d(2) wt so(3,4) liveD(5) [OF l] rem ep])
  have "deliver_event w ep (iFd c, EPOLLIN) = Inr w'"
    by (rule deliver_destroys [OF own _ ep _ r]) (use c(3,6) rw_bits in \<open>simp_all add: received_some_def EPOLLIN_def\<close>)
  then have del: "deliver_event w ep (fd, EPOLLIN) = Inr w'" using c(3) by simp
  then obtain qs' js where "live w' qs' js {}"
    using deliver_conn_live [OF l c(1,2) ep, of EPOLLIN] c(3) by (auto simp: goes_on_def)
  then have "in_service w'" by (rule live_in_service)
  moreover have "w_conns w' = (w_conns w)(p := None)" "k_socks (w_kern w') fd = None"
    using r(2) c(3) by (simp_all add: conn_released_def received_some_def)
  ultimately show ?thesis using del by blast
qed

section \<open>The request of the benchmark\<close>

text \<open>Its first five characters are \<open>GET /\<close>.\<close>

lemma request_head: "take 5 request_bytes = 71 # htonl_bytes 1163141167" "request_bytes ! 0 = 71"
  by code_simp+

lemma not_a_packet: "head_rejected 71 len" "harmless_stream request_bytes"
  by (simp_all add: head_rejected_def PROTO_SOH_def harmless_stream.simps good_head_def request_head(2))

text \<open>What \<open>EncodeRequest\<close> puts into the send buffer of a client.\<close>

lemma encoded_bytes:
  assumes "EncodeRequest data maxLen = Inr (len, data')" "0 \<le> len" shows "take (nat len) data' = request_bytes"
  using assms by (auto simp: EncodeRequest_def mem_copy_def Let_def split: if_splits)

section \<open>The outcome\<close>

text \<open>C19: the two programs of the repository do not speak the same protocol: pointed at the server, the
  benchmark client has its request, however large its buffer, answered by the closing of its connection;
  the worker goes on with its other connections.
\<close>

theorem benchmark_is_disconnected:
  assumes w: "in_service w" and i: "idle_client w p fd sent" and ep: "ep \<noteq> NULL"
    and enc: "EncodeRequest data maxLen = Inr (len, data')" "0 \<le> len"
  shows "\<exists>w'. deliver_event (put_kern w (request_arrives w fd (take (nat len) data'))) ep (fd, EPOLLIN) = Inr w' \<and> in_service w'
     \<and> w_conns w' = (w_conns w)(p := None) \<and> k_socks (w_kern w') fd = None"
proof -
  obtain ps where l: "live w ps (dom (w_conns w)) {}" using w by (auto simp: in_service_def)
  obtain c so where c: "p \<in> dom (w_conns w)" "w_conns w p = Some c" "iFd c = fd" "iRecvCurLen c = 0" "k_socks (w_kern w) fd = Some so"
    by (rule idle_clientE [OF l i])
  let ?w = "put_kern w (request_arrives w fd request_bytes)" and ?so = "so\<lparr>s_in := [Data request_bytes], s_out := [Room (length request_bytes)]\<rparr>"
  have l1: "live ?w ps (dom (w_conns w)) {}" using request_arrives_live [OF l c(1,2,4) not_a_packet(2)] c(3) by simp
  have so: "k_socks (w_kern ?w) fd = Some ?so" using c(5) by (simp add: request_arrives_def)
  have "slot_mask ?w = slot_mask w" by (simp add: slot_mask_def fun_eq_iff)
  then have i1: "idle_client ?w p fd sent" using i so c(5) by (simp add: idle_client_def)
  show ?thesis
    using rejected_client [OF l1 i1 ep so _ request_head(1) not_a_packet(1)] by (simp add: encoded_bytes [OF enc])
qed

text \<open>One of the clients of the worker is the benchmark, with its buffer of 4097 bytes.\<close>

lemma benchmark_is_disconnected_witness:
  "\<exists>w p data' w'. EncodeRequest (replicate 4097 0) (MAX_SEND_BUF_LEN + 1) = Inr (334, data') \<and> w_conns w p \<noteq> None
     \<and> deliver_event (put_kern w (request_arrives w 6 (take 334 data'))) 1 (6, EPOLLIN) = Inr w' \<and> w_conns w' = (w_conns w)(p := None)"
proof -
  obtain w p c where w: "in_service w" "w_conns w p = Some c" "idle_client w p 6 []" by (rule busy_worker_connected)
  obtain data' where e: "EncodeRequest (replicate 4097 0) (MAX_SEND_BUF_LEN + 1) = Inr (334, data')"
    using EncodeRequest_ok [of "replicate 4097 0"] by auto
  have "\<exists>w'. deliver_event (put_kern w (request_arrives w 6 (take (nat 334) data'))) 1 (6, EPOLLIN) = Inr w' \<and> in_service w'
     \<and> w_conns w' = (w_conns w)(p := None) \<and> k_socks (w_kern w') 6 = None"
    by (rule benchmark_is_disconnected [OF w(1,3) _ e]) simp_all
  then show ?thesis using e w(2) by auto
qed

end
