(* ===== verification/BenchMain.thy ===== *)
theory BenchMain
  imports BenchProperties
begin

text \<open>
  The benchmark program from its options to its report: \<open>main\<close> of \<open>client/http/benchmark.c\<close>,
  composed of the configuration, the start, the loop and the release of the memory.
\<close>

section \<open>Answers the kernel may give\<close>

definition loop_over :: "bench \<Rightarrow> bool" where
  "loop_over b \<longleftrightarrow> (case epoll_loop (b_conf b) of None \<Rightarrow> False | Some lp \<Rightarrow> stop lp = 0)"

text \<open>Every answer reports only what the kernel may report in the state the loop is in by then.\<close>

fun answers_ok :: "bench \<Rightarrow> int \<Rightarrow> u64 \<Rightarrow> bench_reply list \<Rightarrow> bool" where
  "answers_ok b fails seen [] = True"
| "answers_ok b fails seen (reply # rest) \<longleftrightarrow> loop_over b
     \<or> epoll_reports (b_kern b) (fst reply)
       \<and> (case bench_turn b fails seen reply of Inl _ \<Rightarrow> True | Inr ((n, t), b1) \<Rightarrow> answers_ok b1 n t rest)"

text \<open>The state in which \<open>ReactorBenchmarkLoop\<close> enters its loop.\<close>

definition loop_entry :: "bench \<Rightarrow> u64 \<times> bench" where
  "loop_entry b = (let (t0, b1) = GetmsecTime b; b2 = put_conf b1 ((b_conf b1)\<lparr>startTime := t0\<rparr>) in GetusecTime b2)"

definition main_answers_ok :: "(buf \<Rightarrow> bool) \<Rightarrow> bench \<Rightarrow> bench_opt list \<Rightarrow> int \<Rightarrow> bench_reply list \<Rightarrow> bool" where
  "main_answers_ok host_ok b opts ep replies \<longleftrightarrow>
     (case ParseOptions host_ok (put_conf b (InitConfig (b_conf b))) opts of Inl _ \<Rightarrow> True
      | Inr b1 \<Rightarrow> (case InitSingleReactor b1 ep of Inl _ \<Rightarrow> True
        | Inr (_, b2) \<Rightarrow> (case loop_entry b2 of (t, b3) \<Rightarrow> answers_ok b3 0 t replies)))"

section \<open>The loop\<close>

lemma bench_loop_ok:
  assumes "bench_ok b" "answers_ok b fails seen replies"
  shows "runs (\<lambda>(ended, b'). bench_ok b' \<and> same_needs b b' \<and> (ended \<longrightarrow> loop_over b'))
    (bench_loop b fails seen replies)"
  using assms
proof (induction replies arbitrary: b fails seen)
  case Nil
  then show ?case using bench_okD(2) [OF Nil(1)] by (auto simp: bench_loop.simps loop_over_def)
next
  case (Cons reply rest)
  obtain lp where lp: "epoll_loop (b_conf b) = Some lp" using bench_okD(2) [OF Cons.prems(1)] by blast
  show ?case
  proof (cases "loop_over b")
    case True
    then show ?thesis using lp Cons.prems(1) by (simp add: bench_loop.simps loop_over_def)
  next
    case False
    have "runs (\<lambda>(ended, b'). bench_ok b' \<and> same_needs b b' \<and> (ended \<longrightarrow> loop_over b'))
       (cbind (bench_turn b fails seen reply) (\<lambda>((n, t), b1). bench_loop b1 n t rest))"
    proof (cases "bench_turn b fails seen reply")
      case (Inl e)
      then show ?thesis
        using bench_turn_ok [OF Cons.prems(1), of reply fails seen] Cons.prems(2) False by (cases e) auto
    next
      case (Inr x)
      obtain n t b1 where x: "x = ((n, t), b1)" by (metis surj_pair)
      have b1: "bench_ok b1" "same_needs b b1" "answers_ok b1 n t rest"
        using bench_turn_ok [OF Cons.prems(1), of reply fails seen] Cons.prems(2) False Inr x by auto
      show ?thesis using Cons.IH [OF b1(1,3)] b1(2) Inr x by simp
    qed
    then show ?thesis using lp False by (simp add: bench_loop.simps loop_over_def)
  qed
qed

text \<open>A loop that was told to stop has done all the requests.\<close>

lemma loop_over_done:
  assumes "bench_ok b" "loop_over b" shows "doneRequests (b_conf b) = wanted b"
  using bench_okD(6) [OF assms(1)] assms(2) by (auto simp: results_ok_def loop_over_def split: option.splits)

lemma GetmsecTime_frame: "GetmsecTime b = (t, b') \<Longrightarrow> b_conf b' = b_conf b \<and> b_kern b' = b_kern b"
  by (auto simp: GetmsecTime_def read_tv_def Let_def split: if_splits)

lemma bench_ok_note_time:
  assumes ok: "bench_ok b" and t: "b_conf b' = b_conf b" "b_kern b' = b_kern b"
  shows "bench_ok (put_conf b' ((b_conf b')\<lparr>startTime := u\<rparr>))" "bench_ok (put_conf b' ((b_conf b')\<lparr>endTime := u\<rparr>))"
  using bench_ok_kern [OF ok, of "put_conf b' ((b_conf b')\<lparr>startTime := u\<rparr>)"]
    bench_ok_kern [OF ok, of "put_conf b' ((b_conf b')\<lparr>endTime := u\<rparr>)"] t bench_okD(2,4,6) [OF ok]
  by (simp_all add: results_ok_cong)

lemma loop_entry_ok:
  assumes ok: "bench_ok b" and e: "loop_entry b = (t, b')"
  shows "bench_ok b' \<and> same_needs b b'"
proof -
  obtain t0 b1 where 1: "GetmsecTime b = (t0, b1)" by fastforce
  let ?b2 = "put_conf b1 ((b_conf b1)\<lparr>startTime := t0\<rparr>)"
  note f = GetmsecTime_frame [OF 1]
  have 2: "GetusecTime ?b2 = (t, b')" using e 1 by (simp add: loop_entry_def)
  have "bench_ok ?b2" by (rule bench_ok_note_time [OF ok]) (use f in simp_all)
  then show ?thesis using bench_ok_clock [of ?b2 b'] GetusecTime_frame [OF 2] f by simp
qed

lemma report_ok:
  assumes ok: "bench_ok b" and d: "doneRequests (b_conf b) = wanted b" "wanted b \<noteq> 0"
  shows "\<exists>r. ShowReport qs (b_conf b) = Inr r \<and> rep_completed r = wanted b \<and> rep_needed r = wanted b \<and> rep_clients r = need b"
  using bench_okD(6) [OF ok] d by (auto simp: ShowReport_def average_latency_def results_ok_def Let_def)

lemma ReactorBenchmarkLoop_ok:
  assumes ok: "bench_ok b" and n: "wanted b \<noteq> 0" and e: "loop_entry b = (t, b0)" and a: "answers_ok b0 0 t replies"
  shows "runs (\<lambda>(rep, b'). bench_ok b' \<and> same_needs b b' \<and> (\<forall>r. rep = Some r \<longrightarrow>
      rep_completed r = wanted b \<and> rep_needed r = wanted b \<and> rep_clients r = need b))
    (ReactorBenchmarkLoop qs b replies)"
proof -
  note b0 = loop_entry_ok [OF ok e]
  have run: "ReactorBenchmarkLoop qs b replies = cbind (bench_loop b0 0 t replies) (\<lambda>(ended, b4).
       if \<not> ended then Inr (None, b4)
       else let (t2, b5) = GetmsecTime b4; b6 = put_conf b5 ((b_conf b5)\<lparr>endTime := t2\<rparr>) in
         cbind (ShowReport qs (b_conf b6)) (\<lambda>rep. Inr (Some rep, b6)))"
    using e by (auto simp: ReactorBenchmarkLoop_def loop_entry_def Let_def split: prod.splits)
  show ?thesis unfolding run
  proof (rule runs_bind [OF bench_loop_ok [OF _ a]], use b0 in simp, clarify)
    fix ended b4 assume b4: "bench_ok b4" "need b4 = need b0" "wanted b4 = wanted b0" "ended \<longrightarrow> loop_over b4"
    obtain t2 b5 where 5: "GetmsecTime b4 = (t2, b5)" by fastforce
    let ?b6 = "put_conf b5 ((b_conf b5)\<lparr>endTime := t2\<rparr>)"
    note f = GetmsecTime_frame [OF 5]
    have ok6: "bench_ok ?b6" by (rule bench_ok_note_time [OF b4(1)]) (use f in simp_all)
    have d6: "same_needs b ?b6" using f b4(2,3) b0 by simp
    show "runs (\<lambda>(rep, b'). bench_ok b' \<and> same_needs b b' \<and> (\<forall>r. rep = Some r \<longrightarrow>
          rep_completed r = wanted b \<and> rep_needed r = wanted b \<and> rep_clients r = need b))
        (if \<not> ended then Inr (None, b4)
         else let (t2, b5) = GetmsecTime b4; b6 = put_conf b5 ((b_conf b5)\<lparr>endTime := t2\<rparr>) in
           cbind (ShowReport qs (b_conf b6)) (\<lambda>rep. Inr (Some rep, b6)))"
    proof (cases ended)
      case True
      then have "doneRequests (b_conf ?b6) = wanted ?b6" using loop_over_done [OF b4(1)] b4(4) f by simp
      then obtain r where "ShowReport qs (b_conf ?b6) = Inr r" "rep_completed r = wanted b" "rep_needed r = wanted b" "rep_clients r = need b"
        using report_ok [OF ok6, of qs] d6 n by auto
      then show ?thesis using True 5 ok6 d6 by simp
    qed (use b4 b0 in simp)
  qed
qed

section \<open>The start\<close>

lemma runs_and: "runs P m \<Longrightarrow> (\<And>x. m = Inr x \<Longrightarrow> Q x) \<Longrightarrow> runs (\<lambda>x. P x \<and> Q x) m"
  by (cases "(P, m)" rule: runs.cases) auto

definition unregistered :: "kernel \<Rightarrow> bool" where
  "unregistered k \<longleftrightarrow> k_ctl k = [] \<and> k_interest k = (\<lambda>_. None)"

lemma TestConnect_frame:
  assumes "TestConnect b = (r, b')"
  shows "b_conf b' = b_conf b \<and> b_malloc b' = b_malloc b \<and> (unregistered (b_kern b) \<longrightarrow> unregistered (b_kern b'))"
  using assms
  by (auto simp: TestConnect_def next_socket_def SetNonBlock_def sys_control_def sys_close_def put_bkern_def unregistered_def Let_def
      split: list.splits sock_answer.splits prod.splits if_splits option.splits)

lemma apply_opts_keeps_counts:
  "apply_opts s opts = Inr s' \<Longrightarrow> liveClientNum s' = liveClientNum s \<and> doneRequests s' = doneRequests s"
proof (induction opts arbitrary: s)
  case (Cons x xs)
  then show ?case by (cases x) auto
qed simp

lemma ParseOptions_ok:
  assumes o: "apply_opts (b_conf b) opts = Inr s" "0 \<in> set (szhost s)"
  shows "runs (\<lambda>b'. b_conf b' = s \<and> b_malloc b' = b_malloc b \<and> (unregistered (b_kern b) \<longrightarrow> unregistered (b_kern b')))
    (ParseOptions host_ok b opts)"
proof -
  obtain r1 b1 where 1: "TestConnect (put_conf b s) = (r1, b1)" by fastforce
  obtain r2 b2 where 2: "TestConnect b1 = (r2, b2)" by fastforce
  show ?thesis using TestConnect_frame [OF 1] TestConnect_frame [OF 2] o 1 2 by (simp add: ParseOptions_def put_conf_def)
qed

lemma next_answer_granted: "False \<notin> set as \<Longrightarrow> next_answer as = (ok, r) \<Longrightarrow> ok \<and> False \<notin> set r"
  by (cases as) auto

lemma InitSingleReactor_starts:
  assumes m: "False \<notin> set (b_malloc b)" and ep: "0 \<le> ep" and n: "0 < sint (need b + 1)"
    and r: "InitSingleReactor b ep = Inr (r, b')"
  shows "r = 0"
proof -
  obtain ok1 r1 where 1: "next_answer (b_malloc b) = (ok1, r1)" by fastforce
  obtain ok2 r2 where 2: "next_answer r1 = (ok2, r2)" by fastforce
  obtain ok3 r3 where 3: "next_answer r2 = (ok3, r3)" by fastforce
  obtain ok4 r4 where 4: "next_answer r3 = (ok4, r4)" by fastforce
  have oks: "ok1" "ok2" "ok3" "ok4"
    using next_answer_granted [OF m 1] next_answer_granted [OF _ 2] next_answer_granted [OF _ 3] next_answer_granted [OF _ 4]
    by blast+
  show ?thesis
    using r 1 2 3 4 oks ep n by (auto simp: InitSingleReactor_def CreateSingleEpollLoop_def Let_def outcome_iff)
qed


section \<open>The whole program\<close>

lemma main_starts:
  assumes k: "k_ctl (b_kern b) = []" "k_interest (b_kern b) = (\<lambda>_. None)"
    and m: "False \<notin> set (b_malloc b)" "0 \<le> ep"
    and o: "apply_opts (InitConfig (b_conf b)) opts = Inr s" "0 \<in> set (szhost s)" "0 < sint (needClientNum s + 1)"
  shows "runs (\<lambda>b1. runs (\<lambda>(_, b2). bench_ok b2 \<and> live b2 = need b2 \<and> need b2 = needClientNum s \<and> wanted b2 = needRequestNum s)
      (InitSingleReactor b1 ep)) (ParseOptions host_ok (put_conf b (InitConfig (b_conf b))) opts)"
proof (rule runs_mono [OF ParseOptions_ok [OF _ o(2)]], use o(1) in simp)
  fix b1 :: bench assume b1: "b_conf b1 = s \<and> b_malloc b1 = b_malloc (put_conf b (InitConfig (b_conf b)))
     \<and> (unregistered (b_kern (put_conf b (InitConfig (b_conf b)))) \<longrightarrow> unregistered (b_kern b1))"
  have "liveClientNum s = 0 \<and> doneRequests s = 0"
    using apply_opts_keeps_counts [OF o(1)] by (simp add: InitConfig_def)
  then have st: "bench_start b1" using b1 k by (simp add: bench_start_def unregistered_def)
  have zero: "r = 0" if "InitSingleReactor b1 ep = Inr (r, b2)" for r b2
    by (rule InitSingleReactor_starts [OF _ m(2) _ that]) (use b1 m(1) o(3) in \<open>simp_all add: put_conf_def\<close>)
  have "runs (\<lambda>x. (\<lambda>(r, b'). r = 0 \<longrightarrow> bench_ok b' \<and> live b' = need b' \<and> same_needs b1 b') x \<and> fst x = 0) (InitSingleReactor b1 ep)"
    by (rule runs_and [OF InitSingleReactor_ok [OF st]]) (use zero in auto)
  then show "runs (\<lambda>(_, b2). bench_ok b2 \<and> live b2 = need b2 \<and> need b2 = needClientNum s \<and> wanted b2 = needRequestNum s)
      (InitSingleReactor b1 ep)"
    by (rule runs_mono) (use b1 in auto)
qed

text \<open>A fresh process with two connect tests and one connection that takes and answers two requests.\<close>

definition demo_start :: bench where
  "demo_start = demo_bench [] new_sock [] [Socket 4 InProgress (Some 0) [] [], Socket 5 InProgress (Some 0) [] [],
     Socket 6 InProgress (Some 0) (map Data [[72], [72, 84]]) (map Room [334, 4096])]"

lemma demo_start_simps [simp]:
  "b_malloc demo_start = []" "b_clock demo_start = Timeval 10 5" "b_tv demo_start = Timeval 0 0"
  "k_ctl (b_kern demo_start) = []" "k_interest (b_kern demo_start) = (\<lambda>_. None)" "k_socks (b_kern demo_start) = (\<lambda>_. None)"
  by (simp_all add: demo_start_def demo_bench_def)

lemma default_host: "0 \<in> set (strncpy16 (ascii ''127.0.0.1''))"
  by (simp add: strncpy16_def ascii_def)

lemma runs_outcome: "runs P m \<Longrightarrow> (\<exists>x. m = Inr x \<and> P x) \<or> (\<exists>c. m = Inl (Exits c))"
  by (cases "(P, m)" rule: runs.cases) auto

text \<open>C20: the benchmark, from its options to its report, does nothing undefined, whatever the network
  does: it ends with \<open>exit\<close>, or still runs with every slot, registration and result consistent,
  or reports, and then every request that was asked for is completed and the slots, the loop and the results are freed.
\<close>

theorem benchmark_never_goes_wrong:
  assumes k: "k_ctl (b_kern b) = []" "k_interest (b_kern b) = (\<lambda>_. None)"
    and m: "False \<notin> set (b_malloc b)" "0 \<le> ep"
    and o: "apply_opts (InitConfig (b_conf b)) opts = Inr s" "0 \<in> set (szhost s)" "0 < sint (needClientNum s + 1)"
      "needRequestNum s \<noteq> 0"
    and a: "main_answers_ok host_ok b opts ep replies"
  shows "runs (\<lambda>(rep, b'). case rep of
        None \<Rightarrow> bench_ok b' \<and> need b' = needClientNum s \<and> wanted b' = needRequestNum s
      | Some r \<Rightarrow> rep_completed r = needRequestNum s \<and> rep_needed r = needRequestNum s \<and> rep_clients r = needClientNum s
          \<and> clients_ptr (b_conf b') = None \<and> epoll_loop (b_conf b') = None \<and> latency (b_conf b') = None)
    (bench_main qs host_ok b opts ep replies)"
proof -
  consider (exit) c where "ParseOptions host_ok (put_conf b (InitConfig (b_conf b))) opts = Inl (Exits c)"
    | (start) b1 where "ParseOptions host_ok (put_conf b (InitConfig (b_conf b))) opts = Inr b1"
        "runs (\<lambda>(_, b2). bench_ok b2 \<and> live b2 = need b2 \<and> need b2 = needClientNum s \<and> wanted b2 = needRequestNum s) (InitSingleReactor b1 ep)"
    using runs_outcome [OF main_starts [OF k m o(1-3), of host_ok]] by blast
  then show ?thesis
  proof cases
    case exit
    then show ?thesis by (simp add: bench_main_def)
  next
    case start
    consider (exit) c where "InitSingleReactor b1 ep = Inl (Exits c)"
      | (loop) r b2 where "InitSingleReactor b1 ep = Inr (r, b2)" "bench_ok b2" "need b2 = needClientNum s" "wanted b2 = needRequestNum s"
      using runs_outcome [OF start(2)] by blast
    then show ?thesis
    proof cases
      case exit
      then show ?thesis using start(1) by (simp add: bench_main_def)
    next
      case loop
      obtain t b3 where e: "loop_entry b2 = (t, b3)" by fastforce
      have "answers_ok b3 0 t replies" using a start(1) loop(1) e by (simp add: main_answers_ok_def)
      note run = ReactorBenchmarkLoop_ok [OF loop(2) _ e this, of qs]
      show ?thesis
        using runs_outcome [OF run] o(4) start(1) loop by (auto simp: bench_main_def FreeResource_def split: option.splits)
    qed
  qed
qed

lemma benchmark_never_goes_wrong_witness:
  "runs (\<lambda>(rep, b'). case rep of
        None \<Rightarrow> bench_ok b' \<and> need b' = 1 \<and> wanted b' = 50
      | Some r \<Rightarrow> rep_completed r = 50 \<and> rep_needed r = 50 \<and> rep_clients r = 1
          \<and> clients_ptr (b_conf b') = None \<and> epoll_loop (b_conf b') = None \<and> latency (b_conf b') = None)
    (bench_main id (\<lambda>_. True) demo_start [OptC 1] 3 [([], Timeval 10 5), ([], Timeval 20 0)])"
proof -
  let ?s = "(InitConfig (b_conf demo_start))\<lparr>needClientNum := 1\<rparr>"
  have "main_answers_ok (\<lambda>_. True) demo_start [OptC 1] 3 [([], Timeval 10 5), ([], Timeval 20 0)]"
    by (auto simp: main_answers_ok_def epoll_reports_def split: sum.splits prod.splits)
  moreover have s: "needClientNum ?s = 1" "needRequestNum ?s = 50" "szhost ?s = strncpy16 (ascii ''127.0.0.1'')"
    by (simp_all add: InitConfig_def)
  ultimately show ?thesis
    using benchmark_never_goes_wrong [of demo_start 3 "[OptC 1]" ?s "\<lambda>_. True" "[([], Timeval 10 5), ([], Timeval 20 0)]" id, unfolded s]
      default_host by simp
qed

end
