(* ===== verification/BenchReport.thy ===== *)
theory BenchReport
  imports BenchMain
begin

text \<open>
  The benchmark with one client against a server that takes every request and answers it: the run
  from one request to the next, and the run of the whole program up to its report.
\<close>

section \<open>One client in turn\<close>

definition usec :: "timeval \<Rightarrow> u64" where
  "usec T = word_of_int (tv_sec T) * 1000000 + word_of_int (tv_usec T)"

definition now_is :: "timeval \<Rightarrow> bench \<Rightarrow> bool" where
  "now_is T b \<longleftrightarrow> b_clock b = T \<and> (tv_sec (b_tv b) = 0 \<or> b_tv b = T)"

lemma now_is_times:
  assumes "now_is T b"
  shows "\<exists>b'. GetusecTime b = (usec T, b') \<and> (b' = b \<or> b' = b\<lparr>b_tv := T\<rparr>)"
    "\<exists>u b'. GetmsecTime b = (u, b') \<and> (b' = b \<or> b' = b\<lparr>b_tv := T\<rparr>)"
  using assms by (auto simp: GetusecTime_def GetmsecTime_def read_tv_def now_is_def usec_def Let_def)

text \<open>The client: what it waits for and how much of the request it has sent.\<close>

definition client_at :: "int \<Rightarrow> u32 \<Rightarrow> u32 \<Rightarrow> ClientFD \<Rightarrow> bool" where
  "client_at fd m sent c \<longleftrightarrow> 0 \<le> fd \<and> cl_fd c = fd \<and> cl_mask c = m \<and> pep_loop c \<noteq> NULL \<and> pst_config c \<noteq> NULL
     \<and> sendedLen c = sent \<and> sendBufLen c = 334 \<and> recvBufLen c = 0 \<and> take 334 (sendBuf c) = request_bytes
     \<and> length (recvBuf c) = 4097 \<and> wFuncProc c = Some SendToServer
     \<and> (m = READABLE \<longrightarrow> rFuncProc c = Some RecvFromServer)"

text \<open>The program: \<open>n\<close> requests are wanted, \<open>k\<close> are answered, and \<open>q\<close> were sent.\<close>

definition counts_at :: "nat \<Rightarrow> nat \<Rightarrow> nat \<Rightarrow> StatisticsStruct \<Rightarrow> bool" where
  "counts_at n k q s \<longleftrightarrow> needClientNum s = 1 \<and> needRequestNum s = of_nat n \<and> n < 2 ^ 32
     \<and> doneRequests s = of_nat k \<and> totalRequests s = of_nat q \<and> map_option length (latency s) = Some n
     \<and> keepalive s \<noteq> 0 \<and> randomFlag s \<noteq> 1"

definition client_sock :: "kernel \<Rightarrow> int \<Rightarrow> buf list \<Rightarrow> nat list \<Rightarrow> buf \<Rightarrow> bool" where
  "client_sock k fd answers rooms sent \<longleftrightarrow> (case k_socks k fd of None \<Rightarrow> False
     | Some so \<Rightarrow> s_in so = map Data answers \<and> s_out so = map Room rooms \<and> s_sent so = sent)"

definition program_at ::
  "timeval \<Rightarrow> int \<Rightarrow> nat \<Rightarrow> nat \<Rightarrow> nat \<Rightarrow> ClientFD \<Rightarrow> EpollLoop \<Rightarrow> buf list \<Rightarrow> nat list \<Rightarrow> bench \<Rightarrow> bool" where
  "program_at T fd n k q c lp answers rooms b \<longleftrightarrow> clients_ptr (b_conf b) = Some [c]
     \<and> epoll_loop (b_conf b) = Some lp \<and> stop lp \<noteq> 0 \<and> counts_at n k q (b_conf b) \<and> now_is T b
     \<and> k_ctl (b_kern b) = [] \<and> k_interest (b_kern b) fd = Some (client_events (cl_mask c))
     \<and> client_sock (b_kern b) fd answers rooms (concat (replicate q request_bytes))"

definition serving :: "timeval \<Rightarrow> int \<Rightarrow> nat \<Rightarrow> nat \<Rightarrow> buf list \<Rightarrow> nat list \<Rightarrow> bench \<Rightarrow> bool" where
  "serving T fd n k answers rooms b \<longleftrightarrow>
     (\<exists>c lp. program_at T fd n k k c lp answers rooms b \<and> client_at fd WRITEABLE 0 c)"

definition awaiting :: "timeval \<Rightarrow> int \<Rightarrow> nat \<Rightarrow> nat \<Rightarrow> buf list \<Rightarrow> nat list \<Rightarrow> bench \<Rightarrow> bool" where
  "awaiting T fd n k answers rooms b \<longleftrightarrow>
     (\<exists>c lp. program_at T fd n k (Suc k) c lp answers rooms b \<and> client_at fd READABLE 334 c)"

text \<open>The program after its last answer: it has been told to stop.\<close>

definition finished :: "timeval \<Rightarrow> int \<Rightarrow> nat \<Rightarrow> bench \<Rightarrow> bool" where
  "finished T fd n b \<longleftrightarrow> loop_over b \<and> counts_at n n n (b_conf b) \<and> now_is T b
     \<and> (\<exists>so. k_socks (b_kern b) fd = Some so \<and> s_sent so = concat (replicate n request_bytes))"

lemma client_live_at:
  assumes "program_at T fd n k q c lp answers rooms b" "client_at fd m sent (c\<lparr>recvBufLen := 0\<rparr>)"
    "m = WRITEABLE \<or> m = READABLE" "sent \<le> 334"
  shows "client_live (b_kern b) 1 0 c" "get_client b 0 = Inr c"
  using assms
  by (auto simp: program_at_def client_at_def client_live_def watched_for_def slot_of_def sock_is_open_def client_sock_def
      get_client_def split: option.splits)

lemma concat_replicate_snoc: "concat (replicate (Suc k) xs) = concat (replicate k xs) @ xs"
  using arg_cong [OF replicate_append_same [of k xs], of concat] by simp

lemma note_send_single:
  assumes c: "clients_ptr (b_conf b) = Some [c]" and t: "now_is T b" and z: "sendedLen c = 0"
  shows "\<exists>b1. note_send b 0 c = put_client b1 0 (c\<lparr>cl_startTime := usec T, cl_latency := -1, touchTime := usec T\<rparr>)
     \<and> (b1 = b \<or> b1 = b\<lparr>b_tv := T\<rparr>)"
  using assms by (auto simp: note_send_def GetusecTime_def read_tv_def now_is_def usec_def Let_def)

text \<open>The whole request is sent: the client waits for the response.\<close>

lemma turn_to_response:
  assumes p: "program_at T fd n k (Suc k) c lp answers rooms b" and c: "client_at fd WRITEABLE 334 c"
  shows "\<exists>b'. cbind (ReactorDelEvent b 0 WRITEABLE) (\<lambda>(_, b5).
        cbind (ReactorAddEvent b5 0 READABLE RecvFromServer) (\<lambda>(_, b6). Inr (0 :: int, b6))) = Inr (0, b')
     \<and> awaiting T fd n k answers rooms b'"
proof -
  have lv: "client_live (b_kern b) 1 0 c" "get_client b 0 = Inr c"
    by (rule client_live_at [OF p, of WRITEABLE 334], use c in \<open>simp_all add: client_at_def\<close>)+
  let ?b' = "put_bkern (put_client b 0 (set_reading c)) (watch_fd (b_kern b) fd (Some EPOLLIN))"
  have "program_at T fd n k (Suc k) (set_reading c) lp answers rooms ?b'"
    using p by (simp add: program_at_def counts_at_def now_is_def client_sock_def set_reading_def put_bkern_def)
       (simp add: put_client_def put_conf_def)
  moreover have "client_at fd READABLE 334 (set_reading c)" using c by (simp add: client_at_def set_reading_def)
  ultimately have "awaiting T fd n k answers rooms ?b'" unfolding awaiting_def by blast
  then show ?thesis
    using switch_to_reading [OF lv(2,1)] p c
      cbind_pair_assoc [of "ReactorDelEvent b 0 WRITEABLE" "\<lambda>b1. ReactorAddEvent b1 0 READABLE RecvFromServer" "\<lambda>(_, b6). Inr (0 :: int, b6)"]
    by (simp add: client_at_def program_at_def)
qed

lemma send_turn:
  assumes s: "serving T fd n k answers (r # rooms) b" and r: "334 \<le> r"
  shows "\<exists>b'. SendToServerCallback b 0 = Inr (0, b') \<and> awaiting T fd n k answers rooms b'"
proof -
  obtain c lp where p: "program_at T fd n k k c lp answers (r # rooms) b" and c: "client_at fd WRITEABLE 0 c"
    using s unfolding serving_def by blast
  note p' = p [unfolded program_at_def]
  obtain so where so: "k_socks (b_kern b) fd = Some so" "s_in so = map Data answers" "s_out so = Room r # map Room rooms"
      "s_sent so = concat (replicate k request_bytes)"
    using p' by (auto simp: client_sock_def split: option.splits)
  have cl: "clients_ptr (b_conf b) = Some [c]" "now_is T b" "sendedLen c = 0" using p' c by (simp_all add: client_at_def)
  let ?c1 = "c\<lparr>cl_startTime := usec T, cl_latency := -1, touchTime := usec T\<rparr>"
  obtain b1 where b1: "note_send b 0 c = put_client b1 0 ?c1" "b1 = b \<or> b1 = b\<lparr>b_tv := T\<rparr>"
    using note_send_single [OF cl] by blast
  let ?b1 = "put_client b1 0 ?c1"
  let ?b2 = "set_sock ?b1 fd (so\<lparr>s_out := map Room rooms, s_sent := s_sent so @ request_bytes\<rparr>) (b_errno b)"
  let ?b3 = "put_conf ?b2 ((b_conf ?b2)\<lparr>totalRequests := totalRequests (b_conf ?b2) + 1\<rparr>)"
  let ?c4 = "?c1\<lparr>sendedLen := 334\<rparr>"
  let ?b4 = "put_client ?b3 0 ?c4"
  have g: "get_client b 0 = Inr c" "get_client ?b1 0 = Inr ?c1" using cl(1) b1(2) by (auto simp: get_client_def)
  have "334 \<le> length (sendBuf c)"
    using c length_request by (metis client_at_def length_take min.cobounded1)
  then have w: "client_write ?b1 ?c1 = Inr (Got 334, ?b2)"
    using c so b1(2) r by (auto simp: client_write_def client_at_def write_loop.simps mem_slice_def min_absorb2)
  have p4: "program_at T fd n k (Suc k) ?c4 lp answers rooms ?b4"
    unfolding program_at_def concat_replicate_snoc using p' b1(2) so
    by (auto simp: counts_at_def now_is_def set_sock_def put_conf_def put_client_def client_sock_def)
  have c4: "client_at fd WRITEABLE 334 ?c4" using c by (simp add: client_at_def)
  obtain b' where b': "cbind (ReactorDelEvent ?b4 0 WRITEABLE) (\<lambda>(_, b5).
        cbind (ReactorAddEvent b5 0 READABLE RecvFromServer) (\<lambda>(_, b6). Inr (0 :: int, b6))) = Inr (0, b')"
      "awaiting T fd n k answers rooms b'"
    using turn_to_response [OF p4 c4] by blast
  have "SendToServerCallback b 0 = Inr (0, b')"
    using b1(1) w g c b'(1) by (simp add: SendToServerCallback_def Let_def client_at_def)
  then show ?thesis using b'(2) by blast
qed

text \<open>A client that is kept alive starts its next request on the same connection.\<close>

lemma reset_single:
  assumes g: "get_client b 0 = Inr c" and lv: "client_live (b_kern b) 1 0 c" and k: "k_ctl (b_kern b) = []" and r: "randomFlag (b_conf b) \<noteq> 1"
  shows "\<exists>b3. b3 = put_client (put_bkern (put_client b 0 (set_writing c)) (watch_fd (b_kern b) (cl_fd c) (Some EPOLLOUT))) 0
        ((set_writing c)\<lparr>recvBufLen := 0, sendedLen := 0\<rparr>)
     \<and> ReactorResetClient b 0 = Inr (put_conf b3 ((b_conf b3)\<lparr>resetClientNum := resetClientNum (b_conf b3) + 1\<rparr>))"
proof -
  let ?b2 = "put_bkern (put_client b 0 (set_writing c)) (watch_fd (b_kern b) (cl_fd c) (Some EPOLLOUT))"
  have "get_client ?b2 0 = Inr (set_writing c)" using g by simp
  then show ?thesis
    unfolding ReactorResetClient_def cbind_pair_assoc switch_to_writing [OF g lv k]
    using r lv by (simp add: client_live_def set_writing_def Let_def)
qed

lemma note_recv_single:
  assumes c: "clients_ptr (b_conf b) = Some [c]" and t: "now_is T b"
  shows "\<exists>b1 l. note_recv b 0 c = put_client b1 0 (c\<lparr>touchTime := usec T, cl_latency := l\<rparr>)
     \<and> (b1 = b \<or> b1 = b\<lparr>b_tv := T\<rparr>)"
proof (cases "sint (cl_latency c) < 0")
  case True
  then show ?thesis using assms
    by (intro exI [of _ "if tv_sec (b_tv b) = 0 then b\<lparr>b_tv := T\<rparr> else b"] exI [of _ "usec T - cl_startTime c"])
       (auto simp: note_recv_def GetusecTime_def read_tv_def now_is_def usec_def Let_def)
next
  case False
  then show ?thesis using assms
    by (intro exI [of _ "if tv_sec (b_tv b) = 0 then b\<lparr>b_tv := T\<rparr> else b"] exI [of _ "cl_latency c"])
       (auto simp: note_recv_def GetusecTime_def read_tv_def now_is_def usec_def Let_def)
qed

lemma unat_count: "k < 2 ^ 32 \<Longrightarrow> unat (of_nat k :: u32) = k"
  by (simp add: unat_of_nat)

lemma record_single:
  assumes "doneRequests (b_conf b) = of_nat k" "needRequestNum (b_conf b) = of_nat n" "latency (b_conf b) = Some xs"
    and "length xs = n" "k < n" "n < 2 ^ 32"
  shows "record_latency b c =
    Inr (put_conf b ((b_conf b)\<lparr>latency := Some (xs[k := cl_latency c]), doneRequests := of_nat (Suc k)\<rparr>))"
proof -
  have k: "unat (of_nat k :: u32) = k" "unat (of_nat n :: u32) = n" using unat_count [of k] unat_count [of n] assms(5,6) by simp_all
  have "(of_nat k :: u32) < of_nat n" using k assms(5) by (simp add: word_less_nat_alt)
  moreover have "of_nat k + 1 = (of_nat (Suc k) :: u32)" by simp
  ultimately show ?thesis using assms k by (simp add: record_latency_def Let_def add.commute)
qed

lemma recv_data:
  assumes s: "awaiting T fd n k (bs # answers) rooms b" and bs: "bs \<noteq> []" "length bs \<le> 4096"
  obtains b3 c lp where "program_at T fd n k (Suc k) c lp answers rooms b3" "client_at fd READABLE 334 (c\<lparr>recvBufLen := 0\<rparr>)"
    "RecvFromServerCallback b 0 =
      cbind (record_latency b3 c) (\<lambda>b4. cbind (ReactorCloseConnectionNormal b4 0) (\<lambda>b5. Inr (0, b5)))"
proof -
  obtain c lp where p: "program_at T fd n k (Suc k) c lp (bs # answers) rooms b" and c: "client_at fd READABLE 334 c"
    using s unfolding awaiting_def by blast
  note p' = p [unfolded program_at_def]
  obtain so where so: "k_socks (b_kern b) fd = Some so" "s_in so = Data bs # map Data answers" "s_out so = map Room rooms"
      "s_sent so = concat (replicate (Suc k) request_bytes)"
    using p' by (auto simp: client_sock_def split: option.splits)
  have cl: "clients_ptr (b_conf b) = Some [c]" "now_is T b" using p' by simp_all
  obtain b1 l where b1: "note_recv b 0 c = put_client b1 0 (c\<lparr>touchTime := usec T, cl_latency := l\<rparr>)"
      "b1 = b \<or> b1 = b\<lparr>b_tv := T\<rparr>"
    using note_recv_single [OF cl] by blast
  let ?c1 = "c\<lparr>touchTime := usec T, cl_latency := l\<rparr>"
  let ?b1 = "put_client b1 0 ?c1"
  let ?data = "bs @ drop (length bs) (recvBuf c)"
  let ?b2 = "set_sock ?b1 fd (so\<lparr>s_in := map Data answers\<rparr>) (b_errno b)"
  let ?c3 = "?c1\<lparr>recvBuf := ?data, recvBufLen := of_nat (length bs)\<rparr>"
  let ?b3 = "put_client ?b2 0 ?c3"
  have g: "get_client b 0 = Inr c" "get_client ?b1 0 = Inr ?c1" using cl(1) b1(2) by (auto simp: get_client_def)
  have w: "client_read ?b1 ?c1 = Inr ((Got bs, ?data), ?b2)"
    using c so b1(2) bs by (auto simp: client_read_def client_at_def read_loop.simps mem_copy_def MAX_RECV_BUF_LEN_def)
  have small: "uint (word_of_nat (length bs) :: u32) \<le> MAX_RECV_BUF_LEN"
    using bs(2) by (simp add: MAX_RECV_BUF_LEN_def uint_nat unat_of_nat del: of_nat_unat)
  have "RecvFromServerCallback b 0 = cbind (record_latency ?b3 ?c3) (\<lambda>b4.
                  cbind (ReactorCloseConnectionNormal b4 0) (\<lambda>b5. Inr (0, b5)))"
    using b1(1) w g c small bs(1)
    by (simp add: RecvFromServerCallback_def Let_def client_at_def DecodeResponse_def)
  moreover have "program_at T fd n k (Suc k) ?c3 lp answers rooms ?b3"
    unfolding program_at_def using p' b1(2) so
    by (auto simp: counts_at_def now_is_def set_sock_def put_conf_def put_client_def client_sock_def)
  moreover have "client_at fd READABLE 334 (?c3\<lparr>recvBufLen := 0\<rparr>)" using c bs(2) by (simp add: client_at_def)
  ultimately show thesis using that by blast
qed

lemma response_recorded:
  assumes p: "program_at T fd n k (Suc k) c lp answers rooms b" and k: "k < n"
  shows "\<exists>b'. record_latency b c = Inr b' \<and> program_at T fd n (Suc k) (Suc k) c lp answers rooms b'"
proof -
  obtain xs where xs: "latency (b_conf b) = Some xs" "length xs = n" using p by (auto simp: program_at_def counts_at_def)
  have cnt: "doneRequests (b_conf b) = of_nat k" "needRequestNum (b_conf b) = of_nat n" "n < 2 ^ 32"
    using p by (simp_all add: program_at_def counts_at_def)
  show ?thesis
    using record_single [OF cnt(1,2) xs k cnt(3), of c] p xs(2) cnt(3)
    by (simp add: program_at_def counts_at_def now_is_def put_conf_def)
qed

lemma last_response:
  assumes p: "program_at T fd n n n c lp answers rooms b" and c: "client_at fd READABLE 334 (c\<lparr>recvBufLen := 0\<rparr>)"
  shows "ReactorCloseConnectionNormal b 0 = Inr (stop_loop b) \<and> finished T fd n (stop_loop b)"
proof -
  have "get_client b 0 = Inr c" by (rule client_live_at(2) [OF p c]) simp_all
  then show ?thesis
    using p c by (auto simp: ReactorCloseConnectionNormal_def program_at_def client_at_def counts_at_def finished_def
        loop_over_def stop_loop_def now_is_def put_conf_def client_sock_def split: option.splits)
qed

lemma next_request:
  assumes p: "program_at T fd n k k c lp answers rooms b" and c: "client_at fd READABLE 334 (c\<lparr>recvBufLen := 0\<rparr>)"
    and k: "k < n"
  shows "\<exists>b'. ReactorCloseConnectionNormal b 0 = Inr b' \<and> serving T fd n k answers rooms b'"
proof -
  have lv: "client_live (b_kern b) 1 0 c" "get_client b 0 = Inr c"
    by (rule client_live_at [OF p c], simp_all)+
  have cnt: "k_ctl (b_kern b) = []" "randomFlag (b_conf b) \<noteq> 1" "keepalive (b_conf b) \<noteq> 0" "n < 2 ^ 32"
      "doneRequests (b_conf b) = of_nat k" "needRequestNum (b_conf b) = of_nat n"
    using p by (simp_all add: program_at_def counts_at_def)
  have more: "\<not> needRequestNum (b_conf b) \<le> doneRequests (b_conf b)"
    using cnt(4-6) k unat_count [of k] unat_count [of n] by (simp add: word_le_nat_alt)
  obtain b3 where b3: "b3 = put_client (put_bkern (put_client b 0 (set_writing c)) (watch_fd (b_kern b) (cl_fd c) (Some EPOLLOUT))) 0
        ((set_writing c)\<lparr>recvBufLen := 0, sendedLen := 0\<rparr>)"
      "ReactorResetClient b 0 = Inr (put_conf b3 ((b_conf b3)\<lparr>resetClientNum := resetClientNum (b_conf b3) + 1\<rparr>))"
    using reset_single [OF lv(2,1) cnt(1,2)] by blast
  let ?b' = "put_conf b3 ((b_conf b3)\<lparr>resetClientNum := resetClientNum (b_conf b3) + 1\<rparr>)"
  let ?c' = "(set_writing c)\<lparr>recvBufLen := 0, sendedLen := 0\<rparr>"
  have fd: "cl_fd c = fd" using c by (simp add: client_at_def)
  have "program_at T fd n k k ?c' lp answers rooms ?b'"
    using p unfolding b3(1) fd
    by (simp add: program_at_def counts_at_def now_is_def client_sock_def set_writing_def)
       (simp add: put_client_def put_conf_def put_bkern_def)
  moreover have "client_at fd WRITEABLE 0 ?c'" using c by (simp add: client_at_def set_writing_def)
  ultimately have "serving T fd n k answers rooms ?b'" unfolding serving_def by blast
  moreover have "ReactorCloseConnectionNormal b 0 = Inr ?b'"
    using lv more cnt(3) b3(2) by (simp add: ReactorCloseConnectionNormal_def client_live_def)
  ultimately show ?thesis by blast
qed

lemma recv_turn:
  assumes s: "awaiting T fd n k (bs # answers) rooms b" and bs: "bs \<noteq> []" "length bs \<le> 4096" and k: "k < n"
  shows "\<exists>b'. RecvFromServerCallback b 0 = Inr (0, b')
    \<and> (if Suc k = n then finished T fd n b' else serving T fd n (Suc k) answers rooms b')"
proof (rule recv_data [OF s bs])
  fix b3 c lp
  assume p: "program_at T fd n k (Suc k) c lp answers rooms b3" and c: "client_at fd READABLE 334 (c\<lparr>recvBufLen := 0\<rparr>)"
    and run: "RecvFromServerCallback b 0 =
      cbind (record_latency b3 c) (\<lambda>b4. cbind (ReactorCloseConnectionNormal b4 0) (\<lambda>b5. Inr (0, b5)))"
  obtain b4 where b4: "record_latency b3 c = Inr b4" "program_at T fd n (Suc k) (Suc k) c lp answers rooms b4"
    using response_recorded [OF p k] by blast
  show ?thesis
    using last_response [of T fd n c lp answers rooms b4] next_request [OF b4(2) c] b4 c k run by (cases "Suc k = n") auto
qed


section \<open>The turns of the loop\<close>

text \<open>Reading the clock changes nothing the client depends on.\<close>

lemma states_at_T:
  "serving T fd n k answers rooms b \<Longrightarrow> serving T fd n k answers rooms (b\<lparr>b_tv := T, b_clock := T\<rparr>)"
  "awaiting T fd n k answers rooms b \<Longrightarrow> awaiting T fd n k answers rooms (b\<lparr>b_tv := T, b_clock := T\<rparr>)"
  "serving T fd n k answers rooms b \<Longrightarrow> serving T fd n k answers rooms (b\<lparr>b_tv := T\<rparr>)"
  "awaiting T fd n k answers rooms b \<Longrightarrow> awaiting T fd n k answers rooms (b\<lparr>b_tv := T\<rparr>)"
  "finished T fd n b \<Longrightarrow> finished T fd n (b\<lparr>b_tv := T\<rparr>)"
  unfolding serving_def awaiting_def finished_def program_at_def now_is_def loop_over_def by auto

lemma states_now:
  "serving T fd n k answers rooms b \<Longrightarrow> now_is T b" "awaiting T fd n k answers rooms b \<Longrightarrow> now_is T b"
  "finished T fd n b \<Longrightarrow> now_is T b"
  by (auto simp: serving_def awaiting_def finished_def program_at_def)

lemma no_timeout_check:
  assumes "now_is T b" "P b" "P b \<Longrightarrow> P (b\<lparr>b_tv := T\<rparr>)"
  shows "\<exists>b'. check_timeouts b (usec T) = Inr (usec T, b') \<and> P b'"
  using now_is_times(1) [OF assms(1)] assms(2,3) by (auto simp: check_timeouts_def TIMEOUT_USEC_TIMEVAL_def)

lemma single_event:
  assumes n: "needClientNum (b_conf b) = 1" and g: "get_client b 0 = Inr c"
  shows "wFuncProc c = Some SendToServer \<Longrightarrow> SendToServerCallback b 0 = Inr (r, b')
      \<Longrightarrow> bench_events b fails [(fd, EPOLLOUT)] = Inr (fails, b')"
    "rFuncProc c = Some RecvFromServer \<Longrightarrow> RecvFromServerCallback b 0 = Inr (r, b')
      \<Longrightarrow> bench_events b fails [(fd, EPOLLIN)] = Inr (fails, b')"
  using assms
  by (simp_all add: bench_event_def client_index_def run_client_callback_def EPOLLOUT_def EPOLLIN_def EPOLLERR_def EPOLLHUP_def)

lemma states_client:
  "serving T fd n k answers rooms b \<Longrightarrow> \<exists>c. get_client b 0 = Inr c \<and> wFuncProc c = Some SendToServer"
  "awaiting T fd n k answers rooms b \<Longrightarrow> \<exists>c. get_client b 0 = Inr c \<and> rFuncProc c = Some RecvFromServer"
  "serving T fd n k answers rooms b \<Longrightarrow> needClientNum (b_conf b) = 1"
  "awaiting T fd n k answers rooms b \<Longrightarrow> needClientNum (b_conf b) = 1"
  by (auto simp: serving_def awaiting_def program_at_def client_at_def get_client_def counts_at_def)

lemma turn_from_events:
  assumes "bench_events (b\<lparr>b_tv := T, b_clock := T\<rparr>) fails evs = Inr (fails, b1)" "now_is T b1" "P b1" "P b1 \<Longrightarrow> P (b1\<lparr>b_tv := T\<rparr>)"
  shows "\<exists>b'. bench_turn b fails (usec T) (evs, T) = Inr ((fails, usec T), b') \<and> P b'"
proof -
  have "TouchTime (b\<lparr>b_clock := T\<rparr>) = b\<lparr>b_tv := T, b_clock := T\<rparr>" by (simp add: TouchTime_def)
  then show ?thesis using no_timeout_check [of T b1 P] assms by (auto simp: bench_turn_def)
qed

lemma send_loop_turn:
  assumes s: "serving T fd n k answers (r # rooms) b" and r: "334 \<le> r"
  shows "\<exists>b'. bench_turn b fails (usec T) ([(fd, EPOLLOUT)], T) = Inr ((fails, usec T), b') \<and> awaiting T fd n k answers rooms b'"
proof -
  note s' = states_at_T(1) [OF s]
  obtain b1 where b1: "SendToServerCallback (b\<lparr>b_tv := T, b_clock := T\<rparr>) 0 = Inr (0, b1)" "awaiting T fd n k answers rooms b1"
    using send_turn [OF s' r] by blast
  obtain c where c: "get_client (b\<lparr>b_tv := T, b_clock := T\<rparr>) 0 = Inr c" "wFuncProc c = Some SendToServer"
    using states_client(1) [OF s'] by blast
  show ?thesis
    by (rule turn_from_events [OF single_event(1) [OF states_client(3) [OF s'] c b1(1)] states_now(2) [OF b1(2)] b1(2) states_at_T(4)])
qed

lemma recv_loop_turn:
  assumes s: "awaiting T fd n k (bs # answers) rooms b" and bs: "bs \<noteq> []" "length bs \<le> 4096" and k: "k < n"
  shows "\<exists>b'. bench_turn b fails (usec T) ([(fd, EPOLLIN)], T) = Inr ((fails, usec T), b')
    \<and> (if Suc k = n then finished T fd n b' else serving T fd n (Suc k) answers rooms b')"
proof -
  note s' = states_at_T(2) [OF s]
  obtain b1 where b1: "RecvFromServerCallback (b\<lparr>b_tv := T, b_clock := T\<rparr>) 0 = Inr (0, b1)"
      "if Suc k = n then finished T fd n b1 else serving T fd n (Suc k) answers rooms b1"
    using recv_turn [OF s' bs k] by blast
  obtain c where c: "get_client (b\<lparr>b_tv := T, b_clock := T\<rparr>) 0 = Inr c" "rFuncProc c = Some RecvFromServer"
    using states_client(2) [OF s'] by blast
  have "now_is T b1" using b1(2) states_now(1,3) by (auto split: if_splits)
  from turn_from_events [OF single_event(2) [OF states_client(4) [OF s'] c b1(1)] this,
      where P = "\<lambda>b'. if Suc k = n then finished T fd n b' else serving T fd n (Suc k) answers rooms b'"]
  show ?thesis using b1(2) states_at_T(3,5) by auto
qed

text \<open>The answers of \<open>epoll_wait\<close> in such a run: room for a request, then its response, in turn.\<close>

definition serve_replies :: "int \<Rightarrow> timeval \<Rightarrow> nat \<Rightarrow> bench_reply list" where
  "serve_replies fd T n = concat (replicate n [([(fd, EPOLLOUT)], T), ([(fd, EPOLLIN)], T)])"

lemma states_running:
  "serving T fd n k answers rooms b \<Longrightarrow> \<exists>lp. epoll_loop (b_conf b) = Some lp \<and> stop lp \<noteq> 0"
  "awaiting T fd n k answers rooms b \<Longrightarrow> \<exists>lp. epoll_loop (b_conf b) = Some lp \<and> stop lp \<noteq> 0"
  by (auto simp: serving_def awaiting_def program_at_def)

lemma loop_serves:
  assumes "serving T fd n k answers rooms b" "k + length answers = n" "length rooms = length answers" "answers \<noteq> []"
    "\<forall>a \<in> set answers. a \<noteq> [] \<and> length a \<le> 4096" "\<forall>r \<in> set rooms. 334 \<le> r"
  shows "\<exists>b'. bench_loop b fails (usec T) (serve_replies fd T (length answers)) = Inr (True, b') \<and> finished T fd n b'"
  using assms
proof (induction answers arbitrary: k rooms b)
  case (Cons a answers)
  obtain r rooms' where rooms: "rooms = r # rooms'" using Cons.prems(3) by (cases rooms) auto
  obtain b1 where b1: "bench_turn b fails (usec T) ([(fd, EPOLLOUT)], T) = Inr ((fails, usec T), b1)"
      "awaiting T fd n k (a # answers) rooms' b1"
    using send_loop_turn [of T fd n k "a # answers" r rooms' b fails] Cons.prems(1,6) rooms by auto
  obtain b2 where b2: "bench_turn b1 fails (usec T) ([(fd, EPOLLIN)], T) = Inr ((fails, usec T), b2)"
      "if Suc k = n then finished T fd n b2 else serving T fd n (Suc k) answers rooms' b2"
    using recv_loop_turn [OF b1(2), of fails] Cons.prems(2,5) by auto
  have two: "bench_loop b fails (usec T) (serve_replies fd T (length (a # answers)))
      = bench_loop b2 fails (usec T) (serve_replies fd T (length answers))"
    using states_running(1) [OF Cons.prems(1)] states_running(2) [OF b1(2)] b1(1) b2(1)
    by (auto simp: serve_replies_def bench_loop.simps)
  show ?case
  proof (cases "answers = []")
    case True
    then have f: "finished T fd n b2" using b2(2) Cons.prems(2) by simp
    then have "bench_loop b2 fails (usec T) (serve_replies fd T (length answers)) = Inr (True, b2)"
      by (auto simp: finished_def loop_over_def bench_loop.simps split: option.splits)
    then show ?thesis using f two by auto
  next
    case False
    then have "serving T fd n (Suc k) answers rooms' b2" using b2(2) Cons.prems(2) by (auto split: if_splits)
    then show ?thesis using Cons.IH [of "Suc k" rooms' b2] Cons.prems rooms False two by auto
  qed
qed simp

end
