(* ===== verification/BenchComplete.thy ===== *)
theory BenchComplete
  imports BenchReport
begin

text \<open>
  The benchmark with one client and a server that answers, from the command line to the report.
\<close>

section \<open>The first connection\<close>

lemma client_socket_opens:
  assumes so: "b_sockets b = Socket fd InProgress err ins outs # rest" "0 \<le> fd" "fd \<le> INT_MAX" "\<not> sock_is_open (b_kern b) fd"
    and k: "k_ctl (b_kern b) = []" and p: "protocol (b_conf b) = PROTOCOL_TCP"
  shows "\<exists>b1. client_socket b = (Some fd, b1) \<and> b_conf b1 = b_conf b \<and> b_tv b1 = b_tv b \<and> b_clock b1 = b_clock b
     \<and> k_ctl (b_kern b1) = [] \<and> k_interest (b_kern b1) = k_interest (b_kern b)
     \<and> (\<exists>so. k_socks (b_kern b1) fd = Some so \<and> s_in so = ins \<and> s_out so = outs \<and> s_sent so = [])"
  using assms
  by (simp add: client_socket_def next_socket_def SetNonBlock_def SetTcpNoDelay_def sys_control_def put_bkern_def Let_def new_sock_def)

lemma first_client:
  assumes cs: "clients_ptr (b_conf b) = Some [zero_client\<lparr>cl_fd := FDARRAY_INDEX_INIT\<rparr>]" "needClientNum (b_conf b) = 1"
      "liveClientNum (b_conf b) = 0" "protocol (b_conf b) = PROTOCOL_TCP"
    and k: "k_ctl (b_kern b) = []" "k_interest (b_kern b) = (\<lambda>_. None)"
    and so: "b_sockets b = [Socket fd InProgress err (map Data answers) (map Room rooms)]" "0 \<le> fd" "fd \<le> INT_MAX"
      "\<not> sock_is_open (b_kern b) fd"
  shows "\<exists>b' c. ReactorClientInit b = Inr (0, b') \<and> client_at fd WRITEABLE 0 c
     \<and> b_conf b' = (b_conf b)\<lparr>clients_ptr := Some [c], liveClientNum := 1, createClientNum := createClientNum (b_conf b) + 1\<rparr>
     \<and> b_tv b' = b_tv b \<and> b_clock b' = b_clock b \<and> k_ctl (b_kern b') = [] \<and> k_interest (b_kern b') fd = Some EPOLLOUT
     \<and> client_sock (b_kern b') fd answers rooms []"
proof -
  obtain b1 so where b1: "client_socket b = (Some fd, b1)" "b_conf b1 = b_conf b" "b_tv b1 = b_tv b" "b_clock b1 = b_clock b"
      "k_ctl (b_kern b1) = []" "k_interest (b_kern b1) = k_interest (b_kern b)"
      "k_socks (b_kern b1) fd = Some so" "s_in so = map Data answers" "s_out so = map Room rooms" "s_sent so = []"
    using client_socket_opens [OF so k(1) cs(4)] by blast
  let ?c = "zero_client\<lparr>cl_fd := FDARRAY_INDEX_INIT\<rparr>"
  have buf: "length (sendBuf ?c) = 4097" "length (recvBuf ?c) = 4097"
    by (simp_all add: zero_client_def MAX_RECV_BUF_LEN_def MAX_SEND_BUF_LEN_def)
  obtain data where enc: "EncodeRequest (sendBuf ?c) (MAX_SEND_BUF_LEN + 1) = Inr (334, data)" "take 334 data = request_bytes"
    using EncodeRequest_ok [OF buf(1)] by blast
  let ?f = "fresh_client ?c fd 334 data"
  let ?b2 = "put_client b1 0 ?f"
  let ?b3 = "put_bkern (put_client ?b2 0 (set_writing ?f)) (watch_fd (b_kern ?b2) fd (Some EPOLLOUT))"
  let ?b' = "put_conf ?b3 ((b_conf ?b3)\<lparr>liveClientNum := liveClientNum (b_conf ?b3) + 1, createClientNum := createClientNum (b_conf ?b3) + 1\<rparr>)"
  have g: "get_client b1 0 = Inr ?c" "get_client ?b2 0 = Inr ?f" using cs(1) b1(2) by (simp_all add: get_client_def)
  have "ReactorAddEvent ?b2 0 WRITEABLE SendToServer = Inr (0, ?b3)"
    using AddEvent_form(1) [OF g(2), of SendToServer] b1(5,6,7) k(2)
    by (simp add: fresh_client_def set_writing_def sock_is_open_def)
  then have "ReactorClientInit b = Inr (0, ?b')"
    using b1(1,2) cs(2) g(1) enc(1) by (simp add: ReactorClientInit_def client_index_def)
  moreover have "client_at fd WRITEABLE 0 (set_writing ?f)"
    using so(2) enc(2) buf(2) by (simp add: client_at_def set_writing_def fresh_client_def)
  moreover have "b_conf ?b' = (b_conf b)\<lparr>clients_ptr := Some [set_writing ?f], liveClientNum := 1, createClientNum := createClientNum (b_conf b) + 1\<rparr>"
    "b_tv ?b' = b_tv b" "b_clock ?b' = b_clock b"
    using b1(2-4) cs(1,3) by (simp_all add: put_conf_def put_client_def put_bkern_def)
  moreover have "client_sock (b_kern ?b') fd answers rooms []" using b1(7-10) by (simp add: client_sock_def)
  ultimately show ?thesis using b1(5) by (intro exI [of _ ?b'] exI [of _ "set_writing ?f"]) simp
qed

text \<open>What the options \<open>-c 1 -n n -k\<close> ask for.\<close>

definition one_client_conf :: "nat \<Rightarrow> StatisticsStruct \<Rightarrow> StatisticsStruct" where
  "one_client_conf n s = (InitConfig s)\<lparr>needClientNum := 1, needRequestNum := of_nat n, keepalive := 1\<rparr>"

lemma reactor_starts_one:
  assumes b: "b_conf b = one_client_conf n s" "False \<notin> set (b_malloc b)" "0 \<le> ep" "n < 2 ^ 32"
      "b_clock b = T" "tv_sec (b_tv b) = 0"
    and k: "k_ctl (b_kern b) = []" "k_interest (b_kern b) = (\<lambda>_. None)"
    and so: "b_sockets b = [Socket fd InProgress err (map Data answers) (map Room rooms)]" "0 \<le> fd" "fd \<le> INT_MAX"
      "\<not> sock_is_open (b_kern b) fd"
  shows "\<exists>b'. InitSingleReactor b ep = Inr (0, b') \<and> serving T fd n 0 answers rooms b'"
proof -
  obtain ok1 r1 where 1: "next_answer (b_malloc b) = (ok1, r1)" by fastforce
  obtain ok2 r2 where 2: "next_answer r1 = (ok2, r2)" by fastforce
  obtain ok3 r3 where 3: "next_answer r2 = (ok3, r3)" by fastforce
  obtain ok4 r4 where 4: "next_answer r3 = (ok4, r4)" by fastforce
  have oks: "ok1" "ok2" "ok3" "ok4"
    using next_answer_granted [OF b(2) 1] next_answer_granted [OF _ 2] next_answer_granted [OF _ 3] next_answer_granted [OF _ 4]
    by blast+
  let ?s = "(b_conf b)\<lparr>clients_ptr := Some [zero_client\<lparr>cl_fd := FDARRAY_INDEX_INIT\<rparr>],
     latency := Some (replicate n 0), epoll_loop := Some \<lparr>stop = 1, epfd = ep\<rparr>\<rparr>"
  let ?b4 = "put_conf (b\<lparr>b_malloc := r4\<rparr>) ?s"
  obtain b' c where b': "ReactorClientInit ?b4 = Inr (0, b')" "client_at fd WRITEABLE 0 c"
      "b_conf b' = ?s\<lparr>clients_ptr := Some [c], liveClientNum := 1, createClientNum := createClientNum ?s + 1\<rparr>"
      "b_tv b' = b_tv b" "b_clock b' = b_clock b" "k_ctl (b_kern b') = []" "k_interest (b_kern b') fd = Some EPOLLOUT"
      "client_sock (b_kern b') fd answers rooms []"
    using first_client [of ?b4 fd err answers rooms] b(1) k so by (auto simp: one_client_conf_def InitConfig_def put_conf_def)
  have "InitSingleReactor b ep = cbind (refill ?b4) (\<lambda>b5. Inr (0, b5))"
    using 1 2 3 4 oks b(1,3,4)
    by (simp add: InitSingleReactor_def CreateSingleEpollLoop_def Let_def one_client_conf_def unat_count put_conf_def)
  moreover have "refill ?b4 = Inr b'"
    using b'(1,3) b(1) by (simp add: refill_def fill_clients.simps one_client_conf_def InitConfig_def)
  ultimately have "InitSingleReactor b ep = Inr (0, b')" by simp
  moreover have "program_at T fd n 0 0 c \<lparr>stop = 1, epfd = ep\<rparr> answers rooms b'"
    using b' b(1,4-6) by (simp add: program_at_def counts_at_def now_is_def client_at_def one_client_conf_def InitConfig_def)
  ultimately show ?thesis using b'(2) by (auto simp: serving_def)
qed


section \<open>The connect tests\<close>

lemma test_connects:
  assumes so: "b_sockets b = Socket f InProgress (Some 0) ins outs # rest" "0 \<le> f" "f \<le> INT_MAX" "\<not> sock_is_open (b_kern b) f"
    and k: "k_ctl (b_kern b) = []"
  shows "\<exists>b'. TestConnect b = (0, b') \<and> b_conf b' = b_conf b \<and> b_malloc b' = b_malloc b \<and> b_tv b' = b_tv b
     \<and> b_clock b' = b_clock b \<and> b_sockets b' = rest \<and> k_ctl (b_kern b') = [] \<and> k_interest (b_kern b') = k_interest (b_kern b)
     \<and> (\<forall>x. sock_is_open (b_kern b') x \<longleftrightarrow> x = f \<or> sock_is_open (b_kern b) x)"
  using assms
  by (simp add: TestConnect_def next_socket_def SetNonBlock_def sys_control_def put_bkern_def Let_def sock_is_open_def)

lemma options_accepted:
  assumes k: "k_ctl (b_kern b) = []" "k_interest (b_kern b) = (\<lambda>_. None)"
    and so: "b_sockets b = [Socket f1 InProgress (Some 0) i1 o1, Socket f2 InProgress (Some 0) i2 o2, conn]"
      "distinct [f1, f2, fd]" "\<forall>f \<in> {f1, f2, fd}. 0 \<le> f \<and> f \<le> INT_MAX \<and> \<not> sock_is_open (b_kern b) f"
    and h: "host_ok (strncpy16 (ascii ''127.0.0.1''))"
  shows "\<exists>b'. ParseOptions host_ok (put_conf b (InitConfig (b_conf b))) [OptC 1, OptN (int n), OptK] = Inr b'
     \<and> b_conf b' = one_client_conf n (b_conf b) \<and> b_malloc b' = b_malloc b \<and> b_tv b' = b_tv b \<and> b_clock b' = b_clock b
     \<and> b_sockets b' = [conn] \<and> k_ctl (b_kern b') = [] \<and> k_interest (b_kern b') = (\<lambda>_. None) \<and> \<not> sock_is_open (b_kern b') fd"
proof -
  let ?b = "put_conf b (one_client_conf n (b_conf b))"
  have opts: "apply_opts (InitConfig (b_conf b)) [OptC 1, OptN (int n), OptK] = Inr (one_client_conf n (b_conf b))"
    by (simp add: one_client_conf_def)
  have host: "szhost (one_client_conf n (b_conf b)) = strncpy16 (ascii ''127.0.0.1'')" "port (one_client_conf n (b_conf b)) = 5113"
    by (simp_all add: one_client_conf_def InitConfig_def)
  obtain b1 where b1: "TestConnect ?b = (0, b1)" "b_conf b1 = one_client_conf n (b_conf b)" "b_malloc b1 = b_malloc b" "b_tv b1 = b_tv b"
     "b_clock b1 = b_clock b" "b_sockets b1 = [Socket f2 InProgress (Some 0) i2 o2, conn]" "k_ctl (b_kern b1) = []"
     "k_interest (b_kern b1) = (\<lambda>_. None)" "\<forall>x. sock_is_open (b_kern b1) x \<longleftrightarrow> x = f1 \<or> sock_is_open (b_kern b) x"
    using test_connects [of ?b f1 i1 o1 "[Socket f2 InProgress (Some 0) i2 o2, conn]"] k so by (auto simp: put_conf_def)
  obtain b2 where b2: "TestConnect b1 = (0, b2)" "b_conf b2 = one_client_conf n (b_conf b)" "b_malloc b2 = b_malloc b" "b_tv b2 = b_tv b"
     "b_clock b2 = b_clock b" "b_sockets b2 = [conn]" "k_ctl (b_kern b2) = []" "k_interest (b_kern b2) = (\<lambda>_. None)"
     "\<forall>x. sock_is_open (b_kern b2) x \<longleftrightarrow> x = f2 \<or> sock_is_open (b_kern b1) x"
    using test_connects [of b1 f2 i2 o2 "[conn]"] b1 so by auto
  have "ParseOptions host_ok (put_conf b (InitConfig (b_conf b))) [OptC 1, OptN (int n), OptK] = Inr b2"
    using opts host default_host h b1(1) b2(1) unfolding ParseOptions_def by (simp add: put_conf_def)
  then show ?thesis using b1(9) b2 so by auto
qed

section \<open>The whole run\<close>

lemma finished_reports:
  assumes f: "finished T fd n b" and n: "0 < n"
  shows "\<exists>r. ShowReport qs (b_conf b) = Inr r \<and> rep_completed r = of_nat n \<and> rep_sended r = of_nat n"
proof -
  obtain xs where xs: "latency (b_conf b) = Some xs" "length xs = n" "doneRequests (b_conf b) = of_nat n"
      "totalRequests (b_conf b) = of_nat n" "n < 2 ^ 32"
    using f by (auto simp: finished_def counts_at_def)
  have "unat (of_nat n :: u32) = n" using unat_count xs(5) by simp
  moreover from this have "(of_nat n :: u32) \<noteq> 0" using n by auto
  ultimately show ?thesis using xs by (simp add: ShowReport_def average_latency_def Let_def)
qed

lemma loop_reports:
  assumes s: "serving T fd n 0 answers rooms b" and l: "length answers = n" "length rooms = n" "0 < n"
    and a: "\<forall>a \<in> set answers. a \<noteq> [] \<and> length a \<le> 4096" "\<forall>r \<in> set rooms. 334 \<le> r"
  shows "\<exists>r b'. ReactorBenchmarkLoop qs b (serve_replies fd T n) = Inr (Some r, b')
     \<and> rep_completed r = of_nat n \<and> rep_sended r = of_nat n
     \<and> (\<exists>so. k_socks (b_kern b') fd = Some so \<and> s_sent so = concat (replicate n request_bytes))"
proof -
  obtain t0 b1 where 1: "GetmsecTime b = (t0, b1)" "b1 = b \<or> b1 = b\<lparr>b_tv := T\<rparr>"
    using now_is_times(2) [OF states_now(1) [OF s]] by blast
  let ?b2 = "put_conf b1 ((b_conf b1)\<lparr>startTime := t0\<rparr>)"
  have s1: "serving T fd n 0 answers rooms b1" using 1(2) s states_at_T(3) by blast
  have s2: "serving T fd n 0 answers rooms ?b2"
    using s1 by (simp add: serving_def program_at_def counts_at_def now_is_def put_conf_def)
  obtain b3 where 3: "GetusecTime ?b2 = (usec T, b3)" "b3 = ?b2 \<or> b3 = ?b2\<lparr>b_tv := T\<rparr>"
    using now_is_times(1) [OF states_now(1) [OF s2]] by blast
  have s3: "serving T fd n 0 answers rooms b3" using 3(2) s2 states_at_T(3) by blast
  obtain b4 where 4: "bench_loop b3 0 (usec T) (serve_replies fd T n) = Inr (True, b4)" "finished T fd n b4"
    using loop_serves [OF s3, of 0] l a by auto
  obtain t2 b5 where 5: "GetmsecTime b4 = (t2, b5)" "b5 = b4 \<or> b5 = b4\<lparr>b_tv := T\<rparr>"
    using now_is_times(2) [OF states_now(3) [OF 4(2)]] by blast
  let ?b6 = "put_conf b5 ((b_conf b5)\<lparr>endTime := t2\<rparr>)"
  have f5: "finished T fd n b5" using 5(2) 4(2) states_at_T(5) by blast
  then have f6: "finished T fd n ?b6"
    by (simp add: finished_def loop_over_def counts_at_def now_is_def put_conf_def)
  obtain r where r: "ShowReport qs (b_conf ?b6) = Inr r" "rep_completed r = of_nat n" "rep_sended r = of_nat n"
    using finished_reports [OF f6 l(3)] by blast
  have "ReactorBenchmarkLoop qs b (serve_replies fd T n) = Inr (Some r, ?b6)"
    using 1(1) 3(1) 4(1) 5(1) r(1) by (simp add: ReactorBenchmarkLoop_def)
  then show ?thesis using f6 r(2,3) unfolding finished_def by blast
qed




end
