(* ===== verification/Spec2Isabelle.thy ===== *)
theory Spec2Isabelle
  imports HeapProperties BinProtoProperties SocketProperties ReactorProperties ConnProperties
    BenchProperties LogProperties MasterProperties
    SessionProperties StaleTimer EchoOverlap BenchAgainstServer BenchComplete
begin

text \<open>
  A verification of \<open>tcpframe\<close>, a framework for TCP servers in C, and of the HTTP benchmark client
  that comes with it.  A master process forks workers; each worker runs a reactor: an \<open>epoll\<close>
  loop that calls back for readable and writable sockets and for timers kept in a binary heap.  Clients
  send packets of a small binary protocol; the test protocol echoes them.

  \<^bold>\<open>How the program is modelled.\<close>  C functions are HOL functions on an explicit state; a call returns
  \<open>'a outcome\<close> (theory \<open>Prelude\<close>): a value, an \<open>exit\<close>, a failed assertion, or the
  undefined behaviour it runs into, as a value of \<open>fault\<close>.  Pointers are addresses into stores, 0
  is \<open>NULL\<close>, and following a pointer to a freed or foreign block is a fault.  \<open>unsigned\<close> and
  masks are words; \<open>int\<close> is \<open>int\<close> with an overflow fault where the code can overflow.  The
  kernel is a record of sockets with scripts of what the network brings and takes, the interest list of
  \<open>epoll\<close>, and a list of answers for calls that may fail; memory requests are answered from a list
  too.  A loop that waits for events runs over the list of answers \<open>epoll_wait\<close> gives.

  \<^bold>\<open>The timer heap\<close> (\<open>src/min_heap.c\<close>, \<open>include/min_heap.h\<close>).  \<open>Timeval\<close> has the time
  arithmetic, \<open>MinHeap\<close> every function of the file on an array of node addresses and a store of
  nodes with their positions.  \<open>HeapArray\<close> has the reference heap (sifting up and down on lists of
  keys), \<open>MinHeapCorrect\<close> shows that the C loops compute it and keep array, positions and store in
  step, \<open>TimerQueue\<close> states the contract as the locale \<open>timer_queue\<close> and interprets it on the C
  functions, and \<open>HeapProperties\<close> has the results.

  \<^bold>\<open>The protocol\<close> (\<open>src/bin_proto.c\<close>, \<open>include/bin_proto.h\<close>).  \<open>CMemory\<close> is the byte
  memory, \<open>BinProto\<close> the packet functions, \<open>BinProtoProperties\<close> the reference encoding and
  that reading and writing packets follow it.  The handlers of packets are in \<open>PacketHandlers\<close>.

  \<^bold>\<open>Sockets\<close> (\<open>src/socket_api.c\<close>).  \<open>World\<close> is the state of a worker process with its
  kernel objects; \<open>SocketApi\<close> has the functions, \<open>SocketProperties\<close> that receiving stores
  exactly the next bytes of the stream and sending hands over a prefix.

  \<^bold>\<open>The reactor\<close> (\<open>src/reactor.c\<close>, \<open>include/reactor.h\<close>).  \<open>Reactor\<close> has the
  registration of events and timers, \<open>Dispatch\<close> the event loop, one turn at a time.
  \<open>InterestSet\<close> states as the locale \<open>interest_set\<close> that masks and interest list agree and
  interprets it on the reactor; \<open>TimerTable\<close> shows that setting and removing timers are updates of
  a table of due times; \<open>ReactorProperties\<close> has the results.

  \<^bold>\<open>Connections\<close> (\<open>src/socket_util.c\<close>).  \<open>Conn\<close> creates and destroys connections and
  manages their buffers, \<open>Handlers\<close> has the callbacks for accepting, receiving and sending.
  \<open>ConnLife\<close> says when a connection is in order and that destroying it releases everything;
  \<open>AcceptConn\<close>, \<open>PacketFlow\<close>, \<open>SendFlow\<close>, \<open>RecvErrors\<close>, \<open>TimeoutService\<close>
  and \<open>EventDelivery\<close> follow one connection through accepting, receiving, sending, errors, timeouts
  and the loop; \<open>ServedClient\<close> is a concrete server, \<open>ConnProperties\<close> has the results.

  \<^bold>\<open>The log\<close> (\<open>src/server_log.c\<close>, \<open>include/server_log.h\<close>).  \<open>ServerLog\<close> models
  files as numbered objects with a directory and descriptors; \<open>LogProperties\<close> shows that a
  roll-over is the shift of the numbered files and what a message appends.

  \<^bold>\<open>The master\<close> (\<open>main.c\<close>).  \<open>Master\<close> has becoming a daemon, the signal handlers, the loop
  that keeps the workers running, the worker and \<open>main\<close> itself, which composes the log, the
  listening socket, the event base and the event loop; \<open>MasterProperties\<close> has the results.
  \<open>ServerStart\<close> shows that a worker starts in the state that the results about connections require.

  \<^bold>\<open>The running worker.\<close>  \<open>HarmlessStreams\<close> says how the read handler cuts a stream of bytes into
  packets and which streams contain no packet that leads the server astray.  \<open>LiveServer\<close> states the
  invariant \<open>live\<close> of a running worker, which ties together all connections with their buffers, timers,
  slots and what is still to come for them, the listening socket with the clients that wait there, the
  heap and the clock; its lemma \<open>live_change\<close> says what an operation on one connection has to show.
  \<open>LiveSteps\<close> shows it for the elementary changes, \<open>LiveRecv\<close>, \<open>LivePacket\<close>,
  \<open>LiveSend\<close> and \<open>LiveAccept\<close> for the handlers, \<open>LiveLoop\<close> for events, timeouts and a turn
  of the loop, \<open>LiveStart\<close> for the start of the worker and for runs: a step of the relation
  \<open>server_step\<close> is a turn or a move of the network.  \<open>LiveProperties\<close> has the results:
  the worker never goes wrong and ends only with \<open>exit(1)\<close>, no connection is overdue after a turn, an event of
  one client leaves all other connections as they were (\<open>only_at\<close>, which every operation on a connection is
  shown to satisfy), and nothing is lost (\<open>leak_free\<close>: every block, timer and open descriptor belongs to a
  connection; \<open>tidy_at\<close> is what an operation on one connection contributes to it);
  \<open>LiveSession\<close> follows the worker over several turns, from the point of view of one client, and
  \<open>SessionProperties\<close> has the results: a waiting client is accepted and answered as often as it asks
  (\<open>session\<close>), a silent one is left alone until its time has come and closed then (\<open>spares\<close> says what a turn
  does to the connections without an event; \<open>keeps_others\<close> is what each handler contributes to it).
  \<open>BenchAgainstServer\<close> puts the request of the benchmark client to this server, \<open>EchoOverlap\<close> shows
  what happens to requests that overlap, and \<open>StaleTimer\<close> shows what happens beyond the bound on the number of clients.

  \<^bold>\<open>The benchmark client\<close> (\<open>client/http\<close>).  \<open>BenchClient\<close> has the data of
  \<open>worker.h\<close>, the clock, the request and the socket calls, \<open>BenchReactor\<close> the operations on one
  client and the callbacks, \<open>BenchLoop\<close> options, start, loop, timeouts and report.
  \<open>BenchInvariant\<close> states the invariant that ties the slots, the count of live clients, the interest
  list and the results together; \<open>BenchSteps\<close>, \<open>BenchCallbacks\<close>, \<open>BenchTurns\<close> and
  \<open>BenchRun\<close> show that every operation, callback, turn and the start keep it;
  \<open>BenchTraffic\<close> says what traffic does, \<open>BenchProperties\<close> has the results about single operations.
  \<open>BenchMain\<close> composes them: \<open>main\<close>, from its options to its report, never goes wrong, and a report
  says that all requests are completed.  \<open>BenchReport\<close> and \<open>BenchComplete\<close> follow one client against a
  server that answers (\<open>serving\<close>, \<open>awaiting\<close>, \<open>finished\<close>), up to that report.

  The locale \<open>invariant_system\<close> of \<open>Prelude\<close> carries an invariant of a step relation over to
  all reachable states; it is interpreted twice on the worker's loop, on the client's loop and twice on the master's.

  \<^bold>\<open>Loops.\<close>  The sift loops of the heap, the read and write loops and the loop of the master are total
  functions with a measure: the scripts of the network and of the kernel are finite.  Two loops have
  fuel, and running out of it is the value \<open>Diverges\<close>: serving the timeouts (one unit for each timer and one
  more; \<open>LiveProperties\<close> shows that the loop makes one turn for each connection that is due) and
  refilling the client's slots (the number of missing clients; \<open>BenchRun\<close> shows that it is enough).
  The loop that doubles the size of a buffer is total too; doubling 0 for ever is \<open>Diverges\<close> there.
  That the results about these loops give a value therefore says that they end.

  \<^bold>\<open>Hypotheses.\<close>  The results about registrations assume that the kernel grants the calls of
  \<open>epoll_ctl\<close>, \<open>fcntl\<close> and \<open>setsockopt\<close> (\<open>k_ctl = []\<close>); what happens when it refuses is
  stated separately.  Answers of \<open>epoll_wait\<close> report registered descriptors with events they are
  registered for, or errors; \<open>fork\<close> gives new processes and \<open>wait\<close> children.
  The invariant of the running worker adds: at most five clients at a time, because with six timers
  \<open>MinheapErase\<close> can take the branch in which it marks the wrong node; descriptors inside the array of slots,
  because the array is not checked when a client is accepted; streams without the test command and without echo
  requests longer than the send buffer, because the handlers of these access memory outside their buffers;
  memory that is not refused; and a clock that does not go back.
  The results about the whole benchmark assume that memory is not refused, because \<open>main\<close> ignores that the
  start failed; at least one request, because the report divides by their number; and a host name with its zero byte.

  \<^bold>\<open>Not modelled.\<close>  Output with \<open>printf\<close>: the usage texts, the throughput line and the floating-point
  numbers of the client's report.  Calls of the log macros inside the other components: they do not touch
  their state.  \<open>SetTestLoop\<close>, which only prints, \<open>IgnoreSignal\<close>, which nobody calls.
  \<open>getopt_long\<close> and \<open>qsort\<close> are parameters.  Delivery of signals at arbitrary moments: the
  handlers are functions of their own.  The alarm of the operating system's memory limits and partial failures
  of \<open>close\<close>.
\<close>

end
